(* ===== verification/HC_Prelude.thy ===== *)
theory HC_Prelude
  imports Main "HOL-Library.Multiset"
begin

text \<open>
  Shared vocabulary of the HiveClaw development: Rust results (a value, an error or a
  panic), \<^verbatim>\<open>std::sync::RwLock\<close> with its poison flag, strings as UTF-8 byte lists with
  the few \<^verbatim>\<open>str\<close> operations the components use, and two interfaces stated as locales: a
  store addressed by a key (\<open>keyed_store\<close>: lookup after insert) and a transition system
  with an invariant (\<open>invariant_system\<close>: the invariant holds in every reachable state).
\<close>

section \<open>Automation\<close>

named_theorems hc_simps "rewrite rules that unfold the bookkeeping of the model"
named_theorems hc_keep "frame rules: what an operation leaves as it was"

section \<open>Rust results\<close>

text \<open>
  \<open>Ok\<close> and \<open>Err\<close> are the constructors of \<^verbatim>\<open>Result\<close>; \<open>Panic\<close> is a call that does not
  return because it unwinds (an \<^verbatim>\<open>unwrap\<close> on an error, an index out of range, an
  arithmetic overflow in a build with overflow checks).
\<close>

datatype ('e, 'a) result = Ok (the_ok: 'a) | Err 'e | Panic

fun bind_res :: "('e, 'a) result \<Rightarrow> ('a \<Rightarrow> ('e, 'b) result) \<Rightarrow> ('e, 'b) result" where
  "bind_res (Ok a) f = f a"
| "bind_res (Err e) f = Err e"
| "bind_res Panic f = Panic"

fun is_ok :: "('e, 'a) result \<Rightarrow> bool" where
  "is_ok (Ok _) = True"
| "is_ok _ = False"

lemma bind_res_Ok [simp]: "bind_res r f = Ok b \<longleftrightarrow> (\<exists>a. r = Ok a \<and> f a = Ok b)"
  by (cases r) auto

lemma bind_res_Panic [simp]: "bind_res r f = Panic \<longleftrightarrow> r = Panic \<or> (\<exists>a. r = Ok a \<and> f a = Panic)"
  by (cases r) auto

lemma bind_res_Err [simp]: "bind_res r f = Err e \<longleftrightarrow> r = Err e \<or> (\<exists>a. r = Ok a \<and> f a = Err e)"
  by (cases r) auto

lemma is_ok_iff [simp]: "is_ok r \<longleftrightarrow> (\<exists>a. r = Ok a)"
  by (cases r) auto

section \<open>Reader-writer locks\<close>

text \<open>
  \<^verbatim>\<open>std::sync::RwLock\<close>: \<open>read\<close> and \<open>write\<close> fail once the lock is poisoned, that is once
  a thread panicked while it held the write guard. The operations of the model run one at
  a time, so a lock is its data and its poison flag.
\<close>

record 'a rwlock =
  lk_data :: 'a
  lk_poisoned :: bool

definition lk_new :: "'a \<Rightarrow> 'a rwlock" where
  "lk_new d = \<lparr>lk_data = d, lk_poisoned = False\<rparr>"

definition lk_read :: "'a rwlock \<Rightarrow> 'a option" where
  "lk_read l = (if lk_poisoned l then None else Some (lk_data l))"

definition lk_poison :: "'a rwlock \<Rightarrow> 'a rwlock" where
  "lk_poison l = l\<lparr>lk_poisoned := True\<rparr>"

lemma lk_new_simps [simp]:
  "lk_data (lk_new d) = d" "\<not> lk_poisoned (lk_new d)" "lk_read (lk_new d) = Some d"
  by (simp_all add: lk_new_def lk_read_def)

lemma lk_poison_simps [simp]:
  "lk_data (lk_poison l) = lk_data l" "lk_poisoned (lk_poison l)"
  by (simp_all add: lk_poison_def)

lemma lk_read_Some [simp]: "lk_read l = Some d \<longleftrightarrow> \<not> lk_poisoned l \<and> d = lk_data l"
  by (auto simp: lk_read_def)

lemma lk_read_None [simp]: "lk_read l = None \<longleftrightarrow> lk_poisoned l"
  by (auto simp: lk_read_def)

section \<open>Strings\<close>

text \<open>
  A Rust \<^verbatim>\<open>String\<close> is its UTF-8 bytes, a \<open>char list\<close>. Equality, ordering, \<^verbatim>\<open>len\<close>,
  concatenation and the search for an ASCII pattern are byte operations. \<^verbatim>\<open>chars().count()\<close>
  counts the bytes that do not continue a character (\<open>10xxxxxx\<close>).
\<close>

definition byte :: "char \<Rightarrow> nat" where
  "byte c = of_char c"

definition chars_count :: "string \<Rightarrow> nat" where
  "chars_count s = length (filter (\<lambda>c. byte c div 64 \<noteq> 2) s)"

lemma chars_count_append: "chars_count (a @ b) = chars_count a + chars_count b"
  by (simp add: chars_count_def)

definition is_upper :: "char \<Rightarrow> bool" where
  "is_upper c \<longleftrightarrow> 65 \<le> byte c \<and> byte c \<le> 90"

definition ascii_lower :: "char \<Rightarrow> char" where
  "ascii_lower c = (if is_upper c then char_of (byte c + 32) else c)"

text \<open>
  \<^verbatim>\<open>str::to_lowercase\<close>, as far as ASCII bytes of the result are concerned: exact on ASCII,
  and on the only two other characters whose lower case contains an ASCII letter, the
  Kelvin sign (U+212A, lower case \<^verbatim>\<open>k\<close>) and the dotted capital I (U+0130, \<^verbatim>\<open>i\<close> and a
  combining dot). Every other character is kept: its lower case has no ASCII byte, so a
  comparison with an ASCII text or a search for one gives the same answer.
\<close>

fun to_lowercase :: "string \<Rightarrow> string" where
  "to_lowercase [] = []"
| "to_lowercase [a] = [ascii_lower a]"
| "to_lowercase [a, b] =
     (if byte a = 0xC4 \<and> byte b = 0xB0 then [CHR ''i'', char_of (0xCC::nat), char_of (0x87::nat)]
      else [ascii_lower a, ascii_lower b])"
| "to_lowercase (a # b # c # s) =
     (if byte a = 0xE2 \<and> byte b = 0x84 \<and> byte c = 0xAA then CHR ''k'' # to_lowercase s
      else if byte a = 0xC4 \<and> byte b = 0xB0
      then [CHR ''i'', char_of (0xCC::nat), char_of (0x87::nat)] @ to_lowercase (c # s)
      else ascii_lower a # to_lowercase (b # c # s))"

lemma to_lowercase_ascii_Cons: "byte a < 128 \<Longrightarrow> to_lowercase (a # s) = ascii_lower a # to_lowercase s"
  by (cases s rule: to_lowercase.cases) auto

lemma to_lowercase_ascii_append:
  "(\<And>a. a \<in> set p \<Longrightarrow> byte a < 128) \<Longrightarrow> to_lowercase (p @ s) = map ascii_lower p @ to_lowercase s"
  by (induction p) (auto simp: to_lowercase_ascii_Cons)

definition starts_with :: "string \<Rightarrow> string \<Rightarrow> bool" where
  "starts_with p s \<longleftrightarrow> take (length p) s = p"

text \<open>\<^verbatim>\<open>str::find(pat)\<close>: the byte index of the first occurrence.\<close>

fun str_find :: "string \<Rightarrow> string \<Rightarrow> nat option" where
  "str_find p [] = (if p = [] then Some 0 else None)"
| "str_find p (c # s) =
     (if starts_with p (c # s) then Some 0 else map_option Suc (str_find p s))"

definition str_contains :: "string \<Rightarrow> string \<Rightarrow> bool" where
  "str_contains p s \<longleftrightarrow> str_find p s \<noteq> None"

lemma starts_with_append [simp]: "starts_with p (p @ s)"
  by (simp add: starts_with_def)

lemma starts_with_iff: "starts_with p s \<longleftrightarrow> (\<exists>t. s = p @ t)"
  by (auto simp: starts_with_def) (metis append_take_drop_id)

lemma str_find_Some:
  "str_find p s = Some i \<Longrightarrow> i \<le> length s \<and> starts_with p (drop i s)"
  by (induction p s arbitrary: i rule: str_find.induct)
     (auto simp: starts_with_def split: if_splits)

lemma str_find_None: "str_find p s = None \<Longrightarrow> \<not> starts_with p (drop i s)"
proof (induction p s arbitrary: i rule: str_find.induct)
  case (1 p)
  then show ?case by (auto simp: starts_with_def split: if_splits)
next
  case (2 p c s)
  then show ?case by (cases i) (auto split: if_splits)
qed

theorem str_contains_iff: "str_contains p s \<longleftrightarrow> (\<exists>u v. s = u @ p @ v)"
proof
  assume "str_contains p s"
  then obtain i where "str_find p s = Some i" by (auto simp: str_contains_def)
  then obtain t where "drop i s = p @ t" using str_find_Some starts_with_iff by blast
  then have "s = take i s @ p @ t" by (metis append_take_drop_id)
  then show "\<exists>u v. s = u @ p @ v" by blast
next
  assume "\<exists>u v. s = u @ p @ v"
  then obtain u v where "s = u @ p @ v" by blast
  then have "starts_with p (drop (length u) s)" by simp
  then show "str_contains p s" using str_find_None by (fastforce simp: str_contains_def)
qed

text \<open>Decimal rendering of an unsigned integer, as \<^verbatim>\<open>format!("{n}")\<close> prints it.\<close>

fun show_nat :: "nat \<Rightarrow> string" where
  "show_nat n = (if n < 10 then [char_of (48 + n)] else show_nat (n div 10) @ [char_of (48 + n mod 10)])"

declare show_nat.simps [simp del]

definition show_int :: "int \<Rightarrow> string" where
  "show_int n = (if n < 0 then ''-'' else '''') @ show_nat (nat \<bar>n\<bar>)"

text \<open>\<^verbatim>\<open>Iterator::position\<close> and \<^verbatim>\<open>rposition\<close>: the index of the first, the last element with a property.\<close>

fun position :: "('a \<Rightarrow> bool) \<Rightarrow> 'a list \<Rightarrow> nat option" where
  "position P [] = None"
| "position P (x # xs) = (if P x then Some 0 else map_option Suc (position P xs))"

definition rposition :: "('a \<Rightarrow> bool) \<Rightarrow> 'a list \<Rightarrow> nat option" where
  "rposition P xs = map_option (\<lambda>i. length xs - Suc i) (position P (rev xs))"

lemma position_None_iff: "position P xs = None \<longleftrightarrow> (\<forall>x \<in> set xs. \<not> P x)"
  by (induction xs) auto

lemma position_Some:
  "position P xs = Some i \<Longrightarrow> i < length xs \<and> P (xs ! i) \<and> (\<forall>j < i. \<not> P (xs ! j))"
  by (induction xs arbitrary: i) (auto split: if_splits simp: nth_Cons' less_Suc_eq_0_disj)

lemma rposition_None_iff: "rposition P xs = None \<longleftrightarrow> (\<forall>x \<in> set xs. \<not> P x)"
  by (simp add: rposition_def position_None_iff)

lemma rposition_Some:
  assumes "rposition P xs = Some i"
  shows "i < length xs \<and> P (xs ! i) \<and> (\<forall>x \<in> set (drop (Suc i) xs). \<not> P x)"
proof -
  obtain j where j: "position P (rev xs) = Some j" "i = length xs - Suc j"
    using assms by (auto simp: rposition_def)
  then have jj: "j < length xs" "P (rev xs ! j)" "\<forall>k < j. \<not> P (rev xs ! k)" using position_Some by fastforce+
  have "\<not> P (xs ! k)" if "i < k" "k < length xs" for k
  proof -
    have "length xs - Suc k < j" using that j(2) jj(1) by linarith
    then have "\<not> P (rev xs ! (length xs - Suc k))" using jj(3) by blast
    then show ?thesis using that by (simp add: rev_nth)
  qed
  then have "\<forall>x \<in> set (drop (Suc i) xs). \<not> P x" by (auto simp: in_set_conv_nth)
  then show ?thesis using jj j(2) by (simp add: rev_nth)
qed

section \<open>Stores addressed by a key\<close>

text \<open>
  Overwrite the first element that has the key, or push a new one: the way the record
  lists of the agent context are written (\<^verbatim>\<open>iter_mut().find(..)\<close>, else \<^verbatim>\<open>push\<close>), and the way
  an insertion-ordered map inserts.
\<close>

fun upsert :: "('a \<Rightarrow> 'k) \<Rightarrow> 'a \<Rightarrow> 'a list \<Rightarrow> 'a list" where
  "upsert key x [] = [x]"
| "upsert key x (y # ys) = (if key y = key x then x # ys else y # upsert key x ys)"

definition find_key :: "('a \<Rightarrow> 'k) \<Rightarrow> 'a list \<Rightarrow> 'k \<Rightarrow> 'a option" where
  "find_key key xs k = find (\<lambda>x. key x = k) xs"

lemma find_key_Nil [simp]: "find_key key [] k = None"
  by (simp add: find_key_def)

lemma find_key_Cons [simp]:
  "find_key key (x # xs) k = (if key x = k then Some x else find_key key xs k)"
  by (simp add: find_key_def)

lemma find_key_append:
  "find_key key (xs @ ys) k = (case find_key key xs k of None \<Rightarrow> find_key key ys k | Some x \<Rightarrow> Some x)"
  by (induction xs) auto

lemma find_key_None_iff: "find_key key xs k = None \<longleftrightarrow> k \<notin> key ` set xs"
  by (induction xs) auto

lemma find_key_SomeD: "find_key key xs k = Some x \<Longrightarrow> x \<in> set xs \<and> key x = k"
  by (induction xs) (auto split: if_splits)

lemma find_key_distinct:
  "distinct (map key xs) \<Longrightarrow> x \<in> set xs \<Longrightarrow> find_key key xs (key x) = Some x"
  by (induction xs) force+

lemma find_key_filter_other:
  "find_key key (filter (\<lambda>x. key x \<noteq> k') xs) k = (if k = k' then None else find_key key xs k)"
  by (induction xs) auto

lemma find_key_upsert:
  "find_key key (upsert key x xs) k = (if k = key x then Some x else find_key key xs k)"
  by (induction xs) auto

lemma keys_upsert: "key ` set (upsert key x xs) = insert (key x) (key ` set xs)"
  by (induction xs) auto

lemma set_upsert: "set (upsert key x xs) \<subseteq> insert x (set xs)"
  by (induction xs) auto

lemma upsert_mem [simp]: "x \<in> set (upsert key x xs)"
  by (induction xs) auto

lemma distinct_upsert: "distinct (map key xs) \<Longrightarrow> distinct (map key (upsert key x xs))"
proof (induction xs)
  case (Cons y ys)
  have "key ` set (upsert key x ys) = insert (key x) (key ` set ys)" by (rule keys_upsert)
  with Cons show ?case by auto
qed simp

lemma upsert_new: "key x \<notin> key ` set xs \<Longrightarrow> upsert key x xs = xs @ [x]"
  by (induction xs) auto

lemma length_upsert:
  "length (upsert key x xs) = (if key x \<in> key ` set xs then length xs else Suc (length xs))"
  by (induction xs) auto

text \<open>
  The interface: what a lookup returns after an insertion. A client that folds many
  insertions (replaying a log, copying or merging records) reads back the last write of
  each key.
\<close>

locale keyed_store =
  fixes key :: "'a \<Rightarrow> 'k"
    and ins :: "'a \<Rightarrow> 's \<Rightarrow> 's"
    and look :: "'s \<Rightarrow> 'k \<Rightarrow> 'a option"
  assumes look_ins: "look (ins x s) k = (if k = key x then Some x else look s k)"
begin

lemma look_fold_other: "k \<notin> key ` set xs \<Longrightarrow> look (fold ins xs s) k = look s k"
  by (induction xs arbitrary: s) (auto simp: look_ins)

lemma look_fold:
  "look (fold ins xs s) k =
     (case find_key key (rev xs) k of Some x \<Rightarrow> Some x | None \<Rightarrow> look s k)"
proof (induction xs arbitrary: s)
  case (Cons x xs)
  show ?case
    by (simp add: Cons look_ins find_key_append split: option.split)
qed simp

lemma look_fold_distinct:
  assumes "distinct (map key xs)"
  shows "look (fold ins xs s) k =
     (case find_key key xs k of Some x \<Rightarrow> Some x | None \<Rightarrow> look s k)"
proof -
  have "find_key key (rev xs) k = find_key key xs k"
  proof (cases "k \<in> key ` set xs")
    case True
    then obtain x where x: "x \<in> set xs" "key x = k" by blast
    have "distinct (map key (rev xs))" using assms by (simp add: rev_map [symmetric])
    with x assms show ?thesis using find_key_distinct [of key xs x] find_key_distinct [of key "rev xs" x]
      by simp
  next
    case False
    then show ?thesis
      using find_key_None_iff [of key xs k] find_key_None_iff [of key "rev xs" k] by simp
  qed
  then show ?thesis by (simp add: look_fold)
qed

lemma look_fold_dom: "look (fold ins xs s) k \<noteq> None \<longleftrightarrow> k \<in> key ` set xs \<or> look s k \<noteq> None"
  by (induction xs arbitrary: s) (auto simp: look_ins)

end

interpretation upsert_store: keyed_store key "upsert key" "find_key key" for key :: "'a \<Rightarrow> 'k"
  by unfold_locales (rule find_key_upsert)

lemma fold_upsert_distinct:
  "distinct (map key (ys @ xs)) \<Longrightarrow> fold (upsert key) xs ys = ys @ xs"
proof (induction xs arbitrary: ys)
  case (Cons x xs)
  have "upsert key x ys = ys @ [x]" using Cons.prems by (intro upsert_new) auto
  moreover have "fold (upsert key) xs (ys @ [x]) = (ys @ [x]) @ xs" using Cons.prems by (intro Cons.IH) simp
  ultimately show ?case by simp
qed simp

section \<open>Transition systems with an invariant\<close>

inductive reach :: "('s \<Rightarrow> bool) \<Rightarrow> ('s \<Rightarrow> 's \<Rightarrow> bool) \<Rightarrow> 's \<Rightarrow> bool"
  for init :: "'s \<Rightarrow> bool" and step :: "'s \<Rightarrow> 's \<Rightarrow> bool" where
  reach_init: "init s \<Longrightarrow> reach init step s"
| reach_step: "reach init step s \<Longrightarrow> step s t \<Longrightarrow> reach init step t"

locale invariant_system =
  fixes init :: "'s \<Rightarrow> bool"
    and step :: "'s \<Rightarrow> 's \<Rightarrow> bool"
    and inv :: "'s \<Rightarrow> bool"
  assumes inv_init: "init s \<Longrightarrow> inv s"
    and inv_step: "inv s \<Longrightarrow> step s t \<Longrightarrow> inv t"
begin

lemma inv_reach: "reach init step s \<Longrightarrow> inv s"
  by (induction rule: reach.induct) (auto intro: inv_init inv_step)

lemma inv_steps: "step\<^sup>*\<^sup>* s t \<Longrightarrow> inv s \<Longrightarrow> inv t"
  by (induction rule: rtranclp_induct) (auto intro: inv_step)

end

section \<open>Refinement\<close>

text \<open>
  The answers a deterministic service gives to a sequence of requests, and the interface of a
  refinement: related states give the same answer to a legal request and stay related. Then the
  two services cannot be told apart.
\<close>

fun answers :: "('o \<Rightarrow> 's \<Rightarrow> 'a \<times> 's) \<Rightarrow> 'o list \<Rightarrow> 's \<Rightarrow> 'a list" where
  "answers step [] s = []"
| "answers step (op # ops) s = (case step op s of (a, s') \<Rightarrow> a # answers step ops s')"

locale simulation =
  fixes cstep :: "'o \<Rightarrow> 'c \<Rightarrow> 'r \<times> 'c"
    and astep :: "'o \<Rightarrow> 'a \<Rightarrow> 'r \<times> 'a"
    and rel :: "'c \<Rightarrow> 'a \<Rightarrow> bool"
    and legal :: "'o \<Rightarrow> bool"
  assumes sim_answer: "rel c a \<Longrightarrow> legal op \<Longrightarrow> fst (cstep op c) = fst (astep op a)"
    and sim_step: "rel c a \<Longrightarrow> legal op \<Longrightarrow> rel (snd (cstep op c)) (snd (astep op a))"
begin

lemma same_answers: "rel c a \<Longrightarrow> \<forall>op \<in> set ops. legal op \<Longrightarrow> answers cstep ops c = answers astep ops a"
proof (induction ops arbitrary: c a)
  case (Cons op ops)
  then have "fst (cstep op c) = fst (astep op a)"
    and "answers cstep ops (snd (cstep op c)) = answers astep ops (snd (astep op a))"
    using sim_answer sim_step by simp_all
  then show ?case by (simp add: case_prod_beta)
qed simp

end

end
