(* ===== verification/HC_Json.thy ===== *)
theory HC_Json
  imports HC_Prelude "HOL-Library.Word"
begin

text \<open>
  \<^verbatim>\<open>serde_json::Value\<close> and the accessors the components call on it. The workspace builds
  serde\_json with \<^verbatim>\<open>preserve_order\<close> (enabled by the config crate and shown by the
  \<^verbatim>\<open>indexmap\<close> dependency in Cargo.lock), so an object keeps its insertion order: inserting
  a key that is present overwrites it in place, a new key goes last, and \<^verbatim>\<open>remove\<close> is the
  \<^verbatim>\<open>swap_remove\<close> of the index map. A number is an integer or the bits of a double.
\<close>

datatype json_number = NumInt int | NumFloat "64 word"

datatype json =
    JNull
  | JBool bool
  | JNumber json_number
  | JString string
  | JArray "json list"
  | JObject "(string \<times> json) list"

type_synonym jmap = "(string \<times> json) list"

definition obj_get :: "jmap \<Rightarrow> string \<Rightarrow> json option" where
  "obj_get m k = map_option snd (find_key fst m k)"

definition obj_contains_key :: "jmap \<Rightarrow> string \<Rightarrow> bool" where
  "obj_contains_key m k \<longleftrightarrow> obj_get m k \<noteq> None"

definition obj_insert :: "string \<Rightarrow> json \<Rightarrow> jmap \<Rightarrow> jmap" where
  "obj_insert k v m = upsert fst (k, v) m"

fun key_index :: "string \<Rightarrow> jmap \<Rightarrow> nat option" where
  "key_index k [] = None"
| "key_index k (p # m) = (if fst p = k then Some 0 else map_option Suc (key_index k m))"

definition obj_remove :: "string \<Rightarrow> jmap \<Rightarrow> jmap" where
  "obj_remove k m =
     (case key_index k m of
        None \<Rightarrow> m
      | Some i \<Rightarrow> if Suc i = length m then butlast m else (butlast m)[i := last m])"

text \<open>\<^verbatim>\<open>Value::get\<close> with a string index, \<^verbatim>\<open>as_str\<close>, \<^verbatim>\<open>as_array\<close>, \<^verbatim>\<open>as_object\<close>.\<close>

fun jget :: "json \<Rightarrow> string \<Rightarrow> json option" where
  "jget (JObject m) k = obj_get m k"
| "jget _ k = None"

fun as_str :: "json \<Rightarrow> string option" where
  "as_str (JString s) = Some s"
| "as_str _ = None"

fun as_array :: "json \<Rightarrow> json list option" where
  "as_array (JArray xs) = Some xs"
| "as_array _ = None"

fun as_object :: "json \<Rightarrow> jmap option" where
  "as_object (JObject m) = Some m"
| "as_object _ = None"

fun as_bool :: "json \<Rightarrow> bool option" where
  "as_bool (JBool b) = Some b"
| "as_bool _ = None"

fun as_u64 :: "json \<Rightarrow> nat option" where
  "as_u64 (JNumber (NumInt n)) = (if 0 \<le> n \<and> n < 2 ^ 64 then Some (nat n) else None)"
| "as_u64 _ = None"

fun as_i64 :: "json \<Rightarrow> int option" where
  "as_i64 (JNumber (NumInt n)) = (if - (2 ^ 63) \<le> n \<and> n < 2 ^ 63 then Some n else None)"
| "as_i64 _ = None"

fun is_object :: "json \<Rightarrow> bool" where
  "is_object (JObject m) = True"
| "is_object _ = False"

section \<open>Object laws\<close>

lemma obj_get_Nil [simp]: "obj_get [] k = None"
  by (simp add: obj_get_def)

lemma obj_get_Cons [simp]: "obj_get (p # m) k = (if fst p = k then Some (snd p) else obj_get m k)"
  by (simp add: obj_get_def)

lemma obj_get_insert [simp]:
  "obj_get (obj_insert k v m) k' = (if k' = k then Some v else obj_get m k')"
  by (simp add: obj_get_def obj_insert_def find_key_upsert)

lemma keys_obj_insert [simp]: "fst ` set (obj_insert k v m) = insert k (fst ` set m)"
  using keys_upsert [of fst "(k, v)" m] by (simp add: obj_insert_def)

lemma distinct_obj_insert: "distinct (map fst m) \<Longrightarrow> distinct (map fst (obj_insert k v m))"
  by (simp add: obj_insert_def distinct_upsert)

lemma obj_get_None_iff: "obj_get m k = None \<longleftrightarrow> k \<notin> fst ` set m"
  by (simp add: obj_get_def find_key_None_iff)

lemma key_index_None_iff: "key_index k m = None \<longleftrightarrow> k \<notin> fst ` set m"
  by (induction m) auto

lemma key_index_Some: "key_index k m = Some i \<Longrightarrow> i < length m \<and> fst (m ! i) = k"
  by (induction m arbitrary: i) (auto split: if_splits)

text \<open>
  \<^verbatim>\<open>swap_remove\<close> deletes exactly the named key: the remaining pairs are those of the object
  without it, in some order.
\<close>

lemma mset_obj_remove:
  assumes "distinct (map fst m)"
  shows "mset (obj_remove k m) = filter_mset (\<lambda>p. fst p \<noteq> k) (mset m)"
proof (cases "key_index k m")
  case None
  then have "\<forall>p \<in> set m. fst p \<noteq> k" by (auto simp: key_index_None_iff)
  then show ?thesis by (simp add: obj_remove_def None flip: mset_filter)
next
  case (Some i)
  then have i: "i < length m" "fst (m ! i) = k" using key_index_Some by blast+
  have m: "m = take i m @ m ! i # drop (Suc i) m" using i by (simp add: id_take_nth_drop)
  then have "mset m = mset (take i m @ m ! i # drop (Suc i) m)" by simp
  then have mset_m: "mset m = add_mset (m ! i) (mset (take i m @ drop (Suc i) m))" by simp
  have "distinct (map fst (take i m @ m ! i # drop (Suc i) m))" using assms m by simp
  then have "fst (m ! i) \<notin> set (map fst (take i m @ drop (Suc i) m))"
    by (simp only: map_append list.map distinct_append set_append distinct.simps list.set) blast
  then have "\<forall>p \<in> set (take i m @ drop (Suc i) m). fst p \<noteq> fst (m ! i)"
    by (metis imageI list.set_map)
  then have keep: "filter (\<lambda>p. fst p \<noteq> k) (take i m @ drop (Suc i) m) = take i m @ drop (Suc i) m"
    using i by (intro filter_True) simp
  have "filter_mset (\<lambda>p. fst p \<noteq> k) (mset m)
      = mset (filter (\<lambda>p. fst p \<noteq> k) (take i m @ drop (Suc i) m))"
    using i by (simp add: mset_m)
  then have rhs: "filter_mset (\<lambda>p. fst p \<noteq> k) (mset m) = mset (take i m @ drop (Suc i) m)"
    by (simp only: keep)
  have ne: "m \<noteq> []" using i by auto
  show ?thesis
  proof (cases "Suc i = length m")
    case True
    then have "butlast m = take i m" by (simp add: butlast_conv_take flip: True)
    then show ?thesis using rhs Some True by (simp add: obj_remove_def)
  next
    case False
    then have lt: "i < length (butlast m)" using i by simp
    have bl: "butlast m ! i = m ! i" using lt by (simp add: nth_butlast)
    have "mset ((butlast m)[i := last m]) = add_mset (last m) (mset (butlast m) - {#m ! i#})"
      using lt bl by (simp add: mset_update)
    also have "\<dots> = mset m - {#m ! i#}"
    proof -
      have "mset m = add_mset (last m) (mset (butlast m))"
        using ne by (metis append_butlast_last_id mset.simps mset_append add_mset_add_single)
      moreover have "m ! i \<in># mset (butlast m)" using lt bl by (metis nth_mem_mset)
      ultimately show ?thesis by simp
    qed
    also have "\<dots> = mset (take i m @ drop (Suc i) m)"
      using mset_m by simp
    finally show ?thesis using rhs Some False by (simp add: obj_remove_def)
  qed
qed

lemma distinct_obj_remove:
  assumes "distinct (map fst m)"
  shows "distinct (map fst (obj_remove k m))"
proof -
  have "mset (map fst (obj_remove k m)) = mset (map fst (filter (\<lambda>p. fst p \<noteq> k) m))"
    using mset_obj_remove [OF assms, of k] by simp
  then have "distinct (map fst (obj_remove k m)) = distinct (map fst (filter (\<lambda>p. fst p \<noteq> k) m))"
    by (rule mset_eq_imp_distinct_iff)
  then show ?thesis using assms by (simp add: distinct_map_filter)
qed

lemma obj_get_remove:
  assumes "distinct (map fst m)"
  shows "obj_get (obj_remove k m) k' = (if k' = k then None else obj_get m k')"
proof -
  have set_eq: "set (obj_remove k m) = {p \<in> set m. fst p \<noteq> k}"
    using mset_obj_remove [OF assms, of k] by (metis set_mset_filter set_mset_mset)
  show ?thesis
  proof (cases "k' \<in> fst ` set (obj_remove k m)")
    case True
    then obtain p where p: "p \<in> set (obj_remove k m)" "fst p = k'" by blast
    then have "p \<in> set m" "k' \<noteq> k" using set_eq by auto
    then show ?thesis
      using p find_key_distinct [OF distinct_obj_remove [OF assms], of p k]
        find_key_distinct [OF assms, of p] by (simp add: obj_get_def)
  next
    case False
    then have "k' = k \<or> k' \<notin> fst ` set m" using set_eq by auto
    then show ?thesis using False obj_get_None_iff by metis
  qed
qed

end
