(* ===== verification/Context_Types.thy ===== *)
theory Context_Types
  imports HC_Json
begin

text \<open>
  The data types of the agent context (\<^verbatim>\<open>crates/agent/src/context\<close>): categories and record
  entries (category.rs), the configuration (config.rs), the audit records and the logger
  that appends them (audit.rs), extension content and the response payload (response.rs).
  A timestamp is its milliseconds since the epoch, the precision the code serialises; a
  \<^verbatim>\<open>HashMap\<close> that is only looked up is a map.
\<close>

type_synonym timestamp = int

section \<open>category.rs\<close>

datatype category =
    Entities | Intentions | ToolResults | QueryResults | WorkflowResults
  | ReasoningResults | Extensions | StateChanges | SubagentResults

fun category_display :: "category \<Rightarrow> string" where
  "category_display Entities = ''Entities''"
| "category_display Intentions = ''Intentions''"
| "category_display ToolResults = ''ToolResults''"
| "category_display QueryResults = ''QueryResults''"
| "category_display WorkflowResults = ''WorkflowResults''"
| "category_display ReasoningResults = ''ReasoningResults''"
| "category_display Extensions = ''Extensions''"
| "category_display StateChanges = ''StateChanges''"
| "category_display SubagentResults = ''SubagentResults''"

record record_entry =
  re_key :: string
  re_value :: json
  re_source :: string
  re_timestamp :: timestamp
  re_iteration :: nat

datatype tool_call_status = TcSuccess | TcFailure | TcTimeout

fun tool_call_status_display :: "tool_call_status \<Rightarrow> string" where
  "tool_call_status_display TcSuccess = ''success''"
| "tool_call_status_display TcFailure = ''failure''"
| "tool_call_status_display TcTimeout = ''timeout''"

section \<open>config.rs\<close>

record context_config =
  soft_limit :: nat
  max_prompt_tokens :: nat
  token_estimation_mode :: string
  debug_mode :: bool
  schema_version :: string

definition default_config :: context_config where
  "default_config =
     \<lparr>soft_limit = 100, max_prompt_tokens = 8000, token_estimation_mode = ''chars'',
      debug_mode = False, schema_version = ''v1''\<rparr>"

definition with_soft_limit :: "context_config \<Rightarrow> nat \<Rightarrow> context_config" where
  "with_soft_limit c limit = c\<lparr>soft_limit := limit\<rparr>"

definition with_max_prompt_tokens :: "context_config \<Rightarrow> nat \<Rightarrow> context_config" where
  "with_max_prompt_tokens c tokens = c\<lparr>max_prompt_tokens := tokens\<rparr>"

definition with_debug_mode :: "context_config \<Rightarrow> bool \<Rightarrow> context_config" where
  "with_debug_mode c enabled = c\<lparr>debug_mode := enabled\<rparr>"

section \<open>response.rs\<close>

datatype extension_type =
    ExtCard | ExtImage | ExtSuggestion | ExtLink | ExtButton | ExtTable | ExtChart
  | ExtObjectRef | ExtUsage

fun extension_type_display :: "extension_type \<Rightarrow> string" where
  "extension_type_display ExtCard = ''card''"
| "extension_type_display ExtImage = ''image''"
| "extension_type_display ExtSuggestion = ''suggestion''"
| "extension_type_display ExtLink = ''link''"
| "extension_type_display ExtButton = ''button''"
| "extension_type_display ExtTable = ''table''"
| "extension_type_display ExtChart = ''chart''"
| "extension_type_display ExtObjectRef = ''object_ref''"
| "extension_type_display ExtUsage = ''usage''"

record extension_content =
  ec_id :: string
  ec_content_type :: extension_type
  ec_reply :: "json option"
  ec_data :: json
  ec_render_hints :: "string \<rightharpoonup> string"

definition extension_content_new ::
  "string \<Rightarrow> extension_type \<Rightarrow> json option \<Rightarrow> json \<Rightarrow> extension_content" where
  "extension_content_new i t reply data =
     \<lparr>ec_id = i, ec_content_type = t, ec_reply = reply, ec_data = data,
      ec_render_hints = Map.empty\<rparr>"

definition with_hint :: "extension_content \<Rightarrow> string \<Rightarrow> string \<Rightarrow> extension_content" where
  "with_hint e k v = e\<lparr>ec_render_hints := (ec_render_hints e)(k \<mapsto> v)\<rparr>"

record object_ref =
  or_object_type :: string
  or_object_id :: string
  or_display_name :: string
  or_metadata :: "string \<rightharpoonup> string"

record response_payload =
  rp_text :: string
  rp_extensions :: "extension_content list"
  rp_object_refs :: "object_ref list"
  rp_suggestions :: "string list"

definition response_payload_new :: "string \<Rightarrow> response_payload" where
  "response_payload_new t =
     \<lparr>rp_text = t, rp_extensions = [], rp_object_refs = [], rp_suggestions = []\<rparr>"

definition with_extension :: "response_payload \<Rightarrow> extension_content \<Rightarrow> response_payload" where
  "with_extension p c = p\<lparr>rp_extensions := rp_extensions p @ [c]\<rparr>"

definition with_object_ref :: "response_payload \<Rightarrow> object_ref \<Rightarrow> response_payload" where
  "with_object_ref p r = p\<lparr>rp_object_refs := rp_object_refs p @ [r]\<rparr>"

definition with_suggestion :: "response_payload \<Rightarrow> string \<Rightarrow> response_payload" where
  "with_suggestion p s = p\<lparr>rp_suggestions := rp_suggestions p @ [s]\<rparr>"

section \<open>audit.rs\<close>

datatype skill_execution_status = SkSuccess | SkFailure | SkInterrupted | SkTimeout

fun skill_execution_status_display :: "skill_execution_status \<Rightarrow> string" where
  "skill_execution_status_display SkSuccess = ''success''"
| "skill_execution_status_display SkFailure = ''failure''"
| "skill_execution_status_display SkInterrupted = ''interrupted''"
| "skill_execution_status_display SkTimeout = ''timeout''"

record tool_call_record =
  tc_tool_name :: string
  tc_arguments :: json
  tc_result :: "json option"
  tc_status :: tool_call_status
  tc_started_at :: timestamp
  tc_completed_at :: "timestamp option"

record skill_execution_record =
  se_skill_name :: string
  se_input :: json
  se_output :: "json option"
  se_status :: skill_execution_status
  se_started_at :: timestamp
  se_completed_at :: "timestamp option"

record state_change_log =
  sc_category :: category
  sc_key :: string
  sc_old_value :: "json option"
  sc_new_value :: json
  sc_source :: string
  sc_iteration :: nat
  sc_changed_at :: timestamp

record agent_delegation_record =
  ad_subagent_id :: string
  ad_delegation_chain :: string
  ad_input :: json
  ad_output :: "json option"
  ad_success :: bool
  ad_started_at :: timestamp
  ad_completed_at :: "timestamp option"

datatype audit_record =
    ToolCall tool_call_record
  | SkillExecution skill_execution_record
  | StateChange state_change_log
  | Delegation agent_delegation_record

fun audit_timestamp :: "audit_record \<Rightarrow> timestamp" where
  "audit_timestamp (ToolCall r) = tc_started_at r"
| "audit_timestamp (SkillExecution r) = se_started_at r"
| "audit_timestamp (StateChange r) = sc_changed_at r"
| "audit_timestamp (Delegation r) = ad_started_at r"

text \<open>
  The logger has no state of its own: each method builds a record and pushes it on the log
  it is given. \<open>now\<close> is the reading of \<^verbatim>\<open>Utc::now()\<close>.
\<close>

definition log_tool_call ::
  "audit_record list \<Rightarrow> string \<Rightarrow> json \<Rightarrow> json option \<Rightarrow> tool_call_status \<Rightarrow> timestamp
   \<Rightarrow> timestamp option \<Rightarrow> audit_record list" where
  "log_tool_call log nm args res st started completed =
     log @ [ToolCall \<lparr>tc_tool_name = nm, tc_arguments = args, tc_result = res, tc_status = st,
                      tc_started_at = started, tc_completed_at = completed\<rparr>]"

definition log_skill_execution ::
  "audit_record list \<Rightarrow> string \<Rightarrow> json \<Rightarrow> json option \<Rightarrow> skill_execution_status \<Rightarrow> timestamp
   \<Rightarrow> timestamp option \<Rightarrow> audit_record list" where
  "log_skill_execution log nm inp out st started completed =
     log @ [SkillExecution \<lparr>se_skill_name = nm, se_input = inp, se_output = out, se_status = st,
                            se_started_at = started, se_completed_at = completed\<rparr>]"

definition log_state_change ::
  "audit_record list \<Rightarrow> category \<Rightarrow> string \<Rightarrow> json option \<Rightarrow> json \<Rightarrow> string \<Rightarrow> nat \<Rightarrow> timestamp
   \<Rightarrow> audit_record list" where
  "log_state_change log cat k old new src it now =
     log @ [StateChange \<lparr>sc_category = cat, sc_key = k, sc_old_value = old, sc_new_value = new,
                         sc_source = src, sc_iteration = it, sc_changed_at = now\<rparr>]"

definition log_delegation ::
  "audit_record list \<Rightarrow> string \<Rightarrow> string \<Rightarrow> json \<Rightarrow> json option \<Rightarrow> bool \<Rightarrow> timestamp
   \<Rightarrow> timestamp option \<Rightarrow> audit_record list" where
  "log_delegation log sid chain inp out ok started completed =
     log @ [Delegation \<lparr>ad_subagent_id = sid, ad_delegation_chain = chain, ad_input = inp,
                        ad_output = out, ad_success = ok, ad_started_at = started,
                        ad_completed_at = completed\<rparr>]"

end
