(* ===== verification/Context_Core.thy ===== *)
theory Context_Core
  imports Context_Types
begin

text \<open>
  The agent context itself (core.rs, lock.rs): the lifecycle state machine, the nine
  category stores behind their locks, and every operation on them. An operation that can
  fail returns its result together with the context after the call; the reading of
  \<^verbatim>\<open>Utc::now()\<close> is the parameter \<open>now\<close>. The extensions map is an association list whose
  order stands for the unspecified iteration order of the \<^verbatim>\<open>HashMap\<close>.
  The second half proves what the guards are for: writes are read back and logged, a
  finished context is frozen, no record ever holds a credential-like key, and a category
  on the blacklist never changes.
\<close>

section \<open>State\<close>

record user_input =
  ui_raw_text :: string
  ui_session_id :: "string option"
  ui_message_id :: "string option"
  ui_timestamp :: timestamp
  ui_metadata :: "string \<rightharpoonup> string"

datatype lifecycle = Active | Completed | Terminated | Merging

fun lifecycle_display :: "lifecycle \<Rightarrow> string" where
  "lifecycle_display Active = ''Active''"
| "lifecycle_display Completed = ''Completed''"
| "lifecycle_display Terminated = ''Terminated''"
| "lifecycle_display Merging = ''Merging''"

fun is_valid_transition :: "lifecycle \<Rightarrow> lifecycle \<Rightarrow> bool" where
  "is_valid_transition Active Completed = True"
| "is_valid_transition Active Terminated = True"
| "is_valid_transition Active Merging = True"
| "is_valid_transition Merging Active = True"
| "is_valid_transition Merging Completed = True"
| "is_valid_transition _ _ = False"

datatype context_error =
    CategoryNotFound category
  | RecordNotFound category string
  | BlacklistedCategoryWrite category string
  | IllegalStateTransition lifecycle lifecycle
  | MergeFailed string
  | RejectedSensitiveData string string
  | InvalidBlacklist category string
  | SchemaVersionMismatch string string

type_synonym 'a ctx_result = "(context_error, 'a) result"

record category_store =
  cs_lock :: "record_entry list rwlock"
  cs_soft_limit :: nat
  cs_warning_emitted :: bool

definition category_store_new :: "nat \<Rightarrow> category_store" where
  "category_store_new limit =
     \<lparr>cs_lock = lk_new [], cs_soft_limit = limit, cs_warning_emitted = False\<rparr>"

record agent_context =
  ac_context_id :: string
  ac_user_input :: user_input
  ac_categories :: "category \<rightharpoonup> category_store"
  ac_extensions :: "(string \<times> extension_content) list rwlock"
  ac_audit_log :: "audit_record list rwlock"
  ac_response_payload :: "response_payload option rwlock"
  ac_lifecycle_state :: "lifecycle rwlock"
  ac_created_at :: timestamp
  ac_metadata :: "(string \<rightharpoonup> string) rwlock"
  ac_messages :: "json list rwlock"
  ac_config :: context_config
  ac_blacklisted_categories :: "category list option"
  ac_subagent_id :: "string option"
  ac_delegation_chain :: string

text \<open>The array of categories that the constructor, the fork and the snapshot walk.\<close>

definition all_categories :: "category list" where
  "all_categories =
     [Entities, Intentions, ToolResults, QueryResults, WorkflowResults, ReasoningResults,
      Extensions, StateChanges, SubagentResults]"

definition agent_context_new ::
  "string \<Rightarrow> user_input \<Rightarrow> context_config \<Rightarrow> timestamp \<Rightarrow> agent_context" where
  "agent_context_new cid ui cfg now =
     \<lparr>ac_context_id = cid,
      ac_user_input = ui,
      ac_categories = fold (\<lambda>cat m. m(cat \<mapsto> category_store_new (soft_limit cfg))) all_categories Map.empty,
      ac_extensions = lk_new [],
      ac_audit_log = lk_new [],
      ac_response_payload = lk_new None,
      ac_lifecycle_state = lk_new Active,
      ac_created_at = now,
      ac_metadata = lk_new Map.empty,
      ac_messages = lk_new [],
      ac_config = cfg,
      ac_blacklisted_categories = None,
      ac_subagent_id = None,
      ac_delegation_chain = ''''\<rparr>"

section \<open>Reads\<close>

definition get_category :: "agent_context \<Rightarrow> category \<Rightarrow> record_entry list ctx_result" where
  "get_category c cat =
     (case ac_categories c cat of
        None \<Rightarrow> Err (CategoryNotFound cat)
      | Some st \<Rightarrow>
          (case lk_read (cs_lock st) of
             None \<Rightarrow> Err (MergeFailed ''Read lock poisoned'')
           | Some recs \<Rightarrow> Ok recs))"

definition get_record :: "agent_context \<Rightarrow> category \<Rightarrow> string \<Rightarrow> record_entry option ctx_result" where
  "get_record c cat k = bind_res (get_category c cat) (\<lambda>recs. Ok (find_key re_key recs k))"

definition get_extensions :: "agent_context \<Rightarrow> extension_content list" where
  "get_extensions c = (case lk_read (ac_extensions c) of None \<Rightarrow> [] | Some m \<Rightarrow> map snd m)"

definition lifecycle_state :: "agent_context \<Rightarrow> lifecycle" where
  "lifecycle_state c = (case lk_read (ac_lifecycle_state c) of None \<Rightarrow> Active | Some s \<Rightarrow> s)"

definition get_response_payload :: "agent_context \<Rightarrow> response_payload option" where
  "get_response_payload c =
     (case lk_read (ac_response_payload c) of None \<Rightarrow> None | Some p \<Rightarrow> p)"

definition get_user_metadata :: "agent_context \<Rightarrow> string \<Rightarrow> string option" where
  "get_user_metadata c k = ui_metadata (ac_user_input c) k"

definition get_metadata :: "agent_context \<Rightarrow> string \<Rightarrow> string option" where
  "get_metadata c k = (case lk_read (ac_metadata c) of None \<Rightarrow> None | Some m \<Rightarrow> m k)"

definition get_messages :: "agent_context \<Rightarrow> json list ctx_result" where
  "get_messages c =
     (case lk_read (ac_messages c) of
        None \<Rightarrow> Err (MergeFailed ''messages read lock poisoned'') | Some ms \<Rightarrow> Ok ms)"

definition get_audit_log :: "agent_context \<Rightarrow> audit_record list" where
  "get_audit_log c = (case lk_read (ac_audit_log c) of None \<Rightarrow> [] | Some l \<Rightarrow> l)"

fun state_change_of :: "audit_record \<Rightarrow> state_change_log option" where
  "state_change_of (StateChange l) = Some l"
| "state_change_of _ = None"

definition get_state_changes :: "agent_context \<Rightarrow> state_change_log list" where
  "get_state_changes c = List.map_filter state_change_of (get_audit_log c)"

section \<open>Guards\<close>

definition sensitive_field_patterns :: "string list" where
  "sensitive_field_patterns =
     [''api_key'', ''token'', ''password'', ''secret'', ''credential'', ''authorization'',
      ''private_key'']"

definition is_sensitive_key :: "string \<Rightarrow> bool" where
  "is_sensitive_key k =
     (let lower = to_lowercase k in list_ex (\<lambda>p. str_contains p lower) sensitive_field_patterns)"

fun is_sensitive_value :: "json \<Rightarrow> bool" where
  "is_sensitive_value (JObject m) = list_ex (\<lambda>p. is_sensitive_key (fst p)) m"
| "is_sensitive_value _ = False"

definition check_write_allowed :: "agent_context \<Rightarrow> unit ctx_result" where
  "check_write_allowed c =
     (case lifecycle_state c of
        Active \<Rightarrow> Ok ()
      | Merging \<Rightarrow> Ok ()
      | Completed \<Rightarrow> Err (IllegalStateTransition Completed Active)
      | Terminated \<Rightarrow> Err (IllegalStateTransition Terminated Active))"

definition check_blacklist :: "agent_context \<Rightarrow> category \<Rightarrow> unit ctx_result" where
  "check_blacklist c cat =
     (case (ac_blacklisted_categories c, ac_subagent_id c) of
        (Some blacklist, Some sid) \<Rightarrow>
          if cat \<in> set blacklist then Err (BlacklistedCategoryWrite cat sid) else Ok ()
      | _ \<Rightarrow> Ok ())"

definition check_sensitive_data :: "string \<Rightarrow> json \<Rightarrow> unit ctx_result" where
  "check_sensitive_data k v =
     (if is_sensitive_key k
      then Err (RejectedSensitiveData k ''Key matches sensitive field pattern'')
      else if is_sensitive_value v
      then Err (RejectedSensitiveData k ''Value contains sensitive field keys'')
      else Ok ())"

text \<open>The three checks that open \<^verbatim>\<open>set_record\<close> and \<^verbatim>\<open>append_record\<close>, in their order.\<close>

definition write_guard :: "agent_context \<Rightarrow> category \<Rightarrow> string \<Rightarrow> json \<Rightarrow> unit ctx_result" where
  "write_guard c cat k v =
     bind_res (check_write_allowed c) (\<lambda>_.
     bind_res (check_blacklist c cat) (\<lambda>_. check_sensitive_data k v))"

section \<open>Writes\<close>

definition warn_soft_limit :: "category_store \<Rightarrow> category_store" where
  "warn_soft_limit st =
     (if cs_soft_limit st \<le> length (lk_data (cs_lock st)) \<and> \<not> cs_warning_emitted st
      then st\<lparr>cs_warning_emitted := True\<rparr> else st)"

definition put_records :: "category_store \<Rightarrow> record_entry list \<Rightarrow> category_store" where
  "put_records st recs = st\<lparr>cs_lock := (cs_lock st)\<lparr>lk_data := recs\<rparr>\<rparr>"

definition put_store :: "agent_context \<Rightarrow> category \<Rightarrow> category_store \<Rightarrow> agent_context" where
  "put_store c cat st = c\<lparr>ac_categories := (ac_categories c)(cat \<mapsto> st)\<rparr>"

definition push_audit :: "agent_context \<Rightarrow> audit_record list \<Rightarrow> agent_context" where
  "push_audit c log = c\<lparr>ac_audit_log := (ac_audit_log c)\<lparr>lk_data := log\<rparr>\<rparr>"

text \<open>
  \<^verbatim>\<open>set_record\<close>: with the category's write guard held, an existing record makes the call
  append a state change to the audit log, whose lock is taken with \<^verbatim>\<open>unwrap\<close>: if the audit
  lock is poisoned the call panics and poisons the category lock it holds. Then the soft
  limit warning, then the overwrite in place or the push.
\<close>

definition set_record ::
  "agent_context \<Rightarrow> category \<Rightarrow> string \<Rightarrow> json \<Rightarrow> string \<Rightarrow> nat \<Rightarrow> timestamp
   \<Rightarrow> unit ctx_result \<times> agent_context" where
  "set_record c cat k v src it now =
     (case write_guard c cat k v of
        Err e \<Rightarrow> (Err e, c)
      | Panic \<Rightarrow> (Panic, c)
      | Ok _ \<Rightarrow>
     (case ac_categories c cat of
        None \<Rightarrow> (Err (CategoryNotFound cat), c)
      | Some st \<Rightarrow>
     (if lk_poisoned (cs_lock st) then (Err (MergeFailed ''Write lock poisoned''), c)
      else
        let recs = lk_data (cs_lock st);
            entry = \<lparr>re_key = k, re_value = v, re_source = src, re_timestamp = now, re_iteration = it\<rparr>;
            st' = put_records (warn_soft_limit st) (upsert re_key entry recs)
        in case find_key re_key recs k of
             None \<Rightarrow> (Ok (), put_store c cat st')
           | Some old \<Rightarrow>
               (case lk_read (ac_audit_log c) of
                  None \<Rightarrow> (Panic, put_store c cat (st\<lparr>cs_lock := lk_poison (cs_lock st)\<rparr>))
                | Some log \<Rightarrow>
                    (Ok (), put_store
                       (push_audit c (log_state_change log cat k (Some (re_value old)) v src it now))
                       cat st')))))"

definition append_record ::
  "agent_context \<Rightarrow> category \<Rightarrow> string \<Rightarrow> json \<Rightarrow> string \<Rightarrow> nat \<Rightarrow> timestamp
   \<Rightarrow> unit ctx_result \<times> agent_context" where
  "append_record c cat k v src it now =
     (case write_guard c cat k v of
        Err e \<Rightarrow> (Err e, c)
      | Panic \<Rightarrow> (Panic, c)
      | Ok _ \<Rightarrow>
     (case ac_categories c cat of
        None \<Rightarrow> (Err (CategoryNotFound cat), c)
      | Some st \<Rightarrow>
     (if lk_poisoned (cs_lock st) then (Err (MergeFailed ''Write lock poisoned''), c)
      else
        let entry = \<lparr>re_key = k, re_value = v, re_source = src, re_timestamp = now, re_iteration = it\<rparr>
        in (Ok (), put_store c cat
              (put_records (warn_soft_limit st) (lk_data (cs_lock st) @ [entry]))))))"

definition add_extension ::
  "agent_context \<Rightarrow> string \<Rightarrow> extension_content \<Rightarrow> unit ctx_result \<times> agent_context" where
  "add_extension c i content =
     (case check_write_allowed c of
        Err e \<Rightarrow> (Err e, c)
      | Panic \<Rightarrow> (Panic, c)
      | Ok _ \<Rightarrow>
     (case lk_read (ac_extensions c) of
        None \<Rightarrow> (Err (MergeFailed ''Extensions lock poisoned''), c)
      | Some m \<Rightarrow>
          (Ok (), c\<lparr>ac_extensions := (ac_extensions c)\<lparr>lk_data := upsert fst (i, content) m\<rparr>\<rparr>)))"

definition set_lifecycle_state ::
  "agent_context \<Rightarrow> lifecycle \<Rightarrow> unit ctx_result \<times> agent_context" where
  "set_lifecycle_state c target =
     (case lk_read (ac_lifecycle_state c) of
        None \<Rightarrow> (Err (MergeFailed ''Lifecycle lock poisoned''), c)
      | Some current \<Rightarrow>
          if \<not> is_valid_transition current target
          then (Err (IllegalStateTransition current target), c)
          else (Ok (), c\<lparr>ac_lifecycle_state := (ac_lifecycle_state c)\<lparr>lk_data := target\<rparr>\<rparr>))"

definition set_response_payload ::
  "agent_context \<Rightarrow> response_payload \<Rightarrow> unit ctx_result \<times> agent_context" where
  "set_response_payload c payload =
     (case check_write_allowed c of
        Err e \<Rightarrow> (Err e, c)
      | Panic \<Rightarrow> (Panic, c)
      | Ok _ \<Rightarrow>
     (if lk_poisoned (ac_response_payload c)
      then (Err (MergeFailed ''Response lock poisoned''), c)
      else (Ok (), c\<lparr>ac_response_payload := (ac_response_payload c)\<lparr>lk_data := Some payload\<rparr>\<rparr>)))"

definition set_metadata ::
  "agent_context \<Rightarrow> string \<Rightarrow> string \<Rightarrow> unit ctx_result \<times> agent_context" where
  "set_metadata c k v =
     (case lk_read (ac_metadata c) of
        None \<Rightarrow> (Err (MergeFailed ''Metadata lock poisoned''), c)
      | Some m \<Rightarrow> (Ok (), c\<lparr>ac_metadata := (ac_metadata c)\<lparr>lk_data := m(k \<mapsto> v)\<rparr>\<rparr>))"

definition set_messages :: "agent_context \<Rightarrow> json list \<Rightarrow> unit ctx_result \<times> agent_context" where
  "set_messages c msgs =
     (if lk_poisoned (ac_messages c)
      then (Err (MergeFailed ''messages write lock poisoned''), c)
      else (Ok (), c\<lparr>ac_messages := (ac_messages c)\<lparr>lk_data := msgs\<rparr>\<rparr>))"

text \<open>The three audit operations take the audit lock with \<^verbatim>\<open>unwrap\<close>.\<close>

definition with_audit ::
  "agent_context \<Rightarrow> (audit_record list \<Rightarrow> audit_record list) \<Rightarrow> unit ctx_result \<times> agent_context" where
  "with_audit c f =
     (case check_write_allowed c of
        Err e \<Rightarrow> (Err e, c)
      | Panic \<Rightarrow> (Panic, c)
      | Ok _ \<Rightarrow>
     (case lk_read (ac_audit_log c) of
        None \<Rightarrow> (Panic, c)
      | Some log \<Rightarrow> (Ok (), push_audit c (f log))))"

definition record_tool_call ::
  "agent_context \<Rightarrow> string \<Rightarrow> json \<Rightarrow> json option \<Rightarrow> tool_call_status \<Rightarrow> timestamp
   \<Rightarrow> timestamp option \<Rightarrow> unit ctx_result \<times> agent_context" where
  "record_tool_call c nm args res st started completed =
     with_audit c (\<lambda>log. log_tool_call log nm args res st started completed)"

definition record_skill_execution ::
  "agent_context \<Rightarrow> string \<Rightarrow> json \<Rightarrow> json option \<Rightarrow> skill_execution_status \<Rightarrow> timestamp
   \<Rightarrow> timestamp option \<Rightarrow> unit ctx_result \<times> agent_context" where
  "record_skill_execution c nm inp out st started completed =
     with_audit c (\<lambda>log. log_skill_execution log nm inp out st started completed)"

definition record_delegation ::
  "agent_context \<Rightarrow> string \<Rightarrow> string \<Rightarrow> json \<Rightarrow> json option \<Rightarrow> bool \<Rightarrow> timestamp
   \<Rightarrow> timestamp option \<Rightarrow> unit ctx_result \<times> agent_context" where
  "record_delegation c sid chain inp out ok started completed =
     with_audit c (\<lambda>log. log_delegation log sid chain inp out ok started completed)"

section \<open>Properties of single operations\<close>

definition blacklisted :: "agent_context \<Rightarrow> category \<Rightarrow> bool" where
  "blacklisted c cat \<longleftrightarrow>
     (\<exists>bl sid. ac_blacklisted_categories c = Some bl \<and> ac_subagent_id c = Some sid \<and> cat \<in> set bl)"

definition writable :: "agent_context \<Rightarrow> bool" where
  "writable c \<longleftrightarrow> lifecycle_state c = Active \<or> lifecycle_state c = Merging"

lemma check_write_allowed_Ok [simp]: "check_write_allowed c = Ok () \<longleftrightarrow> writable c"
  by (auto simp: check_write_allowed_def writable_def split: lifecycle.splits)

lemma check_write_allowed_no_panic [simp]: "check_write_allowed c \<noteq> Panic"
  by (auto simp: check_write_allowed_def split: lifecycle.splits)

lemma check_blacklist_Ok [simp]: "check_blacklist c cat = Ok () \<longleftrightarrow> \<not> blacklisted c cat"
  by (auto simp: check_blacklist_def blacklisted_def split: option.splits)

lemma check_sensitive_data_Ok [simp]:
  "check_sensitive_data k v = Ok () \<longleftrightarrow> \<not> is_sensitive_key k \<and> \<not> is_sensitive_value v"
  by (simp add: check_sensitive_data_def)

lemma write_guard_Ok [simp]:
  "write_guard c cat k v = Ok u \<longleftrightarrow>
     writable c \<and> \<not> blacklisted c cat \<and> \<not> is_sensitive_key k \<and> \<not> is_sensitive_value v"
  by (auto simp: write_guard_def)

lemma write_guard_no_panic [simp]: "write_guard c cat k v \<noteq> Panic"
proof -
  have "check_blacklist c cat \<noteq> Panic"
    by (auto simp: check_blacklist_def split: option.splits)
  moreover have "check_sensitive_data k v \<noteq> Panic"
    by (simp add: check_sensitive_data_def)
  ultimately show ?thesis by (simp add: write_guard_def)
qed

lemma put_store_simps [simp]:
  "ac_categories (put_store c cat st) = (ac_categories c)(cat \<mapsto> st)"
  "ac_extensions (put_store c cat st) = ac_extensions c"
  "ac_audit_log (put_store c cat st) = ac_audit_log c"
  "ac_response_payload (put_store c cat st) = ac_response_payload c"
  "ac_lifecycle_state (put_store c cat st) = ac_lifecycle_state c"
  "ac_blacklisted_categories (put_store c cat st) = ac_blacklisted_categories c"
  "ac_subagent_id (put_store c cat st) = ac_subagent_id c"
  "ac_delegation_chain (put_store c cat st) = ac_delegation_chain c"
  "ac_user_input (put_store c cat st) = ac_user_input c"
  "ac_config (put_store c cat st) = ac_config c"
  "ac_context_id (put_store c cat st) = ac_context_id c"
  "ac_metadata (put_store c cat st) = ac_metadata c"
  "ac_messages (put_store c cat st) = ac_messages c"
  "ac_created_at (put_store c cat st) = ac_created_at c"
  by (simp_all add: put_store_def)

lemma push_audit_simps [simp]:
  "ac_categories (push_audit c l) = ac_categories c"
  "ac_extensions (push_audit c l) = ac_extensions c"
  "ac_audit_log (push_audit c l) = (ac_audit_log c)\<lparr>lk_data := l\<rparr>"
  "ac_response_payload (push_audit c l) = ac_response_payload c"
  "ac_lifecycle_state (push_audit c l) = ac_lifecycle_state c"
  "ac_blacklisted_categories (push_audit c l) = ac_blacklisted_categories c"
  "ac_subagent_id (push_audit c l) = ac_subagent_id c"
  "ac_delegation_chain (push_audit c l) = ac_delegation_chain c"
  "ac_user_input (push_audit c l) = ac_user_input c"
  "ac_config (push_audit c l) = ac_config c"
  "ac_context_id (push_audit c l) = ac_context_id c"
  "ac_metadata (push_audit c l) = ac_metadata c"
  "ac_messages (push_audit c l) = ac_messages c"
  "ac_created_at (push_audit c l) = ac_created_at c"
  by (simp_all add: push_audit_def)

lemma put_records_simps [simp]:
  "cs_lock (put_records st recs) = (cs_lock st)\<lparr>lk_data := recs\<rparr>"
  "cs_lock (warn_soft_limit st) = cs_lock st"
  "cs_soft_limit (put_records st recs) = cs_soft_limit st"
  "cs_soft_limit (warn_soft_limit st) = cs_soft_limit st"
  by (simp_all add: put_records_def warn_soft_limit_def)

text \<open>The shape of a successful \<^verbatim>\<open>set_record\<close>.\<close>

lemma set_record_OkE:
  assumes "set_record c cat k v src it now = (Ok u, c')"
  obtains st old where
    "writable c" "\<not> blacklisted c cat" "\<not> is_sensitive_key k" "\<not> is_sensitive_value v"
    "ac_categories c cat = Some st" "\<not> lk_poisoned (cs_lock st)"
    "old = find_key re_key (lk_data (cs_lock st)) k"
    "old \<noteq> None \<Longrightarrow> \<not> lk_poisoned (ac_audit_log c)"
    "c' = put_store
       (case old of None \<Rightarrow> c
        | Some o' \<Rightarrow> push_audit c (log_state_change (lk_data (ac_audit_log c)) cat k
                      (Some (re_value o')) v src it now))
       cat (put_records (warn_soft_limit st)
              (upsert re_key \<lparr>re_key = k, re_value = v, re_source = src, re_timestamp = now,
                              re_iteration = it\<rparr> (lk_data (cs_lock st))))"
  using assms that
  by (fastforce simp: set_record_def Let_def split: result.splits option.splits if_splits)

lemma set_record_fresh:
  assumes "writable c" "\<not> blacklisted c cat" "\<not> is_sensitive_key k" "\<not> is_sensitive_value v"
    "ac_categories c cat = Some st" "\<not> lk_poisoned (cs_lock st)"
    "find_key re_key (lk_data (cs_lock st)) k = None"
  shows "set_record c cat k v src it now =
    (Ok (), put_store c cat (put_records (warn_soft_limit st)
       (upsert re_key \<lparr>re_key = k, re_value = v, re_source = src, re_timestamp = now,
                        re_iteration = it\<rparr> (lk_data (cs_lock st)))))"
proof -
  have g: "write_guard c cat k v = Ok ()" using assms by simp
  show ?thesis using assms(5-) by (simp add: set_record_def g Let_def)
qed

lemma append_record_OkE:
  assumes "append_record c cat k v src it now = (Ok u, c')"
  obtains st where
    "writable c" "\<not> blacklisted c cat" "\<not> is_sensitive_key k" "\<not> is_sensitive_value v"
    "ac_categories c cat = Some st" "\<not> lk_poisoned (cs_lock st)"
    "c' = put_store c cat (put_records (warn_soft_limit st)
       (lk_data (cs_lock st) @ [\<lparr>re_key = k, re_value = v, re_source = src, re_timestamp = now,
                              re_iteration = it\<rparr>]))"
  using assms that
  by (fastforce simp: append_record_def Let_def split: result.splits option.splits if_splits)

lemma get_category_put_store:
  "get_category (put_store c cat st) cat' =
     (if cat' = cat then (case lk_read (cs_lock st) of None \<Rightarrow> Err (MergeFailed ''Read lock poisoned'')
                          | Some recs \<Rightarrow> Ok recs)
      else get_category c cat')"
  by (simp add: get_category_def)

lemma get_category_push_audit [simp]: "get_category (push_audit c l) cat = get_category c cat"
  by (simp add: get_category_def)

lemma get_category_Ok:
  "get_category c cat = Ok recs \<longleftrightarrow>
     (\<exists>st. ac_categories c cat = Some st \<and> \<not> lk_poisoned (cs_lock st) \<and> recs = lk_data (cs_lock st))"
  by (auto simp: get_category_def split: option.splits)

text \<open>A successful write changes the category it names and nothing else that is read.\<close>

lemma set_record_get_category:
  assumes "set_record c cat k v src it now = (Ok u, c')"
  shows "get_category c' cat' =
     (if cat' = cat
      then bind_res (get_category c cat) (\<lambda>recs. Ok (upsert re_key
             \<lparr>re_key = k, re_value = v, re_source = src, re_timestamp = now, re_iteration = it\<rparr> recs))
      else get_category c cat')"
  using assms
proof (rule set_record_OkE)
  fix st old
  assume *: "ac_categories c cat = Some st" "\<not> lk_poisoned (cs_lock st)"
    "c' = put_store
       (case old of None \<Rightarrow> c
        | Some o' \<Rightarrow> push_audit c (log_state_change (lk_data (ac_audit_log c)) cat k
                      (Some (re_value o')) v src it now))
       cat (put_records (warn_soft_limit st)
              (upsert re_key \<lparr>re_key = k, re_value = v, re_source = src, re_timestamp = now,
                              re_iteration = it\<rparr> (lk_data (cs_lock st))))"
  have g: "get_category c cat = Ok (lk_data (cs_lock st))"
    using * by (simp add: get_category_Ok)
  show ?thesis
    using * g by (simp add: get_category_put_store lk_read_def split: option.split)
qed

lemma set_record_get_record:
  assumes "set_record c cat k v src it now = (Ok u, c')"
  shows "get_record c' cat' k' =
     (if cat' = cat \<and> k' = k
      then Ok (Some \<lparr>re_key = k, re_value = v, re_source = src, re_timestamp = now, re_iteration = it\<rparr>)
      else get_record c cat' k')"
proof -
  obtain recs where recs: "get_category c cat = Ok recs"
    using assms by (rule set_record_OkE) (auto simp: get_category_Ok)
  show ?thesis
    using recs by (auto simp: get_record_def set_record_get_category [OF assms] find_key_upsert)
qed

lemma set_record_audit:
  assumes "set_record c cat k v src it now = (Ok u, c')"
  shows "lk_data (ac_audit_log c') =
     (case get_record c cat k of
        Ok (Some old) \<Rightarrow>
          log_state_change (lk_data (ac_audit_log c)) cat k (Some (re_value old)) v src it now
      | _ \<Rightarrow> lk_data (ac_audit_log c))"
  using assms
proof (rule set_record_OkE)
  fix st old
  assume *: "ac_categories c cat = Some st" "\<not> lk_poisoned (cs_lock st)"
    "old = find_key re_key (lk_data (cs_lock st)) k"
    "c' = put_store
       (case old of None \<Rightarrow> c
        | Some o' \<Rightarrow> push_audit c (log_state_change (lk_data (ac_audit_log c)) cat k
                      (Some (re_value o')) v src it now))
       cat (put_records (warn_soft_limit st)
              (upsert re_key \<lparr>re_key = k, re_value = v, re_source = src, re_timestamp = now,
                              re_iteration = it\<rparr> (lk_data (cs_lock st))))"
  have "get_category c cat = Ok (lk_data (cs_lock st))" using * by (simp add: get_category_Ok)
  then have "get_record c cat k = Ok old" using * by (simp add: get_record_def)
  then show ?thesis using * by (simp split: option.split)
qed

section \<open>Runs of operations\<close>

datatype ctx_op =
    OpSetRecord category string json string nat timestamp
  | OpAppendRecord category string json string nat timestamp
  | OpAddExtension string extension_content
  | OpSetLifecycle lifecycle
  | OpSetResponse response_payload
  | OpSetMetadata string string
  | OpSetMessages "json list"
  | OpToolCall string json "json option" tool_call_status timestamp "timestamp option"
  | OpSkillExecution string json "json option" skill_execution_status timestamp "timestamp option"
  | OpDelegation string string json "json option" bool timestamp "timestamp option"

fun ctx_exec :: "ctx_op \<Rightarrow> agent_context \<Rightarrow> unit ctx_result \<times> agent_context" where
  "ctx_exec (OpSetRecord cat k v src it now) c = set_record c cat k v src it now"
| "ctx_exec (OpAppendRecord cat k v src it now) c = append_record c cat k v src it now"
| "ctx_exec (OpAddExtension i e) c = add_extension c i e"
| "ctx_exec (OpSetLifecycle s) c = set_lifecycle_state c s"
| "ctx_exec (OpSetResponse p) c = set_response_payload c p"
| "ctx_exec (OpSetMetadata k v) c = set_metadata c k v"
| "ctx_exec (OpSetMessages ms) c = set_messages c ms"
| "ctx_exec (OpToolCall n a r s t t') c = record_tool_call c n a r s t t'"
| "ctx_exec (OpSkillExecution n i out s t t') c = record_skill_execution c n i out s t t'"
| "ctx_exec (OpDelegation sid ch i out ok t t') c = record_delegation c sid ch i out ok t t'"

inductive ctx_step :: "agent_context \<Rightarrow> agent_context \<Rightarrow> bool" where
  ctx_stepI: "ctx_exec op c = (r, c') \<Longrightarrow> ctx_step c c'"

inductive_cases ctx_stepE: "ctx_step c c'"

lemma ctx_step_exec: "ctx_step c (snd (ctx_exec op c))"
  by (rule ctx_stepI [of op c "fst (ctx_exec op c)"]) simp

text \<open>
  What one operation can do to the categories: nothing, or, past the guards, give one
  category a store whose records are old ones or the written one.
\<close>

definition category_effect :: "agent_context \<Rightarrow> agent_context \<Rightarrow> bool" where
  "category_effect c c' \<longleftrightarrow>
     ac_categories c' = ac_categories c \<or>
     (\<exists>cat k v st st'. writable c \<and> \<not> blacklisted c cat
        \<and> \<not> is_sensitive_key k \<and> \<not> is_sensitive_value v
        \<and> ac_categories c cat = Some st
        \<and> ac_categories c' = (ac_categories c)(cat \<mapsto> st')
        \<and> (\<forall>e \<in> set (lk_data (cs_lock st')).
              e \<in> set (lk_data (cs_lock st)) \<or> (re_key e = k \<and> re_value e = v)))"

lemma category_effect_same: "ac_categories c' = ac_categories c \<Longrightarrow> category_effect c c'"
  by (simp add: category_effect_def)

lemma category_effect_write:
  assumes "writable c" "\<not> blacklisted c cat" "\<not> is_sensitive_key k" "\<not> is_sensitive_value v"
    "ac_categories c cat = Some st" "ac_categories c' = (ac_categories c)(cat \<mapsto> st')"
    "\<And>e. e \<in> set (lk_data (cs_lock st')) \<Longrightarrow>
       e \<in> set (lk_data (cs_lock st)) \<or> (re_key e = k \<and> re_value e = v)"
  shows "category_effect c c'"
  using assms unfolding category_effect_def by blast

lemma upsert_entry_effect:
  "e \<in> set (upsert re_key \<lparr>re_key = k, re_value = v, re_source = src, re_timestamp = now,
                     re_iteration = it\<rparr> recs) \<Longrightarrow> e \<in> set recs \<or> (re_key e = k \<and> re_value e = v)"
  using set_upsert [of re_key "\<lparr>re_key = k, re_value = v, re_source = src, re_timestamp = now,
                     re_iteration = it\<rparr>" recs] by auto

lemma set_record_effect:
  assumes "set_record c cat k v src it now = (r, c')"
  shows "category_effect c c'"
proof (cases "write_guard c cat k v")
  case (Ok u)
  then have g: "writable c" "\<not> blacklisted c cat" "\<not> is_sensitive_key k" "\<not> is_sensitive_value v"
    by auto
  show ?thesis
  proof (cases "ac_categories c cat")
    case None
    with assms Ok show ?thesis by (simp add: set_record_def category_effect_same)
  next
    case (Some st)
    show ?thesis
    proof (cases "lk_poisoned (cs_lock st)")
      case True
      with assms Ok Some show ?thesis by (simp add: set_record_def category_effect_same)
    next
      case False
      obtain st' where "ac_categories c' = (ac_categories c)(cat \<mapsto> st')"
        and "\<And>e. e \<in> set (lk_data (cs_lock st')) \<Longrightarrow>
               e \<in> set (lk_data (cs_lock st)) \<or> (re_key e = k \<and> re_value e = v)"
        using assms Ok Some False upsert_entry_effect
        by (fastforce simp: set_record_def Let_def split: option.splits)
      with g Some show ?thesis by (rule category_effect_write)
    qed
  qed
qed (use assms in \<open>simp_all add: set_record_def category_effect_same\<close>)

lemma append_record_effect:
  assumes "append_record c cat k v src it now = (r, c')"
  shows "category_effect c c'"
proof (cases "r = Ok ()")
  case True
  with assms have "append_record c cat k v src it now = (Ok (), c')" by simp
  then show ?thesis by (rule append_record_OkE) (rule category_effect_write, auto)
next
  case False
  with assms have "c' = c"
    by (auto simp: append_record_def Let_def split: result.splits option.splits if_splits)
  then show ?thesis by (simp add: category_effect_same)
qed

lemma ctx_step_effect: "ctx_step c c' \<Longrightarrow> category_effect c c'"
proof (erule ctx_stepE)
  fix op r
  assume e: "ctx_exec op c = (r, c')"
  show "category_effect c c'"
  proof (cases op)
    case (OpSetRecord cat k v src it now)
    with e show ?thesis by (auto intro: set_record_effect)
  next
    case (OpAppendRecord cat k v src it now)
    with e show ?thesis by (auto intro: append_record_effect)
  qed (use e in \<open>auto intro!: category_effect_same
        simp: add_extension_def set_lifecycle_state_def set_response_payload_def set_metadata_def
          set_messages_def with_audit_def record_tool_call_def record_skill_execution_def
          record_delegation_def split: result.splits option.splits if_splits\<close>)
qed

text \<open>The identity, the blacklist and the configuration of a context never change.\<close>

definition fixed_part :: "agent_context \<Rightarrow> _" where
  "fixed_part c = (ac_context_id c, ac_user_input c, ac_config c, ac_created_at c,
     ac_blacklisted_categories c, ac_subagent_id c, ac_delegation_chain c)"

lemma ctx_step_fixed [hc_keep]: "ctx_step c c' \<Longrightarrow> fixed_part c' = fixed_part c"
  by (erule ctx_stepE, rename_tac op r, case_tac op)
     (auto simp: fixed_part_def set_record_def append_record_def add_extension_def
        set_lifecycle_state_def set_response_payload_def set_metadata_def set_messages_def
        with_audit_def record_tool_call_def record_skill_execution_def record_delegation_def Let_def
        split: result.splits option.splits if_splits)

lemma blacklisted_step: "ctx_step c c' \<Longrightarrow> blacklisted c' cat = blacklisted c cat"
  by (drule ctx_step_fixed) (auto simp: fixed_part_def blacklisted_def)

section \<open>Invariants of reachable contexts\<close>

definition ctx_init :: "agent_context \<Rightarrow> bool" where
  "ctx_init c \<longleftrightarrow> (\<exists>cid ui cfg now. c = agent_context_new cid ui cfg now)"

abbreviation ctx_reachable :: "agent_context \<Rightarrow> bool" where
  "ctx_reachable \<equiv> reach ctx_init ctx_step"

definition ctx_clean :: "agent_context \<Rightarrow> bool" where
  "ctx_clean c \<longleftrightarrow>
     (\<forall>cat st. ac_categories c cat = Some st \<longrightarrow>
        (\<forall>r \<in> set (lk_data (cs_lock st)). \<not> is_sensitive_key (re_key r) \<and> \<not> is_sensitive_value (re_value r)))"

definition ctx_sound :: "agent_context \<Rightarrow> bool" where
  "ctx_sound c \<longleftrightarrow>
     (\<forall>cat. \<exists>st. ac_categories c cat = Some st \<and> \<not> lk_poisoned (cs_lock st))
     \<and> \<not> lk_poisoned (ac_extensions c) \<and> \<not> lk_poisoned (ac_audit_log c)
     \<and> \<not> lk_poisoned (ac_response_payload c) \<and> \<not> lk_poisoned (ac_lifecycle_state c)
     \<and> \<not> lk_poisoned (ac_metadata c) \<and> \<not> lk_poisoned (ac_messages c)"

lemma agent_context_new_categories [simp]:
  "ac_categories (agent_context_new cid ui cfg now) cat = Some (category_store_new (soft_limit cfg))"
  by (cases cat) (simp_all add: agent_context_new_def all_categories_def)

lemma agent_context_new_simps [simp]:
  "ac_extensions (agent_context_new cid ui cfg now) = lk_new []"
  "ac_audit_log (agent_context_new cid ui cfg now) = lk_new []"
  "ac_response_payload (agent_context_new cid ui cfg now) = lk_new None"
  "ac_lifecycle_state (agent_context_new cid ui cfg now) = lk_new Active"
  "ac_metadata (agent_context_new cid ui cfg now) = lk_new Map.empty"
  "ac_messages (agent_context_new cid ui cfg now) = lk_new []"
  "ac_context_id (agent_context_new cid ui cfg now) = cid"
  "ac_user_input (agent_context_new cid ui cfg now) = ui"
  "ac_config (agent_context_new cid ui cfg now) = cfg"
  "ac_created_at (agent_context_new cid ui cfg now) = now"
  "ac_blacklisted_categories (agent_context_new cid ui cfg now) = None"
  "ac_subagent_id (agent_context_new cid ui cfg now) = None"
  "ac_delegation_chain (agent_context_new cid ui cfg now) = []"
  by (simp_all add: agent_context_new_def)

lemma category_store_new_simps [simp]:
  "cs_lock (category_store_new n) = lk_new []" "cs_soft_limit (category_store_new n) = n"
  "\<not> cs_warning_emitted (category_store_new n)"
  by (simp_all add: category_store_new_def)

lemma ctx_clean_effect: "ctx_clean c \<Longrightarrow> category_effect c c' \<Longrightarrow> ctx_clean c'"
  by (auto simp: ctx_clean_def category_effect_def split: if_splits) blast+

lemma ctx_sound_put_store [intro]:
  "ctx_sound c \<Longrightarrow> \<not> lk_poisoned (cs_lock st) \<Longrightarrow> ctx_sound (put_store c cat st)"
  by (auto simp: ctx_sound_def)

lemma ctx_sound_push_audit [intro]: "ctx_sound c \<Longrightarrow> ctx_sound (push_audit c l)"
  by (auto simp: ctx_sound_def)

lemma ctx_sound_simps:
  assumes "ctx_sound c"
  shows "\<not> lk_poisoned (ac_extensions c)" "\<not> lk_poisoned (ac_audit_log c)"
    "\<not> lk_poisoned (ac_response_payload c)" "\<not> lk_poisoned (ac_lifecycle_state c)"
    "\<not> lk_poisoned (ac_metadata c)" "\<not> lk_poisoned (ac_messages c)"
  using assms by (auto simp: ctx_sound_def)

lemma set_record_sound:
  assumes "ctx_sound c" "set_record c cat k v src it now = (r, c')"
  shows "ctx_sound c' \<and> r \<noteq> Panic \<and> (r \<noteq> Ok () \<longrightarrow> c' = c)"
proof (cases "r = Ok ()")
  case True
  with assms(2) have ok: "set_record c cat k v src it now = (Ok (), c')" by simp
  have "ctx_sound c'" using ok
  proof (rule set_record_OkE)
    fix st old
    assume "\<not> lk_poisoned (cs_lock st)"
      and c': "c' = put_store
       (case old of None \<Rightarrow> c
        | Some o' \<Rightarrow> push_audit c (log_state_change (lk_data (ac_audit_log c)) cat k
                      (Some (re_value o')) v src it now))
       cat (put_records (warn_soft_limit st)
              (upsert re_key \<lparr>re_key = k, re_value = v, re_source = src, re_timestamp = now,
                              re_iteration = it\<rparr> (lk_data (cs_lock st))))"
    then show ?thesis using assms(1) by (auto split: option.splits)
  qed
  with True show ?thesis by simp
next
  case False
  obtain st where "ac_categories c cat = Some st" "\<not> lk_poisoned (cs_lock st)"
    using assms(1) by (auto simp: ctx_sound_def)
  then show ?thesis
    using False assms ctx_sound_simps(2) [OF assms(1)]
    by (auto simp: set_record_def Let_def lk_read_def split: result.splits option.splits if_splits)
qed

lemma append_record_sound:
  assumes "ctx_sound c" "append_record c cat k v src it now = (r, c')"
  shows "ctx_sound c' \<and> r \<noteq> Panic \<and> (r \<noteq> Ok () \<longrightarrow> c' = c)"
proof (cases "r = Ok ()")
  case True
  with assms(2) have "append_record c cat k v src it now = (Ok (), c')" by simp
  then show ?thesis using True assms(1) by (elim append_record_OkE) auto
next
  case False
  then show ?thesis using assms
    by (auto simp: append_record_def Let_def split: result.splits option.splits if_splits)
qed

lemma with_audit_sound:
  assumes "ctx_sound c" "with_audit c f = (r, c')"
  shows "ctx_sound c' \<and> r \<noteq> Panic \<and> (r \<noteq> Ok () \<longrightarrow> c' = c)"
  using assms ctx_sound_simps(2) [OF assms(1)]
  by (auto simp: with_audit_def split: result.splits option.splits)

lemma ctx_exec_sound:
  assumes "ctx_sound c" "ctx_exec op c = (r, c')"
  shows "ctx_sound c' \<and> r \<noteq> Panic \<and> (r \<noteq> Ok () \<longrightarrow> c' = c)"
proof (cases op)
  case OpSetRecord
  with assms show ?thesis using set_record_sound by (metis ctx_exec.simps(1))
next
  case OpAppendRecord
  with assms show ?thesis using append_record_sound by (metis ctx_exec.simps(2))
next
  case OpToolCall
  with assms show ?thesis using with_audit_sound by (simp add: record_tool_call_def)
next
  case OpSkillExecution
  with assms show ?thesis using with_audit_sound by (simp add: record_skill_execution_def)
next
  case OpDelegation
  with assms show ?thesis using with_audit_sound by (simp add: record_delegation_def)
qed (use assms in \<open>auto simp: ctx_sound_def add_extension_def set_lifecycle_state_def
      set_response_payload_def set_metadata_def set_messages_def
      split: result.splits option.splits if_splits\<close>)

interpretation clean_sys: invariant_system ctx_init ctx_step "\<lambda>c. ctx_sound c \<and> ctx_clean c"
proof unfold_locales
  fix c assume "ctx_init c"
  then show "ctx_sound c \<and> ctx_clean c"
    by (auto simp: ctx_init_def ctx_sound_def ctx_clean_def)
next
  fix c c' assume i: "ctx_sound c \<and> ctx_clean c" and s: "ctx_step c c'"
  have "ctx_sound c'" using i s by (auto elim!: ctx_stepE dest: ctx_exec_sound)
  moreover have "ctx_clean c'" using i ctx_step_effect [OF s] by (auto intro: ctx_clean_effect)
  ultimately show "ctx_sound c' \<and> ctx_clean c'" by simp
qed

text \<open>A finished context and the part of it that is then read-only.\<close>

definition finished :: "agent_context \<Rightarrow> bool" where
  "finished c \<longleftrightarrow>
     lk_read (ac_lifecycle_state c) = Some Completed \<or> lk_read (ac_lifecycle_state c) = Some Terminated"

definition frozen_part :: "agent_context \<Rightarrow> _" where
  "frozen_part c = (ac_categories c, ac_extensions c, ac_audit_log c, ac_response_payload c,
     ac_lifecycle_state c)"

lemma finished_not_writable: "finished c \<Longrightarrow> \<not> writable c"
  by (auto simp: finished_def writable_def lifecycle_state_def split: option.splits)

lemma finished_check_write: "finished c \<Longrightarrow> \<exists>e. check_write_allowed c = Err e"
  using finished_not_writable [of c]
  by (cases "check_write_allowed c") auto

lemma finished_no_transition:
  "finished c \<Longrightarrow> \<not> is_valid_transition (lk_data (ac_lifecycle_state c)) s"
  by (cases s) (auto simp: finished_def)

lemma ctx_step_finished:
  assumes "finished c" "ctx_step c c'"
  shows "frozen_part c' = frozen_part c"
proof -
  obtain op r where 1: "ctx_exec op c = (r, c')" using assms(2) by (rule ctx_stepE)
  obtain e where e: "check_write_allowed c = Err e" using finished_check_write [OF assms(1)] ..
  have nt: "\<not> is_valid_transition (lk_data (ac_lifecycle_state c)) s" for s
    using finished_no_transition [OF assms(1)] .
  show ?thesis using 1 e nt
    by (cases op)
       (auto simp: frozen_part_def set_record_def append_record_def write_guard_def
          add_extension_def set_lifecycle_state_def set_response_payload_def set_metadata_def
          set_messages_def with_audit_def record_tool_call_def record_skill_execution_def
          record_delegation_def split: option.splits if_splits)
qed

lemma finished_frozen: "frozen_part c' = frozen_part c \<Longrightarrow> finished c' = finished c"
  by (simp add: frozen_part_def finished_def)

interpretation frozen_sys: invariant_system
    "\<lambda>c. c = c0 \<and> finished c0" ctx_step "\<lambda>c. finished c \<and> frozen_part c = frozen_part c0"
  for c0
proof unfold_locales
  fix c c'
  assume i: "finished c \<and> frozen_part c = frozen_part c0" and s: "ctx_step c c'"
  have "frozen_part c' = frozen_part c" using i s by (blast intro: ctx_step_finished)
  then show "finished c' \<and> frozen_part c' = frozen_part c0" using i finished_frozen by metis
qed simp

text \<open>A blacklisted category never changes, whatever is called.\<close>

lemma category_effect_blacklisted:
  "category_effect c c' \<Longrightarrow> blacklisted c cat \<Longrightarrow> ac_categories c' cat = ac_categories c cat"
  by (auto simp: category_effect_def)

interpretation blacklist_sys: invariant_system
    "\<lambda>c. c = c0" ctx_step
    "\<lambda>c. fixed_part c = fixed_part c0 \<and>
       (\<forall>cat. blacklisted c0 cat \<longrightarrow> blacklisted c cat \<and> ac_categories c cat = ac_categories c0 cat)"
  for c0
proof unfold_locales
  fix c c'
  assume i: "fixed_part c = fixed_part c0 \<and>
       (\<forall>cat. blacklisted c0 cat \<longrightarrow> blacklisted c cat \<and> ac_categories c cat = ac_categories c0 cat)"
    and s: "ctx_step c c'"
  show "fixed_part c' = fixed_part c0 \<and>
       (\<forall>cat. blacklisted c0 cat \<longrightarrow> blacklisted c' cat \<and> ac_categories c' cat = ac_categories c0 cat)"
    using i category_effect_blacklisted [OF ctx_step_effect [OF s]]
    by (simp add: ctx_step_fixed [OF s] blacklisted_step [OF s])
qed simp

section \<open>Main properties\<close>

text \<open>Concrete contexts for the witnesses.\<close>

definition demo_input :: user_input where
  "demo_input = \<lparr>ui_raw_text = ''hello'', ui_session_id = None, ui_message_id = None,
     ui_timestamp = 0, ui_metadata = Map.empty\<rparr>"

definition demo_ctx :: agent_context where
  "demo_ctx = agent_context_new ''ctx-1'' demo_input default_config 0"

lemma demo_ctx_simps [simp]:
  "writable demo_ctx" "\<not> blacklisted demo_ctx cat"
  "ac_categories demo_ctx cat = Some (category_store_new 100)"
  "ac_audit_log demo_ctx = lk_new []" "ac_lifecycle_state demo_ctx = lk_new Active"
  by (simp_all add: demo_ctx_def writable_def lifecycle_state_def blacklisted_def default_config_def)

lemma demo_key_ok [simp]: "\<not> is_sensitive_key ''user''"
  by code_simp

lemma demo_set_record:
  "set_record demo_ctx Entities ''user'' (JString ''Ann'') ''test'' 2 5 =
     (Ok (), put_store demo_ctx Entities
        (put_records (warn_soft_limit (category_store_new 100))
           [\<lparr>re_key = ''user'', re_value = JString ''Ann'', re_source = ''test'', re_timestamp = 5,
             re_iteration = 2\<rparr>]))"
  by (subst set_record_fresh [of _ _ _ _ "category_store_new 100"]) simp_all

lemma demo_reachable: "ctx_reachable demo_ctx"
  by (rule reach_init) (auto simp: ctx_init_def demo_ctx_def)

lemma demo_set_reachable:
  "ctx_reachable (snd (set_record demo_ctx Entities ''user'' (JString ''Ann'') ''test'' 2 5))"
  by (rule reach_step [OF demo_reachable])
     (use ctx_step_exec [of demo_ctx "OpSetRecord Entities ''user'' (JString ''Ann'') ''test'' 2 5"] in simp)

text \<open>
  (C1) A record that \<open>set_record\<close> accepted is the one every later \<open>get_record\<close> of that
  category and key returns; all other records read as before; and the audit log gained one
  state change with the old value if the key was present, nothing otherwise.
\<close>

theorem set_record_reads_back:
  assumes "set_record c cat k v src it now = (Ok (), c')"
  shows "get_record c' cat' k' =
     (if cat' = cat \<and> k' = k
      then Ok (Some \<lparr>re_key = k, re_value = v, re_source = src, re_timestamp = now, re_iteration = it\<rparr>)
      else get_record c cat' k')
    \<and> lk_data (ac_audit_log c') =
     (case get_record c cat k of
        Ok (Some old) \<Rightarrow>
          lk_data (ac_audit_log c) @
            [StateChange \<lparr>sc_category = cat, sc_key = k, sc_old_value = Some (re_value old),
               sc_new_value = v, sc_source = src, sc_iteration = it, sc_changed_at = now\<rparr>]
      | _ \<Rightarrow> lk_data (ac_audit_log c))"
  using set_record_get_record [OF assms, of cat' k'] set_record_audit [OF assms]
  unfolding log_state_change_def by blast

theorem set_record_reads_back_witness:
  "get_record (snd (set_record demo_ctx Entities ''user'' (JString ''Ann'') ''test'' 2 5)) Entities ''user''
     = Ok (Some \<lparr>re_key = ''user'', re_value = JString ''Ann'', re_source = ''test'',
                 re_timestamp = 5, re_iteration = 2\<rparr>)"
  using set_record_reads_back [OF demo_set_record, of Entities "''user''"] demo_set_record by simp

text \<open>
  (C2) No record of a context that was built by \<open>agent_context_new\<close> and changed by the
  public operations only has a key, or an object value with a top-level key, that matches a
  sensitive field pattern (FR-021).
\<close>

theorem reachable_context_holds_no_credentials:
  assumes "ctx_reachable c" and "get_category c cat = Ok recs" and "r \<in> set recs"
  shows "\<not> is_sensitive_key (re_key r) \<and> \<not> is_sensitive_value (re_value r)"
  using clean_sys.inv_reach [OF assms(1)] assms(2,3) by (auto simp: ctx_clean_def get_category_Ok)

theorem reachable_context_holds_no_credentials_witness:
  "\<exists>recs r. get_category (snd (set_record demo_ctx Entities ''user'' (JString ''Ann'') ''test'' 2 5)) Entities
       = Ok recs \<and> r \<in> set recs \<and> \<not> is_sensitive_key (re_key r) \<and> \<not> is_sensitive_value (re_value r)"
proof -
  let ?r = "\<lparr>re_key = ''user'', re_value = JString ''Ann'', re_source = ''test'',
             re_timestamp = 5, re_iteration = 2\<rparr>"
  have g: "get_category (snd (set_record demo_ctx Entities ''user'' (JString ''Ann'') ''test'' 2 5)) Entities
       = Ok [?r]"
    by (simp add: demo_set_record get_category_put_store lk_read_def)
  have "?r \<in> set [?r]" by simp
  with g reachable_context_holds_no_credentials [OF demo_set_reachable g this] show ?thesis by blast
qed

text \<open>
  (C13) A completed or terminated context is frozen: after any sequence of public operations
  its categories, extensions, audit log, response and lifecycle state are what they were.
\<close>

theorem finished_context_is_frozen:
  assumes "finished c" and "ctx_step\<^sup>*\<^sup>* c c'"
  shows "ac_categories c' = ac_categories c \<and> ac_extensions c' = ac_extensions c
    \<and> ac_audit_log c' = ac_audit_log c \<and> ac_response_payload c' = ac_response_payload c
    \<and> ac_lifecycle_state c' = ac_lifecycle_state c"
  using frozen_sys.inv_steps [OF assms(2), of c] assms(1) by (simp add: frozen_part_def)

theorem finished_context_is_frozen_witness:
  "let c = snd (set_lifecycle_state demo_ctx Completed);
       c' = snd (set_record c Entities ''user'' (JString ''Ann'') ''test'' 2 5)
   in finished c \<and> ctx_step c c' \<and> ac_categories c' = ac_categories c"
proof -
  let ?c = "snd (set_lifecycle_state demo_ctx Completed)"
  let ?c' = "snd (set_record ?c Entities ''user'' (JString ''Ann'') ''test'' 2 5)"
  have f: "finished ?c" by (simp add: set_lifecycle_state_def finished_def)
  have s: "ctx_step ?c ?c'"
    using ctx_step_exec [of ?c "OpSetRecord Entities ''user'' (JString ''Ann'') ''test'' 2 5"] by simp
  have "ac_categories ?c' = ac_categories ?c"
    using finished_context_is_frozen [OF f r_into_rtranclp [of ctx_step, OF s]] by blast
  with f s show ?thesis by (simp add: Let_def)
qed

text \<open>
  (C36) On a reachable context no public operation panics (no lock is ever poisoned, every
  category is present), and an operation that returns an error leaves the context as it was.
\<close>

theorem context_operations_never_panic:
  assumes "ctx_reachable c" and "ctx_exec op c = (r, c')"
  shows "r \<noteq> Panic \<and> (\<forall>e. r = Err e \<longrightarrow> c' = c) \<and> (\<exists>recs. get_category c cat = Ok recs)"
proof -
  have s: "ctx_sound c" using clean_sys.inv_reach [OF assms(1)] by simp
  have "\<exists>recs. get_category c cat = Ok recs"
    using s unfolding ctx_sound_def get_category_Ok by metis
  then show ?thesis using ctx_exec_sound [OF s assms(2)] by auto
qed

theorem context_operations_never_panic_witness:
  "fst (ctx_exec (OpSetRecord Entities ''user'' (JString ''Ann'') ''test'' 2 5) demo_ctx) \<noteq> Panic"
  using context_operations_never_panic [OF demo_reachable, of
    "OpSetRecord Entities ''user'' (JString ''Ann'') ''test'' 2 5"] demo_set_record by simp

end
