(* ===== verification/Context_Merge.thy ===== *)
theory Context_Merge
  imports Context_Core
begin

text \<open>
  Delegation to sub-agents (merge.rs) and the read-only view (read\_view.rs). A fork copies
  the parent's records into a fresh context and restricts what the child may write; a merge
  writes the child's records back under keys prefixed with the delegation chain. Both walk
  record lists with \<^verbatim>\<open>let _ = set_record(..)\<close>: an error is dropped, a panic unwinds.
\<close>

section \<open>read\_view.rs\<close>

record read_view =
  rv_user_input :: user_input
  rv_categories :: "category \<rightharpoonup> record_entry list"
  rv_extensions :: "extension_content list"
  rv_lifecycle_state :: lifecycle

definition collect_categories :: "agent_context \<Rightarrow> category \<rightharpoonup> record_entry list" where
  "collect_categories c =
     fold (\<lambda>cat m. case get_category c cat of Ok recs \<Rightarrow> m(cat \<mapsto> recs) | _ \<Rightarrow> m)
       all_categories Map.empty"

definition read_view_new :: "agent_context \<Rightarrow> read_view" where
  "read_view_new c =
     \<lparr>rv_user_input = ac_user_input c,
      rv_categories = collect_categories c,
      rv_extensions = get_extensions c,
      rv_lifecycle_state = lifecycle_state c\<rparr>"

definition rv_get_category :: "read_view \<Rightarrow> category \<Rightarrow> record_entry list option" where
  "rv_get_category v cat = rv_categories v cat"

definition rv_get_record :: "read_view \<Rightarrow> category \<Rightarrow> string \<Rightarrow> record_entry option" where
  "rv_get_record v cat k =
     (case rv_categories v cat of None \<Rightarrow> None | Some recs \<Rightarrow> find_key re_key recs k)"

lemma collect_categories_eq:
  "collect_categories c cat = (case get_category c cat of Ok recs \<Rightarrow> Some recs | _ \<Rightarrow> None)"
proof -
  have walk: "fold (\<lambda>cat m. case get_category c cat of Ok recs \<Rightarrow> m(cat \<mapsto> recs) | _ \<Rightarrow> m) cats m cat =
     (if cat \<in> set cats then (case get_category c cat of Ok recs \<Rightarrow> Some recs | _ \<Rightarrow> m cat) else m cat)"
    for cats and m :: "category \<rightharpoonup> record_entry list"
    by (induction cats arbitrary: m) (auto split: result.split)
  have "cat \<in> set all_categories" by (cases cat) (simp_all add: all_categories_def)
  then show ?thesis by (simp add: collect_categories_def walk split: result.split)
qed

lemma rv_get_record_eq:
  "rv_get_record (read_view_new c) cat k = (case get_record c cat k of Ok r \<Rightarrow> r | _ \<Rightarrow> None)"
  by (simp add: rv_get_record_def read_view_new_def collect_categories_eq get_record_def
      split: result.split)

section \<open>merge.rs\<close>

record subagent_context =
  sub_context :: agent_context
  sub_subagent_id :: string
  sub_blacklist :: "category list"
  sub_delegation_chain :: string

text \<open>The walk over a record list: errors of the writes are dropped, a panic stops it.\<close>

fun store_all ::
  "(record_entry \<Rightarrow> agent_context \<Rightarrow> unit ctx_result \<times> agent_context)
   \<Rightarrow> record_entry list \<Rightarrow> agent_context \<Rightarrow> unit ctx_result \<times> agent_context" where
  "store_all w [] c = (Ok (), c)"
| "store_all w (r # rs) c =
     (case w r c of
        (Panic, c') \<Rightarrow> (Panic, c')
      | (_, c') \<Rightarrow> store_all w rs c')"

fun for_categories ::
  "(category \<Rightarrow> agent_context \<Rightarrow> unit ctx_result \<times> agent_context)
   \<Rightarrow> category list \<Rightarrow> agent_context \<Rightarrow> unit ctx_result \<times> agent_context" where
  "for_categories f [] c = (Ok (), c)"
| "for_categories f (cat # cats) c =
     (case f cat c of
        (Panic, c') \<Rightarrow> (Panic, c')
      | (_, c') \<Rightarrow> for_categories f cats c')"

definition copy_record ::
  "agent_context \<Rightarrow> timestamp \<Rightarrow> category \<Rightarrow> record_entry \<Rightarrow> agent_context
   \<Rightarrow> unit ctx_result \<times> agent_context" where
  "copy_record parent now cat r child =
     set_record child cat (re_key r) (re_value r) (''fork-from-parent-'' @ ac_context_id parent)
       (re_iteration r) now"

definition copy_category ::
  "agent_context \<Rightarrow> timestamp \<Rightarrow> category \<Rightarrow> agent_context \<Rightarrow> unit ctx_result \<times> agent_context" where
  "copy_category parent now cat child =
     (case get_category parent cat of
        Ok recs \<Rightarrow> store_all (copy_record parent now cat) recs child
      | _ \<Rightarrow> (Ok (), child))"

definition fork_chain :: "agent_context \<Rightarrow> string \<Rightarrow> string" where
  "fork_chain c sid =
     (if ac_delegation_chain c = '''' then sid @ ''/'' else ac_delegation_chain c @ sid @ ''/'')"

definition fork_for_subagent ::
  "agent_context \<Rightarrow> string \<Rightarrow> category list \<Rightarrow> timestamp \<Rightarrow> subagent_context ctx_result" where
  "fork_for_subagent c sid blacklist now =
     (if SubagentResults \<in> set blacklist
      then Err (InvalidBlacklist SubagentResults
        ''SubagentResults cannot be blacklisted; sub-agent must write its own results'')
      else
        let new_chain = fork_chain c sid;
            child = agent_context_new (ac_context_id c @ ''-fork'') (ac_user_input c) (ac_config c) now
        in case for_categories (copy_category c now) all_categories child of
             (Panic, _) \<Rightarrow> Panic
           | (_, child') \<Rightarrow>
               Ok \<lparr>sub_context = child'\<lparr>ac_delegation_chain := new_chain,
                                        ac_subagent_id := Some sid,
                                        ac_blacklisted_categories := Some blacklist\<rparr>,
                   sub_subagent_id = sid,
                   sub_blacklist = blacklist,
                   sub_delegation_chain = new_chain\<rparr>)"

definition subagent_fork_for_subagent ::
  "subagent_context \<Rightarrow> string \<Rightarrow> category list \<Rightarrow> timestamp \<Rightarrow> subagent_context ctx_result" where
  "subagent_fork_for_subagent s sid blacklist now =
     bind_res (fork_for_subagent (sub_context s) sid blacklist now) (\<lambda>child.
       Ok \<lparr>sub_context = sub_context child, sub_subagent_id = sid,
           sub_blacklist = sub_blacklist child,
           sub_delegation_chain = sub_delegation_chain child\<rparr>)"

definition merge_categories :: "category list" where
  "merge_categories =
     [Entities, Intentions, ToolResults, QueryResults, WorkflowResults, ReasoningResults,
      SubagentResults]"

definition parent_has :: "agent_context \<Rightarrow> category \<Rightarrow> string \<Rightarrow> bool" where
  "parent_has c cat k = (case get_record c cat k of Ok (Some _) \<Rightarrow> True | _ \<Rightarrow> False)"

definition namespaced_key :: "subagent_context \<Rightarrow> category \<Rightarrow> bool \<Rightarrow> string \<Rightarrow> string" where
  "namespaced_key s cat conflict k =
     (if conflict
      then sub_delegation_chain s @ category_display cat @ ''/'' @ k @ ''/'' @ sub_subagent_id s
      else sub_delegation_chain s @ k)"

definition merge_record ::
  "subagent_context \<Rightarrow> timestamp \<Rightarrow> category \<Rightarrow> record_entry \<Rightarrow> agent_context
   \<Rightarrow> unit ctx_result \<times> agent_context" where
  "merge_record s now cat r c =
     set_record c cat (namespaced_key s cat (parent_has c cat (re_key r)) (re_key r))
       (re_value r) (''subagent-'' @ sub_subagent_id s) (re_iteration r) now"

definition merge_category ::
  "subagent_context \<Rightarrow> timestamp \<Rightarrow> category \<Rightarrow> agent_context \<Rightarrow> unit ctx_result \<times> agent_context" where
  "merge_category s now cat c =
     store_all (merge_record s now cat)
       (case get_category (sub_context s) cat of Ok recs \<Rightarrow> recs | _ \<Rightarrow> []) c"

text \<open>
  The loop over the sub-agent's audit records has an empty body: nothing of the child's
  audit log reaches the parent.
\<close>

definition merge_subagent_context ::
  "agent_context \<Rightarrow> subagent_context \<Rightarrow> timestamp \<Rightarrow> unit ctx_result \<times> agent_context" where
  "merge_subagent_context c s now =
     (let current_state = lifecycle_state c
      in if current_state \<noteq> Active \<and> current_state \<noteq> Merging
         then (Err (MergeFailed (''Cannot merge sub-agent context in state ''
                                 @ lifecycle_display current_state)), c)
         else case for_categories (merge_category s now) merge_categories c of
                (Panic, c') \<Rightarrow> (Panic, c')
              | (_, c') \<Rightarrow> (Ok (), c'))"

section \<open>Walks\<close>

text \<open>A property that every write of a walk keeps is kept by the walk.\<close>

lemma store_all_invariant:
  assumes "store_all w rs c = (r, c')" "P c"
    and "\<And>e c r c'. e \<in> set rs \<Longrightarrow> P c \<Longrightarrow> w e c = (r, c') \<Longrightarrow> P c' \<and> r \<noteq> Panic"
  shows "P c' \<and> r = Ok ()"
  using assms
proof (induction rs arbitrary: c)
  case (Cons e rs)
  obtain r1 c1 where w: "w e c = (r1, c1)" by (cases "w e c")
  have c1: "P c1" "r1 \<noteq> Panic" using Cons.prems(2) Cons.prems(3) [of e c r1 c1] w by auto
  have rest: "store_all w rs c1 = (r, c')" using Cons.prems(1) w c1 by (cases r1) auto
  have "\<And>e' d q d'. e' \<in> set rs \<Longrightarrow> P d \<Longrightarrow> w e' d = (q, d') \<Longrightarrow> P d' \<and> q \<noteq> Panic"
    by (rule Cons.prems(3)) auto
  then show ?case by (rule Cons.IH [OF rest c1(1)])
qed simp

lemma for_categories_invariant:
  assumes "for_categories f cats c = (r, c')" "P c"
    and "\<And>cat c r c'. cat \<in> set cats \<Longrightarrow> P c \<Longrightarrow> f cat c = (r, c') \<Longrightarrow> P c' \<and> r \<noteq> Panic"
  shows "P c' \<and> r = Ok ()"
  using assms
proof (induction cats arbitrary: c)
  case (Cons cat cats)
  obtain r1 c1 where w: "f cat c = (r1, c1)" by (cases "f cat c")
  have c1: "P c1" "r1 \<noteq> Panic" using Cons.prems(2) Cons.prems(3) [of cat c r1 c1] w by auto
  have rest: "for_categories f cats c1 = (r, c')" using Cons.prems(1) w c1 by (cases r1) auto
  have "\<And>cat' d q d'. cat' \<in> set cats \<Longrightarrow> P d \<Longrightarrow> f cat' d = (q, d') \<Longrightarrow> P d' \<and> q \<noteq> Panic"
    by (rule Cons.prems(3)) auto
  then show ?case by (rule Cons.IH [OF rest c1(1)])
qed simp

section \<open>Single writes on sound contexts\<close>

definition writes_to :: "agent_context \<Rightarrow> category \<Rightarrow> bool" where
  "writes_to c cat \<longleftrightarrow> ctx_sound c \<and> writable c \<and> \<not> blacklisted c cat"

lemma set_record_accepts:
  assumes "writes_to c cat" "\<not> is_sensitive_key k" "\<not> is_sensitive_value v"
  shows "\<exists>c'. set_record c cat k v src it now = (Ok (), c')"
proof -
  have g: "write_guard c cat k v = Ok ()" using assms by (simp add: writes_to_def)
  have s: "ctx_sound c" using assms(1) by (simp add: writes_to_def)
  obtain st where "ac_categories c cat = Some st" "\<not> lk_poisoned (cs_lock st)"
    using s by (auto simp: ctx_sound_def)
  then show ?thesis using ctx_sound_simps(2) [OF s]
    by (auto simp: set_record_def g Let_def lk_read_def split: option.splits)
qed

lemma set_record_rejects:
  "is_sensitive_key k \<or> is_sensitive_value v \<Longrightarrow> \<exists>e. set_record c cat k v src it now = (Err e, c)"
  by (cases "write_guard c cat k v") (auto simp: set_record_def)

lemma set_record_keeps_lifecycle:
  "set_record c cat k v src it now = (r, c') \<Longrightarrow> ac_lifecycle_state c' = ac_lifecycle_state c"
  by (auto simp: set_record_def Let_def split: result.splits option.splits if_splits)

lemma set_record_keeps:
  assumes "ctx_sound c" "set_record c cat k v src it now = (r, c')"
  shows "ctx_sound c'" "r \<noteq> Panic" "writable c' = writable c"
    "blacklisted c' cat' = blacklisted c cat'" "fixed_part c' = fixed_part c"
    "cat' \<noteq> cat \<or> k' \<noteq> k \<Longrightarrow> get_record c' cat' k' = get_record c cat' k'"
    "cat' \<noteq> cat \<Longrightarrow> get_category c' cat' = get_category c cat'"
proof -
  have step: "ctx_step c c'"
    using assms(2) by (intro ctx_stepI [of "OpSetRecord cat k v src it now" c r c']) simp
  show "ctx_sound c'" "r \<noteq> Panic" using set_record_sound [OF assms] by auto
  show "writable c' = writable c"
    using set_record_keeps_lifecycle [OF assms(2)] by (simp add: writable_def lifecycle_state_def)
  show "blacklisted c' cat' = blacklisted c cat'" by (rule blacklisted_step [OF step])
  show "fixed_part c' = fixed_part c" by (rule ctx_step_fixed [OF step])
  have same: "r \<noteq> Ok () \<Longrightarrow> c' = c" using set_record_sound [OF assms] by blast
  show "get_record c' cat' k' = get_record c cat' k'" if "cat' \<noteq> cat \<or> k' \<noteq> k"
    using that same set_record_get_record [of c cat k v src it now "()" c'] assms(2)
    by (cases "r = Ok ()") auto
  show "get_category c' cat' = get_category c cat'" if "cat' \<noteq> cat"
    using that same set_record_get_category [of c cat k v src it now "()" c'] assms(2)
    by (cases "r = Ok ()") auto
qed

lemma writes_to_set_record:
  "writes_to c cat' \<Longrightarrow> set_record c cat k v src it now = (r, c') \<Longrightarrow> writes_to c' cat'"
  using set_record_keeps [of c cat k v src it now r c'] by (simp add: writes_to_def)

section \<open>Fork\<close>

text \<open>
  The fork and the restore from a snapshot write whole record lists into a fresh context;
  both are walks whose writes keep key, value and iteration and set the source by \<open>src\<close>.
\<close>

definition imported :: "(record_entry \<Rightarrow> string) \<Rightarrow> timestamp \<Rightarrow> record_entry \<Rightarrow> record_entry" where
  "imported src now r = r\<lparr>re_source := src r, re_timestamp := now\<rparr>"

lemma imported_eq:
  "\<lparr>re_key = re_key r, re_value = re_value r, re_source = src r, re_timestamp = now,
    re_iteration = re_iteration r\<rparr> = imported src now r"
  by (simp add: imported_def)

lemma imported_simps [simp]:
  "re_key (imported src now r) = re_key r" "re_value (imported src now r) = re_value r"
  "re_iteration (imported src now r) = re_iteration r"
  by (simp_all add: imported_def)

abbreviation import_record ::
  "(record_entry \<Rightarrow> string) \<Rightarrow> timestamp \<Rightarrow> category \<Rightarrow> record_entry \<Rightarrow> agent_context
   \<Rightarrow> unit ctx_result \<times> agent_context" where
  "import_record src now cat r c \<equiv>
     set_record c cat (re_key r) (re_value r) (src r) (re_iteration r) now"

lemma import_walk:
  assumes "store_all (import_record src now cat) recs c = (q, c')" "\<And>cat'. writes_to c cat'"
    "\<And>e. e \<in> set recs \<Longrightarrow> \<not> is_sensitive_key (re_key e) \<and> \<not> is_sensitive_value (re_value e)"
    "get_category c cat = Ok xs"
  shows "q = Ok () \<and> get_category c' cat = Ok (fold (upsert re_key) (map (imported src now) recs) xs)
    \<and> (\<forall>cat'. cat' \<noteq> cat \<longrightarrow> get_category c' cat' = get_category c cat')
    \<and> (\<forall>cat'. writes_to c' cat') \<and> fixed_part c' = fixed_part c"
  using assms
proof (induction recs arbitrary: c xs)
  case (Cons e recs)
  obtain c1 where w: "import_record src now cat e c = (Ok (), c1)"
    using set_record_accepts Cons.prems(2) Cons.prems(3) [of e] by (meson list.set_intros(1))
  have s: "ctx_sound c" using Cons.prems(2) by (simp add: writes_to_def)
  have c1: "get_category c1 cat = Ok (upsert re_key (imported src now e) xs)"
    using set_record_get_category [OF w, of cat] Cons.prems(4) by (simp only: imported_eq bind_res.simps refl if_True)
  have rest: "store_all (import_record src now cat) recs c1 = (q, c')" using w Cons.prems(1) by simp
  have "\<And>cat'. writes_to c1 cat'" using writes_to_set_record [OF Cons.prems(2) w] .
  from Cons.IH [OF rest this Cons.prems(3) c1] set_record_keeps(5,7) [OF s w]
  show ?case by simp
qed auto

abbreviation copied :: "agent_context \<Rightarrow> timestamp \<Rightarrow> record_entry \<Rightarrow> record_entry" where
  "copied parent \<equiv> imported (\<lambda>_. ''fork-from-parent-'' @ ac_context_id parent)"

lemma copy_category_spec:
  assumes "copy_category p now cat c = (q, c')" "\<And>cat'. writes_to c cat'" "ctx_sound p" "ctx_clean p"
    "get_category p cat = Ok recs" "get_category c cat = Ok []"
  shows "q = Ok () \<and> get_category c' cat = Ok (fold (upsert re_key) (map (copied p now) recs) [])
    \<and> (\<forall>cat'. cat' \<noteq> cat \<longrightarrow> get_category c' cat' = get_category c cat')
    \<and> (\<forall>cat'. writes_to c' cat') \<and> fixed_part c' = fixed_part c"
proof (rule import_walk [OF _ assms(2)])
  have "copy_record p now cat = import_record (\<lambda>_. ''fork-from-parent-'' @ ac_context_id p) now cat"
    by (intro ext) (simp only: copy_record_def)
  then show "store_all (import_record (\<lambda>_. ''fork-from-parent-'' @ ac_context_id p) now cat) recs c = (q, c')"
    using assms(1,5) by (simp only: copy_category_def result.case)
  show "\<not> is_sensitive_key (re_key e) \<and> \<not> is_sensitive_value (re_value e)" if "e \<in> set recs" for e
    using assms(4,5) that by (auto simp: ctx_clean_def get_category_Ok)
  show "get_category c cat = Ok []" by (rule assms(6))
qed

lemma fork_walk:
  assumes "for_categories (copy_category p now) cats c = (q, c')" "\<And>cat'. writes_to c cat'"
    "ctx_sound p" "ctx_clean p" "distinct cats"
    "\<And>cat. cat \<in> set cats \<Longrightarrow> get_category c cat = Ok []"
  shows "q = Ok () \<and> (\<forall>cat'. writes_to c' cat') \<and> fixed_part c' = fixed_part c
    \<and> (\<forall>cat recs. cat \<in> set cats \<longrightarrow> get_category p cat = Ok recs \<longrightarrow>
          get_category c' cat = Ok (fold (upsert re_key) (map (copied p now) recs) []))
    \<and> (\<forall>cat. cat \<notin> set cats \<longrightarrow> get_category c' cat = get_category c cat)"
  using assms
proof (induction cats arbitrary: c)
  case (Cons cat cats)
  obtain q1 c1 where w: "copy_category p now cat c = (q1, c1)" by (cases "copy_category p now cat c")
  obtain recs where recs: "get_category p cat = Ok recs"
    using Cons.prems(3) by (metis ctx_sound_def get_category_Ok)
  have c1: "q1 = Ok ()" "get_category c1 cat = Ok (fold (upsert re_key) (map (copied p now) recs) [])"
    "\<And>cat'. cat' \<noteq> cat \<Longrightarrow> get_category c1 cat' = get_category c cat'"
    "\<And>cat'. writes_to c1 cat'" "fixed_part c1 = fixed_part c"
    using copy_category_spec [OF w Cons.prems(2,3,4) recs] Cons.prems(6) by simp_all
  have rest: "for_categories (copy_category p now) cats c1 = (q, c')"
    using Cons.prems(1) w c1(1) by simp
  have ne: "cat \<notin> set cats" "distinct cats" using Cons.prems(5) by simp_all
  have empty: "get_category c1 k = Ok []" if "k \<in> set cats" for k
    using that ne c1(3) Cons.prems(6) by (metis list.set_intros(2))
  from Cons.IH [OF rest c1(4) Cons.prems(3,4) ne(2) empty] c1 ne recs show ?case by auto
qed auto

lemma fork_Ok:
  assumes "ctx_sound c" "ctx_clean c" "fork_for_subagent c sid bl now = Ok s"
  shows "sub_subagent_id s = sid \<and> sub_blacklist s = bl \<and> sub_delegation_chain s = fork_chain c sid
    \<and> ac_delegation_chain (sub_context s) = fork_chain c sid
    \<and> ac_user_input (sub_context s) = ac_user_input c
    \<and> SubagentResults \<notin> set bl \<and> ctx_sound (sub_context s) \<and> writable (sub_context s)
    \<and> (\<forall>cat. blacklisted (sub_context s) cat \<longleftrightarrow> cat \<in> set bl)
    \<and> (\<forall>cat recs. get_category c cat = Ok recs \<longrightarrow>
         get_category (sub_context s) cat = Ok (fold (upsert re_key) (map (copied c now) recs) []))"
proof -
  let ?child = "agent_context_new (ac_context_id c @ ''-fork'') (ac_user_input c) (ac_config c) now"
  obtain q child where w: "for_categories (copy_category c now) all_categories ?child = (q, child)"
    by (cases "for_categories (copy_category c now) all_categories ?child")
  have new: "ctx_sound ?child" "writable ?child" "\<not> blacklisted ?child cat" for cat
    by (auto simp: ctx_sound_def writable_def lifecycle_state_def blacklisted_def)
  have d: "distinct all_categories" "set all_categories = UNIV"
  proof -
    show "distinct all_categories" by (simp add: all_categories_def)
    have "cat \<in> set all_categories" for cat by (cases cat) (simp_all add: all_categories_def)
    then show "set all_categories = UNIV" by blast
  qed
  have walk: "q = Ok ()" "fixed_part child = fixed_part ?child" "writes_to child Entities"
    "\<And>cat recs. get_category c cat = Ok recs \<Longrightarrow>
       get_category child cat = Ok (fold (upsert re_key) (map (copied c now) recs) [])"
    using fork_walk [OF w _ assms(1,2) d(1)] new d(2)
    by (simp_all add: writes_to_def get_category_Ok)
  have nb: "SubagentResults \<notin> set bl" using assms(3) by (auto simp: fork_for_subagent_def)
  have s: "s = \<lparr>sub_context = child\<lparr>ac_delegation_chain := fork_chain c sid, ac_subagent_id := Some sid,
                     ac_blacklisted_categories := Some bl\<rparr>,
                sub_subagent_id = sid, sub_blacklist = bl, sub_delegation_chain = fork_chain c sid\<rparr>"
    using assms(3) nb w walk(1) by (simp add: fork_for_subagent_def Let_def)
  have g: "get_category (sub_context s) cat = get_category child cat" for cat
    by (simp add: s get_category_def)
  have "ctx_sound (sub_context s)" "writable (sub_context s)"
    using walk(3) by (simp_all add: s writes_to_def ctx_sound_def writable_def lifecycle_state_def)
  then show ?thesis using nb walk(2,4) by (simp add: s g blacklisted_def fixed_part_def get_category_def)
qed

lemma fork_never_panics:
  assumes "ctx_sound c" "ctx_clean c"
  shows "fork_for_subagent c sid bl now \<noteq> Panic"
    "SubagentResults \<notin> set bl \<Longrightarrow> \<exists>s. fork_for_subagent c sid bl now = Ok s"
proof -
  let ?child = "agent_context_new (ac_context_id c @ ''-fork'') (ac_user_input c) (ac_config c) now"
  obtain q child where w: "for_categories (copy_category c now) all_categories ?child = (q, child)"
    by (cases "for_categories (copy_category c now) all_categories ?child")
  have "distinct all_categories" by (simp add: all_categories_def)
  then have "q = Ok ()" using fork_walk [OF w _ assms]
    by (simp add: writes_to_def ctx_sound_def writable_def lifecycle_state_def blacklisted_def
        get_category_Ok)
  then show "fork_for_subagent c sid bl now \<noteq> Panic"
    "SubagentResults \<notin> set bl \<Longrightarrow> \<exists>s. fork_for_subagent c sid bl now = Ok s"
    using w by (simp_all add: fork_for_subagent_def Let_def)
qed

section \<open>Merge\<close>

lemma namespaced_key_prefix [simp]: "starts_with (sub_delegation_chain s) (namespaced_key s cat b k)"
  by (simp add: namespaced_key_def)

text \<open>
  Keys without a slash stay apart under the two naming schemes, so no record of the child
  overwrites another one of the child.
\<close>

lemma namespaced_key_inj:
  assumes "CHR ''/'' \<notin> set k1" "CHR ''/'' \<notin> set k2"
    and "namespaced_key s cat b1 k1 = namespaced_key s cat b2 k2"
  shows "k1 = k2"
proof (cases "b1 = b2")
  case True
  with assms(3) show ?thesis by (auto simp: namespaced_key_def split: if_splits)
next
  case False
  with assms(3) have "k1 = category_display cat @ ''/'' @ k2 @ ''/'' @ sub_subagent_id s
      \<or> k2 = category_display cat @ ''/'' @ k1 @ ''/'' @ sub_subagent_id s"
    by (auto simp: namespaced_key_def split: if_splits)
  then have "CHR ''/'' \<in> set k1 \<or> CHR ''/'' \<in> set k2" by auto
  with assms show ?thesis by blast
qed

lemma namespaced_key_foreign:
  "CHR ''/'' \<in> set (sub_delegation_chain s) \<Longrightarrow> CHR ''/'' \<notin> set k \<Longrightarrow> namespaced_key s cat b k' \<noteq> k"
  by (auto simp: namespaced_key_def)

lemma merge_walk:
  assumes "store_all (merge_record s now cat) recs c = (q, c')" "writes_to c cat"
    and "CHR ''/'' \<in> set (sub_delegation_chain s)"
    and "\<And>e. e \<in> set recs \<Longrightarrow> CHR ''/'' \<notin> set (re_key e)"
    and "distinct (map re_key recs)"
    and "\<And>e. e \<in> set recs \<Longrightarrow> parent_has c cat (re_key e) = ph (re_key e)"
  shows "(\<forall>e \<in> set recs. \<not> is_sensitive_key (namespaced_key s cat (ph (re_key e)) (re_key e))
             \<and> \<not> is_sensitive_value (re_value e) \<longrightarrow>
           get_record c' cat (namespaced_key s cat (ph (re_key e)) (re_key e)) =
             Ok (Some \<lparr>re_key = namespaced_key s cat (ph (re_key e)) (re_key e), re_value = re_value e,
                       re_source = ''subagent-'' @ sub_subagent_id s, re_timestamp = now,
                       re_iteration = re_iteration e\<rparr>))
    \<and> (\<forall>k. k \<notin> (\<lambda>e. namespaced_key s cat (ph (re_key e)) (re_key e)) ` set recs \<longrightarrow>
           get_record c' cat k = get_record c cat k)"
  using assms
proof (induction recs arbitrary: c)
  case (Cons e recs)
  let ?nk = "\<lambda>e. namespaced_key s cat (ph (re_key e)) (re_key e)"
  obtain r1 c1 where w: "set_record c cat (?nk e) (re_value e) (''subagent-'' @ sub_subagent_id s)
      (re_iteration e) now = (r1, c1)"
    by (metis prod.exhaust)
  have snd_c: "ctx_sound c" using Cons.prems(2) by (simp add: writes_to_def)
  have pe: "parent_has c cat (re_key e) = ph (re_key e)" using Cons.prems(6) by simp
  have rest: "store_all (merge_record s now cat) recs c1 = (q, c')"
  proof -
    have "merge_record s now cat e c = (r1, c1)" using w pe by (simp only: merge_record_def)
    then show ?thesis using Cons.prems(1) set_record_keeps(2) [OF snd_c w] by (cases r1) simp_all
  qed
  have foreign: "?nk e \<noteq> re_key e'" if "e' \<in> set recs" for e'
    using namespaced_key_foreign [OF Cons.prems(3), of "re_key e'"] Cons.prems(4) [of e'] that by simp
  have ph': "parent_has c1 cat (re_key e') = ph (re_key e')" if "e' \<in> set recs" for e'
    using set_record_keeps(6) [OF snd_c w, of cat "re_key e'"] foreign [OF that]
      Cons.prems(6) [of e'] that by (simp add: parent_has_def)
  have IH: "(\<forall>e \<in> set recs. \<not> is_sensitive_key (?nk e) \<and> \<not> is_sensitive_value (re_value e) \<longrightarrow>
           get_record c' cat (?nk e) =
             Ok (Some \<lparr>re_key = ?nk e, re_value = re_value e,
                       re_source = ''subagent-'' @ sub_subagent_id s, re_timestamp = now,
                       re_iteration = re_iteration e\<rparr>))
    \<and> (\<forall>k. k \<notin> ?nk ` set recs \<longrightarrow> get_record c' cat k = get_record c1 cat k)"
    by (rule Cons.IH [OF rest writes_to_set_record [OF Cons.prems(2) w] Cons.prems(3)])
       (use Cons.prems(4,5) ph' in auto)
  have fresh: "?nk e \<notin> ?nk ` set recs"
  proof
    assume "?nk e \<in> ?nk ` set recs"
    then obtain e' where e': "e' \<in> set recs" "?nk e = ?nk e'" by blast
    then have "re_key e = re_key e'" using namespaced_key_inj Cons.prems(4) by (meson list.set_intros)
    then show False using e'(1) Cons.prems(5) by auto
  qed
  have here: "get_record c' cat (?nk e) =
             Ok (Some \<lparr>re_key = ?nk e, re_value = re_value e,
                       re_source = ''subagent-'' @ sub_subagent_id s, re_timestamp = now,
                       re_iteration = re_iteration e\<rparr>)"
    if "\<not> is_sensitive_key (?nk e)" "\<not> is_sensitive_value (re_value e)"
  proof -
    have "set_record c cat (?nk e) (re_value e) (''subagent-'' @ sub_subagent_id s)
      (re_iteration e) now = (Ok (), c1)"
      using set_record_accepts [OF Cons.prems(2) that, of "''subagent-'' @ sub_subagent_id s"
          "re_iteration e" now] w by (metis Pair_inject)
    then have "get_record c1 cat (?nk e) =
             Ok (Some \<lparr>re_key = ?nk e, re_value = re_value e,
                       re_source = ''subagent-'' @ sub_subagent_id s, re_timestamp = now,
                       re_iteration = re_iteration e\<rparr>)"
      by (simp only: set_record_get_record refl if_True simp_thms)
    then show ?thesis using conjunct2 [OF IH, rule_format, OF fresh] by (rule trans [rotated])
  qed
  have frame: "get_record c' cat k = get_record c cat k" if "k \<notin> ?nk ` set (e # recs)" for k
    using that IH set_record_keeps(6) [OF snd_c w, of cat k] by auto
  show ?case
    by (intro conjI ballI impI allI)
       (use here frame in \<open>auto dest: bspec [OF conjunct1 [OF IH]] simp del: append.simps\<close>)
qed simp

text \<open>
  A walk over categories that changes one category at a time: what it does to one of them
  is what its own step does.
\<close>

lemma for_categories_local:
  assumes "for_categories f cats c = (q, c')" "I c" "distinct cats" "cat \<in> set cats"
    and keep: "\<And>k d r d'. k \<in> set cats \<Longrightarrow> I d \<Longrightarrow> f k d = (r, d') \<Longrightarrow> I d' \<and> r \<noteq> Panic"
    and frame: "\<And>k d r d'. k \<in> set cats \<Longrightarrow> I d \<Longrightarrow> f k d = (r, d') \<Longrightarrow> k \<noteq> cat \<Longrightarrow> view d' = view d"
  shows "\<exists>d r d'. I d \<and> view d = view c \<and> f cat d = (r, d') \<and> view c' = view d'"
  using assms
proof (induction cats arbitrary: c)
  case (Cons k cats)
  obtain r1 c1 where w: "f k c = (r1, c1)" by (cases "f k c")
  have c1: "I c1" "r1 \<noteq> Panic" using Cons.prems(2) Cons.prems(5) [of k c r1 c1] w by auto
  have rest: "for_categories f cats c1 = (q, c')" using Cons.prems(1) w c1 by (cases r1) auto
  have keep': "\<And>k d r d'. k \<in> set cats \<Longrightarrow> I d \<Longrightarrow> f k d = (r, d') \<Longrightarrow> I d' \<and> r \<noteq> Panic"
    by (rule Cons.prems(5)) auto
  have frame': "\<And>k d r d'. k \<in> set cats \<Longrightarrow> I d \<Longrightarrow> f k d = (r, d') \<Longrightarrow> k \<noteq> cat \<Longrightarrow> view d' = view d"
    by (rule Cons.prems(6)) auto
  show ?case
  proof (cases "k = cat")
    case True
    have "view c' = view c1"
      using for_categories_invariant [OF rest, of "\<lambda>d. I d \<and> view d = view c1"] c1(1) keep' frame'
        Cons.prems(3) True by (metis distinct.simps(2))
    then show ?thesis using Cons.prems(2) w True by blast
  next
    case False
    then have cat: "cat \<in> set cats" "distinct cats" using Cons.prems(3,4) by auto
    have "view c1 = view c" using Cons.prems(2) Cons.prems(6) [of k c r1 c1] w False by simp
    then show ?thesis using Cons.IH [OF rest c1(1) cat(2,1) keep' frame'] by simp
  qed
qed simp

lemma merge_category_keep:
  assumes "ctx_sound c" "merge_category s now cat c = (r, c')"
  shows "ctx_sound c'" "r = Ok ()" "writable c' = writable c"
    "blacklisted c' cat' = blacklisted c cat'"
    "cat' \<noteq> cat \<or> \<not> starts_with (sub_delegation_chain s) k \<Longrightarrow> get_record c' cat' k = get_record c cat' k"
proof -
  let ?P = "\<lambda>d. ctx_sound d \<and> writable d = writable c \<and> (\<forall>cat'. blacklisted d cat' = blacklisted c cat')
     \<and> (\<forall>cat' k. cat' \<noteq> cat \<or> \<not> starts_with (sub_delegation_chain s) k \<longrightarrow> get_record d cat' k = get_record c cat' k)"
  have "?P c' \<and> r = Ok ()"
  proof (rule store_all_invariant [where P = ?P])
    show "store_all (merge_record s now cat)
       (case get_category (sub_context s) cat of Ok recs \<Rightarrow> recs | _ \<Rightarrow> []) c = (r, c')"
      using assms(2) by (simp add: merge_category_def)
  next
    fix e d r d'
    assume P: "?P d" and w: "merge_record s now cat e d = (r, d')"
    note keeps = set_record_keeps [OF conjunct1 [OF P] w [unfolded merge_record_def]]
    have "namespaced_key s cat (parent_has d cat (re_key e)) (re_key e) \<noteq> k"
      if "\<not> starts_with (sub_delegation_chain s) k" for k
      using that namespaced_key_prefix by metis
    then show "?P d' \<and> r \<noteq> Panic" using keeps P by metis
  qed (use assms(1) in simp)
  then show "ctx_sound c'" "r = Ok ()" "writable c' = writable c"
    "blacklisted c' cat' = blacklisted c cat'"
    "cat' \<noteq> cat \<or> \<not> starts_with (sub_delegation_chain s) k \<Longrightarrow> get_record c' cat' k = get_record c cat' k"
    by blast+
qed

lemma merge_writable:
  assumes "ctx_sound c" "merge_subagent_context c s now = (r, c')"
  shows "if writable c then for_categories (merge_category s now) merge_categories c = (Ok (), c') \<and> r = Ok ()
         else c' = c \<and> (\<exists>m. r = Err (MergeFailed m))"
proof (cases "writable c")
  case True
  obtain q d where w: "for_categories (merge_category s now) merge_categories c = (q, d)"
    by (cases "for_categories (merge_category s now) merge_categories c")
  have "q = Ok ()"
    using for_categories_invariant [OF w, of ctx_sound] assms(1) merge_category_keep(1,2) by blast
  then show ?thesis using assms(2) True w
    by (auto simp: merge_subagent_context_def writable_def Let_def)
next
  case False
  then show ?thesis using assms(2)
    by (auto simp: merge_subagent_context_def writable_def Let_def split: if_splits)
qed

section \<open>Main properties\<close>

lemma is_sensitive_key_append:
  assumes "\<And>a. a \<in> set p \<Longrightarrow> byte a < 128" "is_sensitive_key p"
  shows "is_sensitive_key (p @ k)"
proof -
  have "to_lowercase (p @ k) = to_lowercase p @ to_lowercase k"
    using to_lowercase_ascii_append [of p k] to_lowercase_ascii_append [of p "[]"] assms(1) by simp
  moreover obtain q where "q \<in> set sensitive_field_patterns" "str_contains q (to_lowercase p)"
    using assms(2) by (auto simp: is_sensitive_key_def list_ex_iff Let_def)
  moreover have "str_contains q (to_lowercase p @ to_lowercase k)" if "str_contains q (to_lowercase p)" for q
    using that unfolding str_contains_iff by (metis append.assoc)
  ultimately show ?thesis by (auto simp: is_sensitive_key_def list_ex_iff Let_def)
qed

text \<open>A parent with one record, and a child that shares it, for the witnesses.\<close>

definition demo_parent :: agent_context where
  "demo_parent = snd (set_record demo_ctx Entities ''user'' (JString ''Ann'') ''test'' 2 5)"

definition demo_sub :: "string \<Rightarrow> subagent_context" where
  "demo_sub sid = \<lparr>sub_context = demo_parent, sub_subagent_id = sid, sub_blacklist = [],
     sub_delegation_chain = sid @ ''/''\<rparr>"

lemma demo_parent_reachable: "ctx_reachable demo_parent"
  unfolding demo_parent_def by (rule demo_set_reachable)

lemma demo_parent_categories:
  "get_category demo_parent cat = Ok (if cat = Entities then [\<lparr>re_key = ''user'',
     re_value = JString ''Ann'', re_source = ''test'', re_timestamp = 5, re_iteration = 2\<rparr>] else [])"
  by (simp add: demo_parent_def demo_set_record get_category_put_store lk_read_def)
     (simp add: get_category_def)

lemma demo_parent_entities:
  "get_category demo_parent Entities = Ok [\<lparr>re_key = ''user'', re_value = JString ''Ann'',
     re_source = ''test'', re_timestamp = 5, re_iteration = 2\<rparr>]"
  by (simp add: demo_parent_categories)

lemma demo_parent_fixed:
  "ac_user_input demo_parent = demo_input" "ac_config demo_parent = default_config"
  by (simp add: demo_parent_def demo_set_record put_store_def, simp add: demo_ctx_def)+

lemma demo_parent_has: "parent_has demo_parent Entities ''user''"
  by (simp add: parent_has_def get_record_def demo_parent_entities)

lemma demo_parent_writable: "writable demo_parent" "\<not> blacklisted demo_parent cat"
proof -
  have "ctx_sound demo_ctx" using clean_sys.inv_reach [OF demo_reachable] by simp
  from set_record_keeps(3,4) [OF this demo_set_record]
  show "writable demo_parent" "\<not> blacklisted demo_parent cat"
    by (simp_all add: demo_parent_def demo_set_record del: snd_conv) (simp_all add: demo_set_record)
qed

lemma demo_fork: "\<exists>s. fork_for_subagent demo_parent ''sub'' [Intentions] 7 = Ok s"
proof -
  have "ctx_sound demo_parent" "ctx_clean demo_parent"
    using clean_sys.inv_reach [OF demo_parent_reachable] by simp_all
  then show ?thesis by (rule fork_never_panics(2)) simp
qed

text \<open>
  (C21) Merging a sub-agent never changes a record of the parent: every record whose key does
  not start with the sub-agent's delegation chain reads as before, in every category. The
  merge does not panic, and it is refused without effect once the parent is finished.
\<close>

theorem merge_keeps_parent_records:
  assumes "ctx_reachable c" and "merge_subagent_context c s now = (r, c')"
    and "\<not> starts_with (sub_delegation_chain s) k"
  shows "get_record c' cat k = get_record c cat k \<and> r \<noteq> Panic \<and> (finished c \<longrightarrow> c' = c \<and> r \<noteq> Ok ())"
proof -
  have s: "ctx_sound c" using clean_sys.inv_reach [OF assms(1)] by simp
  note m = merge_writable [OF s assms(2)]
  show ?thesis
  proof (cases "writable c")
    case True
    then have w: "for_categories (merge_category s now) merge_categories c = (Ok (), c')" and "r = Ok ()"
      using m by simp_all
    have "get_record c' cat k = get_record c cat k"
    proof -
      let ?P = "\<lambda>d. ctx_sound d \<and> get_record d cat k = get_record c cat k"
      have "?P d' \<and> q \<noteq> Panic" if "?P d" "merge_category s now ct d = (q, d')" for ct d q d'
        using that(1) merge_category_keep(1,2) [OF _ that(2)]
          merge_category_keep(5) [OF _ that(2), of cat k] assms(3) by simp
      then show ?thesis using for_categories_invariant [OF w, of ?P] s by blast
    qed
    then show ?thesis using True \<open>r = Ok ()\<close> finished_not_writable by auto
  next
    case False
    then show ?thesis using m by auto
  qed
qed

theorem merge_keeps_parent_records_witness:
  "get_record (snd (merge_subagent_context demo_parent (demo_sub ''sub'') 9)) Entities ''user''
     = get_record demo_parent Entities ''user''"
  using merge_keeps_parent_records [OF demo_parent_reachable, of "demo_sub ''sub''" 9
      "fst (merge_subagent_context demo_parent (demo_sub ''sub'') 9)"
      "snd (merge_subagent_context demo_parent (demo_sub ''sub'') 9)" "''user''" Entities]
  by (simp add: demo_sub_def starts_with_def)

text \<open>
  Every record of a merged category reaches the parent, with its value: under the
  chain-prefixed key if the parent has no such key, under the prefixed conflict key
  \<^verbatim>\<open>chain/Category/key/id\<close> if it has. The record keys of the child are distinct and free of
  slashes, and the parent may write the category.
\<close>

theorem merge_imports_child_records:
  assumes "ctx_reachable c" and "writable c" and "\<not> blacklisted c cat" and "cat \<in> set merge_categories"
    and "merge_subagent_context c s now = (r, c')"
    and "CHR ''/'' \<in> set (sub_delegation_chain s)"
    and "get_category (sub_context s) cat = Ok recs" and "distinct (map re_key recs)"
    and "\<forall>e \<in> set recs. CHR ''/'' \<notin> set (re_key e)"
    and "e \<in> set recs" and "nk = namespaced_key s cat (parent_has c cat (re_key e)) (re_key e)"
    and "\<not> is_sensitive_key nk" and "\<not> is_sensitive_value (re_value e)"
  shows "get_record c' cat nk =
    Ok (Some \<lparr>re_key = nk, re_value = re_value e, re_source = ''subagent-'' @ sub_subagent_id s,
              re_timestamp = now, re_iteration = re_iteration e\<rparr>)"
proof -
  have s: "ctx_sound c" using clean_sys.inv_reach [OF assms(1)] by simp
  let ?I = "\<lambda>d. ctx_sound d \<and> writable d \<and> \<not> blacklisted d cat"
  have w: "for_categories (merge_category s now) merge_categories c = (Ok (), c')"
    using merge_writable [OF s assms(5)] assms(2) by simp
  have "distinct merge_categories" by (simp add: merge_categories_def)
  moreover have keep: "?I d' \<and> q \<noteq> Panic" if "?I d" "merge_category s now ct d = (q, d')" for ct d q d'
    using that(1) merge_category_keep(1-3) [OF _ that(2)]
      merge_category_keep(4) [OF _ that(2), of cat] by simp
  moreover have "get_record d' cat = get_record d cat"
    if "?I d" "merge_category s now ct d = (q, d')" "ct \<noteq> cat" for ct d q d'
    using that(1,3) merge_category_keep(5) [OF _ that(2), of cat] by auto
  ultimately obtain d r1 d' where d: "?I d" "get_record d cat = get_record c cat"
    "merge_category s now cat d = (r1, d')" "get_record c' cat = get_record d' cat"
    using for_categories_local [OF w, of ?I cat "\<lambda>d. get_record d cat"] s assms(2,3,4) by blast
  have "get_record d' cat nk = Ok (Some \<lparr>re_key = nk, re_value = re_value e,
      re_source = ''subagent-'' @ sub_subagent_id s, re_timestamp = now, re_iteration = re_iteration e\<rparr>)"
  proof -
    have walk: "store_all (merge_record s now cat) recs d = (r1, d')"
      using d(3) assms(7) by (simp only: merge_category_def result.case)
    have "writes_to d cat" using d(1) by (simp add: writes_to_def)
    moreover have "parent_has d cat k = parent_has c cat k" for k
      using d(2) by (simp add: parent_has_def fun_eq_iff)
    ultimately show ?thesis
      using merge_walk [OF walk _ assms(6) _ assms(8), of "parent_has c cat"] assms(9-13) by blast
  qed
  then show ?thesis using d(4) by (metis (lifting))
qed

lemma demo_merge_key:
  "namespaced_key (demo_sub ''sub'') Entities True ''user'' = ''sub/Entities/user/sub''"
  by (simp add: namespaced_key_def demo_sub_def)

lemma demo_merge_key_ok: "\<not> is_sensitive_key ''sub/Entities/user/sub''"
  by code_simp

theorem merge_imports_child_records_witness:
  "get_record (snd (merge_subagent_context demo_parent (demo_sub ''sub'') 9)) Entities
       ''sub/Entities/user/sub'' =
     Ok (Some \<lparr>re_key = ''sub/Entities/user/sub'', re_value = JString ''Ann'',
       re_source = ''subagent-sub'', re_timestamp = 9, re_iteration = 2\<rparr>)"
proof -
  let ?e = "\<lparr>re_key = ''user'', re_value = JString ''Ann'', re_source = ''test'', re_timestamp = 5,
    re_iteration = 2\<rparr>"
  let ?s = "demo_sub ''sub''"
  have key: "''sub/Entities/user/sub'' = namespaced_key ?s Entities (parent_has demo_parent Entities (re_key ?e)) (re_key ?e)"
    using demo_merge_key demo_parent_has by simp
  have recs: "get_category (sub_context ?s) Entities = Ok [?e]"
    using demo_parent_entities by (simp add: demo_sub_def)
  show ?thesis
    using merge_imports_child_records [OF demo_parent_reachable demo_parent_writable, of Entities
        ?s 9 _ _ "[?e]" ?e, OF _ surjective_pairing _ recs _ _ _ key demo_merge_key_ok]
    by (simp add: merge_categories_def demo_sub_def)
qed

text \<open>
  A forked child starts with the parent's records (value and iteration, re-attributed to
  the fork), knows its delegation chain, and cannot change a blacklisted category by any
  sequence of operations; \<^verbatim>\<open>SubagentResults\<close> is never blacklisted.
\<close>

theorem fork_isolates_blacklist:
  assumes "ctx_reachable c" and "fork_for_subagent c sid bl now = Ok s"
    and "ctx_step\<^sup>*\<^sup>* (sub_context s) c'" and "cat \<in> set bl"
  shows "get_category c' cat = get_category (sub_context s) cat \<and> cat \<noteq> SubagentResults
    \<and> fst (set_record c' cat k v src it t) \<noteq> Ok ()"
proof -
  have "ctx_sound c" "ctx_clean c" using clean_sys.inv_reach [OF assms(1)] by simp_all
  note f = fork_Ok [OF this assms(2)]
  have b: "blacklisted (sub_context s) cat" using f assms(4) by blast
  have keep: "blacklisted c' cat" "ac_categories c' cat = ac_categories (sub_context s) cat"
    using blacklist_sys.inv_steps [OF assms(3), of "sub_context s"] b by auto
  have "fst (set_record c' cat k v src it t) \<noteq> Ok ()"
  proof
    assume "fst (set_record c' cat k v src it t) = Ok ()"
    then have "set_record c' cat k v src it t = (Ok (), snd (set_record c' cat k v src it t))"
      by (metis prod.collapse)
    then show False by (rule set_record_OkE) (use keep(1) in blast)
  qed
  then show ?thesis using f keep(2) assms(4) by (auto simp: get_category_def)
qed

theorem fork_isolates_blacklist_witness:
  "\<exists>s. fork_for_subagent demo_parent ''sub'' [Intentions] 7 = Ok s
     \<and> fst (set_record (sub_context s) Intentions ''k'' JNull ''x'' 2 8) \<noteq> Ok ()"
proof -
  obtain s where s: "fork_for_subagent demo_parent ''sub'' [Intentions] 7 = Ok s" using demo_fork by blast
  then show ?thesis
    using fork_isolates_blacklist [OF demo_parent_reachable s rtranclp.rtrancl_refl, of Intentions] by auto
qed

text \<open>
  A forked child reads, for every category of the parent whose keys are distinct, the
  parent's value and iteration under every key, and nothing else.
\<close>

theorem fork_copies_parent_records:
  assumes "ctx_reachable c" and "fork_for_subagent c sid bl now = Ok s"
    and "get_category c cat = Ok recs" and "distinct (map re_key recs)"
  shows "get_record (sub_context s) cat k =
    (case get_record c cat k of
       Ok (Some e) \<Rightarrow> Ok (Some (e\<lparr>re_source := ''fork-from-parent-'' @ ac_context_id c,
                                re_timestamp := now\<rparr>))
     | _ \<Rightarrow> Ok None)"
proof -
  have "ctx_sound c" "ctx_clean c" using clean_sys.inv_reach [OF assms(1)] by simp_all
  then have g: "get_category (sub_context s) cat = Ok (fold (upsert re_key) (map (copied c now) recs) [])"
    using fork_Ok assms(2,3) by blast
  have d: "distinct (map re_key (map (copied c now) recs))" using assms(4) by (simp add: comp_def)
  have "find_key re_key (map (copied c now) recs) k = map_option (copied c now) (find_key re_key recs k)"
    by (induction recs) auto
  then show ?thesis
    using upsert_store.look_fold_distinct [OF d, of "[]" k] g assms(3)
    by (simp add: get_record_def imported_def split: option.split)
qed

theorem fork_copies_parent_records_witness:
  "\<exists>s. fork_for_subagent demo_parent ''sub'' [Intentions] 7 = Ok s
     \<and> (\<exists>e. get_record (sub_context s) Entities ''user'' = Ok (Some e) \<and> re_value e = JString ''Ann'')"
proof -
  obtain s where s: "fork_for_subagent demo_parent ''sub'' [Intentions] 7 = Ok s" using demo_fork by blast
  then show ?thesis
    using fork_copies_parent_records [OF demo_parent_reachable s demo_parent_entities, of "''user''"]
    by (auto simp: get_record_def demo_parent_entities)
qed

text \<open>
  The merge drops errors of the writes: if the delegation chain itself contains a
  sensitive pattern (an ASCII sub-agent id such as \<^verbatim>\<open>tokenizer\<close>), it reports success and
  imports nothing.
\<close>

theorem merge_of_sensitive_id_imports_nothing:
  assumes "writable c" and "is_sensitive_key (sub_delegation_chain s)"
    and "\<forall>a \<in> set (sub_delegation_chain s). byte a < 128"
  shows "merge_subagent_context c s now = (Ok (), c)"
proof -
  have sens: "is_sensitive_key (namespaced_key s cat b k)" for cat b k
    using is_sensitive_key_append assms(2,3) by (auto simp: namespaced_key_def)
  have "store_all (merge_record s now cat) recs c = (Ok (), c)" for cat recs
  proof (induction recs)
    case (Cons e recs)
    obtain er where "merge_record s now cat e c = (Err er, c)"
      using set_record_rejects [OF disjI1 [OF sens]] unfolding merge_record_def by blast
    then show ?case using Cons by simp
  qed simp
  then have "merge_category s now cat c = (Ok (), c)" for cat by (simp only: merge_category_def)
  then have "for_categories (merge_category s now) cats c = (Ok (), c)" for cats
    by (induction cats) simp_all
  then show ?thesis using assms(1) by (auto simp: merge_subagent_context_def writable_def Let_def)
qed

theorem merge_of_sensitive_id_imports_nothing_witness:
  "merge_subagent_context demo_parent (demo_sub ''tokenizer'') 9 = (Ok (), demo_parent)"
proof (rule merge_of_sensitive_id_imports_nothing [OF demo_parent_writable(1)])
  have "sub_delegation_chain (demo_sub ''tokenizer'') = ''tokenizer/''" by (simp add: demo_sub_def)
  moreover have "is_sensitive_key ''tokenizer/''" "\<forall>a \<in> set ''tokenizer/''. byte a < 128"
    by code_simp+
  ultimately show "is_sensitive_key (sub_delegation_chain (demo_sub ''tokenizer''))"
    "\<forall>a \<in> set (sub_delegation_chain (demo_sub ''tokenizer'')). byte a < 128"
    by (simp_all only:)
qed

end
