(* ===== verification/Context_Prompt.thy ===== *)
theory Context_Prompt
  imports Context_Merge
begin

text \<open>
  The prompt budget (prompt.rs): the sections of a prompt are filled by priority until the
  token budget is spent, a section that does not fit is cut to its most recent records.
  \<open>ser_all\<close> and \<open>ser_one\<close> stand for \<^verbatim>\<open>serde_json::to_string\<close> on a record list and on one
  record. A \<^verbatim>\<open>usize\<close> subtraction below zero panics in a build with overflow checks
  (\<open>checks\<close> true) and wraps at 64 bits in the release profile (\<open>checks\<close> false). Sums of
  character counts are exact: a string has at most \<^verbatim>\<open>isize::MAX\<close> bytes.
\<close>

section \<open>Machine arithmetic\<close>

definition usize_max :: nat where
  "usize_max = 2 ^ 64 - 1"

definition usize_sub :: "bool \<Rightarrow> nat \<Rightarrow> nat \<Rightarrow> ('e, nat) result" where
  "usize_sub checks a b =
     (if b \<le> a then Ok (a - b) else if checks then Panic else Ok (a + 2 ^ 64 - b))"

definition saturating_mul :: "nat \<Rightarrow> nat \<Rightarrow> nat" where
  "saturating_mul a b = min (a * b) usize_max"

definition div_ceil :: "nat \<Rightarrow> nat \<Rightarrow> nat" where
  "div_ceil a b = (a + b - 1) div b"

section \<open>prompt.rs\<close>

record prompt_data =
  pd_user_input :: string
  pd_recent_reasoning :: "string option"
  pd_tool_results :: "string option"
  pd_entities :: "string option"
  pd_history_state :: "string option"
  pd_estimated_tokens :: nat
  pd_truncated :: bool

definition estimate_tokens :: "string \<Rightarrow> string \<Rightarrow> nat" where
  "estimate_tokens txt mode =
     (if mode = ''tiktoken'' \<or> mode = ''tiktoken_cl100k''
      then div_ceil (chars_count txt) 4
      else div_ceil (chars_count txt) 4)"

text \<open>The loop over the records from the most recent one; \<open>acc\<close> is \<^verbatim>\<open>accumulated\<close>.\<close>

fun take_recent ::
  "bool \<Rightarrow> (record_entry \<Rightarrow> string option) \<Rightarrow> nat \<Rightarrow> string \<Rightarrow> record_entry list \<Rightarrow> string ctx_result" where
  "take_recent checks ser_one max_chars acc [] = Ok acc"
| "take_recent checks ser_one max_chars acc (r # rs) =
     (case ser_one r of
        None \<Rightarrow> take_recent checks ser_one max_chars acc rs
      | Some s \<Rightarrow>
          bind_res (usize_sub checks max_chars 14) (\<lambda>limit.
            if chars_count acc + chars_count s + 3 > limit then Ok acc
            else take_recent checks ser_one max_chars
                   ((if acc = '''' then acc else acc @ '', '') @ s) rs))"

definition format_records ::
  "bool \<Rightarrow> (record_entry list \<Rightarrow> string option) \<Rightarrow> (record_entry \<Rightarrow> string option)
   \<Rightarrow> record_entry list \<Rightarrow> nat \<Rightarrow> (string \<times> bool) ctx_result" where
  "format_records checks ser_all ser_one recs max_chars =
     (if recs = [] then Ok ('''', False)
      else case ser_all recs of
             None \<Rightarrow> Ok ('''', False)
           | Some full \<Rightarrow>
               if chars_count full \<le> max_chars then Ok (full, False)
               else bind_res (take_recent checks ser_one max_chars '''' (rev recs)) (\<lambda>acc.
                      Ok (''[truncated] '' @ ''['' @ acc @ '']'', True)))"

record prompt_acc =
  pa_remaining :: nat
  pa_recent_reasoning :: "string option"
  pa_tool_results :: "string option"
  pa_entities :: "string option"
  pa_history_state :: "string option"
  pa_truncated :: bool

definition prompt_priorities :: "category list" where
  "prompt_priorities = [ReasoningResults, ToolResults, Entities, StateChanges]"

fun assign_section :: "category \<Rightarrow> string option \<Rightarrow> prompt_acc \<Rightarrow> prompt_acc" where
  "assign_section ReasoningResults t a = a\<lparr>pa_recent_reasoning := t\<rparr>"
| "assign_section ToolResults t a = a\<lparr>pa_tool_results := t\<rparr>"
| "assign_section Entities t a = a\<lparr>pa_entities := t\<rparr>"
| "assign_section StateChanges t a = a\<lparr>pa_history_state := t\<rparr>"
| "assign_section _ t a = a"

definition fill_section ::
  "bool \<Rightarrow> (record_entry list \<Rightarrow> string option) \<Rightarrow> (record_entry \<Rightarrow> string option)
   \<Rightarrow> agent_context \<Rightarrow> category \<Rightarrow> prompt_acc \<Rightarrow> prompt_acc ctx_result" where
  "fill_section checks ser_all ser_one c cat a =
     bind_res (get_category c cat) (\<lambda>recs.
       if recs = [] then Ok a
       else bind_res (format_records checks ser_all ser_one recs (saturating_mul (pa_remaining a) 4))
         (\<lambda>(txt, was_truncated).
            let text_tokens = estimate_tokens txt (token_estimation_mode (ac_config c));
                a1 = assign_section cat (if txt = '''' then None else Some txt) a;
                a2 = (if was_truncated then a1\<lparr>pa_truncated := True\<rparr> else a1)
            in Ok (a2\<lparr>pa_remaining := pa_remaining a - text_tokens\<rparr>)))"

fun fill_sections ::
  "bool \<Rightarrow> (record_entry list \<Rightarrow> string option) \<Rightarrow> (record_entry \<Rightarrow> string option)
   \<Rightarrow> agent_context \<Rightarrow> category list \<Rightarrow> prompt_acc \<Rightarrow> prompt_acc ctx_result" where
  "fill_sections checks ser_all ser_one c [] a = Ok a"
| "fill_sections checks ser_all ser_one c (cat # cats) a =
     bind_res (fill_section checks ser_all ser_one c cat a) (fill_sections checks ser_all ser_one c cats)"

definition section_tokens :: "string \<Rightarrow> string option \<Rightarrow> nat" where
  "section_tokens mode t = (case t of None \<Rightarrow> 0 | Some s \<Rightarrow> estimate_tokens s mode)"

definition build_prompt_budget ::
  "bool \<Rightarrow> (record_entry list \<Rightarrow> string option) \<Rightarrow> (record_entry \<Rightarrow> string option)
   \<Rightarrow> agent_context \<Rightarrow> nat \<Rightarrow> prompt_data ctx_result" where
  "build_prompt_budget checks ser_all ser_one c max_tokens =
     (let user_input = ui_raw_text (ac_user_input c);
          mode = token_estimation_mode (ac_config c);
          user_tokens = estimate_tokens user_input mode;
          a0 = \<lparr>pa_remaining = max_tokens - user_tokens, pa_recent_reasoning = None,
                pa_tool_results = None, pa_entities = None, pa_history_state = None,
                pa_truncated = False\<rparr>
      in bind_res (fill_sections checks ser_all ser_one c prompt_priorities a0) (\<lambda>a.
           Ok \<lparr>pd_user_input = user_input,
               pd_recent_reasoning = pa_recent_reasoning a,
               pd_tool_results = pa_tool_results a,
               pd_entities = pa_entities a,
               pd_history_state = pa_history_state a,
               pd_estimated_tokens = user_tokens + section_tokens mode (pa_recent_reasoning a)
                 + section_tokens mode (pa_tool_results a) + section_tokens mode (pa_entities a)
                 + section_tokens mode (pa_history_state a),
               pd_truncated = pa_truncated a\<rparr>))"

section \<open>Bounds\<close>

lemma take_recent_bound:
  assumes "take_recent checks ser_one max_chars acc recs = Ok out"
    and "14 \<le> max_chars" "chars_count acc + 14 \<le> max_chars"
  shows "chars_count out + 14 \<le> max_chars"
  using assms
proof (induction recs arbitrary: acc)
  case (Cons r rs)
  then show ?case
    by (cases "ser_one r")
       (auto simp: usize_sub_def chars_count_def byte_def split: if_splits)
qed simp

text \<open>
  \<^verbatim>\<open>serde_json\<close> writes an array by writing its elements: if the list has a text, so has every
  record of it.
\<close>

definition ser_consistent ::
  "(record_entry list \<Rightarrow> string option) \<Rightarrow> (record_entry \<Rightarrow> string option) \<Rightarrow> bool" where
  "ser_consistent ser_all ser_one \<longleftrightarrow>
     (\<forall>recs s. ser_all recs = Some s \<longrightarrow> (\<forall>r \<in> set recs. ser_one r \<noteq> None))"

lemma format_records_bound:
  assumes "format_records True ser_all ser_one recs max_chars = Ok (txt, b)"
    and "ser_consistent ser_all ser_one"
  shows "chars_count txt \<le> max_chars"
proof (cases "recs = [] \<or> ser_all recs = None \<or> (\<exists>full. ser_all recs = Some full \<and> chars_count full \<le> max_chars)")
  case True
  moreover have "chars_count '''' = 0" by (simp add: chars_count_def)
  ultimately show ?thesis using assms(1) by (auto simp: format_records_def split: option.splits if_splits)
next
  case False
  then obtain full where full: "recs \<noteq> []" "ser_all recs = Some full" "\<not> chars_count full \<le> max_chars" by auto
  then obtain acc where acc: "take_recent True ser_one max_chars '''' (rev recs) = Ok acc"
    and t: "txt = ''[truncated] '' @ ''['' @ acc @ '']''"
    using assms(1) by (auto simp: format_records_def)
  obtain r rs where r: "rev recs = r # rs" using full(1) by (cases "rev recs") auto
  then have "r \<in> set recs" by (metis list.set_intros(1) set_rev)
  then obtain s where "ser_one r = Some s" using assms(2) full(2) by (auto simp: ser_consistent_def)
  then have le: "14 \<le> max_chars" using acc r by (auto simp: usize_sub_def split: if_splits)
  have "chars_count '''' + 14 \<le> max_chars" using le by (simp add: chars_count_def)
  then have "chars_count acc + 14 \<le> max_chars" by (rule take_recent_bound [OF acc le])
  then show ?thesis using t by (simp add: chars_count_def byte_def)
qed

lemma div_ceil_bound: "n \<le> saturating_mul k 4 \<Longrightarrow> div_ceil n 4 \<le> k"
  by (auto simp: saturating_mul_def div_ceil_def min_def split: if_splits)

definition sections_tokens :: "string \<Rightarrow> prompt_acc \<Rightarrow> nat" where
  "sections_tokens mode a = section_tokens mode (pa_recent_reasoning a)
     + section_tokens mode (pa_tool_results a) + section_tokens mode (pa_entities a)
     + section_tokens mode (pa_history_state a)"

text \<open>The sections that a walk over the given categories has not filled yet are empty.\<close>

definition sections_open :: "category list \<Rightarrow> prompt_acc \<Rightarrow> bool" where
  "sections_open cats a \<longleftrightarrow>
     (ReasoningResults \<in> set cats \<longrightarrow> pa_recent_reasoning a = None)
     \<and> (ToolResults \<in> set cats \<longrightarrow> pa_tool_results a = None)
     \<and> (Entities \<in> set cats \<longrightarrow> pa_entities a = None)
     \<and> (StateChanges \<in> set cats \<longrightarrow> pa_history_state a = None)"

lemma assign_section_tokens:
  "sections_open [cat] a \<Longrightarrow>
     sections_tokens mode (assign_section cat t a) \<le> sections_tokens mode a + section_tokens mode t"
  by (cases cat) (auto simp: sections_tokens_def sections_open_def section_tokens_def)

lemma assign_section_open:
  "sections_open (cat # cats) a \<Longrightarrow> cat \<notin> set cats \<Longrightarrow> sections_open cats (assign_section cat t a)"
  by (cases cat) (auto simp: sections_open_def)

lemma fill_section_bound:
  assumes "fill_section True ser_all ser_one c cat a = Ok b" "ser_consistent ser_all ser_one"
    and "mode = token_estimation_mode (ac_config c)" "sections_open (cat # cats) a" "cat \<notin> set cats"
  shows "sections_tokens mode b + pa_remaining b \<le> sections_tokens mode a + pa_remaining a
    \<and> sections_open cats b"
proof -
  obtain recs where recs: "get_category c cat = Ok recs"
    using assms(1) by (cases "get_category c cat") (auto simp: fill_section_def)
  show ?thesis
  proof (cases "recs = []")
    case True
    then show ?thesis using assms recs by (auto simp: fill_section_def sections_open_def)
  next
    case False
    then obtain out cut
      where f: "format_records True ser_all ser_one recs (saturating_mul (pa_remaining a) 4) = Ok (out, cut)"
      using assms(1) recs
      by (cases "format_records True ser_all ser_one recs (saturating_mul (pa_remaining a) 4)")
         (auto simp: fill_section_def)
    let ?t = "if out = '''' then None else Some out"
    let ?a1 = "assign_section cat ?t a"
    have b: "b = (if cut then ?a1\<lparr>pa_truncated := True\<rparr> else ?a1)
        \<lparr>pa_remaining := pa_remaining a - estimate_tokens out mode\<rparr>"
      using assms(1,3) recs False f by (auto simp: fill_section_def Let_def)
    have "estimate_tokens out mode \<le> pa_remaining a"
      using div_ceil_bound [OF format_records_bound [OF f assms(2)]] by (simp add: estimate_tokens_def)
    moreover have "section_tokens mode ?t \<le> estimate_tokens out mode" by (simp add: section_tokens_def)
    moreover have "sections_tokens mode ?a1 \<le> sections_tokens mode a + section_tokens mode ?t"
      using assms(4) by (intro assign_section_tokens) (auto simp: sections_open_def)
    moreover have "sections_tokens mode b = sections_tokens mode ?a1" by (simp add: b sections_tokens_def)
    moreover have "sections_open cats b"
      using assign_section_open [OF assms(4,5), of ?t] by (simp add: b sections_open_def)
    ultimately show ?thesis using b by simp
  qed
qed

lemma fill_sections_bound:
  assumes "fill_sections True ser_all ser_one c cats a = Ok b" "ser_consistent ser_all ser_one"
    and "mode = token_estimation_mode (ac_config c)" "sections_open cats a" "distinct cats"
  shows "sections_tokens mode b + pa_remaining b \<le> sections_tokens mode a + pa_remaining a"
  using assms(1,4,5)
proof (induction cats arbitrary: a)
  case (Cons cat cats)
  then obtain a1 where a1: "fill_section True ser_all ser_one c cat a = Ok a1"
    "fill_sections True ser_all ser_one c cats a1 = Ok b"
    by (cases "fill_section True ser_all ser_one c cat a") auto
  have "cat \<notin> set cats" "distinct cats" using Cons.prems(3) by simp_all
  from fill_section_bound [OF a1(1) assms(2,3) Cons.prems(2) this(1)] Cons.IH [OF a1(2) _ this(2)]
  show ?case by linarith
qed simp

section \<open>The exhausted budget\<close>

definition join_recent :: "string list \<Rightarrow> string \<Rightarrow> string" where
  "join_recent = fold (\<lambda>s acc. (if acc = '''' then acc else acc @ '', '') @ s)"

lemma take_recent_wraps:
  assumes "max_chars < 14" "\<And>r. r \<in> set recs \<Longrightarrow> ser_one r = Some (s r)"
    and "chars_count acc + (\<Sum>r\<leftarrow>recs. chars_count (s r) + 3) + 14 \<le> 2 ^ 64"
  shows "take_recent False ser_one max_chars acc recs = Ok (join_recent (map s recs) acc)"
  using assms(2,3)
proof (induction recs arbitrary: acc)
  case (Cons r rs)
  let ?acc = "(if acc = '''' then acc else acc @ '', '') @ s r"
  have le: "chars_count ?acc \<le> chars_count acc + chars_count (s r) + 3"
    by (simp add: chars_count_def byte_def)
  have "take_recent False ser_one max_chars acc (r # rs) = take_recent False ser_one max_chars ?acc rs"
    using Cons.prems assms(1) by (auto simp: usize_sub_def)
  also have "\<dots> = Ok (join_recent (map s rs) ?acc)"
    using Cons.prems le by (intro Cons.IH) auto
  finally show ?case by (simp add: join_recent_def)
qed (simp add: join_recent_def)

section \<open>Main properties\<close>



text \<open>
  Once the budget is spent, the next non-empty section makes \<open>format_records\<close> compute
  \<^verbatim>\<open>max_chars - 14\<close> below zero: with overflow checks the call panics, in the release profile
  the limit wraps around and the section takes every record, whatever its length.
\<close>

theorem exhausted_budget_underflows:
  assumes "pa_remaining a = 0" and "get_category c cat = Ok recs" and "recs \<noteq> []"
    and "ser_all recs = Some full" and "0 < chars_count full"
    and "\<forall>r \<in> set recs. ser_one r = Some (s r)"
    and "(\<Sum>r\<leftarrow>rev recs. chars_count (s r) + 3) + 14 \<le> 2 ^ 64"
  shows "fill_section True ser_all ser_one c cat a = Panic
    \<and> fill_section False ser_all ser_one c cat a =
        Ok ((assign_section cat (Some (''[truncated] '' @ ''['' @ join_recent (map s (rev recs)) '''' @ '']'')) a)
              \<lparr>pa_truncated := True, pa_remaining := 0\<rparr>)"
proof
  obtain r rs where r: "rev recs = r # rs" using assms(3) by (cases "rev recs") auto
  then have "r \<in> set recs" by (metis list.set_intros(1) set_rev)
  then show "fill_section True ser_all ser_one c cat a = Panic"
    using assms(1-6) r
    by (simp add: fill_section_def format_records_def saturating_mul_def usize_sub_def)
  have "take_recent False ser_one 0 '''' (rev recs) = Ok (join_recent (map s (rev recs)) '''')"
    using assms(6,7) by (intro take_recent_wraps) (auto simp: chars_count_def)
  then show "fill_section False ser_all ser_one c cat a =
        Ok ((assign_section cat (Some (''[truncated] '' @ ''['' @ join_recent (map s (rev recs)) '''' @ '']'')) a)
              \<lparr>pa_truncated := True, pa_remaining := 0\<rparr>)"
    using assms(1-5)
    by (simp add: fill_section_def format_records_def saturating_mul_def Let_def)
qed

theorem exhausted_budget_underflows_witness:
  "let a = \<lparr>pa_remaining = 0, pa_recent_reasoning = None, pa_tool_results = None,
            pa_entities = None, pa_history_state = None, pa_truncated = False\<rparr>;
       ser_all = \<lambda>_. Some ''[{user}]''; ser_one = \<lambda>_. Some ''{user}''
   in fill_section True ser_all ser_one demo_parent Entities a = Panic
      \<and> (\<exists>b. fill_section False ser_all ser_one demo_parent Entities a = Ok b
            \<and> pa_entities b = Some ''[truncated] [{user}]'')"
  using exhausted_budget_underflows [of "\<lparr>pa_remaining = 0, pa_recent_reasoning = None,
      pa_tool_results = None, pa_entities = None, pa_history_state = None, pa_truncated = False\<rparr>",
      OF _ demo_parent_entities, of "\<lambda>_. Some ''[{user}]''" "''[{user}]''" "\<lambda>_. Some ''{user}''"
      "\<lambda>_. ''{user}''"]
  by (simp add: Let_def chars_count_def byte_def join_recent_def)

end
