(* ===== verification/HC_Text.thy ===== *)
theory HC_Text
  imports HC_Prelude
begin

text \<open>
  The operations of Rust's \<^verbatim>\<open>str\<close> that work on characters, on the UTF-8 bytes of the string:
  Unicode white space, \<^verbatim>\<open>trim\<close>, \<^verbatim>\<open>split_whitespace\<close>, \<^verbatim>\<open>lines\<close>, \<^verbatim>\<open>chars().take(n)\<close>, \<^verbatim>\<open>join\<close>, and the
  check that bytes read from a file are UTF-8.
\<close>

section \<open>White space\<close>

text \<open>
  The characters with the Unicode property White\_Space, each as its UTF-8 bytes: the set of
  \<^verbatim>\<open>char::is_whitespace\<close> and of \<^verbatim>\<open>\s\<close> in the regex crate. No encoding is a prefix of another
  character's, so a byte prefix (or suffix) of valid UTF-8 that is in this list is a character.
\<close>

definition ws_chars :: "string list" where
  "ws_chars =
    [[CHR 0x09], [CHR 0x0A], [CHR 0x0B], [CHR 0x0C], [CHR 0x0D], [CHR 0x20],
     [CHR 0xC2, CHR 0x85], [CHR 0xC2, CHR 0xA0], [CHR 0xE1, CHR 0x9A, CHR 0x80],
     [CHR 0xE2, CHR 0x80, CHR 0x80], [CHR 0xE2, CHR 0x80, CHR 0x81],
     [CHR 0xE2, CHR 0x80, CHR 0x82], [CHR 0xE2, CHR 0x80, CHR 0x83],
     [CHR 0xE2, CHR 0x80, CHR 0x84], [CHR 0xE2, CHR 0x80, CHR 0x85],
     [CHR 0xE2, CHR 0x80, CHR 0x86], [CHR 0xE2, CHR 0x80, CHR 0x87],
     [CHR 0xE2, CHR 0x80, CHR 0x88], [CHR 0xE2, CHR 0x80, CHR 0x89],
     [CHR 0xE2, CHR 0x80, CHR 0x8A], [CHR 0xE2, CHR 0x80, CHR 0xA8],
     [CHR 0xE2, CHR 0x80, CHR 0xA9], [CHR 0xE2, CHR 0x80, CHR 0xAF],
     [CHR 0xE2, CHR 0x81, CHR 0x9F], [CHR 0xE3, CHR 0x80, CHR 0x80]]"

text \<open>Remove from the front as long as one of the given nonempty byte strings is a prefix.\<close>

function strip :: "string list \<Rightarrow> string \<Rightarrow> string" where
  "strip W s =
     (case find (\<lambda>w. w \<noteq> [] \<and> starts_with w s) W of
        None \<Rightarrow> s
      | Some w \<Rightarrow> strip W (drop (length w) s))"
  by pat_completeness auto
termination
proof (relation "measure (\<lambda>(W, s). length s)")
  fix W :: "string list" and s w
  assume "find (\<lambda>w. w \<noteq> [] \<and> starts_with w s) W = Some w"
  then have "w \<noteq> []" "starts_with w s" by (auto simp: find_Some_iff)
  then have "0 < length w" "s \<noteq> []" by (auto simp: starts_with_def)
  then show "((W, drop (length w) s), W, s) \<in> measure (\<lambda>(W, s). length s)" by simp
qed simp

declare strip.simps [simp del]

definition trim_start :: "string \<Rightarrow> string" where
  "trim_start s = strip ws_chars s"

definition trim_end :: "string \<Rightarrow> string" where
  "trim_end s = rev (strip (map rev ws_chars) (rev s))"

definition trim :: "string \<Rightarrow> string" where
  "trim s = trim_end (trim_start s)"

text \<open>\<^verbatim>\<open>trim_matches\<close> and \<^verbatim>\<open>trim_end_matches\<close> with a set of characters.\<close>

definition trim_end_matches :: "string list \<Rightarrow> string \<Rightarrow> string" where
  "trim_end_matches W s = rev (strip (map rev W) (rev s))"

definition trim_matches :: "string list \<Rightarrow> string \<Rightarrow> string" where
  "trim_matches W s = trim_end_matches W (strip W s)"

text \<open>Split at white space, dropping empty pieces (\<^verbatim>\<open>split_whitespace\<close>).\<close>

function words_acc :: "string \<Rightarrow> string \<Rightarrow> string list" where
  "words_acc w s =
     (case find (\<lambda>x. x \<noteq> [] \<and> starts_with x s) ws_chars of
        Some x \<Rightarrow> (if w = [] then [] else [rev w]) @ words_acc [] (drop (length x) s)
      | None \<Rightarrow> (case s of [] \<Rightarrow> (if w = [] then [] else [rev w]) | c # t \<Rightarrow> words_acc (c # w) t))"
  by pat_completeness auto
termination
proof (relation "measure (\<lambda>(w, s). length s)")
  fix s x :: string and w
  assume "find (\<lambda>x. x \<noteq> [] \<and> starts_with x s) ws_chars = Some x"
  then have "x \<noteq> []" "starts_with x s" by (auto simp: find_Some_iff)
  then have "0 < length x" "s \<noteq> []" by (auto simp: starts_with_def)
  then show "(([], drop (length x) s), w, s) \<in> measure (\<lambda>(w, s). length s)" by simp
qed auto

declare words_acc.simps [simp del]

definition split_whitespace :: "string \<Rightarrow> string list" where
  "split_whitespace s = words_acc [] s"

fun join :: "string \<Rightarrow> string list \<Rightarrow> string" where
  "join sep [] = []"
| "join sep [x] = x"
| "join sep (x # y # zs) = x @ sep @ join sep (y # zs)"

section \<open>Lines\<close>

text \<open>
  \<^verbatim>\<open>str::lines\<close> and \<^verbatim>\<open>BufRead::lines\<close>: pieces that end at a line feed, without it and without a
  carriage return right before it; a last piece without a line feed is kept as it is, an empty
  last piece is not a line.
\<close>

definition strip_cr :: "string \<Rightarrow> string" where
  "strip_cr l = (if l \<noteq> [] \<and> byte (last l) = 13 then butlast l else l)"

fun lines_acc :: "string \<Rightarrow> string \<Rightarrow> string list" where
  "lines_acc w [] = (if w = [] then [] else [rev w])"
| "lines_acc w (c # s) =
     (if byte c = 10 then strip_cr (rev w) # lines_acc [] s else lines_acc (c # w) s)"

definition lines :: "string \<Rightarrow> string list" where
  "lines s = lines_acc [] s"

section \<open>Characters\<close>

fun take_chars :: "nat \<Rightarrow> string \<Rightarrow> string" where
  "take_chars n [] = []"
| "take_chars n (c # s) =
     (if byte c div 64 = 2 then c # take_chars n s
      else case n of 0 \<Rightarrow> [] | Suc m \<Rightarrow> c # take_chars m s)"

definition is_cont :: "char \<Rightarrow> bool" where
  "is_cont c \<longleftrightarrow> byte c div 64 = 2"

text \<open>An index where a string may be sliced; slicing elsewhere panics.\<close>

definition char_boundary :: "string \<Rightarrow> nat \<Rightarrow> bool" where
  "char_boundary s i \<longleftrightarrow> i = length s \<or> (i < length s \<and> \<not> is_cont (s ! i))"

text \<open>Well-formed UTF-8 (table 3-7 of the Unicode standard), as \<^verbatim>\<open>str::from_utf8\<close> accepts it.\<close>

fun utf8_valid :: "string \<Rightarrow> bool" where
  "utf8_valid [] = True"
| "utf8_valid (a # s) =
     (if byte a < 0x80 then utf8_valid s
      else if 0xC2 \<le> byte a \<and> byte a \<le> 0xDF
      then (case s of b # t \<Rightarrow> is_cont b \<and> utf8_valid t | _ \<Rightarrow> False)
      else if 0xE0 \<le> byte a \<and> byte a \<le> 0xEF
      then (case s of
              b # c # t \<Rightarrow>
                is_cont b \<and> is_cont c \<and> (byte a = 0xE0 \<longrightarrow> 0xA0 \<le> byte b) \<and> (byte a = 0xED \<longrightarrow> byte b \<le> 0x9F)
                \<and> utf8_valid t
            | _ \<Rightarrow> False)
      else if 0xF0 \<le> byte a \<and> byte a \<le> 0xF4
      then (case s of
              b # c # d # t \<Rightarrow>
                is_cont b \<and> is_cont c \<and> is_cont d \<and> (byte a = 0xF0 \<longrightarrow> 0x90 \<le> byte b)
                \<and> (byte a = 0xF4 \<longrightarrow> byte b \<le> 0x8F) \<and> utf8_valid t
            | _ \<Rightarrow> False)
      else False)"

section \<open>Searching and replacing\<close>

text \<open>
  \<^verbatim>\<open>str::split(char)\<close>, \<^verbatim>\<open>ends_with\<close>, \<^verbatim>\<open>strip_prefix\<close>, \<^verbatim>\<open>to_ascii_uppercase\<close> and \<^verbatim>\<open>to_ascii_lowercase\<close>;
  \<^verbatim>\<open>str::replace\<close> replaces the occurrences found from left to right that do not overlap (the
  pattern is never empty here).
\<close>

fun split_char :: "char \<Rightarrow> string \<Rightarrow> string list" where
  "split_char c [] = ['''']"
| "split_char c (x # xs) =
     (if x = c then '''' # split_char c xs
      else case split_char c xs of [] \<Rightarrow> [[x]] | y # ys \<Rightarrow> (x # y) # ys)"

definition ends_with :: "string \<Rightarrow> string \<Rightarrow> bool" where
  "ends_with suf s \<longleftrightarrow> starts_with (rev suf) (rev s)"

definition strip_prefix :: "string \<Rightarrow> string \<Rightarrow> string option" where
  "strip_prefix p s = (if starts_with p s then Some (drop (length p) s) else None)"

definition ascii_upper :: "char \<Rightarrow> char" where
  "ascii_upper c = (if 97 \<le> byte c \<and> byte c \<le> 122 then char_of (byte c - 32) else c)"

definition to_ascii_uppercase :: "string \<Rightarrow> string" where
  "to_ascii_uppercase = map ascii_upper"

definition to_ascii_lowercase :: "string \<Rightarrow> string" where
  "to_ascii_lowercase = map ascii_lower"

fun replace_all :: "string \<Rightarrow> string \<Rightarrow> string \<Rightarrow> string" where
  "replace_all p r [] = []"
| "replace_all p r (c # s) =
     (if starts_with p (c # s) then r @ replace_all p r (drop (length p - 1) s)
      else c # replace_all p r s)"

lemma split_char_ne [simp]: "split_char x s \<noteq> []"
  by (induction s) (auto split: list.split)

lemma split_char_hd: "split_char x s = h # t \<Longrightarrow> \<exists>b. s = h @ b"
  by (induction s arbitrary: h t) (auto split: if_splits list.splits)

lemma split_char_infix: "c \<in> set (split_char x s) \<Longrightarrow> \<exists>a b. s = a @ c @ b"
proof (induction s arbitrary: c)
  case (Cons y s)
  show ?case
  proof (cases "y = x")
    case True
    then have "c = [] \<or> c \<in> set (split_char x s)" using Cons.prems by auto
    then show ?thesis using Cons.IH by (metis append_Cons append_Nil)
  next
    case False
    obtain h t where ht: "split_char x s = h # t" by (meson list.exhaust split_char_ne)
    then have "c = y # h \<or> c \<in> set t" using Cons.prems False by auto
    then show ?thesis using Cons.IH ht split_char_hd [OF ht] by (metis append_Cons append_Nil list.set_intros(2))
  qed
qed simp

lemma ends_with_iff: "ends_with suf s \<longleftrightarrow> (\<exists>t. s = t @ suf)"
  unfolding ends_with_def starts_with_iff by (metis rev_append rev_rev_ident)

lemma replace_all_none: "\<not> str_contains p s \<Longrightarrow> replace_all p r s = s"
  by (induction s) (auto simp: str_contains_def split: if_splits)

section \<open>Decoding\<close>

text \<open>
  \<^verbatim>\<open>String::from_utf8_lossy\<close>: the well-formed characters are kept, every maximal prefix of an
  ill-formed one becomes U+FFFD. \<open>utf8_head\<close> is the length of the first chunk and whether it is a character.
\<close>

definition utf8_head :: "char \<Rightarrow> string \<Rightarrow> nat \<times> bool" where
  "utf8_head a s =
     (let second = (\<lambda>b. is_cont b
            \<and> (byte a = 0xE0 \<longrightarrow> 0xA0 \<le> byte b) \<and> (byte a = 0xED \<longrightarrow> byte b \<le> 0x9F)
            \<and> (byte a = 0xF0 \<longrightarrow> 0x90 \<le> byte b) \<and> (byte a = 0xF4 \<longrightarrow> byte b \<le> 0x8F))
      in if byte a < 0x80 then (1, True)
         else if 0xC2 \<le> byte a \<and> byte a \<le> 0xDF
         then (case s of b # _ \<Rightarrow> if is_cont b then (2, True) else (1, False) | [] \<Rightarrow> (1, False))
         else if 0xE0 \<le> byte a \<and> byte a \<le> 0xEF
         then (case s of
                 b # t \<Rightarrow>
                   if \<not> second b then (1, False)
                   else (case t of c # _ \<Rightarrow> if is_cont c then (3, True) else (2, False) | [] \<Rightarrow> (2, False))
               | [] \<Rightarrow> (1, False))
         else if 0xF0 \<le> byte a \<and> byte a \<le> 0xF4
         then (case s of
                 b # t \<Rightarrow>
                   if \<not> second b then (1, False)
                   else (case t of
                           c # u \<Rightarrow>
                             if \<not> is_cont c then (2, False)
                             else (case u of d # _ \<Rightarrow> if is_cont d then (4, True) else (3, False) | [] \<Rightarrow> (3, False))
                         | [] \<Rightarrow> (2, False))
               | [] \<Rightarrow> (1, False))
         else (1, False))"

fun from_utf8_lossy :: "string \<Rightarrow> string" where
  "from_utf8_lossy [] = []"
| "from_utf8_lossy (a # s) =
     (case utf8_head a s of
        (n, ok) \<Rightarrow> (if ok then a # take (n - 1) s else [CHR 0xEF, CHR 0xBF, CHR 0xBD])
                   @ from_utf8_lossy (drop (n - 1) s))"

lemma utf8_valid_head:
  assumes "utf8_valid (a # s)"
  shows "\<exists>n. utf8_head a s = (n, True) \<and> utf8_valid (drop (n - 1) s)"
proof -
  consider "byte a < 0x80" | "0xC2 \<le> byte a \<and> byte a \<le> 0xDF" | "0xE0 \<le> byte a \<and> byte a \<le> 0xEF"
    | "0xF0 \<le> byte a \<and> byte a \<le> 0xF4"
    using assms by (auto split: if_splits)
  then show ?thesis
  proof cases
    case 1
    then show ?thesis using assms by (simp add: utf8_head_def)
  next
    case 2
    then show ?thesis using assms by (cases s) (simp_all add: utf8_head_def)
  next
    case 3
    then obtain b c t where "s = b # c # t" using assms by (cases s rule: remdups_adj.cases) simp_all
    then show ?thesis using assms 3 by (simp add: utf8_head_def Let_def)
  next
    case 4
    then obtain b c u where "s = b # c # u" using assms by (cases s rule: remdups_adj.cases) simp_all
    moreover from this obtain d t where "u = d # t" using assms 4 by (cases u) simp_all
    ultimately show ?thesis using assms 4 by (simp add: utf8_head_def Let_def)
  qed
qed

lemma from_utf8_lossy_valid: "utf8_valid s \<Longrightarrow> from_utf8_lossy s = s"
proof (induction s rule: length_induct)
  case (1 s)
  show ?case
  proof (cases s)
    case (Cons a t)
    then obtain n where "utf8_head a t = (n, True)" "utf8_valid (drop (n - 1) t)"
      using utf8_valid_head 1(2) by blast
    then show ?thesis using 1(1) Cons by simp
  qed simp
qed

text \<open>A well-formed string starts with a character: a byte and its continuation bytes.\<close>

lemma utf8_first_char:
  assumes "utf8_valid (a # s)"
  shows "\<exists>ks t. s = ks @ t \<and> \<not> is_cont a \<and> list_all is_cont ks \<and> (\<forall>t'. utf8_valid (a # ks @ t') \<longleftrightarrow> utf8_valid t')"
proof -
  have na: "\<not> is_cont a" if "byte a < 0x80 \<or> 0xC0 \<le> byte a" using that by (auto simp: is_cont_def)
  consider "byte a < 0x80" | "0xC2 \<le> byte a \<and> byte a \<le> 0xDF" | "0xE0 \<le> byte a \<and> byte a \<le> 0xEF"
    | "0xF0 \<le> byte a \<and> byte a \<le> 0xF4"
    using assms by (auto split: if_splits)
  then show ?thesis
  proof cases
    case 1
    then show ?thesis using assms na by (intro exI [of _ "[]"] exI [of _ s]) simp
  next
    case 2
    then obtain b t where "s = b # t" using assms by (cases s) simp_all
    then show ?thesis using assms 2 na by (intro exI [of _ "[b]"] exI [of _ t]) simp
  next
    case 3
    then obtain b c t where "s = b # c # t" using assms by (cases s rule: remdups_adj.cases) simp_all
    then show ?thesis using assms 3 na by (intro exI [of _ "[b, c]"] exI [of _ t]) simp
  next
    case 4
    then obtain b c u where s: "s = b # c # u" using assms by (cases s rule: remdups_adj.cases) simp_all
    then obtain d t where "u = d # t" using assms 4 by (cases u) simp_all
    then show ?thesis using s assms 4 na by (intro exI [of _ "[b, c, d]"] exI [of _ t]) simp
  qed
qed

lemma utf8_valid_hd: "utf8_valid s \<Longrightarrow> s \<noteq> [] \<Longrightarrow> \<not> is_cont (hd s)"
  using utf8_first_char by (cases s) auto

lemma utf8_valid_suffix: "utf8_valid (a @ b) \<Longrightarrow> utf8_valid a \<Longrightarrow> utf8_valid b"
proof (induction a rule: length_induct)
  case (1 a)
  show ?case
  proof (cases a)
    case (Cons x s)
    then obtain ks t where k: "s = ks @ t" "\<And>t'. utf8_valid (x # ks @ t') \<longleftrightarrow> utf8_valid t'"
      using utf8_first_char 1(3) by blast
    have "utf8_valid (t @ b)" "utf8_valid t" using k(2) [of "t @ b"] k(2) [of t] 1(2,3) Cons k(1) by (simp_all del: utf8_valid.simps)
    moreover have "length t < length a" using Cons k(1) by simp
    ultimately show ?thesis using 1(1) by blast
  qed (use 1 in simp)
qed

lemma utf8_valid_split: "utf8_valid (u @ w) \<Longrightarrow> w \<noteq> [] \<Longrightarrow> \<not> is_cont (hd w) \<Longrightarrow> utf8_valid w"
proof (induction u rule: length_induct)
  case (1 u)
  show ?case
  proof (cases u)
    case (Cons x s)
    then obtain ks t where k: "s @ w = ks @ t" "list_all is_cont ks" "\<And>t'. utf8_valid (x # ks @ t') \<longleftrightarrow> utf8_valid t'"
      using utf8_first_char [of x "s @ w"] 1(2) by auto
    obtain r where "s = ks @ r \<and> t = r @ w \<or> ks = s @ r \<and> w = r @ t"
      using k(1) append_eq_append_conv2 [of s w ks t] by auto
    then show ?thesis
    proof
      assume r: "s = ks @ r \<and> t = r @ w"
      have "utf8_valid (r @ w)" using k(3) [of "r @ w"] 1(2) Cons r by (simp del: utf8_valid.simps)
      moreover have "length r < length u" using Cons r by simp
      ultimately show ?thesis using 1(1,3,4) by blast
    next
      assume r: "ks = s @ r \<and> w = r @ t"
      then have "r = []" using k(2) 1(3,4) by (cases r) simp_all
      then show ?thesis using r k(3) [of t] 1(2) Cons by (simp del: utf8_valid.simps)
    qed
  qed (use 1 in simp)
qed

section \<open>Lemmas\<close>

lemma strip_id:
  assumes "\<And>w. w \<in> set W \<Longrightarrow> w \<noteq> [] \<Longrightarrow> \<not> starts_with w s"
  shows "strip W s = s"
proof -
  have "find (\<lambda>w. w \<noteq> [] \<and> starts_with w s) W = None" using assms by (auto simp: find_None_iff)
  then show ?thesis by (simp add: strip.simps)
qed

lemma strip_done: "w \<in> set W \<Longrightarrow> w \<noteq> [] \<Longrightarrow> \<not> starts_with w (strip W s)"
proof (induction W s rule: strip.induct)
  case (1 W s)
  show ?case
  proof (cases "find (\<lambda>w. w \<noteq> [] \<and> starts_with w s) W")
    case None
    then have "\<not> starts_with w s" using 1(2,3) by (auto simp: find_None_iff)
    then show ?thesis by (simp add: strip.simps None)
  next
    case (Some x)
    then show ?thesis using 1 by (simp add: strip.simps [of W s])
  qed
qed

lemma strip_length: "length (strip W s) \<le> length s"
proof (induction W s rule: strip.induct)
  case (1 W s)
  then show ?case by (subst strip.simps) (auto split: option.split intro: le_trans)
qed

lemma ascii_ws: "w \<in> set ws_chars \<Longrightarrow> \<exists>c. c \<in> set w \<and> (byte c \<ge> 128 \<or> byte c \<le> 32)"
  by (auto simp: ws_chars_def byte_def)

text \<open>Text of printable ASCII characters without blanks is not changed by \<^verbatim>\<open>trim\<close>.\<close>

definition plain :: "string \<Rightarrow> bool" where
  "plain s \<longleftrightarrow> (\<forall>c \<in> set s. 32 < byte c \<and> byte c < 128)"

lemma plain_infix_ws:
  assumes "plain s" and "w \<in> set ws_chars" and "set w \<subseteq> set s"
  shows False
proof -
  obtain c where c: "c \<in> set w" "byte c \<ge> 128 \<or> byte c \<le> 32" using ascii_ws [OF assms(2)] by blast
  then have "32 < byte c \<and> byte c < 128" using assms(1,3) unfolding plain_def by blast
  then show False using c(2) by linarith
qed

lemma starts_with_set: "starts_with w s \<Longrightarrow> set w \<subseteq> set s"
  by (auto simp: starts_with_iff)

lemma plain_no_ws: "plain s \<Longrightarrow> w \<in> set ws_chars \<Longrightarrow> \<not> starts_with w s"
  using plain_infix_ws starts_with_set by blast

lemma plain_no_rev_ws: "plain s \<Longrightarrow> w \<in> set ws_chars \<Longrightarrow> \<not> starts_with (rev w) s"
  using plain_infix_ws [of s w] starts_with_set [of "rev w" s] by auto

lemma trim_plain [simp]: "plain s \<Longrightarrow> trim s = s"
proof -
  assume p: "plain s"
  then have "trim_start s = s" unfolding trim_start_def by (intro strip_id plain_no_ws)
  moreover have "plain (rev s)" using p by (simp add: plain_def)
  then have "strip (map rev ws_chars) (rev s) = rev s"
    by (intro strip_id) (auto simp: plain_no_rev_ws)
  ultimately show ?thesis by (simp add: trim_def trim_end_def)
qed

lemma utf8_ascii: "(\<And>c. c \<in> set s \<Longrightarrow> byte c < 128) \<Longrightarrow> utf8_valid s"
  by (induction s rule: utf8_valid.induct) auto

lemma utf8_plain: "plain s \<Longrightarrow> utf8_valid s"
  by (rule utf8_ascii) (auto simp: plain_def)

lemma lines_acc_line:
  "(\<And>c. c \<in> set l \<Longrightarrow> byte c \<noteq> 10) \<Longrightarrow> lines_acc w (l @ c # s) =
     (if byte c = 10 then strip_cr (rev w @ l) # lines_acc [] s else lines_acc (c # rev l @ w) s)"
  by (induction l arbitrary: w) auto

lemma lines_line:
  "(\<And>c. c \<in> set l \<Longrightarrow> byte c \<noteq> 10) \<Longrightarrow> lines (l @ CHR 0x0A # s) = strip_cr l # lines s"
  unfolding lines_def by (subst lines_acc_line) (auto simp: byte_def)

lemma take_chars_length: "length (take_chars n s) \<le> length s"
  by (induction n s rule: take_chars.induct) (auto split: nat.split)

lemma chars_count_Nil [simp]: "chars_count [] = 0"
  by (simp add: chars_count_def)

lemma chars_count_Cons: "chars_count (c # s) = (if byte c div 64 = 2 then chars_count s else Suc (chars_count s))"
  by (simp add: chars_count_def)

lemma take_chars_all: "chars_count s \<le> n \<Longrightarrow> take_chars n s = s"
  by (induction n s rule: take_chars.induct) (auto simp: chars_count_Cons split: nat.split if_splits)

lemma take_chars_count: "chars_count (take_chars n s) \<le> n"
  by (induction n s rule: take_chars.induct) (auto simp: chars_count_Cons split: nat.split)

end
