(* ===== verification/Cron.thy ===== *)
theory Cron
  imports HC_Json HC_Text "HOL-Library.Multiset"
begin

text \<open>
  The cron service (crates/cron/src/types.rs, service.rs): job data, the store file, the
  action log through which a stopped service hands changes to a running one, and the timer.
  The state is \<^verbatim>\<open>Inner\<close> together with the two files it owns. A call that holds the mutex
  from start to end is one definition; the calls that release it around the job handler
  (\<^verbatim>\<open>run_job\<close>, \<^verbatim>\<open>on_timer\<close>) are split there. Arguments: \<open>now\<close> and the like are readings of the
  clock in milliseconds, \<open>lib\<close> collects serde, chrono, the cron-expression crate and the
  iteration order of a \<^verbatim>\<open>HashMap\<close>. Machine integers are those of the release profile, where
  64-bit sums wrap.
\<close>

section \<open>types.rs\<close>

datatype schedule_kind = At | Every | CronKind

record cron_schedule =
  sch_kind :: schedule_kind
  sch_at_ms :: "int option"
  sch_every_ms :: "int option"
  sch_expr :: "string option"
  sch_tz :: "string option"

datatype payload_kind = SystemEvent | AgentTurn

record cron_payload =
  pl_kind :: payload_kind
  pl_message :: string
  pl_deliver :: bool
  pl_channel :: "string option"
  pl_to :: "string option"
  pl_channel_meta :: "json option"
  pl_session_key :: "string option"

datatype run_status = RunOk | RunError | RunSkipped

record cron_run_record =
  rr_run_at_ms :: int
  rr_status :: run_status
  rr_duration_ms :: int
  rr_error :: "string option"

record cron_job_state =
  js_next_run_at_ms :: "int option"
  js_last_run_at_ms :: "int option"
  js_last_status :: "run_status option"
  js_last_error :: "string option"
  js_run_history :: "cron_run_record list"

definition default_job_state :: cron_job_state where
  "default_job_state = \<lparr>js_next_run_at_ms = None, js_last_run_at_ms = None, js_last_status = None,
     js_last_error = None, js_run_history = []\<rparr>"

record cron_job =
  cj_id :: string
  cj_name :: string
  cj_enabled :: bool
  cj_schedule :: cron_schedule
  cj_payload :: cron_payload
  cj_state :: cron_job_state
  cj_created_at_ms :: int
  cj_updated_at_ms :: int
  cj_delete_after_run :: bool

record cron_store =
  st_version :: nat
  st_jobs :: "cron_job list"

section \<open>Environment and state\<close>

record cron_lib =
  value_of_text :: "string \<Rightarrow> json option"
  value_to_text :: "json \<Rightarrow> string"
  jobs_of_value :: "json \<Rightarrow> cron_job list option"
  job_of_value :: "json \<Rightarrow> cron_job option"
  job_to_value :: "cron_job \<Rightarrow> json option"
  store_to_text :: "cron_store \<Rightarrow> string option"
  tz_known :: "string \<Rightarrow> bool"
  expr_ok :: "string \<Rightarrow> bool"
  next_after :: "string \<Rightarrow> string option \<Rightarrow> int \<Rightarrow> int option"
  map_order :: "cron_job list \<Rightarrow> cron_job list"

text \<open>
  A file is absent, there but unreadable, or a text. If the directory is not writable,
  writes, appends and renames fail and leave the files as they are.
\<close>

datatype disk_file = FAbsent | FUnreadable | FText string

record cron_inner =
  ci_store_file :: disk_file
  ci_action_file :: disk_file
  ci_corrupt_files :: "disk_file list"
  ci_writable :: bool
  ci_store :: "cron_store option"
  ci_running :: bool
  ci_timer_active :: bool
  ci_max_sleep_ms :: int
  ci_timer :: "int option"

datatype cron_error = TzOnNonCron | UnknownTimezone string | BadCronExpr string | IoError | SerdeError

datatype remove_outcome = Removed | RemoveProtected | RemoveNotFound

datatype update_outcome = Updated cron_job | UpdateProtected | UpdateNotFound

record update_job_opts =
  uo_name :: "string option"
  uo_schedule :: "cron_schedule option"
  uo_message :: "string option"
  uo_deliver :: "bool option"
  uo_channel :: "string option option"
  uo_to :: "string option option"
  uo_channel_meta :: "json option option"
  uo_session_key :: "string option option"
  uo_delete_after_run :: "bool option"

record cron_status =
  cst_enabled :: bool
  cst_jobs :: nat
  cst_next_wake_at_ms :: "int option"

definition max_run_history :: nat where
  "max_run_history = 20"

definition default_max_sleep_ms :: int where
  "default_max_sleep_ms = 5 * 60 * 1000"

definition with_max_sleep :: "disk_file \<Rightarrow> disk_file \<Rightarrow> bool \<Rightarrow> int \<Rightarrow> cron_inner" where
  "with_max_sleep store_file action_file can_write max_sleep =
     \<lparr>ci_store_file = store_file, ci_action_file = action_file, ci_corrupt_files = [],
      ci_writable = can_write, ci_store = None, ci_running = False, ci_timer_active = False,
      ci_max_sleep_ms = max_sleep, ci_timer = None\<rparr>"

definition cron_new :: "disk_file \<Rightarrow> disk_file \<Rightarrow> bool \<Rightarrow> cron_inner" where
  "cron_new store_file action_file can_write =
     with_max_sleep store_file action_file can_write default_max_sleep_ms"

section \<open>Helpers of service.rs\<close>

definition wrap_i64 :: "int \<Rightarrow> int" where
  "wrap_i64 x = (x + 2 ^ 63) mod 2 ^ 64 - 2 ^ 63"

definition validate_schedule_for_add :: "cron_lib \<Rightarrow> cron_schedule \<Rightarrow> (cron_error, unit) result" where
  "validate_schedule_for_add lib s =
     (if sch_tz s \<noteq> None \<and> sch_kind s \<noteq> CronKind then Err TzOnNonCron
      else if sch_kind s \<noteq> CronKind then Ok ()
      else case sch_tz s of
             Some tz \<Rightarrow>
               if \<not> tz_known lib tz then Err (UnknownTimezone tz)
               else (case sch_expr s of
                       Some e \<Rightarrow> if \<not> expr_ok lib e then Err (BadCronExpr e) else Ok ()
                     | None \<Rightarrow> Ok ())
           | None \<Rightarrow>
               (case sch_expr s of
                  Some e \<Rightarrow> if \<not> expr_ok lib e then Err (BadCronExpr e) else Ok ()
                | None \<Rightarrow> Ok ()))"

definition normalize_cron_expr :: "string \<Rightarrow> string" where
  "normalize_cron_expr expr =
     (let fields = length (split_whitespace expr)
      in if fields = 5 then ''0 '' @ expr @ '' *''
         else if fields = 6 then expr @ '' *''
         else expr)"

definition compute_next_run :: "cron_lib \<Rightarrow> cron_schedule \<Rightarrow> int \<Rightarrow> int option" where
  "compute_next_run lib s now =
     (case sch_kind s of
        At \<Rightarrow> (case sch_at_ms s of Some t \<Rightarrow> if t > now then Some t else None | None \<Rightarrow> None)
      | Every \<Rightarrow>
          (case sch_every_ms s of
             None \<Rightarrow> None
           | Some every \<Rightarrow> if every \<le> 0 then None else Some (wrap_i64 (now + every)))
      | CronKind \<Rightarrow>
          (case sch_expr s of
             None \<Rightarrow> None
           | Some e \<Rightarrow>
               let normalized = normalize_cron_expr e
               in if \<not> expr_ok lib normalized then None
                  else next_after lib normalized
                         (case sch_tz s of Some tz \<Rightarrow> if tz_known lib tz then Some tz else None | None \<Rightarrow> None)
                         now))"

definition value_u32 :: "json option \<Rightarrow> nat" where
  "value_u32 v =
     (case v of
        Some (JNumber (NumInt n)) \<Rightarrow> if 0 \<le> n \<and> n < 2 ^ 64 then nat n mod 2 ^ 32 else 1
      | _ \<Rightarrow> 1)"

definition load_jobs_from_disk :: "cron_lib \<Rightarrow> disk_file \<Rightarrow> (cron_error, cron_job list \<times> nat) result" where
  "load_jobs_from_disk lib f =
     (case f of
        FAbsent \<Rightarrow> Ok ([], 1)
      | FUnreadable \<Rightarrow> Err IoError
      | FText t \<Rightarrow>
          (case value_of_text lib t of
             None \<Rightarrow> Err SerdeError
           | Some data \<Rightarrow>
               let version = value_u32 (jget data ''version'');
                   jobs_val = (case jget data ''jobs'' of Some v \<Rightarrow> v | None \<Rightarrow> JArray []);
                   jobs = (case jobs_of_value lib jobs_val of Some js \<Rightarrow> js | None \<Rightarrow> [])
               in Ok (jobs, version)))"

section \<open>Methods of Inner\<close>

definition save_store :: "cron_lib \<Rightarrow> cron_inner \<Rightarrow> cron_inner" where
  "save_store lib s =
     (case ci_store s of
        None \<Rightarrow> s
      | Some st \<Rightarrow>
          (case store_to_text lib st of
             None \<Rightarrow> s
           | Some t \<Rightarrow> if ci_writable s then s\<lparr>ci_store_file := FText t\<rparr> else s))"

fun split_lines :: "string \<Rightarrow> string list" where
  "split_lines [] = []"
| "split_lines (c # s) =
     (if byte c = 10 then [] # split_lines s
      else case split_lines s of [] \<Rightarrow> [[c]] | l # ls \<Rightarrow> (c # l) # ls)"

text \<open>One line of the action log on the map of jobs, kept as a list of jobs with distinct ids.\<close>

definition apply_action :: "cron_lib \<Rightarrow> string \<Rightarrow> cron_job list \<times> bool \<Rightarrow> cron_job list \<times> bool" where
  "apply_action lib line p =
     (let l = trim line
      in if l = [] then p
         else case value_of_text lib l of
                None \<Rightarrow> p
              | Some action \<Rightarrow>
                  let kind = (case Option.bind (jget action ''action'') as_str of Some k \<Rightarrow> k | None \<Rightarrow> []);
                      params = (case jget action ''params'' of Some v \<Rightarrow> v | None \<Rightarrow> JNull)
                  in if kind = ''del''
                     then (case Option.bind (jget params ''job_id'') as_str of
                             Some i \<Rightarrow> (filter (\<lambda>j. cj_id j \<noteq> i) (fst p), True)
                           | None \<Rightarrow> p)
                     else if kind = [] then p
                     else case job_of_value lib params of
                            Some job \<Rightarrow> (upsert cj_id job (fst p), True)
                          | None \<Rightarrow> p)"

definition merge_action :: "cron_lib \<Rightarrow> cron_inner \<Rightarrow> cron_inner" where
  "merge_action lib s =
     (case (ci_action_file s, ci_store s) of
        (FText t, Some st) \<Rightarrow>
          let jobs_map = fold (upsert cj_id) (st_jobs st) [];
              (jobs, changed) = fold (apply_action lib) (split_lines t) (jobs_map, False);
              s' = s\<lparr>ci_store := Some (st\<lparr>st_jobs := map_order lib jobs\<rparr>)\<rparr>
          in if ci_running s \<and> changed
             then save_store lib (if ci_writable s then s'\<lparr>ci_action_file := FText []\<rparr> else s')
             else s'
      | _ \<Rightarrow> s)"

definition load_store :: "cron_lib \<Rightarrow> cron_inner \<Rightarrow> cron_inner" where
  "load_store lib s =
     (if ci_timer_active s \<and> ci_store s \<noteq> None then s
      else case load_jobs_from_disk lib (ci_store_file s) of
             Ok (jobs, version) \<Rightarrow>
               merge_action lib (s\<lparr>ci_store := Some \<lparr>st_version = version, st_jobs = jobs\<rparr>\<rparr>)
           | _ \<Rightarrow>
               if ci_store_file s \<noteq> FAbsent \<and> ci_writable s
               then s\<lparr>ci_corrupt_files := ci_store_file s # ci_corrupt_files s, ci_store_file := FAbsent\<rparr>
               else s)"

definition recompute_job :: "cron_lib \<Rightarrow> int \<Rightarrow> cron_job \<Rightarrow> cron_job" where
  "recompute_job lib now j =
     (if cj_enabled j
      then j\<lparr>cj_state := (cj_state j)\<lparr>js_next_run_at_ms := compute_next_run lib (cj_schedule j) now\<rparr>\<rparr>
      else j)"

definition recompute_next_runs :: "cron_lib \<Rightarrow> int \<Rightarrow> cron_inner \<Rightarrow> cron_inner" where
  "recompute_next_runs lib now s =
     s\<lparr>ci_store := map_option (\<lambda>st. st\<lparr>st_jobs := map (recompute_job lib now) (st_jobs st)\<rparr>) (ci_store s)\<rparr>"

fun min_option :: "int list \<Rightarrow> int option" where
  "min_option [] = None"
| "min_option (x # xs) = (case min_option xs of None \<Rightarrow> Some x | Some y \<Rightarrow> Some (min x y))"

definition wake_times :: "cron_job list \<Rightarrow> int list" where
  "wake_times js = List.map_filter (\<lambda>j. js_next_run_at_ms (cj_state j)) (filter cj_enabled js)"

definition next_wake_ms :: "cron_inner \<Rightarrow> int option" where
  "next_wake_ms s = Option.bind (ci_store s) (\<lambda>st. min_option (wake_times (st_jobs st)))"

definition arm_timer :: "int \<Rightarrow> cron_inner \<Rightarrow> cron_inner" where
  "arm_timer now s =
     (if \<not> ci_running s then s\<lparr>ci_timer := None\<rparr>
      else s\<lparr>ci_timer := Some (case next_wake_ms s of
                None \<Rightarrow> ci_max_sleep_ms s
              | Some nxt \<Rightarrow> min (ci_max_sleep_ms s) (max (wrap_i64 (nxt - now)) 0))\<rparr>)"

definition append_action ::
  "cron_lib \<Rightarrow> string \<Rightarrow> json \<Rightarrow> cron_inner \<Rightarrow> (cron_error, unit) result \<times> cron_inner" where
  "append_action lib kind params s =
     (if \<not> ci_writable s then (Err IoError, s)
      else case ci_action_file s of
             FUnreadable \<Rightarrow> (Err IoError, s)
           | f \<Rightarrow>
               let old = (case f of FText t \<Rightarrow> t | _ \<Rightarrow> []);
                   line = value_to_text lib (JObject [(''action'', JString kind), (''params'', params)])
               in (Ok (), s\<lparr>ci_action_file := FText (old @ line @ [CHR 0x0A])\<rparr>))"

section \<open>Public operations\<close>

definition cron_start :: "cron_lib \<Rightarrow> int \<Rightarrow> cron_inner \<Rightarrow> (string, unit) result \<times> cron_inner" where
  "cron_start lib now s =
     (let s1 = load_store lib (s\<lparr>ci_running := True\<rparr>)
      in if ci_store s1 = None
         then (Err (''Cron: refusing to start '' @ [CHR 0xE2, CHR 0x80, CHR 0x94]
                    @ '' store file is corrupt or unreadable''), s1\<lparr>ci_running := False\<rparr>)
         else (Ok (), arm_timer now (save_store lib (recompute_next_runs lib now s1))))"

definition cron_stop :: "cron_inner \<Rightarrow> cron_inner" where
  "cron_stop s = s\<lparr>ci_running := False, ci_timer := None\<rparr>"

definition list_jobs :: "cron_lib \<Rightarrow> bool \<Rightarrow> cron_inner \<Rightarrow> cron_job list \<times> cron_inner" where
  "list_jobs lib include_disabled s =
     (let s1 = load_store lib s
      in case ci_store s1 of
           None \<Rightarrow> ([], s1)
         | Some st \<Rightarrow>
             (sort_key (\<lambda>j. case js_next_run_at_ms (cj_state j) of Some t \<Rightarrow> t | None \<Rightarrow> 2 ^ 63 - 1)
                (filter (\<lambda>j. include_disabled \<or> cj_enabled j) (st_jobs st)), s1))"

definition new_job ::
  "cron_lib \<Rightarrow> int \<Rightarrow> string \<Rightarrow> string \<Rightarrow> cron_schedule \<Rightarrow> cron_payload \<Rightarrow> bool \<Rightarrow> cron_job" where
  "new_job lib now i nm sched payload delete_after_run =
     \<lparr>cj_id = i, cj_name = nm, cj_enabled = True, cj_schedule = sched, cj_payload = payload,
      cj_state = default_job_state\<lparr>js_next_run_at_ms := compute_next_run lib sched now\<rparr>,
      cj_created_at_ms = now, cj_updated_at_ms = now, cj_delete_after_run = delete_after_run\<rparr>"

definition push_job :: "cron_job \<Rightarrow> cron_inner \<Rightarrow> cron_inner" where
  "push_job job s = s\<lparr>ci_store := map_option (\<lambda>st. st\<lparr>st_jobs := st_jobs st @ [job]\<rparr>) (ci_store s)\<rparr>"

text \<open>\<open>i\<close> is the random id (eight hexadecimal digits of a UUID).\<close>

definition add_job ::
  "cron_lib \<Rightarrow> int \<Rightarrow> string \<Rightarrow> string \<Rightarrow> cron_schedule \<Rightarrow> string \<Rightarrow> bool \<Rightarrow> string option
   \<Rightarrow> string option \<Rightarrow> bool \<Rightarrow> json option \<Rightarrow> string option \<Rightarrow> cron_inner
   \<Rightarrow> (cron_error, cron_job) result \<times> cron_inner" where
  "add_job lib now i nm sched message deliver channel rcpt delete_after_run channel_meta session_key s =
     (case validate_schedule_for_add lib sched of
        Err e \<Rightarrow> (Err e, s)
      | Panic \<Rightarrow> (Panic, s)
      | Ok _ \<Rightarrow>
          let job = new_job lib now i nm sched
                \<lparr>pl_kind = AgentTurn, pl_message = message, pl_deliver = deliver, pl_channel = channel,
                 pl_to = rcpt, pl_channel_meta = channel_meta, pl_session_key = session_key\<rparr>
                delete_after_run
          in if ci_running s
             then (Ok job, arm_timer now (save_store lib (push_job job (load_store lib s))))
             else case job_to_value lib job of
                    None \<Rightarrow> (Err SerdeError, s)
                  | Some v \<Rightarrow>
                      (case append_action lib ''add'' v s of
                         (Ok _, s') \<Rightarrow> (Ok job, s')
                       | (Err e, s') \<Rightarrow> (Err e, s')
                       | (Panic, s') \<Rightarrow> (Panic, s')))"

definition register_system_job :: "cron_lib \<Rightarrow> int \<Rightarrow> cron_job \<Rightarrow> cron_inner \<Rightarrow> cron_job \<times> cron_inner" where
  "register_system_job lib now job s =
     (let s1 = load_store lib s;
          job' = job\<lparr>cj_state := default_job_state\<lparr>js_next_run_at_ms := compute_next_run lib (cj_schedule job) now\<rparr>,
                     cj_created_at_ms := now, cj_updated_at_ms := now\<rparr>;
          s2 = s1\<lparr>ci_store := map_option (\<lambda>st. st\<lparr>st_jobs :=
                   filter (\<lambda>j. cj_id j \<noteq> cj_id job') (st_jobs st) @ [job']\<rparr>) (ci_store s1)\<rparr>
      in (job', arm_timer now (save_store lib s2)))"

text \<open>The tail shared by the changing calls: save and re-arm if running, else log an action.\<close>

definition publish :: "cron_lib \<Rightarrow> int \<Rightarrow> string \<Rightarrow> json option \<Rightarrow> cron_inner \<Rightarrow> cron_inner" where
  "publish lib now kind v s =
     (if ci_running s then arm_timer now (save_store lib s)
      else case v of None \<Rightarrow> s | Some p \<Rightarrow> snd (append_action lib kind p s))"

definition remove_job :: "cron_lib \<Rightarrow> int \<Rightarrow> string \<Rightarrow> cron_inner \<Rightarrow> remove_outcome \<times> cron_inner" where
  "remove_job lib now i s =
     (let s1 = load_store lib s
      in case ci_store s1 of
           None \<Rightarrow> (RemoveNotFound, s1)
         | Some st \<Rightarrow>
             (case find (\<lambda>j. cj_id j = i) (st_jobs st) of
                None \<Rightarrow> (RemoveNotFound, s1)
              | Some job \<Rightarrow>
                  if pl_kind (cj_payload job) = SystemEvent then (RemoveProtected, s1)
                  else
                    let kept = filter (\<lambda>j. cj_id j \<noteq> i) (st_jobs st);
                        s2 = s1\<lparr>ci_store := Some (st\<lparr>st_jobs := kept\<rparr>)\<rparr>
                    in if \<not> length kept < length (st_jobs st) then (RemoveNotFound, s2)
                       else (Removed, publish lib now ''del'' (Some (JObject [(''job_id'', JString i)])) s2)))"

definition set_enabled :: "cron_lib \<Rightarrow> int \<Rightarrow> bool \<Rightarrow> cron_job \<Rightarrow> cron_job" where
  "set_enabled lib now enabled job =
     job\<lparr>cj_enabled := enabled, cj_updated_at_ms := now,
         cj_state := (cj_state job)\<lparr>js_next_run_at_ms :=
           if enabled then compute_next_run lib (cj_schedule job) now else None\<rparr>\<rparr>"

text \<open>\<^verbatim>\<open>enable_job\<close> returns nothing, with the store already changed, if the job has no JSON value.\<close>

definition enable_job :: "cron_lib \<Rightarrow> int \<Rightarrow> string \<Rightarrow> bool \<Rightarrow> cron_inner \<Rightarrow> cron_job option \<times> cron_inner" where
  "enable_job lib now i enabled s =
     (let s1 = load_store lib s
      in case ci_store s1 of
           None \<Rightarrow> (None, s1)
         | Some st \<Rightarrow>
             (case position (\<lambda>j. cj_id j = i) (st_jobs st) of
                None \<Rightarrow> (None, s1)
              | Some idx \<Rightarrow>
                  let job = set_enabled lib now enabled (st_jobs st ! idx);
                      s2 = s1\<lparr>ci_store := Some (st\<lparr>st_jobs := (st_jobs st)[idx := job]\<rparr>)\<rparr>
                  in (if \<not> ci_running s2 \<and> job_to_value lib job = None then None else Some job,
                      publish lib now ''update'' (job_to_value lib job) s2)))"

definition or_else :: "'a option \<Rightarrow> 'a \<Rightarrow> 'a" where
  "or_else x d = (case x of Some v \<Rightarrow> v | None \<Rightarrow> d)"

definition apply_update :: "cron_lib \<Rightarrow> int \<Rightarrow> update_job_opts \<Rightarrow> cron_job \<Rightarrow> cron_job" where
  "apply_update lib now opts job =
     (let p = cj_payload job;
          p' = p\<lparr>pl_message := or_else (uo_message opts) (pl_message p),
                 pl_deliver := or_else (uo_deliver opts) (pl_deliver p),
                 pl_channel := or_else (uo_channel opts) (pl_channel p),
                 pl_to := or_else (uo_to opts) (pl_to p)\<rparr>;
          job1 = job\<lparr>cj_schedule := or_else (uo_schedule opts) (cj_schedule job),
                     cj_name := or_else (uo_name opts) (cj_name job),
                     cj_payload := p',
                     cj_delete_after_run := or_else (uo_delete_after_run opts) (cj_delete_after_run job),
                     cj_updated_at_ms := now\<rparr>
      in recompute_job lib now job1)"

definition update_job ::
  "cron_lib \<Rightarrow> int \<Rightarrow> string \<Rightarrow> update_job_opts \<Rightarrow> cron_inner \<Rightarrow> update_outcome \<times> cron_inner" where
  "update_job lib now i opts s =
     (let s1 = load_store lib s
      in case ci_store s1 of
           None \<Rightarrow> (UpdateNotFound, s1)
         | Some st \<Rightarrow>
             (case position (\<lambda>j. cj_id j = i) (st_jobs st) of
                None \<Rightarrow> (UpdateNotFound, s1)
              | Some idx \<Rightarrow>
                  if pl_kind (cj_payload (st_jobs st ! idx)) = SystemEvent then (UpdateProtected, s1)
                  else if (case uo_schedule opts of Some sc \<Rightarrow> \<not> is_ok (validate_schedule_for_add lib sc) | None \<Rightarrow> False)
                  then (UpdateNotFound, s1)
                  else
                    let job = apply_update lib now opts (st_jobs st ! idx);
                        s2 = s1\<lparr>ci_store := Some (st\<lparr>st_jobs := (st_jobs st)[idx := job]\<rparr>)\<rparr>
                    in (Updated job, publish lib now ''update'' (job_to_value lib job) s2)))"

definition get_job :: "cron_lib \<Rightarrow> string \<Rightarrow> cron_inner \<Rightarrow> cron_job option \<times> cron_inner" where
  "get_job lib i s =
     (let s1 = load_store lib s
      in (Option.bind (ci_store s1) (\<lambda>st. find (\<lambda>j. cj_id j = i) (st_jobs st)), s1))"

definition cron_status_of :: "cron_lib \<Rightarrow> cron_inner \<Rightarrow> cron_status \<times> cron_inner" where
  "cron_status_of lib s =
     (let s1 = load_store lib s
      in (\<lparr>cst_enabled = ci_running s1,
           cst_jobs = (case ci_store s1 of Some st \<Rightarrow> length (st_jobs st) | None \<Rightarrow> 0),
           cst_next_wake_at_ms = next_wake_ms s1\<rparr>, s1))"

section \<open>Execution\<close>

text \<open>
  \<open>outcome\<close> is what the handler returned: nothing if there is no handler, else its result.
  \<open>t1\<close>, \<open>t2\<close> and \<open>t3\<close> are the clock readings before the handler, after it, and at the
  rescheduling.
\<close>

type_synonym job_outcome = "(string + string option) option"

definition trim_history :: "cron_run_record list \<Rightarrow> cron_run_record list" where
  "trim_history h =
     (if length h > max_run_history then drop (length h - max_run_history) h else h)"

definition execute_job ::
  "cron_lib \<Rightarrow> job_outcome \<Rightarrow> int \<Rightarrow> int \<Rightarrow> int \<Rightarrow> cron_job \<Rightarrow> cron_job" where
  "execute_job lib outcome t1 t2 t3 job =
     (let (status, err) = (case outcome of
             Some (Inr _) \<Rightarrow> (RunOk, None) | Some (Inl e) \<Rightarrow> (RunError, Some e) | None \<Rightarrow> (RunOk, None));
          st = cj_state job;
          st1 = st\<lparr>js_last_status := Some status, js_last_error := err, js_last_run_at_ms := Some t1,
                   js_run_history := trim_history (js_run_history st @
                     [\<lparr>rr_run_at_ms = t1, rr_status = status, rr_duration_ms = wrap_i64 (t2 - t1), rr_error = err\<rparr>])\<rparr>;
          job1 = job\<lparr>cj_updated_at_ms := t2, cj_state := st1\<rparr>
      in if sch_kind (cj_schedule job) = At
         then if \<not> cj_delete_after_run job
              then job1\<lparr>cj_enabled := False, cj_state := st1\<lparr>js_next_run_at_ms := None\<rparr>\<rparr>
              else job1
         else job1\<lparr>cj_state := st1\<lparr>js_next_run_at_ms := compute_next_run lib (cj_schedule job) t3\<rparr>\<rparr>)"

definition replace_job :: "cron_job \<Rightarrow> cron_job list \<Rightarrow> cron_job list" where
  "replace_job job js =
     (case position (\<lambda>j. cj_id j = cj_id job) js of Some idx \<Rightarrow> js[idx := job] | None \<Rightarrow> js)"

text \<open>\<^verbatim>\<open>run_job\<close> up to the handler: the job to run, if it is found and may run.\<close>

definition run_job_prepare ::
  "cron_lib \<Rightarrow> string \<Rightarrow> bool \<Rightarrow> cron_inner \<Rightarrow> cron_job option \<times> cron_inner" where
  "run_job_prepare lib i force s =
     (let s1 = load_store lib (s\<lparr>ci_running := True\<rparr>)
      in case Option.bind (ci_store s1) (\<lambda>st. find (\<lambda>j. cj_id j = i) (st_jobs st)) of
           None \<Rightarrow> (None, s1\<lparr>ci_running := ci_running s\<rparr>)
         | Some job \<Rightarrow>
             if \<not> force \<and> \<not> cj_enabled job then (None, s1\<lparr>ci_running := ci_running s\<rparr>)
             else (Some job, s1))"

definition run_job_commit :: "cron_lib \<Rightarrow> int \<Rightarrow> bool \<Rightarrow> cron_job \<Rightarrow> cron_inner \<Rightarrow> cron_inner" where
  "run_job_commit lib now was_running job s =
     (let s1 = save_store lib (s\<lparr>ci_store :=
                 map_option (\<lambda>st. st\<lparr>st_jobs := replace_job job (st_jobs st)\<rparr>) (ci_store s)\<rparr>);
          s2 = s1\<lparr>ci_running := was_running\<rparr>
      in if was_running then arm_timer now s2 else s2)"

text \<open>\<^verbatim>\<open>run_job\<close> with a handler that does not call back into the service.\<close>

definition run_job ::
  "cron_lib \<Rightarrow> job_outcome \<Rightarrow> int \<Rightarrow> int \<Rightarrow> int \<Rightarrow> string \<Rightarrow> bool \<Rightarrow> cron_inner \<Rightarrow> bool \<times> cron_inner" where
  "run_job lib outcome t1 t2 t3 i force s =
     (case run_job_prepare lib i force s of
        (None, s1) \<Rightarrow> (False, s1)
      | (Some job, s1) \<Rightarrow>
          (True, run_job_commit lib t3 (ci_running s) (execute_job lib outcome t1 t2 t3 job) s1))"

definition is_due :: "int \<Rightarrow> cron_job \<Rightarrow> bool" where
  "is_due now j \<longleftrightarrow>
     cj_enabled j \<and> (case js_next_run_at_ms (cj_state j) of Some t \<Rightarrow> now \<ge> t | None \<Rightarrow> False)"

definition on_timer_begin :: "cron_lib \<Rightarrow> int \<Rightarrow> cron_inner \<Rightarrow> cron_job list \<times> cron_inner" where
  "on_timer_begin lib now s =
     (let s1 = (load_store lib s)\<lparr>ci_timer_active := True\<rparr>
      in (case ci_store s1 of Some st \<Rightarrow> filter (is_due now) (st_jobs st) | None \<Rightarrow> [], s1))"

definition write_back_jobs :: "cron_job \<Rightarrow> cron_job list \<Rightarrow> cron_job list" where
  "write_back_jobs job js =
     (let js' = replace_job job js
      in if sch_kind (cj_schedule job) = At \<and> cj_delete_after_run job
         then filter (\<lambda>j. cj_id j \<noteq> cj_id job) js' else js')"

definition on_timer_write_back :: "cron_job \<Rightarrow> cron_inner \<Rightarrow> cron_inner" where
  "on_timer_write_back job s =
     s\<lparr>ci_store := map_option (\<lambda>st. st\<lparr>st_jobs := write_back_jobs job (st_jobs st)\<rparr>) (ci_store s)\<rparr>"

definition on_timer_end :: "cron_lib \<Rightarrow> int \<Rightarrow> cron_inner \<Rightarrow> cron_inner" where
  "on_timer_end lib now s = arm_timer now ((save_store lib s)\<lparr>ci_timer_active := False\<rparr>)"

text \<open>A whole tick with a handler that does not call back; \<open>outcome\<close> gives its result per job.\<close>

definition on_timer ::
  "cron_lib \<Rightarrow> (cron_job \<Rightarrow> job_outcome) \<Rightarrow> int \<Rightarrow> int \<Rightarrow> cron_inner \<Rightarrow> cron_inner" where
  "on_timer lib outcome now now' s =
     (let (due, s1) = on_timer_begin lib now s
      in on_timer_end lib now'
           (fold (\<lambda>job. on_timer_write_back (execute_job lib (outcome job) now now' now' job)) due s1))"

section \<open>Lists of jobs as tables\<close>

lemma find_eq_find_key: "find (\<lambda>x. key x = k) xs = find_key key xs k"
  by (simp add: find_key_def)

lemma find_key_mset:
  assumes "mset xs = mset ys" "distinct (map key xs)"
  shows "find_key key xs k = find_key key ys k"
proof -
  have s: "set xs = set ys" using assms(1) by (metis set_mset_mset)
  have d: "distinct (map key ys)"
    using assms mset_eq_imp_distinct_iff [of "map key xs" "map key ys"] by simp
  show ?thesis
  proof (cases "find_key key xs k")
    case None
    then show ?thesis using s find_key_None_iff [of key xs k] find_key_None_iff [of key ys k] by simp
  next
    case (Some x)
    then have "x \<in> set ys" "key x = k" using find_key_SomeD [OF Some] s by simp_all
    then show ?thesis using Some find_key_distinct [OF d] by metis
  qed
qed

lemma position_find:
  "position P xs = Some i \<Longrightarrow> i < length xs \<and> P (xs ! i) \<and> find P xs = Some (xs ! i)"
  by (induction xs arbitrary: i) (auto split: if_splits)

lemma position_find_None: "position P xs = None \<longleftrightarrow> find P xs = None"
  by (induction xs) auto

lemma replace_job_simps [simp]:
  "replace_job job [] = []"
  "replace_job job (x # xs) = (if cj_id x = cj_id job then job # xs else x # replace_job job xs)"
  by (auto simp: replace_job_def split: option.split)

lemma replace_job_keys [simp]: "map cj_id (replace_job job js) = map cj_id js"
  by (induction js) auto

lemma find_replace_job:
  "find_key cj_id (replace_job job js) i =
    (if i = cj_id job then (if find_key cj_id js i = None then None else Some job) else find_key cj_id js i)"
  by (induction js) auto

section \<open>Loading\<close>

text \<open>A line of the action log that does something.\<close>

definition effective :: "cron_lib \<Rightarrow> string \<Rightarrow> bool" where
  "effective lib line \<longleftrightarrow> snd (apply_action lib line ([], False))"

lemma apply_action_idle: "\<not> effective lib line \<Longrightarrow> apply_action lib line p = p"
  by (auto simp: effective_def apply_action_def Let_def split: option.splits if_splits)

lemma apply_action_effective: "effective lib line \<Longrightarrow> snd (apply_action lib line p)"
  by (auto simp: effective_def apply_action_def Let_def split: option.splits if_splits)

lemma apply_action_keeps:
  assumes "distinct (map cj_id (fst p))"
  shows "distinct (map cj_id (fst (apply_action lib line p)))"
    "snd p \<Longrightarrow> snd (apply_action lib line p)"
  using assms by (auto simp: apply_action_def Let_def distinct_upsert distinct_map_filter
      split: option.splits)

lemma fold_apply_action_distinct:
  "distinct (map cj_id (fst p)) \<Longrightarrow> distinct (map cj_id (fst (fold (apply_action lib) ls p)))"
  by (induction ls arbitrary: p) (simp_all add: apply_action_keeps)

lemma fold_apply_action_mono:
  "distinct (map cj_id (fst p)) \<Longrightarrow> snd p \<Longrightarrow> snd (fold (apply_action lib) ls p)"
  by (induction ls arbitrary: p) (simp_all add: apply_action_keeps)

lemma fold_apply_action_idle:
  "\<forall>l \<in> set ls. \<not> effective lib l \<Longrightarrow> fold (apply_action lib) ls p = p"
  by (induction ls arbitrary: p) (auto simp: apply_action_idle)

lemma fold_apply_action_unchanged:
  "distinct (map cj_id (fst p)) \<Longrightarrow> \<not> snd (fold (apply_action lib) ls p) \<Longrightarrow> \<forall>l \<in> set ls. \<not> effective lib l"
proof (induction ls arbitrary: p)
  case (Cons l ls)
  have "\<not> effective lib l"
    using Cons.prems apply_action_effective fold_apply_action_mono apply_action_keeps(1) by fastforce
  then show ?case using Cons by (simp add: apply_action_idle)
qed simp

definition quiet :: "cron_lib \<Rightarrow> disk_file \<Rightarrow> bool" where
  "quiet lib f \<longleftrightarrow> (case f of FText t \<Rightarrow> \<forall>l \<in> set (split_lines t). \<not> effective lib l | _ \<Rightarrow> True)"

lemma save_store_simps [simp]:
  "ci_action_file (save_store lib s) = ci_action_file s" "ci_store (save_store lib s) = ci_store s"
  "ci_running (save_store lib s) = ci_running s" "ci_timer_active (save_store lib s) = ci_timer_active s"
  "ci_writable (save_store lib s) = ci_writable s" "ci_timer (save_store lib s) = ci_timer s"
  "ci_max_sleep_ms (save_store lib s) = ci_max_sleep_ms s" "ci_corrupt_files (save_store lib s) = ci_corrupt_files s"
  by (simp_all add: save_store_def split: option.split)

lemma arm_timer_simps [simp]:
  "ci_action_file (arm_timer n s) = ci_action_file s" "ci_store (arm_timer n s) = ci_store s"
  "ci_running (arm_timer n s) = ci_running s" "ci_timer_active (arm_timer n s) = ci_timer_active s"
  "ci_writable (arm_timer n s) = ci_writable s" "ci_store_file (arm_timer n s) = ci_store_file s"
  by (simp_all add: arm_timer_def)

lemma merge_action_simps [simp]:
  "ci_running (merge_action lib s) = ci_running s" "ci_timer_active (merge_action lib s) = ci_timer_active s"
  "ci_writable (merge_action lib s) = ci_writable s"
  by (simp_all add: merge_action_def Let_def split: disk_file.split option.split prod.split)

lemma load_store_simps [simp]:
  "ci_running (load_store lib s) = ci_running s" "ci_timer_active (load_store lib s) = ci_timer_active s"
  "ci_writable (load_store lib s) = ci_writable s"
  by (simp_all add: load_store_def split: result.split prod.split)

lemma fold_upsert_keys: "distinct (map key ys) \<Longrightarrow> distinct (map key (fold (upsert key) xs ys))"
  by (induction xs arbitrary: ys) (auto simp: distinct_upsert)

lemma load_store_quiet:
  assumes "ci_running s" "ci_writable s" "\<not> ci_timer_active s"
    "load_jobs_from_disk lib (ci_store_file s) = Ok p"
  shows "quiet lib (ci_action_file (load_store lib s))"
proof (cases "ci_action_file s")
  case (FText t)
  obtain jobs ver where p: "p = (jobs, ver)" by (cases p)
  obtain js ch where w: "fold (apply_action lib) (split_lines t) (fold (upsert cj_id) jobs [], False) = (js, ch)"
    by (cases "fold (apply_action lib) (split_lines t) (fold (upsert cj_id) jobs [], False)")
  show ?thesis
  proof (cases ch)
    case True
    then show ?thesis using assms FText p w by (simp add: load_store_def merge_action_def Let_def quiet_def)
  next
    case False
    have "distinct (map cj_id (fold (upsert cj_id) jobs []))" by (simp add: fold_upsert_keys)
    then have "\<forall>l \<in> set (split_lines t). \<not> effective lib l"
      using fold_apply_action_unchanged [of "(fold (upsert cj_id) jobs [], False)" lib "split_lines t"] w False by simp
    then show ?thesis using assms FText p w False by (simp add: load_store_def merge_action_def Let_def quiet_def)
  qed
qed (use assms in \<open>auto simp: load_store_def merge_action_def quiet_def split: prod.splits\<close>)

lemma load_store_quiet_jobs:
  assumes "\<not> ci_timer_active s" "load_jobs_from_disk lib (ci_store_file s) = Ok (jobs, ver)"
    and "quiet lib (ci_action_file s)" "distinct (map cj_id jobs)" "\<And>js. mset (map_order lib js) = mset js"
  shows "\<exists>js. ci_store (load_store lib s) = Some \<lparr>st_version = ver, st_jobs = js\<rparr> \<and> mset js = mset jobs"
proof (cases "ci_action_file s")
  case (FText t)
  have "fold (upsert cj_id) jobs [] = jobs" using fold_upsert_distinct [of cj_id "[]" jobs] assms(4) by simp
  moreover have "fold (apply_action lib) (split_lines t) (jobs, False) = (jobs, False)"
    using assms(3) FText by (intro fold_apply_action_idle) (simp add: quiet_def)
  ultimately show ?thesis using assms FText by (simp add: load_store_def merge_action_def)
qed (use assms in \<open>simp_all add: load_store_def merge_action_def\<close>)

text \<open>The codec reads back the text it writes for the store \<open>st\<close>.\<close>

definition codec_ok :: "cron_lib \<Rightarrow> cron_store \<Rightarrow> bool" where
  "codec_ok lib st \<longleftrightarrow>
     (\<exists>t. store_to_text lib st = Some t
       \<and> load_jobs_from_disk lib (FText t) = Ok (st_jobs st, st_version st))"

lemma save_load:
  assumes "codec_ok lib st" "ci_store s = Some st" "ci_writable s"
  shows "load_jobs_from_disk lib (ci_store_file (save_store lib s)) = Ok (st_jobs st, st_version st)"
  using assms by (auto simp: codec_ok_def save_store_def)

lemma get_job_after_save:
  assumes "codec_ok lib st" "ci_store s = Some st" "ci_writable s" "\<not> ci_timer_active s"
    and "quiet lib (ci_action_file s)" "distinct (map cj_id (st_jobs st))" "\<And>js. mset (map_order lib js) = mset js"
  shows "fst (get_job lib k (arm_timer now (save_store lib s))) = find_key cj_id (st_jobs st) k"
proof -
  let ?s = "arm_timer now (save_store lib s)"
  have "\<exists>js. ci_store (load_store lib ?s) = Some \<lparr>st_version = st_version st, st_jobs = js\<rparr> \<and> mset js = mset (st_jobs st)"
    by (rule load_store_quiet_jobs) (use assms save_load in simp_all)
  then obtain js where "ci_store (load_store lib ?s) = Some \<lparr>st_version = st_version st, st_jobs = js\<rparr>"
    "mset js = mset (st_jobs st)" by blast
  then show ?thesis using find_key_mset [of "st_jobs st" js cj_id k] assms(6)
    by (simp add: get_job_def find_eq_find_key)
qed

lemma validate_Panic [simp]: "validate_schedule_for_add lib s \<noteq> Panic"
  by (simp add: validate_schedule_for_add_def split: option.split)

section \<open>Main properties\<close>

text \<open>
  A job added to a running service is found under its id afterwards, from disk, and
  every other job reads as before. The id is fresh, the directory is writable, and the codec
  reads back the store it wrote.
\<close>

theorem added_job_is_found:
  assumes "ci_running s" and "ci_writable s" and "\<not> ci_timer_active s"
    and "is_ok (load_jobs_from_disk lib (ci_store_file s))"
    and "ci_store (load_store lib s) = Some st" and "distinct (map cj_id (st_jobs st))"
    and "i \<notin> cj_id ` set (st_jobs st)"
    and "add_job lib now i nm sched msg dlv ch rcpt del meta key s = (Ok job, s')"
    and "codec_ok lib (st\<lparr>st_jobs := st_jobs st @ [job]\<rparr>)"
    and "\<And>js. mset (map_order lib js) = mset js"
  shows "fst (get_job lib k s') = (if k = i then Some job else find (\<lambda>j. cj_id j = k) (st_jobs st))"
proof -
  let ?s = "push_job job (load_store lib s)"
  have job: "cj_id job = i" and s': "s' = arm_timer now (save_store lib ?s)"
    using assms(1,8) by (auto simp: add_job_def Let_def new_job_def split: result.splits)
  obtain p where "load_jobs_from_disk lib (ci_store_file s) = Ok p"
    using assms(4) by (cases "load_jobs_from_disk lib (ci_store_file s)") auto
  then have q: "quiet lib (ci_action_file (load_store lib s))" using load_store_quiet assms(1-3) by blast
  have "fst (get_job lib k (arm_timer now (save_store lib ?s)))
      = find_key cj_id (st_jobs (st\<lparr>st_jobs := st_jobs st @ [job]\<rparr>)) k"
    by (rule get_job_after_save [OF assms(9)])
       (use assms(2,3,5,6,7,10) job q in \<open>simp_all add: push_job_def\<close>)
  moreover have "find_key cj_id (st_jobs st) i = None" using assms(7) by (simp add: find_key_None_iff)
  ultimately show ?thesis using job unfolding s'
    by (cases "k = i") (simp_all add: find_key_append find_eq_find_key split: option.split)
qed

text \<open>
  Running a job leaves a bounded trace and reschedules it: at most twenty records are
  kept, the newest is this run with its status and start, the last-run fields agree with it,
  a one-shot job that is not deleted is disabled and has no next run, and a recurring one
  gets the next run computed from the clock. Identity, name, payload and schedule stay.
\<close>

theorem execute_job_records_run:
  assumes "job' = execute_job lib outcome t1 t2 t3 job"
  shows "length (js_run_history (cj_state job')) \<le> 20
    \<and> last (js_run_history (cj_state job')) =
        \<lparr>rr_run_at_ms = t1, rr_status = (case outcome of Some (Inl _) \<Rightarrow> RunError | _ \<Rightarrow> RunOk),
         rr_duration_ms = wrap_i64 (t2 - t1), rr_error = (case outcome of Some (Inl e) \<Rightarrow> Some e | _ \<Rightarrow> None)\<rparr>
    \<and> js_last_run_at_ms (cj_state job') = Some t1
    \<and> js_last_status (cj_state job') = Some (case outcome of Some (Inl _) \<Rightarrow> RunError | _ \<Rightarrow> RunOk)
    \<and> (sch_kind (cj_schedule job) = At \<and> \<not> cj_delete_after_run job \<longrightarrow> \<not> is_due now job' \<and> \<not> cj_enabled job')
    \<and> (sch_kind (cj_schedule job) \<noteq> At \<longrightarrow>
         js_next_run_at_ms (cj_state job') = compute_next_run lib (cj_schedule job) t3
         \<and> cj_enabled job' = cj_enabled job)
    \<and> cj_id job' = cj_id job \<and> cj_name job' = cj_name job \<and> cj_payload job' = cj_payload job
    \<and> cj_schedule job' = cj_schedule job"
proof -
  have last: "last (trim_history (h @ [r])) = r" "length (trim_history h) \<le> 20" for h r
    by (auto simp: trim_history_def max_run_history_def last_drop)
  then show ?thesis
    unfolding assms by (cases outcome) (auto simp: execute_job_def Let_def is_due_def split: sum.split)
qed

definition demo_job :: cron_job where
  "demo_job = \<lparr>cj_id = ''a'', cj_name = ''n'', cj_enabled = True,
     cj_schedule = \<lparr>sch_kind = At, sch_at_ms = Some 50, sch_every_ms = None, sch_expr = None, sch_tz = None\<rparr>,
     cj_payload = \<lparr>pl_kind = AgentTurn, pl_message = ''ping'', pl_deliver = False, pl_channel = None,
       pl_to = None, pl_channel_meta = None, pl_session_key = None\<rparr>,
     cj_state = default_job_state\<lparr>js_next_run_at_ms := Some 50\<rparr>,
     cj_created_at_ms = 0, cj_updated_at_ms = 0, cj_delete_after_run = False\<rparr>"

text \<open>A library whose codec knows a single text for the store, enough for closed instances.\<close>

definition demo_lib :: "cron_job list \<Rightarrow> cron_lib" where
  "demo_lib js = \<lparr>value_of_text = (\<lambda>t. if t = ''store'' then Some (JObject [(''version'', JNumber (NumInt 1)), (''jobs'', JNull)])
       else if t = ''line'' then Some (JObject [(''action'', JString ''add''), (''params'', JBool True)]) else None),
     value_to_text = (\<lambda>_. ''line''),
     jobs_of_value = (\<lambda>_. Some js), job_of_value = (\<lambda>_. Some (hd js)), job_to_value = (\<lambda>_. Some (JBool True)),
     store_to_text = (\<lambda>_. Some ''store''), tz_known = (\<lambda>_. True), expr_ok = (\<lambda>_. False),
     next_after = (\<lambda>_ _ _. None), map_order = (\<lambda>xs. xs)\<rparr>"

theorem execute_job_records_run_witness:
  "\<not> cj_enabled (execute_job (demo_lib []) None 60 70 70 demo_job)
   \<and> last (js_run_history (cj_state (execute_job (demo_lib []) None 60 70 70 demo_job))) =
      \<lparr>rr_run_at_ms = 60, rr_status = RunOk, rr_duration_ms = 10, rr_error = None\<rparr>"
  using execute_job_records_run [of "execute_job (demo_lib []) None 60 70 70 demo_job" "demo_lib []" None 60 70 70 demo_job]
  by (simp add: demo_job_def wrap_i64_def)

lemma min_option_le: "x \<in> set xs \<Longrightarrow> \<exists>m. min_option xs = Some m \<and> m \<le> x"
  by (induction xs) (auto split: option.splits)

lemma min_option_mem: "min_option xs = Some m \<Longrightarrow> m \<in> set xs"
  by (induction xs arbitrary: m) (auto simp: min_def split: option.splits if_splits)

lemma wake_times_iff:
  "t \<in> set (wake_times js) \<longleftrightarrow> (\<exists>j \<in> set js. cj_enabled j \<and> js_next_run_at_ms (cj_state j) = Some t)"
proof (induction js)
  case (Cons j js)
  have "wake_times (j # js) = (case js_next_run_at_ms (cj_state j) of
      Some u \<Rightarrow> if cj_enabled j then u # wake_times js else wake_times js | None \<Rightarrow> wake_times js)"
    by (simp add: wake_times_def List.map_filter_def split: option.split)
  then show ?case using Cons by (auto split: option.splits if_splits)
qed (simp add: wake_times_def List.map_filter_def)

lemma wrap_i64_id: "- (2 ^ 63) \<le> x \<Longrightarrow> x < 2 ^ 63 \<Longrightarrow> wrap_i64 x = x"
  by (simp add: wrap_i64_def)

text \<open>
  The timer never oversleeps: an armed running service sleeps at most
  \<^verbatim>\<open>max_sleep_ms\<close>, never a negative time, and wakes up no later than the next run of any
  enabled job (or at once if that lies in the past).
\<close>

theorem timer_never_oversleeps:
  assumes "ci_running s" and "ci_store s = Some st" and "0 \<le> ci_max_sleep_ms s"
    and "j \<in> set (st_jobs st)" and "cj_enabled j" and "js_next_run_at_ms (cj_state j) = Some t"
    and "\<forall>j \<in> set (st_jobs st). \<forall>t. js_next_run_at_ms (cj_state j) = Some t \<longrightarrow> - (2 ^ 62) \<le> t \<and> t < 2 ^ 62"
    and "0 \<le> now" and "now < 2 ^ 62"
  shows "\<exists>d. ci_timer (arm_timer now s) = Some d \<and> 0 \<le> d \<and> d \<le> ci_max_sleep_ms s \<and> now + d \<le> max now t"
proof -
  have "t \<in> set (wake_times (st_jobs st))" using assms(4-6) by (auto simp: wake_times_iff)
  then obtain m where m: "min_option (wake_times (st_jobs st)) = Some m" "m \<le> t" using min_option_le by blast
  have "m \<in> set (wake_times (st_jobs st))" using m(1) by (rule min_option_mem)
  then have "- (2 ^ 62) \<le> m \<and> m < 2 ^ 62" using assms(7) by (auto simp: wake_times_iff)
  then have "wrap_i64 (m - now) = m - now" using assms(8,9) by (intro wrap_i64_id) simp_all
  moreover have "next_wake_ms s = Some m" using assms(2) m(1) by (simp add: next_wake_ms_def)
  ultimately show ?thesis using assms(1,3) m(2) by (auto simp: arm_timer_def)
qed

definition demo_state :: "cron_job list \<Rightarrow> cron_inner" where
  "demo_state js = \<lparr>ci_store_file = FText ''store'', ci_action_file = FAbsent, ci_corrupt_files = [],
     ci_writable = True, ci_store = Some \<lparr>st_version = 1, st_jobs = js\<rparr>, ci_running = True,
     ci_timer_active = False, ci_max_sleep_ms = 300000, ci_timer = None\<rparr>"

theorem timer_never_oversleeps_witness:
  "\<exists>d. ci_timer (arm_timer 20 (demo_state [demo_job])) = Some d \<and> 20 + d \<le> 50"
  using timer_never_oversleeps [of "demo_state [demo_job]" "\<lparr>st_version = 1, st_jobs = [demo_job]\<rparr>" demo_job 50 20]
  by (auto simp: demo_state_def demo_job_def)

lemma demo_load_empty:
  "load_store (demo_lib js) ((demo_state [])\<lparr>ci_store_file := FAbsent\<rparr>)
     = (demo_state [])\<lparr>ci_store_file := FAbsent\<rparr>"
  by (simp add: load_store_def demo_state_def demo_lib_def load_jobs_from_disk_def merge_action_def)

definition demo_sched :: cron_schedule where
  "demo_sched = \<lparr>sch_kind = Every, sch_at_ms = None, sch_every_ms = Some 100, sch_expr = None, sch_tz = None\<rparr>"

definition demo_new :: cron_job where
  "demo_new = new_job (demo_lib []) 20 ''b'' ''n'' demo_sched (cj_payload demo_job) False"

lemma demo_add:
  "add_job (demo_lib js) 20 ''b'' ''n'' demo_sched ''ping'' False None None False None None s =
     (if ci_running s then (Ok demo_new, arm_timer 20 (save_store (demo_lib js) (push_job demo_new (load_store (demo_lib js) s))))
      else (case append_action (demo_lib js) ''add'' (JBool True) s of
              (Ok _, s') \<Rightarrow> (Ok demo_new, s') | (Err e, s') \<Rightarrow> (Err e, s') | (Panic, s') \<Rightarrow> (Panic, s')))"
proof -
  have "new_job (demo_lib js) 20 ''b'' ''n'' demo_sched (cj_payload demo_job) False = demo_new"
    by (simp add: demo_new_def new_job_def compute_next_run_def demo_sched_def)
  moreover have "validate_schedule_for_add (demo_lib js) demo_sched = Ok ()"
    by (simp add: validate_schedule_for_add_def demo_sched_def)
  moreover have "job_to_value (demo_lib js) j = Some (JBool True)" for j by (simp add: demo_lib_def)
  ultimately show ?thesis by (simp add: add_job_def Let_def demo_job_def)
qed

theorem added_job_is_found_witness:
  "\<exists>s'. add_job (demo_lib [demo_new]) 20 ''b'' ''n'' demo_sched ''ping'' False None None False None None
       ((demo_state [])\<lparr>ci_store_file := FAbsent\<rparr>) = (Ok demo_new, s')
     \<and> fst (get_job (demo_lib [demo_new]) ''b'' s') = Some demo_new"
proof -
  let ?lib = "demo_lib [demo_new]" and ?s = "(demo_state [])\<lparr>ci_store_file := FAbsent\<rparr>"
  obtain s' where a: "add_job ?lib 20 ''b'' ''n'' demo_sched ''ping'' False None None False None None ?s = (Ok demo_new, s')"
    by (simp add: demo_add demo_state_def)
  have "codec_ok ?lib (\<lparr>st_version = 1, st_jobs = []\<rparr>\<lparr>st_jobs := st_jobs \<lparr>st_version = 1, st_jobs = []\<rparr> @ [demo_new]\<rparr>)"
    by (simp add: codec_ok_def demo_lib_def load_jobs_from_disk_def obj_get_def value_u32_def)
  moreover have "ci_store (load_store ?lib ?s) = Some \<lparr>st_version = 1, st_jobs = []\<rparr>"
    unfolding demo_load_empty by (simp add: demo_state_def)
  moreover have "mset (map_order ?lib js) = mset js" for js by (simp add: demo_lib_def)
  moreover have "ci_running ?s" "ci_writable ?s" "\<not> ci_timer_active ?s"
    "is_ok (load_jobs_from_disk ?lib (ci_store_file ?s))"
    by (simp_all add: demo_state_def load_jobs_from_disk_def)
  ultimately have "fst (get_job ?lib ''b'' s') = Some demo_new"
    using added_job_is_found [OF _ _ _ _ _ _ _ a, of "\<lparr>st_version = 1, st_jobs = []\<rparr>" "''b''"] by simp
  with a show ?thesis by blast
qed

lemma split_lines_append:
  "t = [] \<or> byte (last t) = 10 \<Longrightarrow> split_lines (t @ u) = split_lines t @ split_lines u"
proof (induction t)
  case (Cons c t)
  have "split_lines t \<noteq> []" if "t \<noteq> []" using that by (cases t) (auto split: list.split)
  with Cons show ?case by (cases "t = []") (auto split: list.split)
qed simp

lemma split_lines_line: "\<forall>c \<in> set l. byte c \<noteq> 10 \<Longrightarrow> split_lines (l @ [CHR 0x0A]) = [l]"
  by (induction l) (auto simp: byte_def)

text \<open>A stopped service's action log: absent, or a text of complete lines.\<close>

fun log_text :: "disk_file \<Rightarrow> string option" where
  "log_text FAbsent = Some []"
| "log_text FUnreadable = None"
| "log_text (FText t) = Some t"

lemma merge_appended_job:
  assumes "ci_action_file s = FText (old @ line @ [CHR 0x0A])" "ci_store s = Some st"
    and "old = [] \<or> byte (last old) = 10" "\<forall>c \<in> set line. byte c \<noteq> 10" "trim line \<noteq> []"
    and "value_of_text lib (trim line) = Some (JObject [(''action'', JString ''add''), (''params'', v)])"
    and "job_of_value lib v = Some job" "\<And>js. mset (map_order lib js) = mset js"
  shows "\<exists>st'. ci_store (merge_action lib s) = Some st' \<and> job \<in> set (st_jobs st')"
proof -
  have ls: "split_lines (old @ line @ [CHR 0x0A]) = split_lines old @ [line]"
    using split_lines_append [OF assms(3)] split_lines_line [OF assms(4)] by simp
  let ?p = "fold (apply_action lib) (split_lines old) (fold (upsert cj_id) (st_jobs st) [], False)"
  have "apply_action lib line ?p = (upsert cj_id job (fst ?p), True)"
    using assms(5-7) by (simp add: apply_action_def obj_get_def)
  then have f: "fold (apply_action lib) (split_lines (old @ line @ [CHR 0x0A]))
      (fold (upsert cj_id) (st_jobs st) [], False) = (upsert cj_id job (fst ?p), True)"
    unfolding ls by simp
  have "job \<in> set (upsert cj_id job (fst ?p))"
    using find_key_SomeD [of cj_id "upsert cj_id job (fst ?p)" "cj_id job" job] by (simp add: find_key_upsert)
  then have "job \<in> set (map_order lib (upsert cj_id job (fst ?p)))"
    using assms(8) by (metis set_mset_mset)
  then show ?thesis using assms(1,2) f by (simp add: merge_action_def Let_def)
qed

text \<open>
  A job added while the service is stopped is not lost: it is appended to the action log
  and is among the jobs, rescheduled, once the service has started. serde writes one line
  without line breaks and reads its own text back.
\<close>

theorem offline_add_reaches_start:
  assumes "\<not> ci_running s" and "\<not> ci_timer_active s"
    and "add_job lib now i nm sched msg dlv ch rcpt del meta key s = (Ok job, s')"
    and "cron_start lib now' s' = (Ok (), s'')"
    and "is_ok (load_jobs_from_disk lib (ci_store_file s))"
    and "log_text (ci_action_file s) = Some old" and "old = '''' \<or> byte (last old) = 10"
    and "job_to_value lib job = Some v" and "job_of_value lib v = Some job"
    and "line = value_to_text lib (JObject [(''action'', JString ''add''), (''params'', v)])"
    and "\<forall>c \<in> set line. byte c \<noteq> 10" and "trim line \<noteq> ''''"
    and "value_of_text lib (trim line) = Some (JObject [(''action'', JString ''add''), (''params'', v)])"
    and "\<And>js. mset (map_order lib js) = mset js"
  shows "\<exists>st. ci_store s'' = Some st \<and> recompute_job lib now' job \<in> set (st_jobs st)"
proof -
  have f: "ci_action_file s' = FText (old @ line @ [CHR 0x0A])" "ci_store_file s' = ci_store_file s"
    "\<not> ci_timer_active s'"
    using assms(1,2,3,6,8,10)
    by (auto simp: add_job_def append_action_def Let_def split: result.splits option.splits if_splits disk_file.splits)
  obtain jobs ver where l: "load_jobs_from_disk lib (ci_store_file s') = Ok (jobs, ver)"
    using assms(5) f(2) by (cases "load_jobs_from_disk lib (ci_store_file s)") auto
  let ?s0 = "s'\<lparr>ci_running := True, ci_store := Some \<lparr>st_version = ver, st_jobs = jobs\<rparr>\<rparr>"
  have load: "load_store lib (s'\<lparr>ci_running := True\<rparr>) = merge_action lib ?s0"
    using l f(3) by (simp add: load_store_def)
  obtain st where st: "ci_store (merge_action lib ?s0) = Some st" "job \<in> set (st_jobs st)"
    using merge_appended_job [of ?s0 old line _ lib v job] f(1) assms(7,9,11-14) by auto
  then show ?thesis using assms(4) load
    by (auto simp: cron_start_def Let_def recompute_next_runs_def split: if_splits)
qed

lemma merge_action_store: "ci_store s \<noteq> None \<Longrightarrow> ci_store (merge_action lib s) \<noteq> None"
  by (auto simp: merge_action_def Let_def split: disk_file.split option.split prod.split)

lemma cron_start_ok:
  assumes "is_ok (load_jobs_from_disk lib (ci_store_file s))" "\<not> ci_timer_active s"
  shows "\<exists>s'. cron_start lib now s = (Ok (), s')"
proof -
  obtain jobs ver where l: "load_jobs_from_disk lib (ci_store_file s) = Ok (jobs, ver)"
    using assms(1) by (cases "load_jobs_from_disk lib (ci_store_file s)") auto
  have "ci_store (load_store lib (s\<lparr>ci_running := True\<rparr>)) \<noteq> None"
    unfolding load_store_def using assms(2) l by (simp add: merge_action_store del: not_None_eq)
  then show ?thesis by (simp add: cron_start_def Let_def)
qed

theorem offline_add_reaches_start_witness:
  "\<exists>s' s'' st. add_job (demo_lib [demo_new]) 20 ''b'' ''n'' demo_sched ''ping'' False None None False None None
       (cron_new FAbsent FAbsent True) = (Ok demo_new, s')
     \<and> cron_start (demo_lib [demo_new]) 30 s' = (Ok (), s'')
     \<and> ci_store s'' = Some st \<and> recompute_job (demo_lib [demo_new]) 30 demo_new \<in> set (st_jobs st)"
proof -
  let ?lib = "demo_lib [demo_new]" and ?s = "cron_new FAbsent FAbsent True"
  let ?s' = "?s\<lparr>ci_action_file := FText (''line'' @ [CHR 0x0A])\<rparr>"
  have a: "add_job ?lib 20 ''b'' ''n'' demo_sched ''ping'' False None None False None None ?s = (Ok demo_new, ?s')"
    unfolding demo_add by (simp add: cron_new_def with_max_sleep_def append_action_def) (simp add: demo_lib_def)
  obtain s'' where b: "cron_start ?lib 30 ?s' = (Ok (), s'')"
    using cron_start_ok [of ?lib ?s' 30] by (auto simp: load_jobs_from_disk_def cron_new_def with_max_sleep_def)
  have t: "trim ''line'' = ''line''" by code_simp
  have "\<exists>st. ci_store s'' = Some st \<and> recompute_job ?lib 30 demo_new \<in> set (st_jobs st)"
    by (rule offline_add_reaches_start [OF _ _ a b, where v = "JBool True" and old = "[]" and line = "''line''"])
       (simp_all add: cron_new_def with_max_sleep_def demo_lib_def load_jobs_from_disk_def t byte_def)
  with a b show ?thesis by blast
qed

definition one_shot :: "cron_job \<Rightarrow> bool" where
  "one_shot job \<longleftrightarrow> sch_kind (cj_schedule job) = At \<and> cj_delete_after_run job"

lemma write_back_find:
  "find_key cj_id (write_back_jobs job js) i =
     (if i = cj_id job
      then if one_shot job \<or> find_key cj_id js i = None then None else Some job
      else find_key cj_id js i)"
  by (simp add: write_back_jobs_def one_shot_def find_key_filter_other find_replace_job Let_def)

lemma execute_job_fixed [simp]:
  "cj_id (execute_job lib oc t1 t2 t3 j) = cj_id j"
  "cj_schedule (execute_job lib oc t1 t2 t3 j) = cj_schedule j"
  "cj_delete_after_run (execute_job lib oc t1 t2 t3 j) = cj_delete_after_run j"
  by (auto simp: execute_job_def Let_def split: option.split sum.split)

lemma fold_write_back_store:
  "ci_store s = Some st \<Longrightarrow>
     ci_store (fold (\<lambda>j. on_timer_write_back (ex j)) ds s) =
       Some (st\<lparr>st_jobs := fold (\<lambda>j. write_back_jobs (ex j)) ds (st_jobs st)\<rparr>)"
  by (induction ds arbitrary: s st) (simp_all add: on_timer_write_back_def)

lemma fold_write_back_find:
  assumes "distinct (map cj_id ds)" "\<And>j. cj_id (ex j) = cj_id j"
  shows "find_key cj_id (fold (\<lambda>j. write_back_jobs (ex j)) ds js) i =
     (case find_key cj_id ds i of
        None \<Rightarrow> find_key cj_id js i
      | Some j \<Rightarrow> if one_shot (ex j) \<or> find_key cj_id js i = None then None else Some (ex j))"
  using assms(1)
proof (induction ds arbitrary: js)
  case (Cons d ds)
  have "find_key cj_id ds (cj_id d) = None" using Cons.prems by (simp add: find_key_None_iff)
  then show ?case using Cons assms(2) by (auto simp: write_back_find split: option.split)
qed simp

lemma find_key_filter_distinct:
  "distinct (map key xs) \<Longrightarrow> find_key key (filter P xs) i =
     (case find_key key xs i of Some x \<Rightarrow> if P x then Some x else None | None \<Rightarrow> None)"
proof (induction xs)
  case (Cons x xs)
  then have "find_key key xs (key x) = None" by (simp add: find_key_None_iff)
  with Cons show ?case by (auto split: option.split)
qed simp



text \<open>
  Running a job by hand does not delete a one-shot job marked for deletion: after
  \<^verbatim>\<open>run_job\<close> it is still stored, enabled, and due at the same time, so the timer runs it again.
\<close>

theorem run_job_keeps_one_shot:
  assumes "ci_store (load_store lib (s\<lparr>ci_running := True\<rparr>)) = Some st"
    and "find (\<lambda>j. cj_id j = i) (st_jobs st) = Some job"
    and "sch_kind (cj_schedule job) = At" and "cj_delete_after_run job" and "cj_enabled job"
  shows "\<exists>s' st' job'. run_job lib outcome t1 t2 t3 i force s = (True, s') \<and> ci_store s' = Some st'
    \<and> find (\<lambda>j. cj_id j = i) (st_jobs st') = Some job'
    \<and> (\<forall>now. is_due now job' = is_due now job)"
proof -
  let ?j = "execute_job lib outcome t1 t2 t3 job"
  let ?s1 = "load_store lib (s\<lparr>ci_running := True\<rparr>)"
  have "run_job_prepare lib i force s = (Some job, ?s1)"
    using assms(1,2,5) by (simp add: run_job_prepare_def Let_def)
  then have "run_job lib outcome t1 t2 t3 i force s = (True, run_job_commit lib t3 (ci_running s) ?j ?s1)"
    by (simp add: run_job_def)
  moreover have "ci_store (run_job_commit lib t3 (ci_running s) ?j ?s1)
      = Some (st\<lparr>st_jobs := replace_job ?j (st_jobs st)\<rparr>)"
    using assms(1) by (simp add: run_job_commit_def Let_def)
  moreover have "cj_id job = i" using assms(2) by (auto simp: find_Some_iff)
  then have "find_key cj_id (replace_job ?j (st_jobs st)) i = Some ?j"
    using assms(2) by (simp add: find_replace_job find_eq_find_key)
  moreover have "is_due now ?j = is_due now job" for now
    using assms(3-5) by (auto simp: execute_job_def is_due_def Let_def split: option.split sum.split)
  ultimately show ?thesis by (simp add: find_eq_find_key)
qed

theorem run_job_keeps_one_shot_witness:
  "\<exists>s' st' job'. run_job (demo_lib [demo_job\<lparr>cj_delete_after_run := True\<rparr>]) None 40 45 45 ''a'' False (demo_state [])
       = (True, s') \<and> ci_store s' = Some st' \<and> find (\<lambda>j. cj_id j = ''a'') (st_jobs st') = Some job'
     \<and> is_due 50 job'"
proof -
  let ?j = "demo_job\<lparr>cj_delete_after_run := True\<rparr>"
  have l: "ci_store (load_store (demo_lib [?j]) ((demo_state [])\<lparr>ci_running := True\<rparr>))
      = Some \<lparr>st_version = 1, st_jobs = [?j]\<rparr>"
    by (simp add: load_store_def demo_state_def demo_lib_def load_jobs_from_disk_def merge_action_def
        obj_get_def value_u32_def Let_def)
  have f: "find (\<lambda>j. cj_id j = ''a'') (st_jobs \<lparr>st_version = 1, st_jobs = [?j]\<rparr>) = Some ?j"
    by (simp add: demo_job_def)
  have "is_due 50 ?j" by (simp add: demo_job_def is_due_def)
  then show ?thesis
    using run_job_keeps_one_shot [OF l f, of None 40 45 45 False] by (auto simp: demo_job_def)
qed

text \<open>
  A store file that is JSON but whose job list does not decode is treated as empty: the
  service starts, and the save at start replaces the file, with no copy kept (only a file
  that is not JSON at all is set aside and stops the start).
\<close>

theorem malformed_jobs_are_overwritten:
  assumes "ci_store_file s = FText t" and "value_of_text lib t = Some data"
    and "jget data ''jobs'' = Some v" and "jobs_of_value lib v = None"
    and "ci_action_file s = FAbsent" and "ci_writable s" and "\<not> ci_timer_active s"
    and "store_to_text lib \<lparr>st_version = value_u32 (jget data ''version''), st_jobs = []\<rparr> = Some t'"
  shows "\<exists>s'. cron_start lib now s = (Ok (), s') \<and> ci_store_file s' = FText t'
    \<and> ci_store s' = Some \<lparr>st_version = value_u32 (jget data ''version''), st_jobs = []\<rparr>
    \<and> ci_corrupt_files s' = ci_corrupt_files s"
  using assms
  by (simp add: cron_start_def load_store_def load_jobs_from_disk_def merge_action_def
      recompute_next_runs_def save_store_def arm_timer_def Let_def)

theorem malformed_jobs_are_overwritten_witness:
  "\<exists>s'. cron_start ((demo_lib [])\<lparr>jobs_of_value := \<lambda>_. None\<rparr>) 5 (demo_state []) = (Ok (), s')
     \<and> ci_corrupt_files s' = []"
  using malformed_jobs_are_overwritten [of "demo_state []" "''store''" "(demo_lib [])\<lparr>jobs_of_value := \<lambda>_. None\<rparr>"
      "JObject [(''version'', JNumber (NumInt 1)), (''jobs'', JNull)]" JNull "''store''" 5]
  by (auto simp: demo_state_def demo_lib_def obj_get_def)

text \<open>
  A POSIX expression of five fields is refused by \<^verbatim>\<open>add_job\<close>, which checks it as it
  stands against a parser that needs six or seven fields, although the scheduler would
  extend it to seven fields and run it.
\<close>

theorem five_field_cron_is_refused:
  assumes "\<forall>e. length (split_whitespace e) = 5 \<longrightarrow> \<not> expr_ok lib e"
    and "sch_kind sched = CronKind" and "sch_tz sched = None" and "sch_expr sched = Some e"
    and "length (split_whitespace e) = 5" and "expr_ok lib (''0 '' @ e @ '' *'')"
  shows "add_job lib now i nm sched msg dlv ch rcpt del meta key s = (Err (BadCronExpr e), s)
    \<and> compute_next_run lib sched now = next_after lib (''0 '' @ e @ '' *'') None now"
  using assms
  by (simp add: add_job_def validate_schedule_for_add_def compute_next_run_def normalize_cron_expr_def Let_def)

theorem five_field_cron_is_refused_witness:
  "fst (add_job ((demo_lib [])\<lparr>expr_ok := \<lambda>e. length (split_whitespace e) = 7\<rparr>) 5 ''b'' ''n''
     \<lparr>sch_kind = CronKind, sch_at_ms = None, sch_every_ms = None, sch_expr = Some ''0 9 * * *'', sch_tz = None\<rparr>
     ''m'' False None None False None None (demo_state [])) = Err (BadCronExpr ''0 9 * * *'')"
proof -
  have c: "length (split_whitespace ''0 9 * * *'') = 5" "length (split_whitespace (''0 '' @ ''0 9 * * *'' @ '' *'')) = 7"
    by code_simp+
  show ?thesis
    using five_field_cron_is_refused [of "(demo_lib [])\<lparr>expr_ok := \<lambda>e. length (split_whitespace e) = 7\<rparr>"
      "\<lparr>sch_kind = CronKind, sch_at_ms = None, sch_every_ms = None, sch_expr = Some ''0 9 * * *'', sch_tz = None\<rparr>"
      "''0 9 * * *''" 5 "''b''" "''n''" "''m''" False None None False None None "demo_state []"] c
    by simp
qed

end
