(* ===== verification/Context_Hook.thy ===== *)
theory Context_Hook
  imports Context_Merge
begin

text \<open>
  The hook that mirrors the agent loop into the context (context/hook.rs). Every method logs
  an error of the context and goes on; only a panic would unwind through it. The clock
  readings of one call are the argument \<open>now\<close>. Of the per-iteration state
  (\<^verbatim>\<open>AgentHookContext\<close>) the record has the fields the hook reads.
\<close>

section \<open>State of the agent loop\<close>

record tool_call_request =
  tcr_id :: string
  tcr_name :: string
  tcr_arguments :: jmap

record hook_context =
  hk_iteration :: nat
  hk_tool_calls :: "tool_call_request list"
  hk_tool_results :: "json list"
  hk_stop_reason :: "string option"
  hk_error :: "string option"

section \<open>context/hook.rs\<close>

text \<open>\<^verbatim>\<open>if let Err(e) = result { log::error!(..) }\<close>, then the rest of the method.\<close>

definition log_err ::
  "unit ctx_result \<times> agent_context \<Rightarrow> (agent_context \<Rightarrow> unit ctx_result \<times> agent_context)
   \<Rightarrow> unit ctx_result \<times> agent_context" where
  "log_err p k = (case p of (Panic, c) \<Rightarrow> (Panic, c) | (_, c) \<Rightarrow> k c)"

definition hook_done :: "agent_context \<Rightarrow> unit ctx_result \<times> agent_context" where
  "hook_done c = (Ok (), c)"

definition before_llm_call ::
  "agent_context \<Rightarrow> nat \<Rightarrow> timestamp \<Rightarrow> unit ctx_result \<times> agent_context" where
  "before_llm_call c it now =
     log_err (set_record c ReasoningResults ''llm_call_iteration''
       (JObject [(''iteration'', JNumber (NumInt (int it))), (''phase'', JString ''before_call'')])
       ''AgentContextSyncHook'' it now) hook_done"

definition after_tool_execution ::
  "agent_context \<Rightarrow> string \<Rightarrow> json \<Rightarrow> json \<Rightarrow> bool \<Rightarrow> nat \<Rightarrow> timestamp
   \<Rightarrow> unit ctx_result \<times> agent_context" where
  "after_tool_execution c tool_name arguments res success it now =
     log_err (set_record c ToolResults tool_name res tool_name it now) (\<lambda>c.
     log_err (record_tool_call c tool_name arguments (Some res)
       (if success then TcSuccess else TcFailure) now (Some now)) hook_done)"

definition after_iteration ::
  "agent_context \<Rightarrow> nat \<Rightarrow> bool \<Rightarrow> timestamp \<Rightarrow> unit ctx_result \<times> agent_context" where
  "after_iteration c it is_final now =
     log_err (set_record c StateChanges ''iteration_complete''
       (JObject [(''iteration'', JNumber (NumInt (int it))), (''is_final'', JBool is_final)])
       ''AgentContextSyncHook'' it now) (\<lambda>c.
     if is_final then log_err (set_lifecycle_state c Completed) hook_done else hook_done c)"

definition find_tool_result :: "json list \<Rightarrow> tool_call_request \<Rightarrow> json option" where
  "find_tool_result results tc =
     find (\<lambda>r. Option.bind (jget r ''tool_call_id'') as_str = Some (tcr_id tc)) results"

fun sync_tool_calls ::
  "json list \<Rightarrow> nat \<Rightarrow> timestamp \<Rightarrow> tool_call_request list \<Rightarrow> agent_context
   \<Rightarrow> unit ctx_result \<times> agent_context" where
  "sync_tool_calls results it now [] c = (Ok (), c)"
| "sync_tool_calls results it now (tc # tcs) c =
     (case find_tool_result results tc of
        None \<Rightarrow> sync_tool_calls results it now tcs c
      | Some res \<Rightarrow>
          log_err (after_tool_execution c (tcr_name tc) (JObject (tcr_arguments tc)) res True it now)
            (sync_tool_calls results it now tcs))"

definition hook_after_iteration ::
  "agent_context \<Rightarrow> hook_context \<Rightarrow> timestamp \<Rightarrow> unit ctx_result \<times> agent_context" where
  "hook_after_iteration c h now =
     (let it = hk_iteration h;
          is_final = (hk_stop_reason h \<noteq> None \<or> hk_error h \<noteq> None)
      in log_err (sync_tool_calls (hk_tool_results h) it now (hk_tool_calls h) c)
           (\<lambda>c. after_iteration c it is_final now))"

lemma log_err_Ok: "log_err (Ok (), c) k = k c"
  by (simp add: log_err_def)

section \<open>Effects on the audit log\<close>

fun tool_call_of :: "audit_record \<Rightarrow> tool_call_record option" where
  "tool_call_of (ToolCall r) = Some r"
| "tool_call_of _ = None"

definition audited_calls :: "agent_context \<Rightarrow> tool_call_record list" where
  "audited_calls c = List.map_filter tool_call_of (lk_data (ac_audit_log c))"

definition synced_calls :: "json list \<Rightarrow> timestamp \<Rightarrow> tool_call_request list \<Rightarrow> tool_call_record list" where
  "synced_calls results now tcs =
     List.map_filter (\<lambda>tc. map_option (\<lambda>res.
       \<lparr>tc_tool_name = tcr_name tc, tc_arguments = JObject (tcr_arguments tc), tc_result = Some res,
        tc_status = TcSuccess, tc_started_at = now, tc_completed_at = Some now\<rparr>)
       (find_tool_result results tc)) tcs"

definition live :: "agent_context \<Rightarrow> agent_context \<Rightarrow> bool" where
  "live c0 c \<longleftrightarrow> ctx_sound c \<and> writable c \<and> fixed_part c = fixed_part c0"

lemma map_filter_append: "List.map_filter f (xs @ ys) = List.map_filter f xs @ List.map_filter f ys"
  by (simp add: List.map_filter_def)

lemma set_record_live:
  assumes "live c0 c" "set_record c cat k v src it now = (r, c')"
  shows "live c0 c' \<and> r \<noteq> Panic \<and> audited_calls c' = audited_calls c"
proof -
  have s: "ctx_sound c" using assms(1) by (simp add: live_def)
  have "audited_calls c' = audited_calls c"
  proof (cases "r = Ok ()")
    case True
    then show ?thesis using set_record_audit [of c cat k v src it now "()" c'] assms(2)
      by (auto simp: audited_calls_def log_state_change_def map_filter_append List.map_filter_def
          split: result.splits option.splits)
  next
    case False
    then show ?thesis using set_record_sound [OF s assms(2)] by auto
  qed
  then show ?thesis using assms(1) set_record_keeps(1,2,3,5) [OF s assms(2)] by (simp add: live_def)
qed

lemma record_tool_call_live:
  assumes "live c0 c"
  shows "\<exists>c'. record_tool_call c nm args res st t t' = (Ok (), c') \<and> live c0 c'
    \<and> audited_calls c' = audited_calls c @
        [\<lparr>tc_tool_name = nm, tc_arguments = args, tc_result = res, tc_status = st,
          tc_started_at = t, tc_completed_at = t'\<rparr>]"
proof -
  have w: "check_write_allowed c = Ok ()" "ctx_sound c" "\<not> lk_poisoned (ac_audit_log c)"
    using assms by (auto simp: live_def ctx_sound_def)
  let ?c' = "push_audit c (log_tool_call (lk_data (ac_audit_log c)) nm args res st t t')"
  have r: "record_tool_call c nm args res st t t' = (Ok (), ?c')"
    by (simp add: record_tool_call_def with_audit_def w lk_read_def)
  have "live c0 ?c'"
    using assms by (auto simp: live_def ctx_sound_def writable_def lifecycle_state_def fixed_part_def push_audit_def)
  then show ?thesis using r
    by (simp add: audited_calls_def push_audit_def log_tool_call_def map_filter_append List.map_filter_def)
qed

lemma after_tool_execution_live:
  assumes "live c0 c"
  shows "\<exists>c'. after_tool_execution c nm args res ok it now = (Ok (), c') \<and> live c0 c'
    \<and> audited_calls c' = audited_calls c @
        [\<lparr>tc_tool_name = nm, tc_arguments = args, tc_result = Some res,
          tc_status = if ok then TcSuccess else TcFailure, tc_started_at = now, tc_completed_at = Some now\<rparr>]"
proof -
  obtain r c1 where w: "set_record c ToolResults nm res nm it now = (r, c1)"
    by (cases "set_record c ToolResults nm res nm it now")
  note c1 = set_record_live [OF assms w]
  then have "after_tool_execution c nm args res ok it now =
      log_err (record_tool_call c1 nm args (Some res) (if ok then TcSuccess else TcFailure) now (Some now)) hook_done"
    by (cases r) (simp_all add: after_tool_execution_def w log_err_def)
  then show ?thesis
    using record_tool_call_live [of c0 c1 nm args "Some res" "if ok then TcSuccess else TcFailure" now "Some now"] c1
    by (auto simp: log_err_def hook_done_def)
qed

lemma sync_tool_calls_live:
  "live c0 c \<Longrightarrow> \<exists>c'. sync_tool_calls results it now tcs c = (Ok (), c') \<and> live c0 c'
     \<and> audited_calls c' = audited_calls c @ synced_calls results now tcs"
proof (induction tcs arbitrary: c)
  case (Cons tc tcs)
  show ?case
  proof (cases "find_tool_result results tc")
    case None
    then show ?thesis using Cons by (simp add: synced_calls_def List.map_filter_def)
  next
    case (Some res)
    obtain c1 where c1: "after_tool_execution c (tcr_name tc) (JObject (tcr_arguments tc)) res True it now = (Ok (), c1)"
      "live c0 c1"
      "audited_calls c1 = audited_calls c @ [\<lparr>tc_tool_name = tcr_name tc, tc_arguments = JObject (tcr_arguments tc),
         tc_result = Some res, tc_status = TcSuccess, tc_started_at = now, tc_completed_at = Some now\<rparr>]"
      using after_tool_execution_live [OF Cons.prems, of "tcr_name tc" "JObject (tcr_arguments tc)" res True it now]
      by auto
    have "synced_calls results now (tc # tcs) = \<lparr>tc_tool_name = tcr_name tc, tc_arguments = JObject (tcr_arguments tc),
         tc_result = Some res, tc_status = TcSuccess, tc_started_at = now, tc_completed_at = Some now\<rparr>
         # synced_calls results now tcs"
      using Some by (simp add: synced_calls_def List.map_filter_def)
    then show ?thesis using Cons.IH [OF c1(2)] c1 Some by (auto simp: log_err_def)
  qed
qed (simp add: synced_calls_def List.map_filter_def)

section \<open>Main properties\<close>

lemma iteration_key_ok:
  "\<not> is_sensitive_key ''iteration_complete''"
  "\<not> is_sensitive_value (JObject [(''iteration'', JNumber n), (''is_final'', JBool b)])"
proof -
  show "\<not> is_sensitive_key ''iteration_complete''" by code_simp
  have "\<not> is_sensitive_key ''iteration''" "\<not> is_sensitive_key ''is_final''" by code_simp+
  then show "\<not> is_sensitive_value (JObject [(''iteration'', JNumber n), (''is_final'', JBool b)])" by simp
qed

text \<open>
  The sync hook never interrupts the loop on a reachable, unfinished context: it
  returns normally, logs one successful tool call for every tool call that has a result, in
  order, stores the iteration record, and leaves the context completed exactly if the
  iteration was the last one (a stop reason or an error).
\<close>

theorem hook_syncs_iteration:
  assumes "ctx_reachable c" and "writable c" and "\<not> blacklisted c StateChanges"
  shows "\<exists>c'. hook_after_iteration c h now = (Ok (), c')
    \<and> audited_calls c' = audited_calls c @ synced_calls (hk_tool_results h) now (hk_tool_calls h)
    \<and> (lifecycle_state c' = Completed \<longleftrightarrow> hk_stop_reason h \<noteq> None \<or> hk_error h \<noteq> None)
    \<and> (\<exists>e. get_record c' StateChanges ''iteration_complete'' = Ok (Some e) \<and> re_iteration e = hk_iteration h)"
proof -
  let ?final = "hk_stop_reason h \<noteq> None \<or> hk_error h \<noteq> None"
  let ?v = "JObject [(''iteration'', JNumber (NumInt (int (hk_iteration h)))), (''is_final'', JBool ?final)]"
  have "live c c" using clean_sys.inv_reach [OF assms(1)] assms(2) by (simp add: live_def)
  from sync_tool_calls_live [OF this] obtain c1 where
    c1: "sync_tool_calls (hk_tool_results h) (hk_iteration h) now (hk_tool_calls h) c = (Ok (), c1)" "live c c1"
      "audited_calls c1 = audited_calls c @ synced_calls (hk_tool_results h) now (hk_tool_calls h)" by blast
  have "writes_to c1 StateChanges"
    using c1(2) assms(3) by (auto simp: live_def writes_to_def blacklisted_def fixed_part_def)
  then obtain c2 where w: "set_record c1 StateChanges ''iteration_complete'' ?v ''AgentContextSyncHook''
      (hk_iteration h) now = (Ok (), c2)"
    using set_record_accepts iteration_key_ok by blast
  have c2: "live c c2" "audited_calls c2 = audited_calls c1" using set_record_live [OF c1(2) w] by auto
  have rec: "\<exists>e. get_record c2 StateChanges ''iteration_complete'' = Ok (Some e) \<and> re_iteration e = hk_iteration h"
    by (subst set_record_get_record [OF w]) simp
  have h: "hook_after_iteration c h now =
      (if ?final then log_err (set_lifecycle_state c2 Completed) hook_done else hook_done c2)"
    by (simp only: hook_after_iteration_def Let_def c1(1) after_iteration_def w log_err_Ok)
  show ?thesis
  proof (cases ?final)
    case True
    have "\<exists>c'. set_lifecycle_state c2 Completed = (Ok (), c') \<and> lifecycle_state c' = Completed
        \<and> ac_audit_log c' = ac_audit_log c2 \<and> ac_categories c' = ac_categories c2"
      using c2(1) by (auto simp: live_def writable_def lifecycle_state_def set_lifecycle_state_def
          ctx_sound_def lk_read_def)
    then show ?thesis using True h c2(2) c1(3) rec
      by (auto simp: log_err_def hook_done_def audited_calls_def get_record_def get_category_def)
  next
    case False
    then show ?thesis using h c2 c1(3) rec by (auto simp: hook_done_def live_def writable_def)
  qed
qed

theorem hook_syncs_iteration_witness:
  "\<exists>c'. hook_after_iteration demo_parent
     \<lparr>hk_iteration = 3, hk_tool_calls = [\<lparr>tcr_id = ''a'', tcr_name = ''ls'', tcr_arguments = []\<rparr>],
      hk_tool_results = [JObject [(''tool_call_id'', JString ''a'')]], hk_stop_reason = Some ''done'',
      hk_error = None\<rparr> 9 = (Ok (), c')
     \<and> lifecycle_state c' = Completed
     \<and> map tc_tool_name (audited_calls c') = map tc_tool_name (audited_calls demo_parent) @ [''ls'']"
  using hook_syncs_iteration [OF demo_parent_reachable demo_parent_writable, of
     "\<lparr>hk_iteration = 3, hk_tool_calls = [\<lparr>tcr_id = ''a'', tcr_name = ''ls'', tcr_arguments = []\<rparr>],
      hk_tool_results = [JObject [(''tool_call_id'', JString ''a'')]], hk_stop_reason = Some ''done'',
      hk_error = None\<rparr>" 9]
  by (auto simp: synced_calls_def List.map_filter_def find_tool_result_def obj_get_def find_key_def)

end
