(* ===== verification/Context_Updates.thy ===== *)
theory Context_Updates
  imports Context_Hook
begin

text \<open>
  How functions and workflows see and change the agent context
  (\<^verbatim>\<open>crates/hiveweb/src/runtime/hook.rs\<close>): the JSON snapshot put into their input as
  \<^verbatim>\<open>_agent_context\<close>, and the \<^verbatim>\<open>_agent_context_updates\<close> of their output applied back. What is
  proved: an output is untrusted data and still can only do what the operations of the
  context allow, so no output panics a live context, plants a credential-like record or
  touches a blacklisted category.
\<close>

section \<open>Snapshot\<close>

text \<open>
  The parameters stand for serde: the object of a \<^verbatim>\<open>HashMap\<close> (in the order of its iteration)
  and the JSON of an extension (\<^verbatim>\<open>Null\<close> when serialisation fails).
\<close>

record ctx_serde =
  ser_string_map :: "(string \<rightharpoonup> string) \<Rightarrow> jmap"
  ser_extension :: "extension_content \<Rightarrow> json option"

fun opt_string :: "string option \<Rightarrow> json" where
  "opt_string None = JNull"
| "opt_string (Some s) = JString s"

definition user_input_value :: "ctx_serde \<Rightarrow> user_input \<Rightarrow> json" where
  "user_input_value S ui =
     JObject [(''raw_text'', JString (ui_raw_text ui)),
              (''session_id'', opt_string (ui_session_id ui)),
              (''message_id'', opt_string (ui_message_id ui)),
              (''timestamp'', JNumber (NumInt (ui_timestamp ui))),
              (''metadata'', JObject (ser_string_map S (ui_metadata ui)))]"

definition record_value :: "record_entry \<Rightarrow> json" where
  "record_value r =
     JObject [(''key'', JString (re_key r)), (''value'', re_value r), (''source'', JString (re_source r))]"

definition cat_to_vec :: "agent_context \<Rightarrow> category \<Rightarrow> json list" where
  "cat_to_vec c cat = (case get_category c cat of Ok recs \<Rightarrow> map record_value recs | _ \<Rightarrow> [])"

definition agent_context_snapshot_value :: "ctx_serde \<Rightarrow> agent_context \<Rightarrow> json" where
  "agent_context_snapshot_value S c =
     JObject [(''user_input'', user_input_value S (ac_user_input c)),
              (''tool_results'', JArray (cat_to_vec c ToolResults)),
              (''entities'', JArray (cat_to_vec c Entities)),
              (''state_changes'', JArray (cat_to_vec c StateChanges)),
              (''extensions'', JArray (map (\<lambda>e. case ser_extension S e of None \<Rightarrow> JNull | Some j \<Rightarrow> j)
                 (get_extensions c))),
              (''messages'', JArray (case get_messages c of Ok ms \<Rightarrow> ms | _ \<Rightarrow> []))]"

fun inject_agent_context_snapshot :: "ctx_serde \<Rightarrow> json \<Rightarrow> agent_context \<Rightarrow> json" where
  "inject_agent_context_snapshot S (JObject m) c =
     JObject (obj_insert ''_agent_context'' (agent_context_snapshot_value S c) m)"
| "inject_agent_context_snapshot S v c = v"

section \<open>Updates\<close>

definition str_field :: "json \<Rightarrow> string \<Rightarrow> string \<Rightarrow> string" where
  "str_field v k d = (case Option.bind (jget v k) as_str of None \<Rightarrow> d | Some s \<Rightarrow> s)"

definition update_category :: "string \<Rightarrow> category option" where
  "update_category s =
     (if s = ''Entities'' then Some Entities
      else if s = ''Intentions'' then Some Intentions
      else if s = ''ToolResults'' then Some ToolResults
      else if s = ''QueryResults'' then Some QueryResults
      else if s = ''WorkflowResults'' then Some WorkflowResults
      else if s = ''ReasoningResults'' then Some ReasoningResults
      else if s = ''Extensions'' then Some Extensions
      else if s = ''StateChanges'' then Some StateChanges
      else if s = ''SubagentResults'' then Some SubagentResults
      else None)"

definition update_record ::
  "timestamp \<Rightarrow> json \<Rightarrow> agent_context \<Rightarrow> unit ctx_result \<times> agent_context" where
  "update_record now rec c =
     (case update_category (str_field rec ''category'' '''') of
        None \<Rightarrow> (Ok (), c)
      | Some cat \<Rightarrow>
          set_record c cat (str_field rec ''key'' '''')
            (case jget rec ''value'' of None \<Rightarrow> JNull | Some v \<Rightarrow> v)
            (str_field rec ''source'' ''hook_function'')
            (case Option.bind (jget rec ''iteration'') as_u64 of None \<Rightarrow> 0 | Some n \<Rightarrow> n) now)"

definition update_extension_type :: "string \<Rightarrow> extension_type" where
  "update_extension_type s =
     (if s = ''card'' then ExtCard
      else if s = ''image'' then ExtImage
      else if s = ''suggestion'' then ExtSuggestion
      else if s = ''link'' then ExtLink
      else if s = ''button'' then ExtButton
      else if s = ''table'' then ExtTable
      else if s = ''chart'' then ExtChart
      else if s = ''object_ref'' then ExtObjectRef
      else if s = ''usage'' then ExtUsage
      else ExtCard)"

definition update_extension_data :: "json \<Rightarrow> json option" where
  "update_extension_data ext =
     (case jget ext ''data'' of
        Some d \<Rightarrow> Some d
      | None \<Rightarrow>
          (case as_object ext of
             None \<Rightarrow> None
           | Some m \<Rightarrow>
               Some (JObject (obj_remove ''reply'' (obj_remove ''id'' (obj_remove ''content_type'' m))))))"

definition update_extension :: "json \<Rightarrow> agent_context \<Rightarrow> unit ctx_result \<times> agent_context" where
  "update_extension ext c =
     (case update_extension_data ext of
        None \<Rightarrow> (Ok (), c)
      | Some data \<Rightarrow>
          add_extension c (str_field ext ''id'' '''')
            (extension_content_new (str_field ext ''id'' '''')
               (update_extension_type (str_field ext ''content_type'' ''card''))
               (jget ext ''reply'') data))"

definition update_metadata :: "string \<times> json \<Rightarrow> agent_context \<Rightarrow> unit ctx_result \<times> agent_context" where
  "update_metadata p c =
     (case as_str (snd p) of None \<Rightarrow> (Ok (), c) | Some s \<Rightarrow> set_metadata c (fst p) s)"

text \<open>A loop whose body logs an error of the context and goes on.\<close>

fun apply_each ::
  "('a \<Rightarrow> agent_context \<Rightarrow> unit ctx_result \<times> agent_context) \<Rightarrow> 'a list \<Rightarrow> agent_context
   \<Rightarrow> unit ctx_result \<times> agent_context" where
  "apply_each f [] c = (Ok (), c)"
| "apply_each f (x # xs) c = log_err (f x c) (apply_each f xs)"

definition list_field :: "json \<Rightarrow> string \<Rightarrow> json list" where
  "list_field v k = (case Option.bind (jget v k) as_array of None \<Rightarrow> [] | Some xs \<Rightarrow> xs)"

definition object_field :: "json \<Rightarrow> string \<Rightarrow> jmap" where
  "object_field v k = (case Option.bind (jget v k) as_object of None \<Rightarrow> [] | Some m \<Rightarrow> m)"

definition apply_agent_context_updates ::
  "timestamp \<Rightarrow> json \<Rightarrow> agent_context \<Rightarrow> unit ctx_result \<times> agent_context" where
  "apply_agent_context_updates now out c =
     (case jget out ''_agent_context_updates'' of
        None \<Rightarrow> (Ok (), c)
      | Some updates \<Rightarrow>
          log_err (apply_each (update_record now) (list_field updates ''records'') c) (\<lambda>c.
          log_err (apply_each update_extension (list_field updates ''extensions'') c) (\<lambda>c.
          apply_each update_metadata (object_field updates ''metadata'') c)))"

section \<open>Updates are context operations\<close>

text \<open>
  The contract of one update and of every composition of them: on a sound context it
  returns, and what it does is a run of context operations.
\<close>

definition ctx_run :: "(agent_context \<Rightarrow> unit ctx_result \<times> agent_context) \<Rightarrow> bool" where
  "ctx_run f \<longleftrightarrow> (\<forall>c r c'. ctx_sound c \<longrightarrow> f c = (r, c') \<longrightarrow> r \<noteq> Panic \<and> ctx_step\<^sup>*\<^sup>* c c' \<and> ctx_sound c')"

lemma ctx_runI:
  "(\<And>c r c'. ctx_sound c \<Longrightarrow> f c = (r, c') \<Longrightarrow> r \<noteq> Panic \<and> ctx_step\<^sup>*\<^sup>* c c' \<and> ctx_sound c') \<Longrightarrow> ctx_run f"
  by (auto simp: ctx_run_def)

lemma ctx_runD:
  "ctx_run f \<Longrightarrow> ctx_sound c \<Longrightarrow> f c = (r, c') \<Longrightarrow> r \<noteq> Panic \<and> ctx_step\<^sup>*\<^sup>* c c' \<and> ctx_sound c'"
  by (auto simp: ctx_run_def)

lemma ctx_run_op [intro]: "ctx_run (ctx_exec op)"
proof (rule ctx_runI)
  fix c r c'
  assume "ctx_sound c" "ctx_exec op c = (r, c')"
  then show "r \<noteq> Panic \<and> ctx_step\<^sup>*\<^sup>* c c' \<and> ctx_sound c'"
    using ctx_exec_sound ctx_stepI by blast
qed

lemma ctx_run_skip [intro]: "ctx_run (\<lambda>c. (Ok (), c))"
  by (simp add: ctx_run_def)

lemma ctx_run_log_err [intro]:
  assumes "ctx_run f" "ctx_run k"
  shows "ctx_run (\<lambda>c. log_err (f c) k)"
proof (rule ctx_runI)
  fix c r c'
  assume s: "ctx_sound c" and e: "log_err (f c) k = (r, c')"
  obtain r1 c1 where f: "f c = (r1, c1)" by (cases "f c")
  have f1: "r1 \<noteq> Panic" "ctx_step\<^sup>*\<^sup>* c c1" "ctx_sound c1" using ctx_runD[OF assms(1) s f] by auto
  then have "k c1 = (r, c')" using e f by (cases r1) (auto simp: log_err_def)
  then show "r \<noteq> Panic \<and> ctx_step\<^sup>*\<^sup>* c c' \<and> ctx_sound c'"
    using ctx_runD[OF assms(2) f1(3), of r c'] f1(2) by (auto intro: rtranclp_trans)
qed

lemma ctx_run_apply_each: "(\<And>x. ctx_run (f x)) \<Longrightarrow> ctx_run (apply_each f xs)"
proof (induction xs)
  case Nil
  have "apply_each f [] = (\<lambda>c. (Ok (), c))" by (simp add: fun_eq_iff)
  then show ?case by (simp add: ctx_run_skip)
next
  case (Cons x xs)
  have "apply_each f (x # xs) = (\<lambda>c. log_err (f x c) (apply_each f xs))" by (simp add: fun_eq_iff)
  then show ?case using Cons by (simp add: ctx_run_log_err)
qed

lemma ctx_run_eq: "(\<And>c. f c = ctx_exec op c) \<Longrightarrow> ctx_run f"
  using ctx_run_op[of op] by (metis ext)

lemma ctx_run_calls:
  "ctx_run (\<lambda>c. set_record c cat k v src it now)"
  "ctx_run (\<lambda>c. add_extension c i e)"
  "ctx_run (\<lambda>c. set_metadata c k s)"
  by (rule ctx_run_eq[of _ "OpSetRecord cat k v src it now"], simp)
    (rule ctx_run_eq[of _ "OpAddExtension i e"], simp, rule ctx_run_eq[of _ "OpSetMetadata k s"], simp)

lemma ctx_run_update_record: "ctx_run (update_record now rec)"
  unfolding update_record_def[abs_def]
  by (cases "update_category (str_field rec ''category'' '''')") (simp_all add: ctx_run_calls ctx_run_skip)

lemma ctx_run_update_extension: "ctx_run (update_extension ext)"
  unfolding update_extension_def[abs_def]
  by (cases "update_extension_data ext") (simp_all add: ctx_run_calls ctx_run_skip)

lemma ctx_run_update_metadata: "ctx_run (update_metadata p)"
  unfolding update_metadata_def[abs_def]
  by (cases "as_str (snd p)") (simp_all add: ctx_run_calls ctx_run_skip)

lemma ctx_run_updates: "ctx_run (apply_agent_context_updates now out)"
proof (cases "jget out ''_agent_context_updates''")
  case None
  then have "apply_agent_context_updates now out = (\<lambda>c. (Ok (), c))"
    by (simp add: fun_eq_iff apply_agent_context_updates_def)
  then show ?thesis by (simp add: ctx_run_skip)
next
  case (Some u)
  have "apply_agent_context_updates now out = (\<lambda>c.
          log_err (apply_each (update_record now) (list_field u ''records'') c) (\<lambda>c.
          log_err (apply_each update_extension (list_field u ''extensions'') c) (\<lambda>c.
          apply_each update_metadata (object_field u ''metadata'') c)))"
    by (simp add: fun_eq_iff apply_agent_context_updates_def Some)
  then show ?thesis
    by (simp add: ctx_run_log_err ctx_run_apply_each ctx_run_update_record ctx_run_update_extension
        ctx_run_update_metadata)
qed

lemma reach_steps: "step\<^sup>*\<^sup>* s t \<Longrightarrow> reach init step s \<Longrightarrow> reach init step t"
  by (induction rule: rtranclp_induct) (auto intro: reach_step)

section \<open>Properties\<close>

text \<open>
  Whatever JSON a function or workflow returns, applying its updates to a reachable
  context returns without a panic, leaves a reachable context (so it holds no credential-like
  record), and leaves every blacklisted category as it was.
\<close>

theorem updates_are_confined:
  assumes "ctx_reachable c" "apply_agent_context_updates now out c = (r, c')"
  shows "r \<noteq> Panic \<and> ctx_reachable c' \<and> ctx_clean c'
    \<and> (\<forall>cat. blacklisted c cat \<longrightarrow> ac_categories c' cat = ac_categories c cat)"
proof -
  have sound: "ctx_sound c" using clean_sys.inv_reach[OF assms(1)] by simp
  have run: "r \<noteq> Panic" "ctx_step\<^sup>*\<^sup>* c c'"
    using ctx_runD[OF ctx_run_updates sound assms(2)] by auto
  have reach: "ctx_reachable c'" using reach_steps[OF run(2) assms(1)] .
  have "ctx_sound c' \<and> ctx_clean c'" using reach by (rule clean_sys.inv_reach)
  moreover have kept: "fixed_part c' = fixed_part c \<and>
       (\<forall>cat. blacklisted c cat \<longrightarrow> blacklisted c' cat \<and> ac_categories c' cat = ac_categories c cat)"
    by (rule blacklist_sys.inv_steps[OF run(2)]) simp
  ultimately show ?thesis
  proof (intro conjI allI impI)
    fix cat assume "blacklisted c cat"
    then show "ac_categories c' cat = ac_categories c cat"
      by (rule conjunct2[OF kept, THEN spec, THEN mp, THEN conjunct2])
  qed (simp_all add: run(1) reach)
qed

definition demo_output :: json where
  "demo_output = JObject [(''_agent_context_updates'', JObject [(''records'', JArray
     [JObject [(''category'', JString ''Entities''), (''key'', JString ''city''), (''value'', JString ''Oslo'')],
      JObject [(''category'', JString ''Entities''), (''key'', JString ''api_key''), (''value'', JString ''x'')]])])]"

theorem updates_are_confined_witness:
  "\<exists>c'. apply_agent_context_updates 1 demo_output (agent_context_new ''c'' demo_input default_config 0)
          = (Ok (), c')
     \<and> ctx_clean c' \<and> map re_key (the_ok (get_category c' Entities)) = [''city'']"
proof -
  let ?c = "agent_context_new ''c'' demo_input default_config 0"
  obtain r c' where run: "apply_agent_context_updates 1 demo_output ?c = (r, c')"
    by (cases "apply_agent_context_updates 1 demo_output ?c")
  have "ctx_reachable ?c" by (rule reach_init) (auto simp: ctx_init_def)
  from updates_are_confined[OF this run] have "ctx_clean c'" by simp
  moreover have "fst (apply_agent_context_updates 1 demo_output ?c) = Ok ()" by code_simp
  moreover have "map re_key (the_ok (get_category (snd (apply_agent_context_updates 1 demo_output ?c)) Entities)) = [''city'']"
    by code_simp
  ultimately show ?thesis using run by simp
qed

end
