(* ===== verification/Context_Serialize.thy ===== *)
theory Context_Serialize
  imports Context_Merge
begin

text \<open>
  Snapshots of a context (serialize.rs). The JSON text itself is serde's: \<open>enc\<close> stands for
  \<^verbatim>\<open>serde_json::to_string_pretty\<close> and \<open>dec\<close> for \<^verbatim>\<open>serde_json::from_str\<close> at the snapshot type,
  with the message of a failure on the left. The restore walks a \<^verbatim>\<open>HashMap\<close> of categories,
  whose order is the argument \<open>ord\<close>.
\<close>

section \<open>serialize.rs\<close>

record context_snapshot =
  sn_schema_version :: string
  sn_context_id :: string
  sn_user_input :: user_input
  sn_categories :: "category \<rightharpoonup> record_entry list"
  sn_extensions :: "(string \<times> extension_content) list"
  sn_audit_log :: "audit_record list"
  sn_response_payload :: "response_payload option"
  sn_lifecycle_state :: lifecycle
  sn_created_at :: timestamp
  sn_snapshot_at :: timestamp
  sn_metadata :: "string \<rightharpoonup> string"
  sn_blacklisted_categories :: "category list option"
  sn_subagent_id :: "string option"
  sn_delegation_chain :: string

definition snapshot :: "agent_context \<Rightarrow> timestamp \<Rightarrow> context_snapshot ctx_result" where
  "snapshot c now =
     (case lk_read (ac_extensions c) of
        None \<Rightarrow> Err (MergeFailed ''Extensions lock poisoned'')
      | Some exts \<Rightarrow>
          Ok \<lparr>sn_schema_version = schema_version (ac_config c),
              sn_context_id = ac_context_id c,
              sn_user_input = ac_user_input c,
              sn_categories = collect_categories c,
              sn_extensions = exts,
              sn_audit_log = get_audit_log c,
              sn_response_payload = get_response_payload c,
              sn_lifecycle_state = lifecycle_state c,
              sn_created_at = ac_created_at c,
              sn_snapshot_at = now,
              sn_metadata = (case lk_read (ac_metadata c) of None \<Rightarrow> Map.empty | Some m \<Rightarrow> m),
              sn_blacklisted_categories = ac_blacklisted_categories c,
              sn_subagent_id = ac_subagent_id c,
              sn_delegation_chain = ac_delegation_chain c\<rparr>)"

definition to_json ::
  "(context_snapshot \<Rightarrow> string + string) \<Rightarrow> agent_context \<Rightarrow> timestamp \<Rightarrow> string ctx_result" where
  "to_json enc c now =
     bind_res (snapshot c now) (\<lambda>sn.
       case enc sn of
         Inl e \<Rightarrow> Err (MergeFailed (''JSON serialization failed: '' @ e))
       | Inr txt \<Rightarrow> Ok txt)"

definition restore_record ::
  "timestamp \<Rightarrow> category \<Rightarrow> record_entry \<Rightarrow> agent_context \<Rightarrow> unit ctx_result \<times> agent_context" where
  "restore_record now cat r c =
     set_record c cat (re_key r) (re_value r) (re_source r) (re_iteration r) now"

definition restore_category ::
  "context_snapshot \<Rightarrow> timestamp \<Rightarrow> category \<Rightarrow> agent_context \<Rightarrow> unit ctx_result \<times> agent_context" where
  "restore_category sn now cat c =
     (case sn_categories sn cat of
        None \<Rightarrow> (Ok (), c)
      | Some recs \<Rightarrow> store_all (restore_record now cat) recs c)"

text \<open>
  Everything after the categories: each field is written under its lock, in the order of the
  code, with the error of a poisoned lock.
\<close>

definition restore_fields :: "context_snapshot \<Rightarrow> agent_context \<Rightarrow> agent_context ctx_result" where
  "restore_fields sn c =
     (if lk_poisoned (ac_extensions c) then Err (MergeFailed ''Extensions lock poisoned'')
      else if lk_poisoned (ac_audit_log c) then Err (MergeFailed ''Audit log lock poisoned'')
      else if sn_response_payload sn \<noteq> None \<and> lk_poisoned (ac_response_payload c)
      then Err (MergeFailed ''Response lock poisoned'')
      else if lk_poisoned (ac_lifecycle_state c) then Err (MergeFailed ''Lifecycle lock poisoned'')
      else if lk_poisoned (ac_metadata c) then Err (MergeFailed ''Metadata lock poisoned'')
      else Ok (c\<lparr>ac_extensions := (ac_extensions c)\<lparr>lk_data :=
                    fold (upsert fst) (sn_extensions sn) (lk_data (ac_extensions c))\<rparr>,
                 ac_audit_log := (ac_audit_log c)\<lparr>lk_data := sn_audit_log sn\<rparr>,
                 ac_response_payload :=
                   (case sn_response_payload sn of
                      None \<Rightarrow> ac_response_payload c
                    | Some p \<Rightarrow> (ac_response_payload c)\<lparr>lk_data := Some p\<rparr>),
                 ac_lifecycle_state := (ac_lifecycle_state c)\<lparr>lk_data := sn_lifecycle_state sn\<rparr>,
                 ac_metadata := (ac_metadata c)\<lparr>lk_data := sn_metadata sn\<rparr>\<rparr>))"

definition restored_base :: "context_snapshot \<Rightarrow> timestamp \<Rightarrow> agent_context" where
  "restored_base sn now =
     agent_context_new (sn_context_id sn) (sn_user_input sn)
       (default_config\<lparr>schema_version := sn_schema_version sn\<rparr>) now"

definition from_json ::
  "(string \<Rightarrow> string + context_snapshot) \<Rightarrow> category list \<Rightarrow> string \<Rightarrow> string \<Rightarrow> timestamp
   \<Rightarrow> agent_context ctx_result" where
  "from_json dec ord txt expected_schema_version now =
     (case dec txt of
        Inl e \<Rightarrow> Err (MergeFailed (''JSON deserialization failed: '' @ e))
      | Inr sn \<Rightarrow>
          if sn_schema_version sn \<noteq> expected_schema_version
          then Err (SchemaVersionMismatch expected_schema_version (sn_schema_version sn))
          else case for_categories (restore_category sn now) ord (restored_base sn now) of
                 (Panic, _) \<Rightarrow> Panic
               | (_, c) \<Rightarrow> restore_fields sn c)"

section \<open>What the restore does\<close>

text \<open>The writes of the walk touch the categories and the audit log only.\<close>

definition side_part :: "agent_context \<Rightarrow> _" where
  "side_part c = (ac_extensions c, ac_response_payload c, ac_lifecycle_state c, ac_metadata c, ac_messages c)"

lemma set_record_side: "set_record c cat k v src it now = (r, c') \<Longrightarrow> side_part c' = side_part c"
  by (auto simp: set_record_def side_part_def Let_def split: result.splits option.splits if_splits)

lemma set_record_clean:
  assumes "ctx_clean c" "set_record c cat k v src it now = (r, c')"
  shows "ctx_clean c'"
proof -
  have "ctx_step c c'"
    using assms(2) by (intro ctx_stepI [of "OpSetRecord cat k v src it now" c r c']) simp
  then show ?thesis using assms(1) ctx_step_effect ctx_clean_effect by blast
qed

lemma restore_category_keeps:
  assumes "restore_category sn now cat c = (r, c')"
    and "ctx_sound c \<and> ctx_clean c \<and> side_part c = sp \<and> fixed_part c = fp"
  shows "(ctx_sound c' \<and> ctx_clean c' \<and> side_part c' = sp \<and> fixed_part c' = fp) \<and> r \<noteq> Panic"
proof (cases "sn_categories sn cat")
  case None
  then show ?thesis using assms by (auto simp: restore_category_def)
next
  case (Some recs)
  let ?P = "\<lambda>c. ctx_sound c \<and> ctx_clean c \<and> side_part c = sp \<and> fixed_part c = fp"
  have w: "store_all (restore_record now cat) recs c = (r, c')"
    using assms(1) Some by (simp add: restore_category_def)
  have "?P d' \<and> q \<noteq> Panic" if "?P d" "restore_record now cat e d = (q, d')" for e d q d'
    using that set_record_keeps(1,2,5) [of d cat] set_record_side set_record_clean
    unfolding restore_record_def by metis
  then show ?thesis using store_all_invariant [OF w, of ?P] assms(2) by blast
qed

lemma restore_walk_safe:
  assumes "for_categories (restore_category sn now) ord (restored_base sn now) = (q, c)"
  shows "q = Ok () \<and> ctx_sound c \<and> ctx_clean c \<and> side_part c = side_part (restored_base sn now)
    \<and> fixed_part c = fixed_part (restored_base sn now)"
proof -
  let ?P = "\<lambda>c. ctx_sound c \<and> ctx_clean c \<and> side_part c = side_part (restored_base sn now)
    \<and> fixed_part c = fixed_part (restored_base sn now)"
  have "?P (restored_base sn now)"
    by (auto simp: restored_base_def ctx_sound_def ctx_clean_def)
  then show ?thesis
    using for_categories_invariant [OF assms, of ?P] restore_category_keeps by blast
qed

lemma restore_category_frame:
  assumes "restore_category sn now k d = (r, d')" "\<forall>cat'. writes_to d cat'"
  shows "(\<forall>cat'. writes_to d' cat') \<and> r \<noteq> Panic"
    and "k \<noteq> cat \<Longrightarrow> get_category d' cat = get_category d cat"
proof -
  let ?P = "\<lambda>e. (\<forall>cat'. writes_to e cat') \<and> (\<forall>cat. k \<noteq> cat \<longrightarrow> get_category e cat = get_category d cat)"
  have step: "?P e' \<and> q \<noteq> Panic" if "?P e" "restore_record now k x e = (q, e')" for x e q e'
  proof -
    have w: "set_record e k (re_key x) (re_value x) (re_source x) (re_iteration x) now = (q, e')"
      using that(2) by (simp add: restore_record_def)
    have "ctx_sound e" using that(1) by (simp add: writes_to_def)
    from set_record_keeps(2) [OF this w] set_record_keeps(7) [OF this w] that(1) writes_to_set_record [OF _ w]
    show ?thesis by simp
  qed
  have "?P d' \<and> r \<noteq> Panic"
  proof (cases "sn_categories sn k")
    case None
    then show ?thesis using assms by (auto simp: restore_category_def)
  next
    case (Some recs)
    have "store_all (restore_record now k) recs d = (r, d')"
      using assms(1) Some by (simp add: restore_category_def)
    from store_all_invariant [OF this, of ?P] step assms(2) show ?thesis by blast
  qed
  then show "(\<forall>cat'. writes_to d' cat') \<and> r \<noteq> Panic"
    "k \<noteq> cat \<Longrightarrow> get_category d' cat = get_category d cat" by blast+
qed

lemma restore_walk_category:
  assumes "for_categories (restore_category sn now) ord (restored_base sn now) = (q, c)"
    and "distinct ord" "cat \<in> set ord" "sn_categories sn cat = Some recs"
    and "\<And>e. e \<in> set recs \<Longrightarrow> \<not> is_sensitive_key (re_key e) \<and> \<not> is_sensitive_value (re_value e)"
    and "distinct (map re_key recs)"
  shows "get_category c cat = Ok (map (imported re_source now) recs)"
proof -
  let ?I = "\<lambda>d. \<forall>cat. writes_to d cat"
  have base: "?I (restored_base sn now)" "get_category (restored_base sn now) cat = Ok []"
    by (auto simp: restored_base_def writes_to_def ctx_sound_def writable_def lifecycle_state_def
        blacklisted_def get_category_Ok)
  obtain d r d' where d: "?I d" "get_category d cat = Ok []" "restore_category sn now cat d = (r, d')"
    "get_category c cat = get_category d' cat"
    using for_categories_local [OF assms(1), of ?I cat "\<lambda>d. get_category d cat"] assms(2,3) base
      restore_category_frame by auto
  have "restore_record now cat = import_record re_source now cat"
    by (intro ext) (simp only: restore_record_def)
  then have w: "store_all (import_record re_source now cat) recs d = (r, d')"
    using d(3) assms(4) by (simp add: restore_category_def)
  have "get_category d' cat = Ok (fold (upsert re_key) (map (imported re_source now) recs) [])"
    using import_walk [OF w _ assms(5) d(2)] d(1) by blast
  then show ?thesis using d(4) assms(6) fold_upsert_distinct [of re_key "[]" "map (imported re_source now) recs"]
    by (simp add: comp_def)
qed

section \<open>Distinct extension ids\<close>

definition ext_distinct :: "agent_context \<Rightarrow> bool" where
  "ext_distinct c \<longleftrightarrow> distinct (map fst (lk_data (ac_extensions c)))"

interpretation ext_sys: invariant_system ctx_init ctx_step ext_distinct
proof unfold_locales
  fix c assume "ctx_init c"
  then show "ext_distinct c" by (auto simp: ctx_init_def ext_distinct_def)
next
  fix c c' assume i: "ext_distinct c" and s: "ctx_step c c'"
  from s obtain op r where "ctx_exec op c = (r, c')" by (rule ctx_stepE)
  then show "ext_distinct c'" using i
    by (cases op)
       (auto simp: ext_distinct_def set_record_def append_record_def add_extension_def
        set_lifecycle_state_def set_response_payload_def set_metadata_def set_messages_def
        with_audit_def record_tool_call_def record_skill_execution_def record_delegation_def Let_def
        distinct_upsert split: result.splits option.splits if_splits)
qed

section \<open>Main properties\<close>

lemma from_json_Ok:
  assumes "from_json dec ord txt ver now = Ok c'"
  obtains sn c where "dec txt = Inr sn" "sn_schema_version sn = ver"
    "for_categories (restore_category sn now) ord (restored_base sn now) = (Ok (), c)"
    "restore_fields sn c = Ok c'"
proof -
  obtain sn where sn: "dec txt = Inr sn" "sn_schema_version sn = ver"
    using assms by (auto simp: from_json_def split: sum.splits if_splits)
  obtain q c where w: "for_categories (restore_category sn now) ord (restored_base sn now) = (q, c)"
    by (cases "for_categories (restore_category sn now) ord (restored_base sn now)")
  have "q = Ok ()" using restore_walk_safe [OF w] by simp
  then show thesis using that sn w assms by (simp add: from_json_def)
qed

lemma restore_fields_Ok:
  assumes "restore_fields sn c = Ok c'"
  shows "get_category c' cat = get_category c cat" "fixed_part c' = fixed_part c"
    "ctx_sound c \<Longrightarrow> ctx_sound c'" "ctx_clean c \<Longrightarrow> ctx_clean c'"
    "lk_data (ac_lifecycle_state c') = sn_lifecycle_state sn"
    "blacklisted c' cat = blacklisted c cat" "ac_user_input c' = ac_user_input c"
    "ac_context_id c' = ac_context_id c"
  using assms
  by (auto simp: restore_fields_def get_category_def fixed_part_def ctx_sound_def ctx_clean_def
      blacklisted_def split: if_splits option.splits)

lemma restore_fields_sound:
  assumes "ctx_sound c" "side_part c = side_part (restored_base sn now)"
    "distinct (map fst (sn_extensions sn))"
  shows "\<exists>c'. restore_fields sn c = Ok c' \<and> lk_data (ac_extensions c') = sn_extensions sn
    \<and> get_audit_log c' = sn_audit_log sn \<and> get_response_payload c' = sn_response_payload sn
    \<and> lifecycle_state c' = sn_lifecycle_state sn \<and> lk_read (ac_metadata c') = Some (sn_metadata sn)"
proof -
  have "lk_data (ac_extensions c) = []" "lk_data (ac_response_payload c) = None"
    using assms(2) by (simp_all add: side_part_def restored_base_def lk_new_def)
  then show ?thesis using assms(1) fold_upsert_distinct [of fst "[]" "sn_extensions sn"] assms(3)
    by (auto simp: restore_fields_def ctx_sound_def get_audit_log_def get_response_payload_def
        lifecycle_state_def lk_read_def split: option.split)
qed

lemma from_json_succeeds:
  assumes "dec txt = Inr sn"
  shows "\<exists>c'. from_json dec ord txt (sn_schema_version sn) now = Ok c'"
proof -
  obtain q d where w: "for_categories (restore_category sn now) ord (restored_base sn now) = (q, d)"
    by (cases "for_categories (restore_category sn now) ord (restored_base sn now)")
  then show ?thesis using restore_walk_safe [OF w] assms
    by (simp add: from_json_def restore_fields_def ctx_sound_def)
qed

lemma snapshot_succeeds: "ctx_sound c \<Longrightarrow> \<exists>sn. snapshot c t = Ok sn \<and> sn_categories sn = collect_categories c
    \<and> sn_schema_version sn = schema_version (ac_config c)"
  by (simp add: snapshot_def ctx_sound_def lk_read_def)

text \<open>
  (C22) A context survives the trip through JSON: if the codec reads back the snapshot it
  wrote, the restored context has the records of every category (same order, values,
  sources and iterations, with fresh timestamps), user input, extensions, audit log,
  response, lifecycle state and metadata of the original. Record keys within a category are
  distinct (as \<open>set_record\<close> leaves them).
\<close>

theorem from_json_restores_context:
  assumes "ctx_reachable c" and "snapshot c t = Ok sn" and "enc sn = Inr txt" and "dec txt = Inr sn"
    and "distinct ord" and "set ord = dom (sn_categories sn)"
    and "\<forall>cat recs. get_category c cat = Ok recs \<longrightarrow> distinct (map re_key recs)"
  shows "to_json enc c t = Ok txt \<and>
    (\<exists>c'. from_json dec ord txt (schema_version (ac_config c)) now = Ok c'
      \<and> (\<forall>cat recs. get_category c cat = Ok recs \<longrightarrow>
           get_category c' cat = Ok (map (\<lambda>r. r\<lparr>re_timestamp := now\<rparr>) recs))
      \<and> ac_user_input c' = ac_user_input c \<and> ac_context_id c' = ac_context_id c
      \<and> get_extensions c' = get_extensions c \<and> get_audit_log c' = get_audit_log c
      \<and> get_response_payload c' = get_response_payload c
      \<and> lifecycle_state c' = lifecycle_state c \<and> (\<forall>k. get_metadata c' k = get_metadata c k))"
proof -
  have sc: "ctx_sound c" "ctx_clean c" using clean_sys.inv_reach [OF assms(1)] by simp_all
  have sn: "sn_schema_version sn = schema_version (ac_config c)" "sn_context_id sn = ac_context_id c"
    "sn_user_input sn = ac_user_input c" "sn_categories sn = collect_categories c"
    "sn_extensions sn = lk_data (ac_extensions c)" "sn_audit_log sn = get_audit_log c"
    "sn_response_payload sn = get_response_payload c" "sn_lifecycle_state sn = lifecycle_state c"
    "sn_metadata sn = lk_data (ac_metadata c)"
    using assms(2) sc(1) by (auto simp: snapshot_def ctx_sound_def lk_read_def)
  obtain q d where w: "for_categories (restore_category sn now) ord (restored_base sn now) = (q, d)"
    by (cases "for_categories (restore_category sn now) ord (restored_base sn now)")
  note d = restore_walk_safe [OF w]
  have exts: "distinct (map fst (sn_extensions sn))"
    using ext_sys.inv_reach [OF assms(1)] sn(5) by (simp add: ext_distinct_def)
  obtain c' where c': "restore_fields sn d = Ok c'" "lk_data (ac_extensions c') = sn_extensions sn"
    "get_audit_log c' = sn_audit_log sn" "get_response_payload c' = sn_response_payload sn"
    "lifecycle_state c' = sn_lifecycle_state sn" "lk_read (ac_metadata c') = Some (sn_metadata sn)"
    using restore_fields_sound [of d sn now] d exts by blast
  have s': "ctx_sound c'" using restore_fields_Ok(3) [OF c'(1)] d by simp
  have cats: "get_category c' cat = Ok (map (\<lambda>r. r\<lparr>re_timestamp := now\<rparr>) recs)"
    if "get_category c cat = Ok recs" for cat recs
  proof -
    have cat: "sn_categories sn cat = Some recs" using sn(4) that by (simp add: collect_categories_eq)
    have "get_category d cat = Ok (map (imported re_source now) recs)"
      using sc(2) that assms(5,6,7) cat
      by (intro restore_walk_category [OF w]) (auto simp: ctx_clean_def get_category_Ok)
    moreover have "imported re_source now = (\<lambda>r. r\<lparr>re_timestamp := now\<rparr>)"
      by (intro ext) (simp add: imported_def)
    ultimately show ?thesis using restore_fields_Ok(1) [OF c'(1)] by simp
  qed
  have fixed: "ac_user_input c' = ac_user_input c" "ac_context_id c' = ac_context_id c"
    using restore_fields_Ok(2) [OF c'(1)] d sn by (simp_all add: fixed_part_def restored_base_def)
  have rest: "get_extensions c' = get_extensions c" "\<forall>k. get_metadata c' k = get_metadata c k"
    using c'(2,6) sn(5,9) sc(1) s' by (simp_all add: get_extensions_def get_metadata_def ctx_sound_def lk_read_def)
  have "from_json dec ord txt (schema_version (ac_config c)) now = Ok c'"
    using assms(4) sn(1) w d c'(1) by (simp add: from_json_def)
  moreover have "to_json enc c t = Ok txt" using assms(2,3) by (simp add: to_json_def)
  ultimately show ?thesis using cats fixed rest c' sn by simp
qed

theorem from_json_restores_context_witness:
  "\<exists>sn c'. snapshot demo_parent 9 = Ok sn
     \<and> from_json (\<lambda>_. Inr sn) all_categories ''{}'' ''v1'' 10 = Ok c'
     \<and> get_category c' Entities = Ok [\<lparr>re_key = ''user'', re_value = JString ''Ann'',
          re_source = ''test'', re_timestamp = 10, re_iteration = 2\<rparr>]"
proof -
  have "ctx_sound demo_parent" using clean_sys.inv_reach [OF demo_parent_reachable] by simp
  then obtain sn where sn: "snapshot demo_parent 9 = Ok sn" "sn_categories sn = collect_categories demo_parent"
    using snapshot_succeeds by blast
  have v: "schema_version (ac_config demo_parent) = ''v1''"
    by (simp add: demo_parent_def demo_set_record put_store_def) (simp add: demo_ctx_def default_config_def)
  have ord: "distinct all_categories" "set all_categories = dom (sn_categories sn)"
  proof -
    show "distinct all_categories" by (simp add: all_categories_def)
    have "cat \<in> set all_categories" for cat by (cases cat) (simp_all add: all_categories_def)
    moreover have "dom (sn_categories sn) = UNIV"
      unfolding sn(2) by (auto simp: dom_def collect_categories_eq demo_parent_categories)
    ultimately show "set all_categories = dom (sn_categories sn)" by blast
  qed
  have dist: "\<forall>cat recs. get_category demo_parent cat = Ok recs \<longrightarrow> distinct (map re_key recs)"
    by (simp add: demo_parent_categories)
  show ?thesis
    using from_json_restores_context [of demo_parent 9 sn "\<lambda>_. Inr ''{}''" "''{}''" "\<lambda>_. Inr sn" all_categories 10,
        OF demo_parent_reachable sn(1) _ _ ord dist] v sn(1)
    by (auto simp: demo_parent_categories)
qed

text \<open>
  Whatever text is given, the restore does not panic; it succeeds only at the expected
  schema version, and the context it returns holds no record with a sensitive key or a value
  with a sensitive top-level key, even if the text does.
\<close>

theorem from_json_rejects_credentials:
  "from_json dec ord txt ver now \<noteq> Panic
   \<and> (\<forall>c'. from_json dec ord txt ver now = Ok c' \<longrightarrow>
        (\<exists>sn. dec txt = Inr sn \<and> sn_schema_version sn = ver)
        \<and> (\<forall>cat. \<exists>recs. get_category c' cat = Ok recs
            \<and> (\<forall>r \<in> set recs. \<not> is_sensitive_key (re_key r) \<and> \<not> is_sensitive_value (re_value r))))"
proof (intro conjI allI impI)
  show "from_json dec ord txt ver now \<noteq> Panic"
  proof (cases "dec txt")
    case (Inr sn)
    obtain q c where w: "for_categories (restore_category sn now) ord (restored_base sn now) = (q, c)"
      by (cases "for_categories (restore_category sn now) ord (restored_base sn now)")
    then show ?thesis using restore_walk_safe [OF w] Inr by (simp add: from_json_def restore_fields_def)
  qed (simp add: from_json_def)
next
  fix c' cat assume ok: "from_json dec ord txt ver now = Ok c'"
  then obtain sn c where c: "dec txt = Inr sn" "sn_schema_version sn = ver"
    "for_categories (restore_category sn now) ord (restored_base sn now) = (Ok (), c)"
    "restore_fields sn c = Ok c'" by (rule from_json_Ok)
  show "\<exists>sn. dec txt = Inr sn \<and> sn_schema_version sn = ver" using c by blast
  have sc: "ctx_sound c'" "ctx_clean c'"
    using restore_walk_safe [OF c(3)] restore_fields_Ok(3,4) [OF c(4)] by simp_all
  obtain st where st: "ac_categories c' cat = Some st" "\<not> lk_poisoned (cs_lock st)"
    using sc(1) by (auto simp: ctx_sound_def)
  then show "\<exists>recs. get_category c' cat = Ok recs
      \<and> (\<forall>r \<in> set recs. \<not> is_sensitive_key (re_key r) \<and> \<not> is_sensitive_value (re_value r))"
    using sc(2) by (auto simp: ctx_clean_def get_category_Ok)
qed

definition demo_tampered :: context_snapshot where
  "demo_tampered =
     \<lparr>sn_schema_version = ''v1'', sn_context_id = ''ctx-1'', sn_user_input = demo_input,
      sn_categories = [Entities \<mapsto> [\<lparr>re_key = ''password'', re_value = JNull, re_source = ''x'',
        re_timestamp = 0, re_iteration = 2\<rparr>]],
      sn_extensions = [], sn_audit_log = [], sn_response_payload = None, sn_lifecycle_state = Active,
      sn_created_at = 0, sn_snapshot_at = 0, sn_metadata = Map.empty, sn_blacklisted_categories = None,
      sn_subagent_id = None, sn_delegation_chain = ''''\<rparr>"

theorem from_json_rejects_credentials_witness:
  "\<exists>c' recs. from_json (\<lambda>_. Inr demo_tampered) [Entities] ''{}'' ''v1'' 10 = Ok c'
     \<and> get_category c' Entities = Ok recs \<and> ''password'' \<notin> re_key ` set recs"
proof -
  have v: "sn_schema_version demo_tampered = ''v1''" by (simp add: demo_tampered_def)
  obtain c' where c': "from_json (\<lambda>_. Inr demo_tampered) [Entities] ''{}'' ''v1'' 10 = Ok c'"
    using from_json_succeeds [of "\<lambda>_. Inr demo_tampered" "''{}''" demo_tampered "[Entities]" 10] v by auto
  obtain recs where r: "get_category c' Entities = Ok recs" "\<forall>r \<in> set recs. \<not> is_sensitive_key (re_key r)"
    using spec [OF conjunct2 [OF mp [OF spec [OF conjunct2 [OF from_json_rejects_credentials]] c']], of Entities]
    by auto
  moreover have "is_sensitive_key ''password''" by code_simp
  ultimately have "''password'' \<notin> re_key ` set recs" by auto
  with c' r(1) show ?thesis by (intro exI conjI)
qed

text \<open>
  The restore drops the sub-agent restrictions the snapshot carries: a forked child
  refuses a write to a blacklisted category, its restored copy accepts the same write.
\<close>

theorem restored_subagent_loses_blacklist:
  assumes "ctx_reachable c" and "fork_for_subagent c sid bl t0 = Ok s" and "cat \<in> set bl"
    and "snapshot (sub_context s) t = Ok sn" and "dec txt = Inr sn"
    and "from_json dec ord txt ver now = Ok c'"
    and "\<not> is_sensitive_key k" and "\<not> is_sensitive_value v"
  shows "fst (set_record (sub_context s) cat k v src it t') \<noteq> Ok ()
    \<and> fst (set_record c' cat k v src it t') = Ok ()"
proof -
  have sc: "ctx_sound c" "ctx_clean c" using clean_sys.inv_reach [OF assms(1)] by simp_all
  note f = fork_Ok [OF sc assms(2)]
  have b: "blacklisted (sub_context s) cat" using f assms(3) by blast
  obtain d where d: "for_categories (restore_category sn now) ord (restored_base sn now) = (Ok (), d)"
    "restore_fields sn d = Ok c'"
    using assms(5,6) by (auto elim: from_json_Ok)
  note safe = restore_walk_safe [OF d(1)] and r = restore_fields_Ok [OF d(2)]
  have "lifecycle_state c' = lifecycle_state (sub_context s)"
    using r(3,5) safe assms(4) by (auto simp: snapshot_def lifecycle_state_def ctx_sound_def lk_read_def
        split: option.splits)
  then have "writable c'" using f by (simp add: writable_def)
  moreover have "\<not> blacklisted c' cat"
    using r(2) safe by (simp add: blacklisted_def fixed_part_def restored_base_def)
  ultimately have "writes_to c' cat" using r(3) safe by (simp add: writes_to_def)
  then have "fst (set_record c' cat k v src it t') = Ok ()"
    using set_record_accepts [OF _ assms(7,8)] by (metis fst_conv)
  moreover have "fst (set_record (sub_context s) cat k v src it t') \<noteq> Ok ()"
  proof
    assume "fst (set_record (sub_context s) cat k v src it t') = Ok ()"
    then have "set_record (sub_context s) cat k v src it t'
        = (Ok (), snd (set_record (sub_context s) cat k v src it t'))"
      by (metis prod.collapse)
    then show False by (rule set_record_OkE) (use b in blast)
  qed
  ultimately show ?thesis by simp
qed

theorem restored_subagent_loses_blacklist_witness:
  "\<exists>s sn c'. fork_for_subagent demo_parent ''sub'' [Intentions] 7 = Ok s
     \<and> snapshot (sub_context s) 8 = Ok sn
     \<and> from_json (\<lambda>_. Inr sn) all_categories ''{}'' (sn_schema_version sn) 9 = Ok c'
     \<and> fst (set_record (sub_context s) Intentions ''user'' JNull ''x'' 2 10) \<noteq> Ok ()
     \<and> fst (set_record c' Intentions ''user'' JNull ''x'' 2 10) = Ok ()"
proof -
  obtain s where s: "fork_for_subagent demo_parent ''sub'' [Intentions] 7 = Ok s" using demo_fork by blast
  have "ctx_sound demo_parent" "ctx_clean demo_parent"
    using clean_sys.inv_reach [OF demo_parent_reachable] by simp_all
  then have "ctx_sound (sub_context s)" using fork_Ok s by blast
  then obtain sn where sn: "snapshot (sub_context s) 8 = Ok sn" using snapshot_succeeds by blast
  obtain c' where c': "from_json (\<lambda>_. Inr sn) all_categories ''{}'' (sn_schema_version sn) 9 = Ok c'"
    using from_json_succeeds [of "\<lambda>_. Inr sn" "''{}''" sn] by blast
  show ?thesis
    using restored_subagent_loses_blacklist [OF demo_parent_reachable s _ sn _ c' demo_key_ok, of Intentions JNull]
      s sn c' by auto
qed

end
