(* ===== verification/Input_Source.thy ===== *)
theory Input_Source
  imports HC_Json "HOL-Library.List_Lexorder" "HOL-Library.Char_ord"
begin

text \<open>
  Structured inputs of workflow nodes (\<^verbatim>\<open>crates/hiveweb/src/runtime/input_source.rs\<close>): where
  the value of each input field comes from, the parser from JSON and the validation that
  runs when a graph is saved. \<^verbatim>\<open>InputSpec\<close> is a \<^verbatim>\<open>BTreeMap\<close>, an association list sorted by
  the bytes of its keys. The derived serde decoder of one \<^verbatim>\<open>InputSource\<close> is the parameter
  \<open>de_source\<close>; its error text is not modelled.
\<close>

section \<open>Types\<close>

datatype agent_context_category =
  AcUserInput | AcEntities | AcToolResults | AcStateChanges | AcExtensions

definition user_input_fields :: "string list" where
  "user_input_fields = [''raw_text'', ''session_id'', ''message_id'', ''timestamp'', ''metadata'']"

fun category_is_valid :: "agent_context_category \<Rightarrow> bool" where
  "category_is_valid AcUserInput = True"
| "category_is_valid AcEntities = True"
| "category_is_valid AcToolResults = True"
| "category_is_valid AcStateChanges = True"
| "category_is_valid AcExtensions = True"

datatype input_source =
    Upstream string "string option"
  | Custom json
  | AgentCtx agent_context_category string "string option"

type_synonym input_spec = "(string \<times> input_source) list"

definition reserved_input_keys :: "string list" where
  "reserved_input_keys = [''_agent_context'', ''_agent_context_updates'']"

text \<open>The error messages, by the \<^verbatim>\<open>format!\<close> that makes them and the values it prints.\<close>

datatype spec_error =
    SpecNotObject
  | InvalidSource string
  | ReservedField string
  | EmptyFieldName
  | EmptyNodeKey string
  | InvalidCategory string agent_context_category
  | EmptyContextKey string
  | UnknownUserInputField string string
  | EmptySubKey string
  | SubKeyNotAllowed string string
  | ExtensionSubKeyMissing string

section \<open>Parsing\<close>

text \<open>\<^verbatim>\<open>BTreeMap::insert\<close>.\<close>

fun bt_insert :: "string \<Rightarrow> 'a \<Rightarrow> (string \<times> 'a) list \<Rightarrow> (string \<times> 'a) list" where
  "bt_insert k v [] = [(k, v)]"
| "bt_insert k v (p # m) =
     (if k < fst p then (k, v) # p # m
      else if k = fst p then (k, v) # m
      else p # bt_insert k v m)"

fun parse_fields ::
  "(json \<Rightarrow> input_source option) \<Rightarrow> jmap \<Rightarrow> input_spec \<Rightarrow> (spec_error, input_spec) result" where
  "parse_fields de [] spec = Ok spec"
| "parse_fields de ((field, src) # rest) spec =
     (case de src of
        None \<Rightarrow> Err (InvalidSource field)
      | Some parsed \<Rightarrow> parse_fields de rest (bt_insert field parsed spec))"

definition parse_input_spec ::
  "(json \<Rightarrow> input_source option) \<Rightarrow> json \<Rightarrow> (spec_error, input_spec) result" where
  "parse_input_spec de v =
     (if v = JNull then Ok []
      else case as_object v of
             None \<Rightarrow> Err SpecNotObject
           | Some obj \<Rightarrow> parse_fields de obj [])"

section \<open>Validation\<close>

fun check_field_names :: "string list \<Rightarrow> (spec_error, unit) result" where
  "check_field_names [] = Ok ()"
| "check_field_names (field # rest) =
     (if field \<in> set reserved_input_keys then Err (ReservedField field)
      else if field = '''' then Err EmptyFieldName
      else check_field_names rest)"

definition check_user_input_ref ::
  "string \<Rightarrow> string \<Rightarrow> string option \<Rightarrow> (spec_error, unit) result" where
  "check_user_input_ref field key sub_key =
     (if key \<notin> set user_input_fields then Err (UnknownUserInputField field key)
      else case sub_key of
             None \<Rightarrow> Ok ()
           | Some sk \<Rightarrow>
               if sk = '''' then Err (EmptySubKey field)
               else if key \<noteq> ''metadata'' then Err (SubKeyNotAllowed field key)
               else Ok ())"

fun check_source :: "string \<Rightarrow> input_source \<Rightarrow> (spec_error, unit) result" where
  "check_source field (Upstream node_key _) =
     (if node_key = '''' then Err (EmptyNodeKey field) else Ok ())"
| "check_source field (Custom _) = Ok ()"
| "check_source field (AgentCtx category key sub_key) =
     (if \<not> category_is_valid category then Err (InvalidCategory field category)
      else if key = '''' then Err (EmptyContextKey field)
      else bind_res
             (if category = AcUserInput then check_user_input_ref field key sub_key else Ok ())
             (\<lambda>_. if category = AcExtensions \<and> sub_key = None
                  then Err (ExtensionSubKeyMissing field) else Ok ()))"

fun check_sources :: "input_spec \<Rightarrow> (spec_error, unit) result" where
  "check_sources [] = Ok ()"
| "check_sources ((field, src) # rest) =
     bind_res (check_source field src) (\<lambda>_. check_sources rest)"

definition validate_input_spec :: "input_spec \<Rightarrow> (spec_error, unit) result" where
  "validate_input_spec spec =
     bind_res (check_field_names (map fst spec)) (\<lambda>_. check_sources spec)"

section \<open>The ordered map\<close>

lemma keys_bt_insert [simp]: "fst ` set (bt_insert k v m) = insert k (fst ` set m)"
  by (induction m) auto

lemma sorted_bt_insert:
  "sorted_wrt (<) (map fst m) \<Longrightarrow> sorted_wrt (<) (map fst (bt_insert k v m))"
proof (induction m)
  case (Cons p m)
  have IH: "sorted_wrt (<) (map fst (bt_insert k v m))" and hd: "\<forall>x \<in> fst ` set m. fst p < x"
    using Cons by simp_all
  show ?case
  proof (cases "k < fst p \<or> k = fst p")
    case True
    then have "\<forall>x \<in> fst ` set m. k < x" using hd by (meson order_less_trans)
    then show ?thesis using Cons.prems True by auto
  next
    case False
    then have "fst p < k" by (metis linorder_neqE)
    then have "\<forall>x \<in> fst ` set (bt_insert k v m). fst p < x" using hd by simp
    then show ?thesis using IH False by simp
  qed
qed simp

lemma map_of_bt_insert:
  "sorted_wrt (<) (map fst m) \<Longrightarrow> map_of (bt_insert k v m) = (map_of m)(k \<mapsto> v)"
  by (induction m) (auto simp: fun_eq_iff)

lemma map_of_obj: "obj_get m k = map_of m k"
  by (induction m) auto

lemma sorted_wrt_less_distinct: "sorted_wrt (<) (xs :: 'a :: linorder list) \<Longrightarrow> distinct xs"
  by (induction xs) auto

lemma parse_fields_never_panics [simp]: "parse_fields de m spec \<noteq> Panic"
  by (induction de m spec rule: parse_fields.induct) (simp_all split: option.split)

lemma parse_fields_sorted:
  "parse_fields de m spec = Ok spec' \<Longrightarrow> sorted_wrt (<) (map fst spec) \<Longrightarrow> sorted_wrt (<) (map fst spec')"
  by (induction de m spec rule: parse_fields.induct) (simp_all split: option.splits add: sorted_bt_insert)

text \<open>
  Every field of the object is in the parsed specification with its decoded source, and
  there is no other field.
\<close>

lemma parse_fields_lookup:
  assumes "parse_fields de m spec = Ok spec'" "sorted_wrt (<) (map fst spec)" "distinct (map fst m)"
  shows "map_of spec' k = (case map_of m k of None \<Rightarrow> map_of spec k | Some v \<Rightarrow> de v)"
  using assms
proof (induction m arbitrary: spec)
  case (Cons p m)
  obtain f v where p: "p = (f, v)" by (cases p)
  from Cons.prems p obtain s where s: "de v = Some s" "parse_fields de m (bt_insert f s spec) = Ok spec'"
    by (auto split: option.splits)
  have m_f: "map_of m f = None"
    using Cons.prems(3) p by (simp add: map_of_eq_None_iff)
  show ?case
    using Cons.IH[OF s(2) sorted_bt_insert[OF Cons.prems(2)]] Cons.prems(2,3) m_f s(1) p
    by (auto simp: map_of_bt_insert split: option.splits)
qed simp

lemma parse_input_spec_lookup:
  assumes "parse_input_spec de (JObject m) = Ok spec" "distinct (map fst m)"
  shows "map_of spec k = (case obj_get m k of None \<Rightarrow> None | Some v \<Rightarrow> de v)"
  using assms parse_fields_lookup[of de m "[]" spec k]
  by (simp add: parse_input_spec_def map_of_obj split: option.split)

lemma parse_input_spec_sorted: "parse_input_spec de v = Ok spec \<Longrightarrow> sorted_wrt (<) (map fst spec)"
  by (auto simp: parse_input_spec_def split: if_splits option.splits dest: parse_fields_sorted)

lemma parse_input_spec_never_panics [simp]: "parse_input_spec de v \<noteq> Panic"
  by (simp add: parse_input_spec_def split: option.split)

section \<open>What validation accepts\<close>

lemma check_field_names_Ok:
  "check_field_names fs = Ok () \<longleftrightarrow> (\<forall>f \<in> set fs. f \<notin> set reserved_input_keys \<and> f \<noteq> '''')"
  by (induction fs) auto

lemma check_sources_Ok: "check_sources m = Ok () \<longleftrightarrow> (\<forall>(f, s) \<in> set m. check_source f s = Ok ())"
  by (induction m rule: check_sources.induct) auto

lemma check_field_names_never_panics [simp]: "check_field_names fs \<noteq> Panic"
  by (induction fs) auto

lemma check_source_never_panics [simp]: "check_source f s \<noteq> Panic"
  by (induction f s rule: check_source.induct) (auto simp: check_user_input_ref_def split: option.splits)

lemma check_sources_never_panics [simp]: "check_sources m \<noteq> Panic"
  by (induction m rule: check_sources.induct) auto

lemma validate_input_spec_never_panics [simp]: "validate_input_spec m \<noteq> Panic"
  by (simp add: validate_input_spec_def)

text \<open>The reference: one declarative condition per kind of source.\<close>

fun source_ok :: "input_source \<Rightarrow> bool" where
  "source_ok (Upstream node_key _) \<longleftrightarrow> node_key \<noteq> ''''"
| "source_ok (Custom _) \<longleftrightarrow> True"
| "source_ok (AgentCtx AcUserInput key sub_key) \<longleftrightarrow>
     key \<in> set user_input_fields
     \<and> (\<forall>sk. sub_key = Some sk \<longrightarrow> sk \<noteq> '''' \<and> key = ''metadata'')"
| "source_ok (AgentCtx AcExtensions key sub_key) \<longleftrightarrow> key \<noteq> '''' \<and> sub_key \<noteq> None"
| "source_ok (AgentCtx _ key sub_key) \<longleftrightarrow> key \<noteq> ''''"

lemma check_source_Ok: "check_source f s = Ok () \<longleftrightarrow> source_ok s"
  by (cases s rule: source_ok.cases)
    (auto simp: check_user_input_ref_def user_input_fields_def split: option.splits)

section \<open>Properties\<close>

text \<open>
  \<^verbatim>\<open>validate_input_spec\<close> agrees with the declarative reading of its checks: it
  accepts exactly the specifications whose field names are neither empty nor reserved by
  the runtime and whose sources are all well formed, whatever the order it visits them in.
\<close>

theorem validate_input_spec_iff:
  "validate_input_spec spec = Ok () \<longleftrightarrow>
     (\<forall>f s. (f, s) \<in> set spec \<longrightarrow>
        f \<noteq> ''_agent_context'' \<and> f \<noteq> ''_agent_context_updates'' \<and> f \<noteq> '''' \<and> source_ok s)"
  by (auto simp: validate_input_spec_def check_field_names_Ok check_sources_Ok check_source_Ok
      reserved_input_keys_def)

definition demo_spec :: input_spec where
  "demo_spec =
     [(''channel'', AgentCtx AcUserInput ''metadata'' (Some ''channel'')),
      (''query'', Upstream ''fn_1'' (Some ''text''))]"

theorem validate_input_spec_iff_witness:
  "validate_input_spec demo_spec = Ok ()
   \<and> validate_input_spec [(''x'', AgentCtx AcExtensions ''ext_1'' None)] \<noteq> Ok ()"
  unfolding validate_input_spec_iff by (simp add: demo_spec_def user_input_fields_def)

end
