(* ===== verification/Dag_Cycle.thy ===== *)
theory Dag_Cycle
  imports HC_Prelude
begin

text \<open>
  Cycle detection of the workflow editor: \<^verbatim>\<open>detect_cycle\<close> of
  \<^verbatim>\<open>crates/hiveweb/src/services/workflow.rs\<close>, the iterative depth-first search with three
  colours that \<^verbatim>\<open>put_graph\<close> runs before it saves a graph. The theory proves that the
  search terminates, that what it returns is a cycle of the graph, and that it returns
  nothing exactly on the acyclic graphs. The locale \<open>dag_check\<close> is the contract its clients
  use: a graph that passes the check has, in every nonempty set of nodes, a node without a
  predecessor in the set.
\<close>

section \<open>The search\<close>

text \<open>
  \<^verbatim>\<open>HashMap<&str, Vec<&str>>\<close>: an association list in the iteration order of the map, which
  Rust leaves open; the theorems hold for every order.
\<close>

type_synonym adjacency = "(string \<times> string list) list"

datatype color = White | Gray | Black

type_synonym colors = "(string, color) map"

definition color_of :: "colors \<Rightarrow> string \<Rightarrow> color" where
  "color_of c n = (case c n of None \<Rightarrow> White | Some k \<Rightarrow> k)"

datatype scan_result = Advance string | Closes string | Exhausted

text \<open>The inner \<^verbatim>\<open>for &next in succs\<close>: it stops at the first white or gray successor.\<close>

fun scan_succs :: "colors \<Rightarrow> string list \<Rightarrow> scan_result" where
  "scan_succs c [] = Exhausted"
| "scan_succs c (next # rest) =
     (case color_of c next of
        White \<Rightarrow> Advance next
      | Gray \<Rightarrow> Closes next
      | Black \<Rightarrow> scan_succs c rest)"

definition graph_nodes :: "adjacency \<Rightarrow> string set" where
  "graph_nodes adj = fst ` set adj \<union> \<Union> (set ` snd ` set adj)"

lemma finite_graph_nodes [simp]: "finite (graph_nodes adj)"
  by (auto simp: graph_nodes_def)

definition white_nodes :: "adjacency \<Rightarrow> colors \<Rightarrow> string set" where
  "white_nodes adj c = {n \<in> graph_nodes adj. color_of c n = White}"

lemma finite_white_nodes [simp]: "finite (white_nodes adj c)"
  by (simp add: white_nodes_def)

lemma color_of_upd: "color_of (c(n \<mapsto> k)) m = (if m = n then k else color_of c m)"
  by (simp add: color_of_def)

lemma scan_AdvanceD: "scan_succs c ns = Advance n \<Longrightarrow> n \<in> set ns \<and> color_of c n = White"
  by (induction ns) (auto split: color.splits)

lemma scan_ClosesD: "scan_succs c ns = Closes n \<Longrightarrow> n \<in> set ns \<and> color_of c n = Gray"
  by (induction ns) (auto split: color.splits)

lemma scan_ExhaustedD: "scan_succs c ns = Exhausted \<Longrightarrow> n \<in> set ns \<Longrightarrow> color_of c n = Black"
  by (induction ns) (auto split: color.splits)

lemma white_nodes_gray:
  assumes "map_of adj a = Some ns" "n \<in> set ns" "color_of c n = White"
  shows "card (white_nodes adj (c(n \<mapsto> Gray))) < card (white_nodes adj c)"
proof (rule psubset_card_mono)
  have "n \<in> graph_nodes adj"
    using assms(1,2) by (force simp: graph_nodes_def dest!: map_of_SomeD)
  then show "white_nodes adj (c(n \<mapsto> Gray)) \<subset> white_nodes adj c"
    using assms(3) by (auto simp: white_nodes_def color_of_upd)
qed simp

lemma white_nodes_black:
  "card (white_nodes adj (c(n \<mapsto> Black))) \<le> card (white_nodes adj c)"
  by (rule card_mono) (auto simp: white_nodes_def color_of_upd)

text \<open>
  The \<^verbatim>\<open>while let Some((node, path)) = stack.last()\<close> loop; the head of the list is the top of
  the stack. \<open>Inl\<close> is the \<^verbatim>\<open>return Some(cycle)\<close> out of the function, \<open>Inr\<close> the colours
  when the stack is empty.
\<close>

function dfs_loop :: "adjacency \<Rightarrow> colors \<Rightarrow> (string \<times> string list) list \<Rightarrow> string list + colors" where
  "dfs_loop adj c [] = Inr c"
| "dfs_loop adj c ((node, path) # stack) =
     (case map_of adj node of
        None \<Rightarrow> dfs_loop adj (c(node \<mapsto> Black)) stack
      | Some succs \<Rightarrow>
          (case scan_succs c succs of
             Advance next \<Rightarrow>
               dfs_loop adj (c(next \<mapsto> Gray)) ((next, path @ [next]) # (node, path) # stack)
           | Closes next \<Rightarrow> Inl (dropWhile (\<lambda>p. p \<noteq> next) path @ [next])
           | Exhausted \<Rightarrow> dfs_loop adj (c(node \<mapsto> Black)) stack))"
  by pat_completeness auto
termination
proof (relation "measures [\<lambda>(adj, c, st). card (white_nodes adj c), \<lambda>(adj, c, st). length st]", goal_cases)
  case 1
  show ?case by simp
next
  case (2 adj c node path stack)
  then show ?case using white_nodes_black[of adj c node] by auto
next
  case (3 adj c node path stack succs n)
  then show ?case using white_nodes_gray[of adj node succs n c] scan_AdvanceD[of c succs n] by simp
next
  case (4 adj c node path stack succs)
  then show ?case using white_nodes_black[of adj c node] by auto
qed

fun dfs_starts :: "adjacency \<Rightarrow> string list \<Rightarrow> colors \<Rightarrow> string list option" where
  "dfs_starts adj [] c = None"
| "dfs_starts adj (start # rest) c =
     (if color_of c start \<noteq> White then dfs_starts adj rest c
      else case dfs_loop adj (c(start \<mapsto> Gray)) [(start, [start])] of
             Inl cycle \<Rightarrow> Some cycle
           | Inr c' \<Rightarrow> dfs_starts adj rest c')"

definition detect_cycle :: "adjacency \<Rightarrow> string list option" where
  "detect_cycle adj = dfs_starts adj (map fst adj) (map_of (map (\<lambda>(k, _). (k, White)) adj))"

section \<open>What the search keeps\<close>

definition graph_edges :: "adjacency \<Rightarrow> (string \<times> string) set" where
  "graph_edges adj = {(a, b). \<exists>bs. map_of adj a = Some bs \<and> b \<in> set bs}"

definition is_cycle :: "adjacency \<Rightarrow> string list \<Rightarrow> bool" where
  "is_cycle adj ns \<longleftrightarrow> length ns \<ge> 2 \<and> hd ns = last ns
     \<and> successively (\<lambda>a b. (a, b) \<in> graph_edges adj) ns"

fun paths_ok :: "(string \<times> string list) list \<Rightarrow> bool" where
  "paths_ok [] = True"
| "paths_ok ((n, p) # st) = (p = rev (n # map fst st) \<and> paths_ok st)"

text \<open>
  The invariant of the search: the gray nodes are the stack, each once, with its path; the
  stack is a path of the graph; black nodes lead to black nodes only and lie on no cycle.
\<close>

definition dfs_inv :: "adjacency \<Rightarrow> colors \<Rightarrow> (string \<times> string list) list \<Rightarrow> bool" where
  "dfs_inv adj c st \<longleftrightarrow>
     {n. color_of c n = Gray} = fst ` set st \<and> distinct (map fst st) \<and> paths_ok st
   \<and> successively (\<lambda>a b. (b, a) \<in> graph_edges adj) (map fst st)
   \<and> (\<forall>a b. color_of c a = Black \<longrightarrow> (a, b) \<in> graph_edges adj \<longrightarrow> color_of c b = Black)
   \<and> (\<forall>a. color_of c a = Black \<longrightarrow> (a, a) \<notin> (graph_edges adj)\<^sup>+)"

lemma black_closed:
  assumes "(a, b) \<in> E\<^sup>*" "color_of c a = Black"
    and "\<And>a b. color_of c a = Black \<Longrightarrow> (a, b) \<in> E \<Longrightarrow> color_of c b = Black"
  shows "color_of c b = Black"
  using assms by (induction rule: rtrancl_induct) auto

lemma dfs_inv_advance:
  assumes "dfs_inv adj c ((node, path) # st)" "(node, n) \<in> graph_edges adj" "color_of c n = White"
  shows "dfs_inv adj (c(n \<mapsto> Gray)) ((n, path @ [n]) # (node, path) # st)"
proof -
  have "n \<notin> fst ` set ((node, path) # st)"
    using assms(1,3) unfolding dfs_inv_def by (metis (mono_tags, lifting) color.distinct(1) mem_Collect_eq)
  then show ?thesis
    using assms by (auto simp: dfs_inv_def color_of_upd)
qed

lemma dfs_inv_blacken:
  assumes inv: "dfs_inv adj c ((node, path) # st)"
    and exhausted: "\<And>b. (node, b) \<in> graph_edges adj \<Longrightarrow> color_of c b = Black"
  shows "dfs_inv adj (c(node \<mapsto> Black)) st"
proof -
  let ?E = "graph_edges adj"
  have gray: "color_of c node = Gray"
    using inv by (auto simp: dfs_inv_def)
  have closed: "\<And>a b. color_of c a = Black \<Longrightarrow> (a, b) \<in> ?E \<Longrightarrow> color_of c b = Black"
    using inv unfolding dfs_inv_def by blast
  have "(node, node) \<notin> ?E\<^sup>+"
  proof
    assume "(node, node) \<in> ?E\<^sup>+"
    then obtain b where "(node, b) \<in> ?E" "(b, node) \<in> ?E\<^sup>*"
      by (metis tranclD)
    then have "color_of c node = Black"
      using exhausted black_closed[of b node ?E c] closed by blast
    then show False using gray by simp
  qed
  moreover have "{n. color_of (c(node \<mapsto> Black)) n = Gray} = fst ` set st"
    using inv by (auto simp: dfs_inv_def color_of_upd split: if_splits)
  ultimately show ?thesis
    using inv exhausted by (auto simp: dfs_inv_def color_of_upd successively_Cons split: if_splits)
qed

lemma dfs_inv_cycle:
  assumes inv: "dfs_inv adj c ((node, path) # st)"
    and e: "(node, n) \<in> graph_edges adj" and "color_of c n = Gray"
  shows "is_cycle adj (dropWhile (\<lambda>p. p \<noteq> n) path @ [n])"
proof -
  let ?d = "dropWhile (\<lambda>p. p \<noteq> n) path"
  have path: "path = rev (map fst ((node, path) # st))" and last: "last path = node"
    using inv by (auto simp: dfs_inv_def)
  have "n \<in> fst ` set ((node, path) # st)"
    using assms(1,3) unfolding dfs_inv_def by blast
  then have n: "n \<in> set path"
    by (subst path) auto
  then have d: "?d \<noteq> []" "hd ?d = n"
    by (auto simp: dropWhile_eq_Nil_conv) (metis (mono_tags, lifting) dropWhile_eq_Nil_conv hd_dropWhile)
  have "successively (\<lambda>a b. (a, b) \<in> graph_edges adj) path"
    by (subst path, subst successively_rev) (use inv in \<open>simp only: dfs_inv_def\<close>)
  then have "successively (\<lambda>a b. (a, b) \<in> graph_edges adj) (takeWhile (\<lambda>p. p \<noteq> n) path @ ?d)"
    by simp
  then have "successively (\<lambda>a b. (a, b) \<in> graph_edges adj) ?d"
    by (simp only: successively_append_iff)
  moreover have "last ?d = node"
    using last d(1) by (metis last_appendR takeWhile_dropWhile_id)
  ultimately show ?thesis
    using d e by (simp add: is_cycle_def successively_append_iff Suc_le_eq)
qed

lemma graph_edgesI: "map_of adj a = Some bs \<Longrightarrow> b \<in> set bs \<Longrightarrow> (a, b) \<in> graph_edges adj"
  by (auto simp: graph_edges_def)

lemma dfs_loop_correct:
  "dfs_inv adj c st \<Longrightarrow>
     (case dfs_loop adj c st of Inl cyc \<Rightarrow> is_cycle adj cyc | Inr c' \<Rightarrow> dfs_inv adj c' [])"
proof (induction adj c st rule: dfs_loop.induct)
  case (1 adj c)
  then show ?case by simp
next
  case (2 adj c node path stack)
  show ?case
  proof (cases "map_of adj node")
    case None
    then have "dfs_inv adj (c(node \<mapsto> Black)) stack"
      using 2(4) by (intro dfs_inv_blacken) (auto simp: graph_edges_def)
    then show ?thesis using 2(1)[OF None] None by (simp del: fun_upd_apply)
  next
    case (Some succs)
    show ?thesis
    proof (cases "scan_succs c succs")
      case (Advance n)
      then have "dfs_inv adj (c(n \<mapsto> Gray)) ((n, path @ [n]) # (node, path) # stack)"
        using 2(4) Some scan_AdvanceD[OF Advance] by (intro dfs_inv_advance) (auto intro: graph_edgesI)
      then show ?thesis using 2(2)[OF Some Advance] Some Advance by (simp del: fun_upd_apply)
    next
      case (Closes n)
      then show ?thesis
        using dfs_inv_cycle[OF 2(4)] Some scan_ClosesD[OF Closes] by (simp add: graph_edgesI)
    next
      case Exhausted
      then have "dfs_inv adj (c(node \<mapsto> Black)) stack"
        using 2(4) Some scan_ExhaustedD[OF Exhausted] by (intro dfs_inv_blacken) (auto simp: graph_edges_def)
      then show ?thesis using 2(3)[OF Some Exhausted] Some Exhausted by (simp del: fun_upd_apply)
    qed
  qed
qed

lemma dfs_loop_keeps_colored:
  "dfs_loop adj c st = Inr c' \<Longrightarrow> color_of c n \<noteq> White \<Longrightarrow> color_of c' n \<noteq> White"
proof (induction adj c st rule: dfs_loop.induct)
  case (1 adj c)
  then show ?case by simp
next
  case (2 adj c node path stack)
  have colored: "color_of (c(m \<mapsto> k)) n \<noteq> White" if "k \<noteq> White" for m k
    using 2(5) that by (simp add: color_of_upd)
  show ?case
  proof (cases "map_of adj node")
    case None
    then show ?thesis using 2(1)[OF None] 2(4) colored by (simp del: fun_upd_apply)
  next
    case (Some succs)
    show ?thesis
    proof (cases "scan_succs c succs")
      case (Advance m)
      then show ?thesis using 2(2)[OF Some Advance] 2(4) Some colored by (simp del: fun_upd_apply)
    next
      case (Closes m)
      then show ?thesis using 2(4) Some by simp
    next
      case Exhausted
      then show ?thesis using 2(3)[OF Some Exhausted] 2(4) Some colored by (simp del: fun_upd_apply)
    qed
  qed
qed

text \<open>With an empty stack no node is gray, so what is not white is black.\<close>

lemma dfs_inv_empty_black: "dfs_inv adj c [] \<Longrightarrow> color_of c n \<noteq> White \<Longrightarrow> color_of c n = Black"
  by (cases "color_of c n") (auto simp: dfs_inv_def)

lemma dfs_inv_start:
  assumes "dfs_inv adj c []" "color_of c s = White"
  shows "dfs_inv adj (c(s \<mapsto> Gray)) [(s, [s])]"
  using assms by (auto simp: dfs_inv_def color_of_upd)

lemma dfs_starts_correct:
  "dfs_inv adj c [] \<Longrightarrow>
     (case dfs_starts adj ks c of
        Some cyc \<Rightarrow> is_cycle adj cyc
      | None \<Rightarrow> \<exists>c'. dfs_inv adj c' [] \<and> (\<forall>n. n \<in> set ks \<or> color_of c n \<noteq> White \<longrightarrow> color_of c' n = Black))"
proof (induction ks arbitrary: c)
  case Nil
  then show ?case using dfs_inv_empty_black by auto
next
  case (Cons s ks)
  show ?case
  proof (cases "color_of c s = White")
    case False
    then show ?thesis using Cons.IH[OF Cons.prems] by (auto split: option.splits)
  next
    case True
    note start = dfs_loop_correct[OF dfs_inv_start[OF Cons.prems True]]
    show ?thesis
    proof (cases "dfs_loop adj (c(s \<mapsto> Gray)) [(s, [s])]")
      case (Inl cyc)
      then show ?thesis using start True by simp
    next
      case (Inr c1)
      then have inv1: "dfs_inv adj c1 []" using start by simp
      have kept: "color_of c1 n \<noteq> White" if "n = s \<or> color_of c n \<noteq> White" for n
        using dfs_loop_keeps_colored[OF Inr, of n] that by (cases "n = s") (simp_all add: color_of_upd)
      have step: "dfs_starts adj (s # ks) c = dfs_starts adj ks c1"
        using Inr True by simp
      show ?thesis
      proof (cases "dfs_starts adj ks c1")
        case None
        then obtain c2 where "dfs_inv adj c2 []"
          and "\<And>n. n \<in> set ks \<or> color_of c1 n \<noteq> White \<Longrightarrow> color_of c2 n = Black"
          using Cons.IH[OF inv1] by auto
        then show ?thesis using kept step None by auto
      next
        case (Some cyc)
        then show ?thesis using Cons.IH[OF inv1] step by simp
      qed
    qed
  qed
qed

lemma init_all_white: "color_of (map_of (map (\<lambda>(k, _). (k, White)) adj)) n = White"
  by (induction adj) (auto simp: color_of_def)

lemma dfs_inv_init: "dfs_inv adj (map_of (map (\<lambda>(k, _). (k, White)) adj)) []"
  by (simp add: dfs_inv_def init_all_white)

lemma is_cycle_not_acyclic:
  assumes "is_cycle adj ns"
  shows "\<not> acyclic (graph_edges adj)"
proof -
  have path: "successively (\<lambda>a b. (a, b) \<in> E) (x # xs) \<Longrightarrow> xs \<noteq> [] \<Longrightarrow> (x, last xs) \<in> E\<^sup>+"
    for E and x :: string and xs
    by (induction xs arbitrary: x) (auto simp: successively_Cons intro: trancl_into_trancl2)
  obtain x xs where "ns = x # xs" "xs \<noteq> []" "x = last xs"
    using assms by (cases ns; cases "tl ns") (auto simp: is_cycle_def)
  then have "(x, x) \<in> (graph_edges adj)\<^sup>+"
    using assms path[of "graph_edges adj" x xs] by (auto simp: is_cycle_def)
  then show ?thesis by (auto simp: acyclic_def)
qed

lemma detect_cycle_Some_cycle: "detect_cycle adj = Some cyc \<Longrightarrow> is_cycle adj cyc"
  using dfs_starts_correct[OF dfs_inv_init, of adj "map fst adj"] by (simp add: detect_cycle_def)

lemma detect_cycle_None_acyclic:
  assumes "detect_cycle adj = None"
  shows "acyclic (graph_edges adj)"
proof -
  obtain c where inv: "dfs_inv adj c []" and black: "\<And>n. n \<in> fst ` set adj \<Longrightarrow> color_of c n = Black"
    using dfs_starts_correct[OF dfs_inv_init, of adj "map fst adj"] assms
    by (auto simp: detect_cycle_def)
  have "(a, a) \<notin> (graph_edges adj)\<^sup>+" for a
  proof
    assume cyc: "(a, a) \<in> (graph_edges adj)\<^sup>+"
    then obtain b where "(a, b) \<in> graph_edges adj" by (metis tranclD)
    then have "a \<in> fst ` set adj"
      by (force simp: graph_edges_def dest: map_of_SomeD)
    then show False using black inv cyc by (auto simp: dfs_inv_def)
  qed
  then show ?thesis by (simp add: acyclic_def)
qed

lemma detect_cycle_None_iff: "detect_cycle adj = None \<longleftrightarrow> acyclic (graph_edges adj)"
  by (metis detect_cycle_None_acyclic detect_cycle_Some_cycle is_cycle_not_acyclic option.exhaust)

section \<open>The contract of the check\<close>

text \<open>
  What a client needs of the check: the graph has finitely many edges and passing the check
  excludes every cycle. The lemma of the locale is the fact a layered scheduler rests on.
\<close>

locale dag_check =
  fixes edges_of :: "'g \<Rightarrow> ('n \<times> 'n) set"
    and accepts :: "'g \<Rightarrow> bool"
  assumes accepts_acyclic: "accepts g \<Longrightarrow> acyclic (edges_of g)"
    and edges_finite: "finite (edges_of g)"
begin

lemma accepted_wf: "accepts g \<Longrightarrow> wf (edges_of g)"
  using accepts_acyclic edges_finite by (simp add: finite_acyclic_wf)

lemma exists_ready_node:
  assumes "accepts g" "N \<noteq> {}"
  obtains n where "n \<in> N" "\<And>p. (p, n) \<in> edges_of g \<Longrightarrow> p \<notin> N"
  using accepted_wf[OF assms(1)] assms(2) unfolding wf_eq_minimal by blast

end

lemma finite_graph_edges: "finite (graph_edges adj)"
proof (rule finite_subset)
  show "graph_edges adj \<subseteq> graph_nodes adj \<times> graph_nodes adj"
    by (force simp: graph_edges_def graph_nodes_def dest!: map_of_SomeD)
qed simp

interpretation cycle_search: dag_check graph_edges "\<lambda>adj. detect_cycle adj = None"
  by unfold_locales (simp_all add: detect_cycle_None_iff finite_graph_edges)

section \<open>Properties\<close>

text \<open>
  (C19) \<^verbatim>\<open>detect_cycle\<close> decides acyclicity: it returns \<^verbatim>\<open>None\<close> exactly when the
  graph has no cycle, for every iteration order of the adjacency map.
\<close>

theorem detect_cycle_decides_acyclicity:
  "detect_cycle adj = None \<longleftrightarrow> acyclic (graph_edges adj)"
  by (rule detect_cycle_None_iff)

text \<open>
  The list that \<^verbatim>\<open>detect_cycle\<close> reports is a cycle of the graph: it has at least
  two entries, starts and ends with the same node, and each step is an edge.
\<close>

theorem detected_cycle_is_real:
  assumes "detect_cycle adj = Some ns"
  shows "length ns \<ge> 2 \<and> hd ns = last ns
    \<and> (\<forall>i. Suc i < length ns \<longrightarrow> (ns ! i, ns ! Suc i) \<in> graph_edges adj)"
  using detect_cycle_Some_cycle[OF assms] by (auto simp: is_cycle_def successively_conv_nth)

definition demo_cyclic :: adjacency where
  "demo_cyclic = [(''A'', [''B'']), (''B'', [''D'', ''C'']), (''C'', [''B'']), (''D'', [])]"

theorem detected_cycle_is_real_witness:
  "detect_cycle demo_cyclic = Some [''B'', ''C'', ''B'']
   \<and> (''B'', ''C'') \<in> graph_edges demo_cyclic"
proof -
  have run: "detect_cycle demo_cyclic = Some [''B'', ''C'', ''B'']"
    by code_simp
  then show ?thesis
    using detected_cycle_is_real[OF run] by (auto dest: spec[of _ 0])
qed

end
