(* ===== verification/Workflow_Graph.thy ===== *)
theory Workflow_Graph
  imports Input_Source Dag_Cycle Context_Types
begin

text \<open>
  The workflow service (\<^verbatim>\<open>crates/hiveweb/src/services/workflow.rs\<close>, with the types of
  \<^verbatim>\<open>models/workflow.rs\<close> and the check of \<^verbatim>\<open>services/optimistic_lock.rs\<close>): metadata of a
  workflow, reading its graph and replacing the graph in one transaction. The tables of the
  migrations are the lists of \<open>db\<close>. The database server is the parameter \<open>mysql\<close>: which
  statement fails and with what text (a constraint, a collation, the connection), the
  \<^verbatim>\<open>AUTO_INCREMENT\<close> keys, the clock of its \<^verbatim>\<open>TIMESTAMP\<close> columns. A \<^verbatim>\<open>format!\<close> around a driver
  error is its exact text; the other messages are named by a constructor and the values
  they print.
\<close>

section \<open>Rows and requests\<close>

record workflow =
  wf_id :: int
  wf_identifier :: string
  wf_name :: string
  wf_description :: "string option"
  wf_timeout_ms :: int
  wf_category_id :: "int option"
  wf_input_schema :: "json option"
  wf_start_description :: "string option"
  wf_output_schema :: "json option"
  wf_required_capabilities :: "json option"
  wf_created_at :: timestamp
  wf_updated_at :: timestamp

datatype node_type = FunctionNode | StartNode | EndNode | GenerateAnswerNode

fun node_type_to_db_str :: "node_type \<Rightarrow> string" where
  "node_type_to_db_str FunctionNode = ''function_node''"
| "node_type_to_db_str StartNode = ''start_node''"
| "node_type_to_db_str EndNode = ''end_node''"
| "node_type_to_db_str GenerateAnswerNode = ''generate_answer_node''"

definition node_type_decode :: "string \<Rightarrow> node_type option" where
  "node_type_decode s =
     (if s = ''function_node'' then Some FunctionNode
      else if s = ''start_node'' then Some StartNode
      else if s = ''end_node'' then Some EndNode
      else if s = ''generate_answer_node'' then Some GenerateAnswerNode
      else None)"

record node_row =
  nr_id :: int
  nr_workflow_id :: int
  nr_node_key :: string
  nr_function_id :: "int option"
  nr_node_type :: string
  nr_position :: "json option"
  nr_node_config :: "json option"

record workflow_node =
  wn_id :: int
  wn_workflow_id :: int
  wn_node_key :: string
  wn_function_id :: "int option"
  wn_node_type :: node_type
  wn_position :: "json option"
  wn_node_config :: "json option"

record workflow_edge =
  we_id :: int
  we_workflow_id :: int
  we_src_node_id :: int
  we_dst_node_id :: int
  we_mapping :: json

record function_row =
  fn_id :: int
  fn_input_schema :: json
  fn_output_schema :: json
  fn_required_capabilities :: "json option"

record graph_node =
  gn_id :: "int option"
  gn_node_key :: string
  gn_node_type :: node_type
  gn_function_id :: "int option"
  gn_position :: "json option"
  gn_node_config :: "json option"

definition default_node_type :: node_type where
  "default_node_type = FunctionNode"

record graph_edge =
  ge_id :: "int option"
  ge_src_node_key :: string
  ge_dst_node_key :: string
  ge_mapping :: json

record workflow_graph =
  wg_workflow :: workflow
  wg_nodes :: "graph_node list"
  wg_edges :: "graph_edge list"

record graph_put =
  gp_nodes :: "graph_node list"
  gp_edges :: "graph_edge list"

record create_meta =
  cm_identifier :: string
  cm_name :: string
  cm_description :: "string option"
  cm_timeout_ms :: "int option"
  cm_category_id :: "int option"
  cm_required_capabilities :: "string list option"
  cm_tag_ids :: "int list"

record update_meta =
  um_name :: "string option"
  um_description :: "string option"
  um_timeout_ms :: "int option"
  um_category_id :: "int option"
  um_required_capabilities :: "string list option"
  um_tag_ids :: "int list option"
  um_updated_at :: timestamp

datatype app_error =
    DuplicateNodeKey string
  | EdgeSrcUnknown string
  | EdgeDstUnknown string
  | NotFound string int
  | DagCycle "string list"
  | SpecMalformed string spec_error
  | SpecRejected string spec_error
  | RequiredInputMissing string string
  | Conflict string
  | ResourceInUse nat
  | OptimisticLockConflict
  | Internal string

section \<open>The database\<close>

record db =
  tb_workflows :: "workflow list"
  tb_nodes :: "node_row list"
  tb_edges :: "workflow_edge list"
  tb_functions :: "function_row list"
  tb_taggings :: "(int \<times> int) list"
  tb_tool_workflows :: "int option list"

datatype sql_stmt =
    SelWorkflow int
  | SelNodes int
  | SelEdges int
  | SelFunctions "int list"
  | TxBegin
  | UpdGraphColumns int
  | DelEdges int
  | DelNodes int
  | InsNode node_row
  | InsEdge workflow_edge
  | TxCommit
  | InsWorkflow workflow
  | DelTaggings int
  | InsTagging int int
  | SelUpdatedAt int
  | UpdMetadata int
  | LockWorkflow int
  | CountTools int
  | DelWorkflow int

record mysql =
  rejects :: "sql_stmt \<Rightarrow> db \<Rightarrow> string option"
  new_workflow_id :: "db \<Rightarrow> int"
  new_node_id :: "db \<Rightarrow> int"
  new_edge_id :: "db \<Rightarrow> int"
  current_timestamp :: "db \<Rightarrow> timestamp"
  on_update :: "workflow \<Rightarrow> workflow \<Rightarrow> timestamp"
  decode_text :: "string \<Rightarrow> string"

definition run_sql :: "mysql \<Rightarrow> sql_stmt \<Rightarrow> string \<Rightarrow> db \<Rightarrow> (app_error, unit) result" where
  "run_sql M stmt stage d =
     (case rejects M stmt d of None \<Rightarrow> Ok () | Some e \<Rightarrow> Err (Internal (stage @ e)))"

text \<open>
  An \<^verbatim>\<open>UPDATE\<close> of one workflow row: the new values, and \<^verbatim>\<open>updated_at\<close> as the column's
  \<^verbatim>\<open>ON UPDATE\<close> clause leaves it.
\<close>

definition update_workflow :: "mysql \<Rightarrow> int \<Rightarrow> (workflow \<Rightarrow> workflow) \<Rightarrow> db \<Rightarrow> db" where
  "update_workflow M i f d =
     d\<lparr>tb_workflows := map (\<lambda>w. if wf_id w = i then (f w)\<lparr>wf_updated_at := on_update M w (f w)\<rparr> else w)
        (tb_workflows d)\<rparr>"

text \<open>Foreign keys with \<^verbatim>\<open>ON DELETE CASCADE\<close>: the edges of a deleted node go with it.\<close>

definition delete_nodes :: "int \<Rightarrow> db \<Rightarrow> db" where
  "delete_nodes i d =
     (let gone = map nr_id (filter (\<lambda>r. nr_workflow_id r = i) (tb_nodes d))
      in d\<lparr>tb_nodes := filter (\<lambda>r. nr_workflow_id r \<noteq> i) (tb_nodes d),
           tb_edges := filter (\<lambda>e. we_src_node_id e \<notin> set gone \<and> we_dst_node_id e \<notin> set gone) (tb_edges d)\<rparr>)"

definition delete_edges :: "int \<Rightarrow> db \<Rightarrow> db" where
  "delete_edges i d = d\<lparr>tb_edges := filter (\<lambda>e. we_workflow_id e \<noteq> i) (tb_edges d)\<rparr>"

section \<open>Metadata\<close>

definition fetch_by_id :: "mysql \<Rightarrow> db \<Rightarrow> int \<Rightarrow> (app_error, workflow) result" where
  "fetch_by_id M d i =
     bind_res (run_sql M (SelWorkflow i) ''workflow fetch: '' d) (\<lambda>_.
       case find_key wf_id (tb_workflows d) i of
         None \<Rightarrow> Err (NotFound ''workflow'' i)
       | Some w \<Rightarrow> Ok w)"

fun insert_taggings :: "mysql \<Rightarrow> int \<Rightarrow> int list \<Rightarrow> db \<Rightarrow> (app_error, unit) result \<times> db" where
  "insert_taggings M i [] d = (Ok (), d)"
| "insert_taggings M i (t # ts) d =
     (case run_sql M (InsTagging t i) ''tagging insert: '' d of
        Ok _ \<Rightarrow> insert_taggings M i ts (d\<lparr>tb_taggings := tb_taggings d @ [(t, i)]\<rparr>)
      | Err e \<Rightarrow> (Err e, d)
      | Panic \<Rightarrow> (Panic, d))"

definition apply_tags :: "mysql \<Rightarrow> int \<Rightarrow> int list \<Rightarrow> db \<Rightarrow> (app_error, unit) result \<times> db" where
  "apply_tags M i ts d =
     (case run_sql M (DelTaggings i) ''taggings clear: '' d of
        Ok _ \<Rightarrow> insert_taggings M i ts (d\<lparr>tb_taggings := filter (\<lambda>p. snd p \<noteq> i) (tb_taggings d)\<rparr>)
      | Err e \<Rightarrow> (Err e, d)
      | Panic \<Rightarrow> (Panic, d))"

definition default_schema :: json where
  "default_schema = JObject [(''type'', JString ''object''), (''properties'', JObject [])]"

definition caps_value :: "string list \<Rightarrow> json" where
  "caps_value cs = JArray (map JString cs)"

definition create_row :: "mysql \<Rightarrow> create_meta \<Rightarrow> db \<Rightarrow> workflow" where
  "create_row M meta d =
     \<lparr>wf_id = new_workflow_id M d,
      wf_identifier = cm_identifier meta,
      wf_name = cm_name meta,
      wf_description = cm_description meta,
      wf_timeout_ms = (case cm_timeout_ms meta of None \<Rightarrow> 300000 | Some t \<Rightarrow> t),
      wf_category_id = cm_category_id meta,
      wf_input_schema = Some default_schema,
      wf_start_description = None,
      wf_output_schema = None,
      wf_required_capabilities = map_option caps_value (cm_required_capabilities meta),
      wf_created_at = current_timestamp M d,
      wf_updated_at = current_timestamp M d\<rparr>"

definition create :: "mysql \<Rightarrow> create_meta \<Rightarrow> db \<Rightarrow> (app_error, workflow) result \<times> db" where
  "create M meta d =
     (let row = create_row M meta d in
      case rejects M (InsWorkflow row) d of
        Some e \<Rightarrow>
          (Err (if str_contains ''Duplicate'' e then Conflict (cm_identifier meta)
                else Internal (''workflow insert: '' @ e)), d)
      | None \<Rightarrow>
          let d1 = d\<lparr>tb_workflows := tb_workflows d @ [row]\<rparr> in
          case apply_tags M (wf_id row) (cm_tag_ids meta) d1 of
            (Ok _, d2) \<Rightarrow> (fetch_by_id M d2 (wf_id row), d2)
          | (Err e, d2) \<Rightarrow> (Err e, d2)
          | (Panic, d2) \<Rightarrow> (Panic, d2))"

text \<open>\<^verbatim>\<open>check_and_bump\<close> for the table \<^verbatim>\<open>workflows\<close>: timestamps compared in whole seconds.\<close>

definition check_and_bump :: "mysql \<Rightarrow> db \<Rightarrow> int \<Rightarrow> timestamp \<Rightarrow> (app_error, unit) result" where
  "check_and_bump M d i client_updated_at =
     bind_res (run_sql M (SelUpdatedAt i) ''optimistic_lock fetch failed: '' d) (\<lambda>_.
       case find_key wf_id (tb_workflows d) i of
         None \<Rightarrow> Err (NotFound ''workflows'' i)
       | Some w \<Rightarrow>
           if wf_updated_at w div 1000 \<noteq> client_updated_at div 1000
           then Err OptimisticLockConflict else Ok ())"

definition coalesce :: "'a option \<Rightarrow> 'a \<Rightarrow> 'a" where
  "coalesce v old = (case v of None \<Rightarrow> old | Some x \<Rightarrow> x)"

definition coalesce_opt :: "'a option \<Rightarrow> 'a option \<Rightarrow> 'a option" where
  "coalesce_opt v old = (case v of None \<Rightarrow> old | Some x \<Rightarrow> Some x)"

definition update_row :: "update_meta \<Rightarrow> workflow \<Rightarrow> workflow" where
  "update_row meta w = w\<lparr>
      wf_name := coalesce (um_name meta) (wf_name w),
      wf_description := coalesce_opt (um_description meta) (wf_description w),
      wf_timeout_ms := coalesce (um_timeout_ms meta) (wf_timeout_ms w),
      wf_category_id := coalesce_opt (um_category_id meta) (wf_category_id w),
      wf_required_capabilities :=
        coalesce_opt (map_option caps_value (um_required_capabilities meta)) (wf_required_capabilities w)\<rparr>"

definition update :: "mysql \<Rightarrow> int \<Rightarrow> update_meta \<Rightarrow> db \<Rightarrow> (app_error, workflow) result \<times> db" where
  "update M i meta d =
     (case bind_res (check_and_bump M d i (um_updated_at meta))
             (\<lambda>_. run_sql M (UpdMetadata i) ''workflow update: '' d) of
        Err e \<Rightarrow> (Err e, d)
      | Panic \<Rightarrow> (Panic, d)
      | Ok _ \<Rightarrow>
          let d1 = update_workflow M i (update_row meta) d in
          case um_tag_ids meta of
            None \<Rightarrow> (fetch_by_id M d1 i, d1)
          | Some ts \<Rightarrow>
              (case apply_tags M i ts d1 of
                 (Ok _, d2) \<Rightarrow> (fetch_by_id M d2 i, d2)
               | (Err e, d2) \<Rightarrow> (Err e, d2)
               | (Panic, d2) \<Rightarrow> (Panic, d2)))"

text \<open>
  \<^verbatim>\<open>delete\<close>: the lock is taken with \<^verbatim>\<open>fetch_one\<close>, which fails on a missing row. Every exit
  before the commit drops the transaction, which rolls back.
\<close>

definition row_not_found_text :: string where
  "row_not_found_text = ''no rows returned by a query that expected to return at least one row''"

definition delete_tx :: "mysql \<Rightarrow> int \<Rightarrow> db \<Rightarrow> (app_error, db) result" where
  "delete_tx M i d =
     bind_res (run_sql M TxBegin ''tx begin: '' d) (\<lambda>_.
     bind_res (run_sql M (LockWorkflow i) ''workflow lock: '' d) (\<lambda>_.
     bind_res (if find_key wf_id (tb_workflows d) i = None
               then Err (Internal (''workflow lock: '' @ row_not_found_text)) else Ok ()) (\<lambda>_.
     bind_res (run_sql M (CountTools i) ''workflow ref count: '' d) (\<lambda>_.
     let cnt = length (filter (\<lambda>t. t = Some i) (tb_tool_workflows d)) in
     if cnt > 0 then Err (ResourceInUse cnt)
     else bind_res (run_sql M (DelWorkflow i) ''workflow delete: '' d) (\<lambda>_.
       let d1 = (delete_nodes i (delete_edges i d))
                  \<lparr>tb_workflows := filter (\<lambda>w. wf_id w \<noteq> i) (tb_workflows d)\<rparr>
       in bind_res (run_sql M TxCommit ''tx commit: '' d1) (\<lambda>_. Ok d1))))))"

definition delete :: "mysql \<Rightarrow> int \<Rightarrow> db \<Rightarrow> (app_error, unit) result \<times> db" where
  "delete M i d =
     (case delete_tx M i d of
        Ok d1 \<Rightarrow> (Ok (), d1)
      | Err e \<Rightarrow> (Err e, d)
      | Panic \<Rightarrow> (Panic, d))"

section \<open>Reading a graph\<close>

fun decode_row :: "node_row \<Rightarrow> workflow_node option" where
  "decode_row r =
     map_option (\<lambda>nt. \<lparr>wn_id = nr_id r, wn_workflow_id = nr_workflow_id r, wn_node_key = nr_node_key r,
        wn_function_id = nr_function_id r, wn_node_type = nt, wn_position = nr_position r,
        wn_node_config = nr_node_config r\<rparr>) (node_type_decode (nr_node_type r))"

fun decode_rows :: "mysql \<Rightarrow> node_row list \<Rightarrow> (app_error, workflow_node list) result" where
  "decode_rows M [] = Ok []"
| "decode_rows M (r # rs) =
     (case decode_row r of
        None \<Rightarrow> Err (Internal (''nodes list: '' @ decode_text M (nr_node_type r)))
      | Some n \<Rightarrow> bind_res (decode_rows M rs) (\<lambda>ns. Ok (n # ns)))"

definition nodes_of :: "db \<Rightarrow> int \<Rightarrow> node_row list" where
  "nodes_of d i = filter (\<lambda>r. nr_workflow_id r = i) (tb_nodes d)"

definition edges_of :: "db \<Rightarrow> int \<Rightarrow> workflow_edge list" where
  "edges_of d i = filter (\<lambda>e. we_workflow_id e = i) (tb_edges d)"

definition start_graph_node :: "workflow \<Rightarrow> graph_node" where
  "start_graph_node w =
     \<lparr>gn_id = None, gn_node_key = ''start'', gn_node_type = StartNode, gn_function_id = None,
      gn_position = Some (JObject
        [(''x'', JNumber (NumInt 100)), (''y'', JNumber (NumInt 300)),
         (''input_schema'', case wf_input_schema w of None \<Rightarrow> default_schema | Some s \<Rightarrow> s)]),
      gn_node_config = None\<rparr>"

definition end_graph_node :: "workflow \<Rightarrow> graph_node" where
  "end_graph_node w =
     \<lparr>gn_id = None, gn_node_key = ''end'', gn_node_type = EndNode, gn_function_id = None,
      gn_position = Some (JObject
        ([(''x'', JNumber (NumInt 100)), (''y'', JNumber (NumInt 600))]
         @ (case wf_output_schema w of None \<Rightarrow> [] | Some s \<Rightarrow> [(''output_schema'', s)]))),
      gn_node_config = None\<rparr>"

definition graph_node_of :: "workflow_node \<Rightarrow> graph_node" where
  "graph_node_of n =
     \<lparr>gn_id = Some (wn_id n), gn_node_key = wn_node_key n, gn_node_type = wn_node_type n,
      gn_function_id = wn_function_id n, gn_position = wn_position n, gn_node_config = wn_node_config n\<rparr>"

text \<open>\<^verbatim>\<open>id_to_key.get(..).cloned().unwrap_or_default()\<close>: an unknown id gives the empty key.\<close>

definition key_of_id :: "workflow_node list \<Rightarrow> int \<Rightarrow> string" where
  "key_of_id ns i = (case find_key wn_id ns i of None \<Rightarrow> '''' | Some n \<Rightarrow> wn_node_key n)"

definition graph_edge_of :: "workflow_node list \<Rightarrow> workflow_edge \<Rightarrow> graph_edge" where
  "graph_edge_of ns e =
     \<lparr>ge_id = Some (we_id e), ge_src_node_key = key_of_id ns (we_src_node_id e),
      ge_dst_node_key = key_of_id ns (we_dst_node_id e), ge_mapping = we_mapping e\<rparr>"

definition virtual_edges :: "graph_edge list \<Rightarrow> graph_node \<Rightarrow> graph_edge list" where
  "virtual_edges es n =
     (if gn_node_key n = ''start'' \<or> gn_node_key n = ''end'' then []
      else (if gn_node_key n \<in> ge_dst_node_key ` set es then []
            else [\<lparr>ge_id = None, ge_src_node_key = ''start'', ge_dst_node_key = gn_node_key n,
                   ge_mapping = JObject []\<rparr>])
         @ (if gn_node_key n \<in> ge_src_node_key ` set es then []
            else [\<lparr>ge_id = None, ge_src_node_key = gn_node_key n, ge_dst_node_key = ''end'',
                   ge_mapping = JObject []\<rparr>]))"

definition fetch_graph :: "mysql \<Rightarrow> db \<Rightarrow> int \<Rightarrow> (app_error, workflow_graph) result" where
  "fetch_graph M d i =
     bind_res (fetch_by_id M d i) (\<lambda>w.
     bind_res (run_sql M (SelNodes i) ''nodes list: '' d) (\<lambda>_.
     bind_res (decode_rows M (sort_key nr_id (nodes_of d i))) (\<lambda>ns.
     bind_res (run_sql M (SelEdges i) ''edges list: '' d) (\<lambda>_.
       let all_nodes = [start_graph_node w] @ map graph_node_of ns @ [end_graph_node w];
           es = map (graph_edge_of ns) (sort_key we_id (edges_of d i))
       in Ok \<lparr>wg_workflow = w, wg_nodes = all_nodes,
              wg_edges = es @ concat (map (virtual_edges es) all_nodes)\<rparr>))))"

section \<open>Replacing a graph\<close>

definition is_start :: "graph_node \<Rightarrow> bool" where
  "is_start n \<longleftrightarrow> gn_node_type n = StartNode \<or> gn_node_key n = ''start''"

definition is_end :: "graph_node \<Rightarrow> bool" where
  "is_end n \<longleftrightarrow> gn_node_type n = EndNode \<or> gn_node_key n = ''end''"

definition position_field :: "graph_node option \<Rightarrow> string \<Rightarrow> json option" where
  "position_field n k =
     Option.bind n (\<lambda>m. Option.bind (gn_position m) (\<lambda>p. jget p k))"

definition start_input_schema :: "graph_put \<Rightarrow> workflow \<Rightarrow> json option" where
  "start_input_schema g w =
     (case position_field (find is_start (gp_nodes g)) ''input_schema'' of
        Some s \<Rightarrow> Some s
      | None \<Rightarrow> (case wf_input_schema w of Some s \<Rightarrow> Some s | None \<Rightarrow> Some default_schema))"

definition start_desc :: "graph_put \<Rightarrow> workflow \<Rightarrow> string option" where
  "start_desc g w =
     (case Option.bind (position_field (find is_start (gp_nodes g)) ''start_description'') as_str of
        Some s \<Rightarrow> Some s
      | None \<Rightarrow> wf_start_description w)"

definition end_output_schema :: "graph_put \<Rightarrow> workflow \<Rightarrow> json option" where
  "end_output_schema g w =
     (case position_field (find is_end (gp_nodes g)) ''output_schema'' of
        Some s \<Rightarrow> Some s
      | None \<Rightarrow> wf_output_schema w)"

definition stored_nodes :: "graph_put \<Rightarrow> graph_node list" where
  "stored_nodes g =
     filter (\<lambda>n. gn_node_type n \<noteq> StartNode \<and> gn_node_key n \<noteq> ''start''
               \<and> gn_node_type n \<noteq> EndNode \<and> gn_node_key n \<noteq> ''end'') (gp_nodes g)"

definition stored_edges :: "graph_put \<Rightarrow> graph_edge list" where
  "stored_edges g =
     filter (\<lambda>e. ge_src_node_key e \<noteq> ''start'' \<and> ge_dst_node_key e \<noteq> ''start''
               \<and> ge_src_node_key e \<noteq> ''end'' \<and> ge_dst_node_key e \<noteq> ''end'') (gp_edges g)"

fun check_unique :: "string list \<Rightarrow> string list \<Rightarrow> (app_error, unit) result" where
  "check_unique seen [] = Ok ()"
| "check_unique seen (k # ks) =
     (if k \<in> set seen then Err (DuplicateNodeKey k) else check_unique (k # seen) ks)"

definition graph_function_ids :: "graph_node list \<Rightarrow> int list" where
  "graph_function_ids ns =
     List.map_filter gn_function_id (filter (\<lambda>n. gn_node_type n = FunctionNode) ns)"

fun check_functions :: "function_row list \<Rightarrow> int list \<Rightarrow> (app_error, unit) result" where
  "check_functions rows [] = Ok ()"
| "check_functions rows (f # fs) =
     (if find_key fn_id rows f = None then Err (NotFound ''function'' f) else check_functions rows fs)"

definition load_function_schemas ::
  "mysql \<Rightarrow> db \<Rightarrow> int list \<Rightarrow> (app_error, function_row list) result" where
  "load_function_schemas M d ids =
     (if ids = [] then Ok []
      else bind_res (run_sql M (SelFunctions ids) ''function schemas: '' d) (\<lambda>_.
        let rows = filter (\<lambda>r. fn_id r \<in> set ids) (tb_functions d)
        in bind_res (check_functions rows ids) (\<lambda>_. Ok rows)))"

text \<open>
  The adjacency map starts with an empty list per node; each edge is checked, then pushed on
  the list of its source, taken with \<^verbatim>\<open>get_mut(..).unwrap()\<close>.
\<close>

definition empty_adjacency :: "graph_node list \<Rightarrow> adjacency" where
  "empty_adjacency ns = fold (\<lambda>n. upsert fst (gn_node_key n, [])) ns []"

fun add_edges :: "string list \<Rightarrow> graph_edge list \<Rightarrow> adjacency \<Rightarrow> (app_error, adjacency) result" where
  "add_edges keys [] adj = Ok adj"
| "add_edges keys (e # es) adj =
     (if ge_src_node_key e \<notin> set keys then Err (EdgeSrcUnknown (ge_src_node_key e))
      else if ge_dst_node_key e \<notin> set keys then Err (EdgeDstUnknown (ge_dst_node_key e))
      else case map_of adj (ge_src_node_key e) of
             None \<Rightarrow> Panic
           | Some ds \<Rightarrow>
               add_edges keys es (upsert fst (ge_src_node_key e, ds @ [ge_dst_node_key e]) adj))"

definition check_acyclic :: "graph_node list \<Rightarrow> adjacency \<Rightarrow> (app_error, unit) result" where
  "check_acyclic ns adj =
     (if ns = [] then Ok ()
      else case detect_cycle adj of None \<Rightarrow> Ok () | Some cycle \<Rightarrow> Err (DagCycle cycle))"

definition config_field :: "json option \<Rightarrow> string \<Rightarrow> json option" where
  "config_field c k = Option.bind c (\<lambda>v. jget v k)"

fun lift_spec :: "(spec_error \<Rightarrow> app_error) \<Rightarrow> (spec_error, 'a) result \<Rightarrow> (app_error, 'a) result" where
  "lift_spec f (Ok a) = Ok a"
| "lift_spec f (Err e) = Err (f e)"
| "lift_spec f Panic = Panic"

fun check_specs ::
  "(json \<Rightarrow> input_source option) \<Rightarrow> graph_node list \<Rightarrow> (app_error, unit) result" where
  "check_specs de [] = Ok ()"
| "check_specs de (n # ns) =
     (if gn_node_type n = FunctionNode \<or> gn_node_type n = GenerateAnswerNode
      then (case config_field (gn_node_config n) ''input_mapping'' of
              None \<Rightarrow> check_specs de ns
            | Some v \<Rightarrow>
                bind_res (lift_spec (SpecMalformed (gn_node_key n)) (parse_input_spec de v)) (\<lambda>spec.
                bind_res (lift_spec (SpecRejected (gn_node_key n)) (validate_input_spec spec)) (\<lambda>_.
                check_specs de ns)))
      else check_specs de ns)"

definition required_fields :: "json \<Rightarrow> string list" where
  "required_fields schema =
     (case Option.bind (jget schema ''required'') as_array of
        None \<Rightarrow> []
      | Some arr \<Rightarrow> List.map_filter as_str arr)"

fun check_fields :: "string \<Rightarrow> jmap option \<Rightarrow> string list \<Rightarrow> (app_error, unit) result" where
  "check_fields k m [] = Ok ()"
| "check_fields k m (f # fs) =
     (if (case m of None \<Rightarrow> False | Some o' \<Rightarrow> obj_contains_key o' f)
      then check_fields k m fs else Err (RequiredInputMissing k f))"

fun check_required :: "function_row list \<Rightarrow> graph_node list \<Rightarrow> (app_error, unit) result" where
  "check_required rows [] = Ok ()"
| "check_required rows (n # ns) =
     (case Option.bind (gn_function_id n) (find_key fn_id rows) of
        None \<Rightarrow> check_required rows ns
      | Some f \<Rightarrow>
          bind_res (check_fields (gn_node_key n)
                      (Option.bind (config_field (gn_node_config n) ''input_mapping'') as_object)
                      (required_fields (fn_input_schema f)))
            (\<lambda>_. check_required rows ns))"

definition node_caps :: "function_row list \<Rightarrow> graph_node \<Rightarrow> string list" where
  "node_caps rows n =
     (case Option.bind (Option.bind (gn_function_id n) (find_key fn_id rows)) fn_required_capabilities of
        None \<Rightarrow> []
      | Some caps \<Rightarrow> (case as_array caps of None \<Rightarrow> [] | Some arr \<Rightarrow> List.map_filter as_str arr))"

definition workflow_caps :: "function_row list \<Rightarrow> graph_node list \<Rightarrow> json option" where
  "workflow_caps rows ns =
     (let all_caps = remdups (concat (map (node_caps rows) ns))
      in if all_caps = [] then None else Some (caps_value (sort all_caps)))"

text \<open>Steps 0 to 5: what is checked and computed before the transaction.\<close>

definition put_graph_checks ::
  "mysql \<Rightarrow> (json \<Rightarrow> input_source option) \<Rightarrow> int \<Rightarrow> graph_put \<Rightarrow> db
   \<Rightarrow> (app_error, workflow \<times> json option) result" where
  "put_graph_checks M de i g d =
     bind_res (fetch_by_id M d i) (\<lambda>w.
     bind_res (check_unique [] (map gn_node_key (stored_nodes g))) (\<lambda>_.
     bind_res (load_function_schemas M d (graph_function_ids (stored_nodes g))) (\<lambda>rows.
     bind_res (add_edges (map gn_node_key (stored_nodes g)) (stored_edges g)
                 (empty_adjacency (stored_nodes g))) (\<lambda>adj.
     bind_res (check_acyclic (stored_nodes g) adj) (\<lambda>_.
     bind_res (check_specs de (stored_nodes g)) (\<lambda>_.
     bind_res (check_required rows (stored_nodes g)) (\<lambda>_.
     Ok (w, workflow_caps rows (stored_nodes g)))))))))"

definition graph_columns :: "graph_put \<Rightarrow> workflow \<Rightarrow> json option \<Rightarrow> workflow \<Rightarrow> workflow" where
  "graph_columns g w caps row = row\<lparr>
      wf_required_capabilities := caps,
      wf_input_schema := start_input_schema g w,
      wf_start_description := start_desc g w,
      wf_output_schema := end_output_schema g w\<rparr>"

definition new_row :: "mysql \<Rightarrow> int \<Rightarrow> graph_node \<Rightarrow> db \<Rightarrow> node_row" where
  "new_row M i n d =
     \<lparr>nr_id = new_node_id M d, nr_workflow_id = i, nr_node_key = gn_node_key n,
      nr_function_id = gn_function_id n, nr_node_type = node_type_to_db_str (gn_node_type n),
      nr_position = gn_position n, nr_node_config = gn_node_config n\<rparr>"

fun insert_nodes ::
  "mysql \<Rightarrow> int \<Rightarrow> graph_node list \<Rightarrow> (string \<rightharpoonup> int) \<Rightarrow> db
   \<Rightarrow> (app_error, (string \<rightharpoonup> int) \<times> db) result" where
  "insert_nodes M i [] km d = Ok (km, d)"
| "insert_nodes M i (n # ns) km d =
     (let row = new_row M i n d in
      bind_res (run_sql M (InsNode row) (''node insert '' @ gn_node_key n @ '': '') d) (\<lambda>_.
        insert_nodes M i ns (km(gn_node_key n \<mapsto> nr_id row)) (d\<lparr>tb_nodes := tb_nodes d @ [row]\<rparr>)))"

fun insert_edges ::
  "mysql \<Rightarrow> int \<Rightarrow> graph_edge list \<Rightarrow> (string \<rightharpoonup> int) \<Rightarrow> db \<Rightarrow> (app_error, db) result" where
  "insert_edges M i [] km d = Ok d"
| "insert_edges M i (e # es) km d =
     (case (km (ge_src_node_key e), km (ge_dst_node_key e)) of
        (Some src, Some dst) \<Rightarrow>
          (let row = \<lparr>we_id = new_edge_id M d, we_workflow_id = i, we_src_node_id = src,
                      we_dst_node_id = dst, we_mapping = ge_mapping e\<rparr>
           in bind_res (run_sql M (InsEdge row) ''edge insert: '' d) (\<lambda>_.
                insert_edges M i es km (d\<lparr>tb_edges := tb_edges d @ [row]\<rparr>)))
      | _ \<Rightarrow> Panic)"

text \<open>Steps 6 and 7, inside the transaction.\<close>

definition put_graph_tx ::
  "mysql \<Rightarrow> int \<Rightarrow> graph_put \<Rightarrow> workflow \<Rightarrow> json option \<Rightarrow> db \<Rightarrow> (app_error, db) result" where
  "put_graph_tx M i g w caps d =
     bind_res (run_sql M TxBegin ''tx begin: '' d) (\<lambda>_.
     bind_res (run_sql M (UpdGraphColumns i) ''workflow capabilities update: '' d) (\<lambda>_.
     let d1 = update_workflow M i (graph_columns g w caps) d in
     bind_res (run_sql M (DelEdges i) ''edges clear: '' d1) (\<lambda>_.
     let d2 = delete_edges i d1 in
     bind_res (run_sql M (DelNodes i) ''nodes clear: '' d2) (\<lambda>_.
     let d3 = delete_nodes i d2 in
     bind_res (insert_nodes M i (stored_nodes g) Map.empty d3) (\<lambda>(km, d4).
     bind_res (insert_edges M i (stored_edges g) km d4) (\<lambda>d5.
     bind_res (run_sql M TxCommit ''tx commit: '' d5) (\<lambda>_. Ok d5)))))))"

definition put_graph ::
  "mysql \<Rightarrow> (json \<Rightarrow> input_source option) \<Rightarrow> int \<Rightarrow> graph_put \<Rightarrow> db
   \<Rightarrow> (app_error, workflow_graph) result \<times> db" where
  "put_graph M de i g d =
     (case bind_res (put_graph_checks M de i g d) (\<lambda>(w, caps). put_graph_tx M i g w caps d) of
        Ok d' \<Rightarrow> (fetch_graph M d' i, d')
      | Err e \<Rightarrow> (Err e, d)
      | Panic \<Rightarrow> (Panic, d))"

section \<open>What the checks establish\<close>

lemma check_unique_Ok: "check_unique seen ks = Ok () \<longleftrightarrow> distinct ks \<and> set ks \<inter> set seen = {}"
  by (induction seen ks rule: check_unique.induct) auto

lemma check_unique_never_panics [simp]: "check_unique seen ks \<noteq> Panic"
  by (induction seen ks rule: check_unique.induct) auto

lemma check_functions_never_panics [simp]: "check_functions rows fs \<noteq> Panic"
  by (induction rows fs rule: check_functions.induct) auto

lemma check_functions_Ok: "check_functions rows fs = Ok () \<Longrightarrow> f \<in> set fs \<Longrightarrow> find_key fn_id rows f \<noteq> None"
  by (induction rows fs rule: check_functions.induct) (auto split: if_splits)

lemma run_sql_never_panics [simp]: "run_sql M s stage d \<noteq> Panic"
  by (simp add: run_sql_def split: option.split)

lemma lift_spec_Panic [simp]: "lift_spec f r = Panic \<longleftrightarrow> r = Panic"
  by (cases r) auto

lemma lift_spec_Ok [simp]: "lift_spec f r = Ok a \<longleftrightarrow> r = Ok a"
  by (cases r) auto

lemma check_specs_never_panics [simp]: "check_specs de ns \<noteq> Panic"
  by (induction de ns rule: check_specs.induct) (auto split: option.splits)

lemma check_fields_never_panics [simp]: "check_fields k m fs \<noteq> Panic"
  by (induction k m fs rule: check_fields.induct) auto

lemma check_required_never_panics [simp]: "check_required rows ns \<noteq> Panic"
  by (induction rows ns rule: check_required.induct) (auto split: option.splits)

lemma check_acyclic_never_panics [simp]: "check_acyclic ns adj \<noteq> Panic"
  by (simp add: check_acyclic_def split: option.split)

lemma load_function_schemas_never_panics [simp]: "load_function_schemas M d ids \<noteq> Panic"
  by (auto simp: load_function_schemas_def Let_def)

lemma fetch_by_id_never_panics [simp]: "fetch_by_id M d i \<noteq> Panic"
  by (auto simp: fetch_by_id_def split: option.splits)

lemma decode_rows_never_panics [simp]: "decode_rows M rs \<noteq> Panic"
  by (induction M rs rule: decode_rows.induct) (auto split: option.splits)

lemma fetch_graph_never_panics [simp]: "fetch_graph M d i \<noteq> Panic"
  by (auto simp: fetch_graph_def Let_def)

definition key_edges :: "graph_edge list \<Rightarrow> (string \<times> string) set" where
  "key_edges es = (\<lambda>e. (ge_src_node_key e, ge_dst_node_key e)) ` set es"

lemma map_of_upsert: "map_of (upsert fst (k, v) m) = (map_of m)(k \<mapsto> v)"
  by (induction m) (auto simp: fun_eq_iff)

lemma graph_edges_upsert:
  assumes "map_of adj a = Some ds"
  shows "graph_edges (upsert fst (a, ds @ [b]) adj) = insert (a, b) (graph_edges adj)"
  using assms by (auto simp: graph_edges_def map_of_upsert split: if_splits)

lemma empty_adjacency_lookup:
  "map_of (fold (\<lambda>n. upsert fst (gn_node_key n, [])) ns adj) k =
     (if k \<in> gn_node_key ` set ns then Some [] else map_of adj k)"
  by (induction ns arbitrary: adj) (auto simp: map_of_upsert)

lemma graph_edges_empty [simp]: "graph_edges (empty_adjacency ns) = {}"
  by (auto simp: graph_edges_def empty_adjacency_def empty_adjacency_lookup split: if_splits)

lemma add_edges_never_panics:
  "\<forall>k \<in> set keys. map_of adj k \<noteq> None \<Longrightarrow> add_edges keys es adj \<noteq> Panic"
proof (induction keys es adj rule: add_edges.induct)
  case (2 keys e es adj)
  show ?case
  proof (cases "ge_src_node_key e \<in> set keys \<and> ge_dst_node_key e \<in> set keys")
    case True
    then obtain ds where ds: "map_of adj (ge_src_node_key e) = Some ds" using 2(2) by blast
    have "\<forall>k \<in> set keys. map_of (upsert fst (ge_src_node_key e, ds @ [ge_dst_node_key e]) adj) k \<noteq> None"
      using 2(2) by (simp add: map_of_upsert)
    then show ?thesis using 2(1) True ds by simp
  qed auto
qed simp

lemma add_edges_Ok:
  "add_edges keys es adj = Ok adj' \<Longrightarrow>
     graph_edges adj' = graph_edges adj \<union> key_edges es
     \<and> (\<forall>e \<in> set es. ge_src_node_key e \<in> set keys \<and> ge_dst_node_key e \<in> set keys)"
  by (induction keys es adj rule: add_edges.induct)
    (auto simp: key_edges_def graph_edges_upsert split: if_splits option.splits)

text \<open>The facts that hold of a graph once steps 0 to 5 have passed.\<close>

definition accepted_graph :: "graph_put \<Rightarrow> bool" where
  "accepted_graph g \<longleftrightarrow>
     distinct (map gn_node_key (stored_nodes g))
   \<and> (\<forall>e \<in> set (stored_edges g). ge_src_node_key e \<in> gn_node_key ` set (stored_nodes g)
                              \<and> ge_dst_node_key e \<in> gn_node_key ` set (stored_nodes g))
   \<and> acyclic (key_edges (stored_edges g))"

text \<open>The structural checks, steps 1 and 3.\<close>

lemma add_edges_total:
  assumes "\<forall>e \<in> set es. ge_src_node_key e \<in> set keys \<and> ge_dst_node_key e \<in> set keys"
    "\<forall>k \<in> set keys. map_of adj k \<noteq> None"
  shows "\<exists>adj'. add_edges keys es adj = Ok adj'"
  using assms
proof (induction keys es adj rule: add_edges.induct)
  case (2 keys e es adj)
  then obtain ds where ds: "map_of adj (ge_src_node_key e) = Some ds" by auto
  have "\<forall>k \<in> set keys. map_of (upsert fst (ge_src_node_key e, ds @ [ge_dst_node_key e]) adj) k \<noteq> None"
    using 2(3) by (simp add: map_of_upsert)
  then show ?case using 2(1,2) ds by simp
qed simp

lemma structure_checks_iff:
  "(\<exists>adj. check_unique [] (map gn_node_key (stored_nodes g)) = Ok ()
      \<and> add_edges (map gn_node_key (stored_nodes g)) (stored_edges g) (empty_adjacency (stored_nodes g)) = Ok adj
      \<and> check_acyclic (stored_nodes g) adj = Ok ()) \<longleftrightarrow> accepted_graph g" (is "?L \<longleftrightarrow> _")
proof
  assume ?L
  then obtain adj where uniq: "check_unique [] (map gn_node_key (stored_nodes g)) = Ok ()"
    and adj: "add_edges (map gn_node_key (stored_nodes g)) (stored_edges g)
                 (empty_adjacency (stored_nodes g)) = Ok adj"
    and acyc: "check_acyclic (stored_nodes g) adj = Ok ()" by blast
  note edges = add_edges_Ok[OF adj]
  have "acyclic (graph_edges adj)"
  proof (cases "stored_nodes g = []")
    case True
    then have "stored_edges g = []" using edges by (cases "stored_edges g") auto
    then show ?thesis using edges by (simp add: key_edges_def acyclic_def)
  next
    case False
    then show ?thesis using acyc by (auto simp: check_acyclic_def detect_cycle_None_iff split: option.splits)
  qed
  then show "accepted_graph g" using uniq edges by (simp add: accepted_graph_def check_unique_Ok)
next
  assume acc: "accepted_graph g"
  then obtain adj where
    adj: "add_edges (map gn_node_key (stored_nodes g)) (stored_edges g) (empty_adjacency (stored_nodes g)) = Ok adj"
    using add_edges_total[of "stored_edges g" "map gn_node_key (stored_nodes g)" "empty_adjacency (stored_nodes g)"]
    by (auto simp: accepted_graph_def empty_adjacency_def empty_adjacency_lookup)
  then have "detect_cycle adj = None"
    using add_edges_Ok[OF adj] acc by (simp add: detect_cycle_None_iff accepted_graph_def)
  then show ?L using adj acc by (auto simp: check_unique_Ok accepted_graph_def check_acyclic_def)
qed

lemma put_graph_checks_accepted: "put_graph_checks M de i g d = Ok wc \<Longrightarrow> accepted_graph g"
  using structure_checks_iff[of g] by (auto simp: put_graph_checks_def)

lemma put_graph_checks_never_panics [simp]: "put_graph_checks M de i g d \<noteq> Panic"
proof -
  have "add_edges (map gn_node_key (stored_nodes g)) (stored_edges g)
                 (empty_adjacency (stored_nodes g)) \<noteq> Panic"
    by (rule add_edges_never_panics) (simp add: empty_adjacency_def empty_adjacency_lookup)
  then show ?thesis by (auto simp: put_graph_checks_def)
qed

section \<open>What the transaction writes\<close>

definition ids_fresh :: "mysql \<Rightarrow> bool" where
  "ids_fresh M \<longleftrightarrow>
     (\<forall>d. \<forall>r \<in> set (tb_nodes d). nr_id r < new_node_id M d)
   \<and> (\<forall>d. \<forall>e \<in> set (tb_edges d). we_id e < new_edge_id M d)"

definition row_for :: "int \<Rightarrow> graph_node \<Rightarrow> node_row \<Rightarrow> bool" where
  "row_for i n r \<longleftrightarrow>
     nr_workflow_id r = i \<and> nr_node_key r = gn_node_key n \<and> nr_function_id r = gn_function_id n
   \<and> nr_node_type r = node_type_to_db_str (gn_node_type n) \<and> nr_position r = gn_position n
   \<and> nr_node_config r = gn_node_config n"

definition edge_for :: "int \<Rightarrow> (string \<rightharpoonup> int) \<Rightarrow> graph_edge \<Rightarrow> workflow_edge \<Rightarrow> bool" where
  "edge_for i km e r \<longleftrightarrow>
     we_workflow_id r = i \<and> km (ge_src_node_key e) = Some (we_src_node_id r)
   \<and> km (ge_dst_node_key e) = Some (we_dst_node_id r) \<and> we_mapping r = ge_mapping e"

lemma row_for_new_row: "row_for i n (new_row M i n d)"
  by (simp add: row_for_def new_row_def)

lemma insert_nodes_never_panics [simp]: "insert_nodes M i ns km d \<noteq> Panic"
  by (induction M i ns km d rule: insert_nodes.induct) (auto simp: Let_def simp del: fun_upd_apply)

lemma insert_nodes_Ok:
  assumes "insert_nodes M i ns km d = Ok (km', d')" "ids_fresh M"
  shows "\<exists>rows. d' = d\<lparr>tb_nodes := tb_nodes d @ rows\<rparr> \<and> list_all2 (row_for i) ns rows
    \<and> sorted_wrt (<) (map nr_id rows) \<and> (\<forall>r \<in> set rows. \<forall>q \<in> set (tb_nodes d). nr_id q < nr_id r)
    \<and> km' = map_upds km (map gn_node_key ns) (map nr_id rows)"
  using assms(1)
proof (induction ns arbitrary: km d)
  case Nil
  then show ?case by (auto intro!: exI[of _ "[]"])
next
  case (Cons n ns)
  let ?row = "new_row M i n d"
  let ?d = "d\<lparr>tb_nodes := tb_nodes d @ [?row]\<rparr>"
  from Cons.prems have "insert_nodes M i ns (km(gn_node_key n \<mapsto> nr_id ?row)) ?d = Ok (km', d')"
    by (simp add: Let_def)
  from Cons.IH[OF this] obtain rows where rows:
    "d' = ?d\<lparr>tb_nodes := tb_nodes ?d @ rows\<rparr>" "list_all2 (row_for i) ns rows"
    "sorted_wrt (<) (map nr_id rows)" "\<forall>r \<in> set rows. \<forall>q \<in> set (tb_nodes ?d). nr_id q < nr_id r"
    "km' = map_upds (km(gn_node_key n \<mapsto> nr_id ?row)) (map gn_node_key ns) (map nr_id rows)"
    by blast
  have new: "\<forall>q \<in> set (tb_nodes d). nr_id q < nr_id ?row"
    using assms(2) by (simp add: ids_fresh_def new_row_def)
  show ?case
    by (rule exI[of _ "?row # rows"]) (use rows new in \<open>auto simp: row_for_new_row\<close>)
qed

lemma insert_edges_never_panics:
  "\<forall>e \<in> set es. km (ge_src_node_key e) \<noteq> None \<and> km (ge_dst_node_key e) \<noteq> None
     \<Longrightarrow> insert_edges M i es km d \<noteq> Panic"
  by (induction M i es km d rule: insert_edges.induct) (auto simp: Let_def)

lemma insert_edges_Ok:
  assumes "insert_edges M i es km d = Ok d'" "ids_fresh M"
  shows "\<exists>rows. d' = d\<lparr>tb_edges := tb_edges d @ rows\<rparr> \<and> list_all2 (edge_for i km) es rows
    \<and> sorted_wrt (<) (map we_id rows) \<and> (\<forall>r \<in> set rows. \<forall>q \<in> set (tb_edges d). we_id q < we_id r)"
  using assms(1)
proof (induction es arbitrary: d)
  case Nil
  then show ?case by (auto intro!: exI[of _ "[]"])
next
  case (Cons e es)
  then obtain src dst where km: "km (ge_src_node_key e) = Some src" "km (ge_dst_node_key e) = Some dst"
    by (auto split: option.splits)
  define row where "row = \<lparr>we_id = new_edge_id M d, we_workflow_id = i, we_src_node_id = src,
                      we_dst_node_id = dst, we_mapping = ge_mapping e\<rparr>"
  let ?d = "d\<lparr>tb_edges := tb_edges d @ [row]\<rparr>"
  from Cons.prems km have "insert_edges M i es km ?d = Ok d'"
    by (simp add: Let_def row_def)
  from Cons.IH[OF this] obtain rows where rows:
    "d' = ?d\<lparr>tb_edges := tb_edges ?d @ rows\<rparr>" "list_all2 (edge_for i km) es rows"
    "sorted_wrt (<) (map we_id rows)" "\<forall>r \<in> set rows. \<forall>q \<in> set (tb_edges ?d). we_id q < we_id r"
    by blast
  have new: "\<forall>q \<in> set (tb_edges d). we_id q < we_id row" "edge_for i km e row"
    using assms(2) km by (simp_all add: ids_fresh_def row_def edge_for_def)
  show ?case
    by (rule exI[of _ "row # rows"]) (use rows new in auto)
qed

text \<open>
  The outcome of a committed transaction: the rows of the workflow are the rows of the
  submitted nodes and edges, in their order and with increasing keys; the rows of every
  other workflow are those the deletions leave.
\<close>

definition saved_as :: "int \<Rightarrow> graph_put \<Rightarrow> db \<Rightarrow> db \<Rightarrow> node_row list \<Rightarrow> workflow_edge list \<Rightarrow> bool" where
  "saved_as i g d d' rows erows \<longleftrightarrow>
     tb_nodes d' = filter (\<lambda>r. nr_workflow_id r \<noteq> i) (tb_nodes d) @ rows
   \<and> (\<exists>old. tb_edges d' = old @ erows \<and> set old \<subseteq> {e \<in> set (tb_edges d). we_workflow_id e \<noteq> i})
   \<and> list_all2 (row_for i) (stored_nodes g) rows
   \<and> sorted_wrt (<) (map nr_id rows)
   \<and> (\<forall>r \<in> set rows. \<forall>q \<in> set (tb_nodes d). nr_workflow_id q \<noteq> i \<longrightarrow> nr_id q < nr_id r)
   \<and> list_all2 (edge_for i (map_of (zip (map gn_node_key (stored_nodes g)) (map nr_id rows))))
       (stored_edges g) erows
   \<and> sorted_wrt (<) (map we_id erows)"

lemma map_upds_zip:
  "length ks = length vs \<Longrightarrow> distinct ks \<Longrightarrow> map_upds Map.empty ks vs = map_of (zip ks vs)"
  by (simp add: map_upds_def map_of_inject_set rev_map[symmetric])

lemma delete_nodes_simps [simp]:
  "tb_nodes (delete_nodes i d) = filter (\<lambda>r. nr_workflow_id r \<noteq> i) (tb_nodes d)"
  "tb_workflows (delete_nodes i d) = tb_workflows d"
  "set (tb_edges (delete_nodes i d)) \<subseteq> set (tb_edges d)"
  by (auto simp: delete_nodes_def Let_def)

lemma delete_edges_simps [simp]:
  "tb_nodes (delete_edges i d) = tb_nodes d"
  "tb_workflows (delete_edges i d) = tb_workflows d"
  "tb_edges (delete_edges i d) = filter (\<lambda>e. we_workflow_id e \<noteq> i) (tb_edges d)"
  by (simp_all add: delete_edges_def)

lemma update_workflow_simps [simp]:
  "tb_nodes (update_workflow M i f d) = tb_nodes d"
  "tb_edges (update_workflow M i f d) = tb_edges d"
  by (simp_all add: update_workflow_def)

definition cleared :: "mysql \<Rightarrow> int \<Rightarrow> graph_put \<Rightarrow> workflow \<Rightarrow> json option \<Rightarrow> db \<Rightarrow> db" where
  "cleared M i g w caps d =
     delete_nodes i (delete_edges i (update_workflow M i (graph_columns g w caps) d))"

lemma cleared_simps:
  "tb_nodes (cleared M i g w caps d) = filter (\<lambda>r. nr_workflow_id r \<noteq> i) (tb_nodes d)"
  "tb_workflows (cleared M i g w caps d) = tb_workflows (update_workflow M i (graph_columns g w caps) d)"
  "set (tb_edges (cleared M i g w caps d)) \<subseteq> {e \<in> set (tb_edges d). we_workflow_id e \<noteq> i}"
  using delete_nodes_simps(3)[of i "delete_edges i (update_workflow M i (graph_columns g w caps) d)"]
  by (auto simp: cleared_def)

lemma put_graph_tx_OkE:
  assumes "put_graph_tx M i g w caps d = Ok d'"
  obtains km d4 where "insert_nodes M i (stored_nodes g) Map.empty (cleared M i g w caps d) = Ok (km, d4)"
    and "insert_edges M i (stored_edges g) km d4 = Ok d'"
  using assms unfolding put_graph_tx_def cleared_def by (auto simp: Let_def)

lemma put_graph_tx_saves:
  assumes tx: "put_graph_tx M i g w caps d = Ok d'" and "ids_fresh M" "accepted_graph g"
  obtains rows erows where "saved_as i g d d' rows erows"
    and "tb_workflows d' = tb_workflows (update_workflow M i (graph_columns g w caps) d)"
proof -
  from tx obtain km d4 where
    nodes: "insert_nodes M i (stored_nodes g) Map.empty (cleared M i g w caps d) = Ok (km, d4)"
    and edges: "insert_edges M i (stored_edges g) km d4 = Ok d'"
    by (rule put_graph_tx_OkE)
  from insert_nodes_Ok[OF nodes assms(2)] obtain rows where rows:
    "d4 = (cleared M i g w caps d)\<lparr>tb_nodes := tb_nodes (cleared M i g w caps d) @ rows\<rparr>"
    "list_all2 (row_for i) (stored_nodes g) rows" "sorted_wrt (<) (map nr_id rows)"
    "\<forall>r \<in> set rows. \<forall>q \<in> set (tb_nodes (cleared M i g w caps d)). nr_id q < nr_id r"
    "km = map_upds Map.empty (map gn_node_key (stored_nodes g)) (map nr_id rows)"
    by blast
  from insert_edges_Ok[OF edges assms(2)] obtain erows where erows:
    "d' = d4\<lparr>tb_edges := tb_edges d4 @ erows\<rparr>" "list_all2 (edge_for i km) (stored_edges g) erows"
    "sorted_wrt (<) (map we_id erows)"
    by blast
  have km: "km = map_of (zip (map gn_node_key (stored_nodes g)) (map nr_id rows))"
    using rows(2,5) assms(3) list_all2_lengthD[OF rows(2)] by (simp add: map_upds_zip accepted_graph_def)
  have "saved_as i g d d' rows erows"
    unfolding saved_as_def using rows erows km cleared_simps[of M i g w caps d]
    by (auto simp del: map_of_eq_None_iff)
  moreover have "tb_workflows d' = tb_workflows (update_workflow M i (graph_columns g w caps) d)"
    using rows(1) erows(1) cleared_simps(2) by simp
  ultimately show ?thesis by (rule that)
qed

lemma put_graph_tx_never_panics:
  assumes "accepted_graph g"
  shows "put_graph_tx M i g w caps d \<noteq> Panic"
proof -
  have "insert_edges M i (stored_edges g) km d4 \<noteq> Panic"
    if "insert_nodes M i (stored_nodes g) Map.empty d3 = Ok (km, d4)" for d3 km d4
  proof (rule insert_edges_never_panics)
    have dom: "insert_nodes M i ns km d = Ok (km', d') \<Longrightarrow> dom km' = dom km \<union> gn_node_key ` set ns"
      for ns km d km' d'
      by (induction M i ns km d rule: insert_nodes.induct) (auto simp: Let_def simp del: fun_upd_apply)
    have "dom km = gn_node_key ` set (stored_nodes g)" using dom[OF that] by simp
    then show "\<forall>e \<in> set (stored_edges g). km (ge_src_node_key e) \<noteq> None \<and> km (ge_dst_node_key e) \<noteq> None"
      using assms unfolding accepted_graph_def by (metis domIff)
  qed
  then show ?thesis
    unfolding put_graph_tx_def by (auto simp: Let_def split: prod.splits)
qed

lemma put_graph_cases:
  obtains (unchanged) r where "put_graph M de i g d = (r, d)" "r \<noteq> Panic" "\<not> is_ok r"
  | (saved) w caps d' where "put_graph M de i g d = (fetch_graph M d' i, d')"
      "put_graph_checks M de i g d = Ok (w, caps)" "put_graph_tx M i g w caps d = Ok d'"
proof (cases "put_graph_checks M de i g d")
  case (Ok wc)
  obtain w caps where wc: "wc = (w, caps)" by (cases wc)
  have "put_graph_tx M i g w caps d \<noteq> Panic"
    using put_graph_tx_never_panics put_graph_checks_accepted[OF Ok] by blast
  then show ?thesis
    using Ok wc that by (cases "put_graph_tx M i g w caps d") (auto simp: put_graph_def)
next
  case (Err e)
  then show ?thesis using that(1)[of "Err e"] by (simp add: put_graph_def)
qed simp

section \<open>Stored graphs stay well formed\<close>

definition saved_edges :: "db \<Rightarrow> int \<Rightarrow> (string \<times> string) set" where
  "saved_edges d i =
     {(nr_node_key a, nr_node_key b) | a b e.
        a \<in> set (nodes_of d i) \<and> b \<in> set (nodes_of d i) \<and> e \<in> set (edges_of d i)
      \<and> we_src_node_id e = nr_id a \<and> we_dst_node_id e = nr_id b}"

definition graph_ok :: "db \<Rightarrow> int \<Rightarrow> bool" where
  "graph_ok d i \<longleftrightarrow>
     distinct (map nr_node_key (nodes_of d i)) \<and> distinct (map nr_id (nodes_of d i))
   \<and> (\<forall>r \<in> set (nodes_of d i). nr_node_key r \<noteq> ''start'' \<and> nr_node_key r \<noteq> ''end'')
   \<and> (\<forall>e \<in> set (edges_of d i). we_src_node_id e \<in> nr_id ` set (nodes_of d i)
                            \<and> we_dst_node_id e \<in> nr_id ` set (nodes_of d i))
   \<and> acyclic (saved_edges d i)"

lemma graph_ok_mono:
  assumes "graph_ok d i" "nodes_of d' i = nodes_of d i" "set (edges_of d' i) \<subseteq> set (edges_of d i)"
  shows "graph_ok d' i"
proof -
  have "saved_edges d' i \<subseteq> saved_edges d i"
    using assms(2,3) by (force simp: saved_edges_def)
  then show ?thesis
    using assms by (auto simp: graph_ok_def intro: acyclic_subset)
qed

lemma rows_of_workflow:
  assumes "list_all2 (row_for i) ns rows"
  shows "\<forall>r \<in> set rows. nr_workflow_id r = i" "map nr_node_key rows = map gn_node_key ns"
  using assms by (induction rule: list_all2_induct) (auto simp: row_for_def)

lemma saved_as_nodes:
  assumes "saved_as i g d d' rows erows"
  shows "nodes_of d' i = rows" "j \<noteq> i \<Longrightarrow> nodes_of d' j = nodes_of d j"
  using assms rows_of_workflow(1)[of i "stored_nodes g" rows]
  by (auto simp: saved_as_def nodes_of_def filter_empty_conv intro: filter_cong)

lemma erows_of_workflow:
  "list_all2 (edge_for i km) es erows \<Longrightarrow> e \<in> set erows \<Longrightarrow> we_workflow_id e = i"
  by (induction rule: list_all2_induct) (auto simp: edge_for_def)

lemma saved_as_edges:
  assumes "saved_as i g d d' rows erows"
  shows "edges_of d' i = erows" "j \<noteq> i \<Longrightarrow> set (edges_of d' j) \<subseteq> set (edges_of d j)"
proof -
  from assms obtain old where old: "tb_edges d' = old @ erows"
    "set old \<subseteq> {e \<in> set (tb_edges d). we_workflow_id e \<noteq> i}"
    and "\<forall>e \<in> set erows. we_workflow_id e = i"
    using erows_of_workflow unfolding saved_as_def by blast
  then show "edges_of d' i = erows" "j \<noteq> i \<Longrightarrow> set (edges_of d' j) \<subseteq> set (edges_of d j)"
    by (auto simp: edges_of_def filter_empty_conv)
qed

text \<open>An id handed out for a key belongs to the row with that key.\<close>

lemma key_map_row:
  assumes "list_all2 (row_for i) ns rows"
    and "map_of (zip (map gn_node_key ns) (map nr_id rows)) k = Some x"
  obtains r where "r \<in> set rows" "nr_node_key r = k" "nr_id r = x"
proof -
  have "zip (map gn_node_key ns) (map nr_id rows) = map (\<lambda>r. (nr_node_key r, nr_id r)) rows"
    using rows_of_workflow(2)[OF assms(1)] by (simp add: zip_map_map zip_same_conv_map flip: rows_of_workflow(2)[OF assms(1)])
  then show ?thesis using assms(2) that by (auto dest!: map_of_SomeD)
qed

lemma distinct_ids_eq: "distinct (map f xs) \<Longrightarrow> a \<in> set xs \<Longrightarrow> b \<in> set xs \<Longrightarrow> f a = f b \<Longrightarrow> a = b"
  by (metis distinct_map inj_on_def)

lemma saved_graph_ok:
  assumes sv: "saved_as i g d d' rows erows" and acc: "accepted_graph g"
  shows "graph_ok d' i"
proof -
  let ?km = "map_of (zip (map gn_node_key (stored_nodes g)) (map nr_id rows))"
  have rows: "list_all2 (row_for i) (stored_nodes g) rows"
    and erows: "list_all2 (edge_for i ?km) (stored_edges g) erows"
    and ids: "distinct (map nr_id rows)"
    using sv sorted_wrt_less_distinct unfolding saved_as_def by blast+
  have edge: "\<exists>e. e \<in> set (stored_edges g) \<and> edge_for i ?km e r" if "r \<in> set erows" for r
    using erows that by (metis in_set_conv_nth list_all2_conv_all_nth)
  have "saved_edges d' i \<subseteq> key_edges (stored_edges g)"
  proof
    fix p assume "p \<in> saved_edges d' i"
    then obtain a b r where p: "p = (nr_node_key a, nr_node_key b)" and ab: "a \<in> set rows" "b \<in> set rows"
      and r: "r \<in> set erows" "we_src_node_id r = nr_id a" "we_dst_node_id r = nr_id b"
      by (auto simp: saved_edges_def saved_as_nodes[OF sv] saved_as_edges[OF sv])
    from edge[OF r(1)] r obtain e where e: "e \<in> set (stored_edges g)"
      "?km (ge_src_node_key e) = Some (nr_id a)" "?km (ge_dst_node_key e) = Some (nr_id b)"
      unfolding edge_for_def by metis
    obtain a' where "a' \<in> set rows" "nr_node_key a' = ge_src_node_key e" "nr_id a' = nr_id a"
      using key_map_row[OF rows e(2)] by blast
    moreover obtain b' where "b' \<in> set rows" "nr_node_key b' = ge_dst_node_key e" "nr_id b' = nr_id b"
      using key_map_row[OF rows e(3)] by blast
    ultimately have "p = (ge_src_node_key e, ge_dst_node_key e)"
      using p ab distinct_ids_eq[OF ids] by metis
    then show "p \<in> key_edges (stored_edges g)" using e(1) by (auto simp: key_edges_def)
  qed
  then have "acyclic (saved_edges d' i)"
    using acc acyclic_subset unfolding accepted_graph_def by blast
  moreover have "we_src_node_id r \<in> nr_id ` set rows \<and> we_dst_node_id r \<in> nr_id ` set rows"
    if "r \<in> set erows" for r
    using edge[OF that] key_map_row[OF rows] unfolding edge_for_def by (metis imageI)
  moreover have "distinct (map nr_node_key rows)"
    using acc rows_of_workflow(2)[OF rows] by (simp add: accepted_graph_def)
  moreover have "nr_node_key r \<noteq> ''start'' \<and> nr_node_key r \<noteq> ''end''" if "r \<in> set rows" for r
  proof -
    have "nr_node_key r \<in> set (map gn_node_key (stored_nodes g))"
      using that rows_of_workflow(2)[OF rows] by (metis image_eqI list.set_map)
    then show ?thesis by (auto simp: stored_nodes_def)
  qed
  ultimately show ?thesis
    using ids by (auto simp: graph_ok_def saved_as_nodes[OF sv] saved_as_edges[OF sv])
qed

lemma put_graph_graph_ok:
  assumes "ids_fresh M" "\<forall>j. graph_ok d j"
  shows "graph_ok (snd (put_graph M de i g d)) j"
proof (cases rule: put_graph_cases[of M de i g d])
  case (unchanged r)
  then show ?thesis using assms(2) by simp
next
  case (saved w caps d')
  have acc: "accepted_graph g" using saved(2) by (rule put_graph_checks_accepted)
  obtain rows erows where sv: "saved_as i g d d' rows erows"
    by (rule put_graph_tx_saves[OF saved(3) assms(1) acc])
  have "graph_ok d' j"
    using saved_graph_ok[OF sv acc] assms(2) graph_ok_mono[of d j d'] saved_as_nodes(2)[OF sv]
      saved_as_edges(2)[OF sv] by (cases "j = i") auto
  then show ?thesis using saved(1) by simp
qed

text \<open>The other operations of the service never add a node or an edge.\<close>

lemma insert_taggings_graph:
  "insert_taggings M i ts d = (r, d') \<Longrightarrow> tb_nodes d' = tb_nodes d \<and> tb_edges d' = tb_edges d"
  by (induction M i ts d rule: insert_taggings.induct) (auto split: result.splits)

lemma apply_tags_graph:
  "apply_tags M i ts d = (r, d') \<Longrightarrow> tb_nodes d' = tb_nodes d \<and> tb_edges d' = tb_edges d"
  by (auto simp: apply_tags_def split: result.splits dest: insert_taggings_graph)

lemma create_graph:
  "tb_nodes (snd (create M meta d)) = tb_nodes d \<and> tb_edges (snd (create M meta d)) = tb_edges d"
  by (auto simp: create_def Let_def split: option.split prod.split result.split dest!: apply_tags_graph)

lemma update_graph:
  "tb_nodes (snd (update M i meta d)) = tb_nodes d \<and> tb_edges (snd (update M i meta d)) = tb_edges d"
  by (auto simp: update_def Let_def split: option.split prod.split result.split dest!: apply_tags_graph)

lemma delete_cases:
  obtains (unchanged) r where "delete M i d = (r, d)" "r \<noteq> Ok ()"
  | (deleted) "delete M i d = (Ok (), (delete_nodes i (delete_edges i d))
                        \<lparr>tb_workflows := filter (\<lambda>w. wf_id w \<noteq> i) (tb_workflows d)\<rparr>)"
proof (cases "delete_tx M i d")
  case (Ok d1)
  then have "d1 = (delete_nodes i (delete_edges i d))
                        \<lparr>tb_workflows := filter (\<lambda>w. wf_id w \<noteq> i) (tb_workflows d)\<rparr>"
    by (auto simp: delete_tx_def Let_def split: if_splits)
  then show ?thesis using Ok that(2) by (simp add: delete_def)
qed (use that in \<open>simp_all add: delete_def\<close>)

lemma delete_graph_ok:
  assumes "\<forall>j. graph_ok d j"
  shows "graph_ok (snd (delete M i d)) j"
proof (cases rule: delete_cases[of M i d])
  case (unchanged r)
  then show ?thesis using assms by simp
next
  case deleted
  let ?d = "snd (delete M i d)"
  have nodes: "tb_nodes ?d = filter (\<lambda>r. nr_workflow_id r \<noteq> i) (tb_nodes d)"
    and edges: "set (tb_edges ?d) \<subseteq> {e \<in> set (tb_edges d). we_workflow_id e \<noteq> i}"
    using deleted delete_nodes_simps(3)[of i "delete_edges i d"] by auto
  show ?thesis
  proof (cases "j = i")
    case True
    then have "nodes_of ?d j = []" "edges_of ?d j = []"
      using nodes edges by (auto simp: nodes_of_def edges_of_def filter_empty_conv)
    then show ?thesis by (simp add: graph_ok_def saved_edges_def acyclic_def)
  next
    case False
    then have "nodes_of ?d j = nodes_of d j" "set (edges_of ?d j) \<subseteq> set (edges_of d j)"
      using nodes edges by (auto simp: nodes_of_def edges_of_def intro: filter_cong)
    then show ?thesis using assms graph_ok_mono by blast
  qed
qed

section \<open>Runs of the service\<close>

datatype wf_op =
    OpCreate create_meta
  | OpUpdate int update_meta
  | OpDelete int
  | OpPutGraph int graph_put

fun wf_exec :: "mysql \<Rightarrow> (json \<Rightarrow> input_source option) \<Rightarrow> wf_op \<Rightarrow> db \<Rightarrow> db" where
  "wf_exec M de (OpCreate meta) d = snd (create M meta d)"
| "wf_exec M de (OpUpdate i meta) d = snd (update M i meta d)"
| "wf_exec M de (OpDelete i) d = snd (delete M i d)"
| "wf_exec M de (OpPutGraph i g) d = snd (put_graph M de i g d)"

text \<open>
  A step is any request, with any behaviour of the server that hands out fresh keys: each
  statement of each request may fail.
\<close>

inductive wf_step :: "db \<Rightarrow> db \<Rightarrow> bool" where
  wf_stepI: "ids_fresh M \<Longrightarrow> wf_step d (wf_exec M de op d)"

inductive_cases wf_stepE: "wf_step d d'"

definition wf_init :: "db \<Rightarrow> bool" where
  "wf_init d \<longleftrightarrow> tb_nodes d = [] \<and> tb_edges d = []"

lemma graph_ok_same_tables:
  "tb_nodes d' = tb_nodes d \<Longrightarrow> tb_edges d' = tb_edges d \<Longrightarrow> graph_ok d' i = graph_ok d i"
  by (simp add: graph_ok_def saved_edges_def nodes_of_def edges_of_def)

lemma wf_exec_graph_ok:
  assumes "ids_fresh M" "\<forall>j. graph_ok d j"
  shows "graph_ok (wf_exec M de op d) j"
proof (cases op)
  case (OpCreate meta)
  then show ?thesis using assms(2) create_graph[of M meta d] graph_ok_same_tables by (metis wf_exec.simps(1))
next
  case (OpUpdate i meta)
  then show ?thesis using assms(2) update_graph[of M i meta d] graph_ok_same_tables by (metis wf_exec.simps(2))
next
  case (OpDelete i)
  then show ?thesis using assms(2) delete_graph_ok by simp
next
  case (OpPutGraph i g)
  then show ?thesis using assms put_graph_graph_ok by simp
qed

interpretation wf_store: invariant_system wf_init wf_step "\<lambda>d. \<forall>i. graph_ok d i"
proof
  fix d assume "wf_init d"
  then show "\<forall>i. graph_ok d i"
    by (simp add: wf_init_def graph_ok_def nodes_of_def edges_of_def saved_edges_def acyclic_def)
next
  fix d d' assume "\<forall>i. graph_ok d i" "wf_step d d'"
  then show "\<forall>i. graph_ok d' i" by (auto elim!: wf_stepE intro: wf_exec_graph_ok)
qed

abbreviation wf_reachable :: "db \<Rightarrow> bool" where
  "wf_reachable \<equiv> reach wf_init wf_step"

section \<open>Reading back what was saved\<close>

lemma node_type_roundtrip [simp]: "node_type_decode (node_type_to_db_str t) = Some t"
  by (cases t) (simp_all add: node_type_decode_def)

definition drop_id :: "graph_node \<Rightarrow> graph_node" where
  "drop_id n = n\<lparr>gn_id := None\<rparr>"

definition drop_edge_id :: "graph_edge \<Rightarrow> graph_edge" where
  "drop_edge_id e = e\<lparr>ge_id := None\<rparr>"

lemma decode_saved_rows:
  assumes "list_all2 (row_for i) gs rows"
  shows "\<exists>ns. decode_rows M rows = Ok ns
    \<and> map (\<lambda>n. drop_id (graph_node_of n)) ns = map drop_id gs \<and> map wn_id ns = map nr_id rows
    \<and> map wn_node_key ns = map gn_node_key gs"
  using assms
proof (induction rule: list_all2_induct)
  case Nil
  show ?case by simp
next
  case (Cons g gs r rows)
  then obtain ns where ns: "decode_rows M rows = Ok ns"
    "map (\<lambda>n. drop_id (graph_node_of n)) ns = map drop_id gs" "map wn_id ns = map nr_id rows"
    "map wn_node_key ns = map gn_node_key gs" by blast
  then show ?case
    using Cons(1) by (auto simp: row_for_def graph_node_of_def drop_id_def)
qed

lemma key_of_saved_id:
  assumes "distinct (map wn_id ns)" "map_of (zip (map wn_node_key ns) (map wn_id ns)) k = Some x"
  shows "key_of_id ns x = k"
proof -
  have "(k, x) \<in> set (zip (map wn_node_key ns) (map wn_id ns))" using assms(2) by (rule map_of_SomeD)
  then obtain n where "n \<in> set ns" "wn_node_key n = k" "wn_id n = x"
    by (auto simp: zip_map_map zip_same_conv_map)
  then show ?thesis using find_key_distinct[OF assms(1)] by (auto simp: key_of_id_def)
qed

lemma decode_saved_edges:
  assumes "list_all2 (edge_for i km) es erows" "\<And>k x. km k = Some x \<Longrightarrow> key_of_id ns x = k"
  shows "map (\<lambda>e. drop_edge_id (graph_edge_of ns e)) erows = map drop_edge_id es"
  using assms(1)
  by (induction rule: list_all2_induct) (auto simp: edge_for_def graph_edge_of_def drop_edge_id_def assms(2))

lemma drop_edge_idD:
  "drop_edge_id e = drop_edge_id e' \<Longrightarrow>
     ge_src_node_key e = ge_src_node_key e' \<and> ge_dst_node_key e = ge_dst_node_key e'"
  by (cases e; cases e') (simp add: drop_edge_id_def)

lemma virtual_edges_virtual [simp]:
  "virtual_edges es (start_graph_node w) = []" "virtual_edges es (end_graph_node w) = []"
  by (simp_all add: virtual_edges_def start_graph_node_def end_graph_node_def)

lemma virtual_edges_cong:
  assumes "map drop_edge_id es = map drop_edge_id es'" "gn_node_key n = gn_node_key n'"
  shows "virtual_edges es n = virtual_edges es' n'"
proof -
  have "map ge_src_node_key es = map ge_src_node_key es'" "map ge_dst_node_key es = map ge_dst_node_key es'"
    using assms(1) by (induction es es' rule: list_induct2') (auto dest: drop_edge_idD)
  then have "ge_src_node_key ` set es = ge_src_node_key ` set es'"
    "ge_dst_node_key ` set es = ge_dst_node_key ` set es'"
    by (metis list.set_map)+
  then show ?thesis using assms(2) by (simp add: virtual_edges_def)
qed

lemma virtual_edges_map_cong:
  assumes "map drop_edge_id es = map drop_edge_id es'" "map gn_node_key ns = map gn_node_key ns'"
  shows "map (virtual_edges es) ns = map (virtual_edges es') ns'"
  using assms(2) virtual_edges_cong[OF assms(1)]
  by (induction ns ns' rule: list_induct2') auto

lemma drop_edge_id_virtual [simp]: "map drop_edge_id (virtual_edges es n) = virtual_edges es n"
  by (simp add: virtual_edges_def drop_edge_id_def)

lemma sort_key_increasing:
  fixes f :: "'a \<Rightarrow> int"
  shows "sorted_wrt (<) (map f xs) \<Longrightarrow> sort_key f xs = xs"
  by (intro sort_key_id_if_sorted) (simp add: strict_sorted_imp_sorted)

lemma fetch_saved_graph:
  assumes sv: "saved_as i g d d' rows erows" and fetched: "fetch_graph M d' i = Ok wg"
  shows "map drop_id (wg_nodes wg)
      = [start_graph_node (wg_workflow wg)] @ map drop_id (stored_nodes g) @ [end_graph_node (wg_workflow wg)]"
    and "map drop_edge_id (wg_edges wg)
      = map drop_edge_id (stored_edges g) @ concat (map (virtual_edges (stored_edges g)) (stored_nodes g))"
proof -
  let ?km = "map_of (zip (map gn_node_key (stored_nodes g)) (map nr_id rows))"
  have rows: "list_all2 (row_for i) (stored_nodes g) rows" "sorted_wrt (<) (map nr_id rows)"
    and erows: "list_all2 (edge_for i ?km) (stored_edges g) erows" "sorted_wrt (<) (map we_id erows)"
    using sv unfolding saved_as_def by blast+
  obtain ns where ns: "decode_rows M rows = Ok ns"
    "map (\<lambda>n. drop_id (graph_node_of n)) ns = map drop_id (stored_nodes g)"
    "map wn_id ns = map nr_id rows" "map wn_node_key ns = map gn_node_key (stored_nodes g)"
    using decode_saved_rows[OF rows(1)] by blast
  have "distinct (map wn_id ns)" using ns(3) rows(2) sorted_wrt_less_distinct by metis
  then have "key_of_id ns x = k" if "?km k = Some x" for k x
    using key_of_saved_id that ns(3,4) by metis
  from decode_saved_edges[OF erows(1) this]
  have es: "map drop_edge_id (map (graph_edge_of ns) erows) = map drop_edge_id (stored_edges g)"
    by (simp add: comp_def)
  have nodes: "wg_nodes wg = [start_graph_node (wg_workflow wg)] @ map graph_node_of ns
      @ [end_graph_node (wg_workflow wg)]"
    and edges: "wg_edges wg = map (graph_edge_of ns) erows
      @ concat (map (virtual_edges (map (graph_edge_of ns) erows)) (wg_nodes wg))"
    using fetched ns(1) by (auto simp: fetch_graph_def Let_def saved_as_nodes[OF sv]
        saved_as_edges[OF sv] sort_key_increasing[OF rows(2)] sort_key_increasing[OF erows(2)])
  show "map drop_id (wg_nodes wg)
      = [start_graph_node (wg_workflow wg)] @ map drop_id (stored_nodes g) @ [end_graph_node (wg_workflow wg)]"
    using ns(2) nodes by (simp add: comp_def drop_id_def start_graph_node_def end_graph_node_def)
  have "map gn_node_key (map graph_node_of ns) = map gn_node_key (stored_nodes g)"
    using ns(4) by (simp add: comp_def graph_node_of_def)
  from virtual_edges_map_cong[OF es this]
  show "map drop_edge_id (wg_edges wg)
      = map drop_edge_id (stored_edges g) @ concat (map (virtual_edges (stored_edges g)) (stored_nodes g))"
    using es edges nodes
    by (simp add: map_concat comp_def)
qed

section \<open>Exactly which graphs are accepted\<close>

definition specs_valid :: "(json \<Rightarrow> input_source option) \<Rightarrow> graph_put \<Rightarrow> bool" where
  "specs_valid de g \<longleftrightarrow>
     (\<forall>n \<in> set (stored_nodes g). \<forall>v. config_field (gn_node_config n) ''input_mapping'' = Some v \<longrightarrow>
        (\<exists>spec. parse_input_spec de v = Ok spec \<and> validate_input_spec spec = Ok ()))"

definition functions_exist :: "db \<Rightarrow> graph_put \<Rightarrow> bool" where
  "functions_exist d g \<longleftrightarrow>
     (\<forall>n \<in> set (stored_nodes g). \<forall>f. gn_node_type n = FunctionNode \<longrightarrow> gn_function_id n = Some f
        \<longrightarrow> f \<in> fn_id ` set (tb_functions d))"

text \<open>
  The required inputs of a node's function that step 4b looks at: only functions that some
  function node of the graph refers to are loaded.
\<close>

definition inputs_provided :: "db \<Rightarrow> graph_put \<Rightarrow> bool" where
  "inputs_provided d g \<longleftrightarrow>
     (\<forall>n \<in> set (stored_nodes g). \<forall>f row fld.
        gn_function_id n = Some f \<longrightarrow> f \<in> set (graph_function_ids (stored_nodes g))
        \<longrightarrow> find_key fn_id (tb_functions d) f = Some row \<longrightarrow> fld \<in> set (required_fields (fn_input_schema row))
        \<longrightarrow> (\<exists>m. config_field (gn_node_config n) ''input_mapping'' = Some (JObject m) \<and> obj_contains_key m fld))"

lemma stored_nodes_kind:
  "n \<in> set (stored_nodes g) \<Longrightarrow> gn_node_type n = FunctionNode \<or> gn_node_type n = GenerateAnswerNode"
  by (cases "gn_node_type n") (auto simp: stored_nodes_def)

lemma check_specs_Ok:
  assumes "\<forall>n \<in> set ns. gn_node_type n = FunctionNode \<or> gn_node_type n = GenerateAnswerNode"
  shows "check_specs de ns = Ok () \<longleftrightarrow>
     (\<forall>n \<in> set ns. \<forall>v. config_field (gn_node_config n) ''input_mapping'' = Some v \<longrightarrow>
        (\<exists>spec. parse_input_spec de v = Ok spec \<and> validate_input_spec spec = Ok ()))"
  using assms by (induction de ns rule: check_specs.induct) (auto split: option.splits)

lemma check_functions_iff: "check_functions rows fs = Ok () \<longleftrightarrow> (\<forall>f \<in> set fs. f \<in> fn_id ` set rows)"
proof (induction rows fs rule: check_functions.induct)
  case (2 rows f fs)
  then show ?case using find_key_None_iff[of fn_id rows f] by auto
qed simp

lemma graph_function_ids_iff:
  "f \<in> set (graph_function_ids ns) \<longleftrightarrow>
     (\<exists>n \<in> set ns. gn_node_type n = FunctionNode \<and> gn_function_id n = Some f)"
  by (force simp: graph_function_ids_def List.map_filter_def)

lemma find_key_filter_in:
  "find_key key (filter (\<lambda>r. key r \<in> S) rows) k = (if k \<in> S then find_key key rows k else None)"
  by (induction rows) auto

lemma check_fields_Ok:
  "check_fields k m fs = Ok () \<longleftrightarrow> (\<forall>f \<in> set fs. \<exists>o'. m = Some o' \<and> obj_contains_key o' f)"
  by (induction k m fs rule: check_fields.induct) (auto split: option.splits)

lemma check_required_Ok:
  "check_required rows ns = Ok () \<longleftrightarrow>
     (\<forall>n \<in> set ns. \<forall>f row fld. gn_function_id n = Some f \<longrightarrow> find_key fn_id rows f = Some row
        \<longrightarrow> fld \<in> set (required_fields (fn_input_schema row))
        \<longrightarrow> (\<exists>m. config_field (gn_node_config n) ''input_mapping'' = Some (JObject m) \<and> obj_contains_key m fld))"
proof (induction rows ns rule: check_required.induct)
  case (2 rows n ns)
  have obj: "(\<exists>o'. Option.bind x as_object = Some o' \<and> P o') \<longleftrightarrow> (\<exists>m. x = Some (JObject m) \<and> P m)" for x P
    by (cases x; cases "the x") auto
  show ?case
    using 2 by (cases "gn_function_id n"; cases "find_key fn_id rows (the (gn_function_id n))")
      (auto simp: check_fields_Ok obj)
qed simp

lemma run_sql_quiet: "\<forall>s d. rejects M s d = None \<Longrightarrow> run_sql M s stage d = Ok ()"
  by (simp add: run_sql_def)

lemma checks_pass_iff:
  assumes quiet: "\<forall>s d. rejects M s d = None"
  shows "is_ok (put_graph_checks M de i g d) \<longleftrightarrow>
     i \<in> wf_id ` set (tb_workflows d) \<and> accepted_graph g \<and> functions_exist d g
     \<and> specs_valid de g \<and> inputs_provided d g"
proof -
  let ?ns = "stored_nodes g" and ?ids = "graph_function_ids (stored_nodes g)"
  let ?rows = "if ?ids = [] then [] else filter (\<lambda>r. fn_id r \<in> set ?ids) (tb_functions d)"
  have fetch: "(\<exists>w. fetch_by_id M d i = Ok w) \<longleftrightarrow> i \<in> wf_id ` set (tb_workflows d)"
    using find_key_None_iff[of wf_id "tb_workflows d" i]
    by (auto simp: fetch_by_id_def run_sql_quiet[OF quiet] split: option.splits)
  have exist: "functions_exist d g \<longleftrightarrow> (\<forall>f \<in> set ?ids. f \<in> fn_id ` set (tb_functions d))"
    using graph_function_ids_iff[of _ ?ns] unfolding functions_exist_def by blast
  have "(\<forall>f \<in> S. f \<in> fn_id ` {r \<in> T. fn_id r \<in> S}) \<longleftrightarrow> (\<forall>f \<in> S. f \<in> fn_id ` T)" for S T
    by (auto simp: image_iff)
  then have load: "load_function_schemas M d ?ids = Ok rows \<longleftrightarrow> functions_exist d g \<and> rows = ?rows" for rows
    unfolding exist
    by (cases "?ids = []")
      (auto simp: load_function_schemas_def run_sql_quiet[OF quiet] Let_def check_functions_iff)
  have look: "find_key fn_id ?rows f = Some row
      \<longleftrightarrow> f \<in> set ?ids \<and> find_key fn_id (tb_functions d) f = Some row" for f row
    by (cases "?ids = []") (simp_all add: find_key_filter_in)
  have req: "check_required ?rows ?ns = Ok () \<longleftrightarrow> inputs_provided d g"
    by (simp only: check_required_Ok inputs_provided_def look imp_conjL)
  have specs: "check_specs de ?ns = Ok () \<longleftrightarrow> specs_valid de g"
    using check_specs_Ok[of ?ns de] stored_nodes_kind by (auto simp: specs_valid_def)
  show ?thesis
    unfolding put_graph_checks_def structure_checks_iff[symmetric, of g]
    using fetch load req specs by (fastforce simp: Bex_def)
qed

section \<open>A quiet server\<close>

text \<open>When no statement fails, an accepted graph is stored and read back.\<close>

lemma insert_nodes_quiet:
  "\<forall>s d. rejects M s d = None \<Longrightarrow> \<exists>km' d'. insert_nodes M i ns km d = Ok (km', d')"
  by (induction M i ns km d rule: insert_nodes.induct) (simp_all add: Let_def run_sql_quiet)

lemma insert_edges_quiet:
  "\<forall>s d. rejects M s d = None \<Longrightarrow> insert_edges M i es km d \<noteq> Err e"
  by (induction M i es km d rule: insert_edges.induct) (auto simp: Let_def run_sql_quiet split: option.splits)

lemma put_graph_tx_quiet:
  assumes "\<forall>s d. rejects M s d = None" "accepted_graph g"
  shows "\<exists>d'. put_graph_tx M i g w caps d = Ok d'"
proof -
  have "put_graph_tx M i g w caps d \<noteq> Err e" for e
    using insert_edges_quiet[OF assms(1)] insert_nodes_quiet[OF assms(1)]
    by (auto simp: put_graph_tx_def Let_def run_sql_quiet[OF assms(1)] split: prod.splits)
      (metis result.distinct(1))
  then show ?thesis
    using put_graph_tx_never_panics[OF assms(2)] by (metis result.exhaust)
qed

lemma update_workflow_ids:
  assumes "\<And>w. wf_id (f w) = wf_id w"
  shows "map wf_id (tb_workflows (update_workflow M i f d)) = map wf_id (tb_workflows d)"
  using assms by (simp add: update_workflow_def comp_def)

lemma fetch_saved_quiet:
  assumes "\<forall>s d. rejects M s d = None" "saved_as i g d d' rows erows" "i \<in> wf_id ` set (tb_workflows d')"
  shows "\<exists>wg. fetch_graph M d' i = Ok wg"
proof -
  have rows: "list_all2 (row_for i) (stored_nodes g) rows" "sorted_wrt (<) (map nr_id rows)"
    using assms(2) unfolding saved_as_def by blast+
  obtain ns where "decode_rows M rows = Ok ns" using decode_saved_rows[OF rows(1)] by blast
  moreover obtain w where "find_key wf_id (tb_workflows d') i = Some w"
    using assms(3) find_key_None_iff[of wf_id "tb_workflows d'" i] by auto
  ultimately show ?thesis
    by (simp add: fetch_graph_def fetch_by_id_def run_sql_quiet[OF assms(1)] saved_as_nodes[OF assms(2)]
        sort_key_increasing[OF rows(2)] Let_def)
qed

lemma put_graph_quiet_iff:
  assumes quiet: "\<forall>s d. rejects M s d = None" and fresh: "ids_fresh M"
  shows "is_ok (fst (put_graph M de i g d)) \<longleftrightarrow> is_ok (put_graph_checks M de i g d)"
proof (cases "put_graph_checks M de i g d")
  case (Ok wc)
  obtain w caps where wc: "wc = (w, caps)" by (cases wc)
  note acc = put_graph_checks_accepted[OF Ok]
  obtain d' where tx: "put_graph_tx M i g w caps d = Ok d'"
    using put_graph_tx_quiet[OF quiet acc] by blast
  obtain rows erows where sv: "saved_as i g d d' rows erows"
    and tb: "tb_workflows d' = tb_workflows (update_workflow M i (graph_columns g w caps) d)"
    by (rule put_graph_tx_saves[OF tx fresh acc])
  have "i \<in> set (map wf_id (tb_workflows d))"
    using Ok checks_pass_iff[OF quiet, of de i g d] by simp
  moreover have "map wf_id (tb_workflows d') = map wf_id (tb_workflows d)"
    unfolding tb by (rule update_workflow_ids) (simp add: graph_columns_def)
  ultimately have "i \<in> wf_id ` set (tb_workflows d')"
    by (metis list.set_map)
  then show ?thesis
    using fetch_saved_quiet[OF quiet sv] Ok tx wc by (simp add: put_graph_def)
qed (simp_all add: put_graph_def)

section \<open>Properties\<close>

text \<open>
  (C3) In every state that requests to the service can produce, with any statement of any
  request allowed to fail, the stored graph of each workflow is acyclic, its node keys are
  unique and its edges join nodes of the same workflow.
\<close>

theorem stored_workflows_are_dags:
  assumes "wf_reachable d"
  shows "acyclic (saved_edges d i) \<and> distinct (map nr_node_key (nodes_of d i))
    \<and> (\<forall>e \<in> set (edges_of d i). we_src_node_id e \<in> nr_id ` set (nodes_of d i)
                              \<and> we_dst_node_id e \<in> nr_id ` set (nodes_of d i))"
  using wf_store.inv_reach[OF assms] by (simp add: graph_ok_def)

definition demo_mysql :: mysql where
  "demo_mysql =
     \<lparr>rejects = \<lambda>_ _. None,
      new_workflow_id = \<lambda>d. 1 + foldr max (map wf_id (tb_workflows d)) 0,
      new_node_id = \<lambda>d. 1 + foldr max (map nr_id (tb_nodes d)) 0,
      new_edge_id = \<lambda>d. 1 + foldr max (map we_id (tb_edges d)) 0,
      current_timestamp = \<lambda>_. 0,
      on_update = \<lambda>w _. wf_updated_at w + 1000,
      decode_text = \<lambda>_. ''invalid node_type''\<rparr>"

lemma foldr_max_upper: "x \<in> set xs \<Longrightarrow> x \<le> foldr max xs (b::int)"
  by (induction xs) auto

lemma demo_mysql_fresh: "ids_fresh demo_mysql"
proof -
  have "nr_id r < new_node_id demo_mysql d" if "r \<in> set (tb_nodes d)" for r d
    using foldr_max_upper[of "nr_id r" "map nr_id (tb_nodes d)" 0] that by (simp add: demo_mysql_def)
  moreover have "we_id e < new_edge_id demo_mysql d" if "e \<in> set (tb_edges d)" for e d
    using foldr_max_upper[of "we_id e" "map we_id (tb_edges d)" 0] that by (simp add: demo_mysql_def)
  ultimately show ?thesis by (simp add: ids_fresh_def)
qed

lemma demo_mysql_quiet: "\<forall>s d. rejects demo_mysql s d = None"
  by (simp add: demo_mysql_def)

definition demo_workflow :: workflow where
  "demo_workflow =
     \<lparr>wf_id = 5, wf_identifier = ''greet'', wf_name = ''Greet'', wf_description = None,
      wf_timeout_ms = 300000, wf_category_id = None, wf_input_schema = Some default_schema,
      wf_start_description = None, wf_output_schema = None, wf_required_capabilities = None,
      wf_created_at = 0, wf_updated_at = 0\<rparr>"

definition demo_db :: db where
  "demo_db =
     \<lparr>tb_workflows = [demo_workflow], tb_nodes = [], tb_edges = [],
      tb_functions = [\<lparr>fn_id = 7, fn_input_schema = JObject [(''required'', JArray [JString ''q''])],
         fn_output_schema = JObject [], fn_required_capabilities = Some (JArray [JString ''http''])\<rparr>],
      tb_taggings = [], tb_tool_workflows = []\<rparr>"

definition demo_node :: "string \<Rightarrow> node_type \<Rightarrow> int option \<Rightarrow> json option \<Rightarrow> graph_node" where
  "demo_node k t f c =
     \<lparr>gn_id = None, gn_node_key = k, gn_node_type = t, gn_function_id = f, gn_position = None,
      gn_node_config = c\<rparr>"

definition demo_edge :: "string \<Rightarrow> string \<Rightarrow> graph_edge" where
  "demo_edge a b = \<lparr>ge_id = None, ge_src_node_key = a, ge_dst_node_key = b, ge_mapping = JObject []\<rparr>"

definition demo_config :: json where
  "demo_config = JObject [(''input_mapping'', JObject [(''q'', JString ''hello'')])]"

text \<open>A decoder that reads a bare string as a literal, for the concrete runs.\<close>

definition demo_de :: "json \<Rightarrow> input_source option" where
  "demo_de v = (case v of JString _ \<Rightarrow> Some (Custom v) | _ \<Rightarrow> None)"

definition demo_graph :: graph_put where
  "demo_graph =
     \<lparr>gp_nodes = [demo_node ''a'' FunctionNode (Some 7) (Some demo_config),
                  demo_node ''b'' GenerateAnswerNode None None],
      gp_edges = [demo_edge ''start'' ''a'', demo_edge ''a'' ''b'']\<rparr>"

lemma demo_put_graph_ok:
  "\<exists>wg d'. put_graph demo_mysql demo_de 5 demo_graph demo_db = (Ok wg, d')"
proof -
  have "is_ok (put_graph_checks demo_mysql demo_de 5 demo_graph demo_db)"
    by code_simp
  then have "is_ok (fst (put_graph demo_mysql demo_de 5 demo_graph demo_db))"
    using put_graph_quiet_iff[OF demo_mysql_quiet demo_mysql_fresh] by blast
  then show ?thesis by (metis is_ok_iff prod.collapse)
qed

lemma demo_step: "wf_reachable (snd (put_graph demo_mysql demo_de 5 demo_graph demo_db))"
proof -
  have "wf_reachable demo_db" by (rule reach_init) (simp add: wf_init_def demo_db_def)
  moreover have "wf_step demo_db (wf_exec demo_mysql demo_de (OpPutGraph 5 demo_graph) demo_db)"
    by (rule wf_stepI[OF demo_mysql_fresh])
  ultimately show ?thesis by (auto intro: reach_step)
qed

theorem stored_workflows_are_dags_witness:
  "acyclic (saved_edges (snd (put_graph demo_mysql demo_de 5 demo_graph demo_db)) 5)"
  using stored_workflows_are_dags[OF demo_step, of 5] by blast

text \<open>
  (C16) Round trip of the editor: when \<^verbatim>\<open>put_graph\<close> returns, the graph in its answer is
  the submitted one. Apart from database ids, the nodes are the submitted nodes in their
  order between the two virtual nodes, and the edges are the submitted ones followed by the
  edges that join nodes without predecessor or successor to \<^verbatim>\<open>start\<close> and \<^verbatim>\<open>end\<close>.
\<close>

theorem put_graph_reads_back:
  assumes "ids_fresh M" "put_graph M de i g d = (Ok wg, d')"
  shows "map drop_id (wg_nodes wg)
      = [start_graph_node (wg_workflow wg)] @ map drop_id (stored_nodes g) @ [end_graph_node (wg_workflow wg)]
    \<and> map drop_edge_id (wg_edges wg)
      = map drop_edge_id (stored_edges g) @ concat (map (virtual_edges (stored_edges g)) (stored_nodes g))"
proof (cases rule: put_graph_cases[of M de i g d])
  case (unchanged r)
  then show ?thesis using assms(2) by auto
next
  case (saved w caps d'')
  have acc: "accepted_graph g" using saved(2) by (rule put_graph_checks_accepted)
  obtain rows erows where "saved_as i g d d'' rows erows"
    by (rule put_graph_tx_saves[OF saved(3) assms(1) acc])
  then show ?thesis using fetch_saved_graph[of i g d d'' rows erows M wg] saved(1) assms(2) by simp
qed

theorem put_graph_reads_back_witness:
  "\<exists>wg d'. put_graph demo_mysql demo_de 5 demo_graph demo_db = (Ok wg, d')
     \<and> map drop_edge_id (wg_edges wg) = [demo_edge ''a'' ''b'', demo_edge ''start'' ''a'', demo_edge ''b'' ''end'']"
proof -
  obtain wg d' where run: "put_graph demo_mysql demo_de 5 demo_graph demo_db = (Ok wg, d')"
    using demo_put_graph_ok by blast
  have "map drop_edge_id (stored_edges demo_graph)
      @ concat (map (virtual_edges (stored_edges demo_graph)) (stored_nodes demo_graph))
      = [demo_edge ''a'' ''b'', demo_edge ''start'' ''a'', demo_edge ''b'' ''end'']"
    by code_simp
  then show ?thesis using put_graph_reads_back[OF demo_mysql_fresh run] run by auto
qed




text \<open>
  Deleting a workflow that does not exist is answered with an internal error, not
  with \<^verbatim>\<open>NotFound\<close>: the row lock is taken with \<^verbatim>\<open>fetch_one\<close>. Nothing changes.
\<close>

theorem delete_missing_workflow:
  assumes "i \<notin> wf_id ` set (tb_workflows d)"
    "rejects M TxBegin d = None" "rejects M (LockWorkflow i) d = None"
  shows "delete M i d = (Err (Internal (''workflow lock: '' @ row_not_found_text)), d)"
proof -
  have "find_key wf_id (tb_workflows d) i = None" using assms(1) by (simp add: find_key_None_iff)
  then show ?thesis using assms(2,3) by (simp add: delete_def delete_tx_def run_sql_def)
qed

theorem delete_missing_workflow_witness:
  "delete demo_mysql 6 demo_db = (Err (Internal (''workflow lock: '' @ row_not_found_text)), demo_db)"
  by (rule delete_missing_workflow) (simp_all add: demo_db_def demo_workflow_def demo_mysql_def)

end
