(* ===== verification/Workflow_Executor.thy ===== *)
theory Workflow_Executor
  imports Context_Updates Context_Serialize Workflow_Graph HC_Text
begin

text \<open>
  Execution of a stored workflow (\<^verbatim>\<open>crates/hiveweb/src/runtime/workflow/\<close>): the inputs of a node
  from its specification, the two kinds of nodes, the layered scheduler and the result of
  the run. What lies outside the modelled code is the record \<open>exec_env\<close>: function metadata,
  builtin handlers, the plugin invoker, the language model, serde and the regular expression
  that drops unresolved placeholders. The nodes of a layer run one after the other in the
  order of the layer, one of the schedules of \<^verbatim>\<open>join_all\<close>; the clock of a run is one reading.
\<close>

section \<open>Errors and environment\<close>

datatype workflow_error =
    WfNotFound int
  | LoadFailed string
  | MissingFunction string
  | WfTimeout nat
  | NodeFailure string string
  | MappingResolve string string string

record function_meta =
  fm_kind :: int
  fm_identifier :: string
  fm_plugin_id :: "int option"
  fm_plugin_export :: "string option"

record dispatch_ctx =
  dc_agent_id :: int
  dc_plugin_id :: int
  dc_function_id :: "int option"
  dc_permissions :: "string list"

datatype llm_outcome = NoProvider | LlmError "string option" | LlmReply "string option"

record exec_env =
  ee_fetch_meta :: "int \<Rightarrow> string + function_meta option"
  ee_builtin :: "string \<Rightarrow> (json \<Rightarrow> agent_context \<Rightarrow> (string + json) \<times> agent_context) option"
  ee_invoke :: "int \<Rightarrow> string \<Rightarrow> string \<Rightarrow> dispatch_ctx \<Rightarrow> string + string"
  ee_to_string :: "json \<Rightarrow> string + string"
  ee_from_str :: "string \<Rightarrow> json option"
  ee_display :: "json \<Rightarrow> string"
  ee_strip_placeholders :: "string \<Rightarrow> string"
  ee_llm :: "string option \<Rightarrow> string \<Rightarrow> llm_outcome"
  ee_serde :: ctx_serde
  ee_snapshot_value :: "context_snapshot \<Rightarrow> json option"
  ee_source :: "json \<Rightarrow> input_source option"
  ee_hash_order :: "string list \<Rightarrow> string list"
  ee_now :: timestamp
  ee_agent_id :: int
  ee_permissions :: "string list"

definition utf8 :: "nat list \<Rightarrow> string" where
  "utf8 bs = map char_of bs"

definition quoted :: "string \<Rightarrow> string" where
  "quoted s = [char_of (39::nat)] @ s @ [char_of (39::nat)]"

section \<open>Function nodes\<close>

type_synonym node_result = "(workflow_error, string \<times> json) result \<times> agent_context"

definition execute_builtin_function ::
  "exec_env \<Rightarrow> string \<Rightarrow> string \<Rightarrow> json \<Rightarrow> agent_context \<Rightarrow> node_result" where
  "execute_builtin_function E node_key identifier input c =
     (case ee_builtin E identifier of
        None \<Rightarrow> (Err (NodeFailure node_key (''unknown builtin: '' @ identifier)), c)
      | Some handler \<Rightarrow>
          (case handler (inject_agent_context_snapshot (ee_serde E) input c) c of
             (Inl msg, c') \<Rightarrow> (Err (NodeFailure node_key msg), c')
           | (Inr out, c') \<Rightarrow> (Ok (node_key, out), c')))"

definition execute_plugin_function ::
  "exec_env \<Rightarrow> string \<Rightarrow> int \<Rightarrow> int option \<Rightarrow> string option \<Rightarrow> json \<Rightarrow> agent_context \<Rightarrow> node_result" where
  "execute_plugin_function E node_key function_id plugin export input c =
     (case plugin of
        None \<Rightarrow> (Err (NodeFailure node_key ''custom function missing plugin_id''), c)
      | Some plugin_id \<Rightarrow>
     (case export of
        None \<Rightarrow> (Err (NodeFailure node_key ''custom function missing plugin_export''), c)
      | Some ex \<Rightarrow>
     (case ee_to_string E (inject_agent_context_snapshot (ee_serde E) input c) of
        Inl e \<Rightarrow> (Err (NodeFailure node_key (''input serialize: '' @ e)), c)
      | Inr input_json \<Rightarrow>
     (case ee_invoke E plugin_id ex input_json
             \<lparr>dc_agent_id = ee_agent_id E, dc_plugin_id = plugin_id, dc_function_id = Some function_id,
              dc_permissions = ee_permissions E\<rparr> of
        Inl e \<Rightarrow> (Err (NodeFailure node_key (''plugin invoke: '' @ e)), c)
      | Inr out_str \<Rightarrow>
          (Ok (node_key, case ee_from_str E out_str of None \<Rightarrow> JString out_str | Some v \<Rightarrow> v), c)))))"

definition execute_function_node ::
  "exec_env \<Rightarrow> string \<Rightarrow> int \<Rightarrow> json \<Rightarrow> agent_context \<Rightarrow> node_result" where
  "execute_function_node E node_key function_id input c =
     (case ee_fetch_meta E function_id of
        Inl e \<Rightarrow> (Err (NodeFailure node_key (''function fetch: '' @ e)), c)
      | Inr None \<Rightarrow>
          (Err (NodeFailure node_key (''function id='' @ show_int function_id @ '' not found'')), c)
      | Inr (Some meta) \<Rightarrow>
          if fm_kind meta = 1 then execute_builtin_function E node_key (fm_identifier meta) input c
          else execute_plugin_function E node_key function_id (fm_plugin_id meta) (fm_plugin_export meta)
                 input c)"

section \<open>Answer nodes\<close>

function str_replace :: "string \<Rightarrow> string \<Rightarrow> string \<Rightarrow> string" where
  "str_replace p r s =
     (if s = [] \<or> p = [] then s
      else if starts_with p s then r @ str_replace p r (drop (length p) s)
      else hd s # str_replace p r (tl s))"
  by pat_completeness auto
termination
  by (relation "measure (\<lambda>(p, r, s). length s)") auto

declare str_replace.simps [simp del]

fun replacement_text :: "exec_env \<Rightarrow> json \<Rightarrow> string" where
  "replacement_text E (JString s) = s"
| "replacement_text E v = ee_display E v"

fun replace_vars :: "exec_env \<Rightarrow> jmap \<Rightarrow> string \<Rightarrow> string" where
  "replace_vars E [] s = s"
| "replace_vars E ((k, v) # m) s =
     replace_vars E m (str_replace (''{'' @ k @ ''}'') (replacement_text E v) s)"

definition resolve_template_vars :: "exec_env \<Rightarrow> string \<Rightarrow> json \<Rightarrow> string" where
  "resolve_template_vars E template input =
     ee_strip_placeholders E
       (case as_object input of None \<Rightarrow> template | Some m \<Rightarrow> replace_vars E m template)"

text \<open>The two speaker names, in UTF-8, and the line of one message.\<close>

definition user_a :: string where
  "user_a = utf8 [0xE7, 0x94, 0xA8, 0xE6, 0x88, 0xB7, 0x41]"

definition user_b :: string where
  "user_b = utf8 [0xE7, 0x94, 0xA8, 0xE6, 0x88, 0xB7, 0x42]"

definition history_line :: "json \<Rightarrow> string option" where
  "history_line msg =
     (let role = str_field msg ''role'' '''';
          content = str_field msg ''content'' ''''
      in if content = '''' then None
         else Some ((if role = ''user'' then user_a else if role = ''assistant'' then user_b else role)
                    @ '': '' @ content))"

definition build_history_context :: "agent_context \<Rightarrow> nat \<Rightarrow> string" where
  "build_history_context c limit =
     (case get_messages c of
        Ok (m # ms) \<Rightarrow>
          (let messages = m # ms;
               recent = (if 0 < limit \<and> limit < length messages
                         then drop (length messages - limit) messages else messages)
           in join ''\<newline>'' (List.map_filter history_line recent))
      | _ \<Rightarrow> user_a @ '':'' @ ui_raw_text (ac_user_input c))"

fun answer_text :: "llm_outcome \<Rightarrow> string \<Rightarrow> string" where
  "answer_text (LlmReply content) _ = (case content of None \<Rightarrow> '''' | Some s \<Rightarrow> s)"
| "answer_text (LlmError content) _ =
     ''[LLM '' @ utf8 [0xE8, 0xB0, 0x83, 0xE7, 0x94, 0xA8, 0xE5, 0xA4, 0xB1, 0xE8, 0xB4, 0xA5] @ '': ''
     @ (case content of None \<Rightarrow> ''unknown LLM error'' | Some s \<Rightarrow> s) @ '']''"
| "answer_text NoProvider prompt =
     ''['' @ utf8 [0xE6, 0x97, 0xA0, 0xE5, 0x8F, 0xAF, 0xE7, 0x94, 0xA8, 0xE6, 0xA8, 0xA1, 0xE5, 0x9E, 0x8B]
     @ ''] '' @ utf8 [0xE7, 0xB3, 0xBB, 0xE7, 0xBB, 0x9F, 0xE6, 0x8F, 0x90, 0xE7, 0xA4, 0xBA]
     @ '': '' @ prompt @ ''\<newline>''"

definition answer_input :: "agent_context \<Rightarrow> json \<Rightarrow> json \<Rightarrow> json" where
  "answer_input c config input =
     (case input of
        JObject m \<Rightarrow>
          (let m1 = obj_remove ''_agent_context'' m;
               window = nat (max 0 (case Option.bind (jget config ''history_window'') as_i64 of
                                      None \<Rightarrow> 0 | Some n \<Rightarrow> n));
               history = build_history_context c window
           in if 0 < window \<and> history \<noteq> ''''
              then JObject (obj_insert ''context'' (JString history) m1) else JObject m1)
      | _ \<Rightarrow> input)"

definition execute_answer_node ::
  "exec_env \<Rightarrow> string \<Rightarrow> json \<Rightarrow> json option \<Rightarrow> agent_context \<Rightarrow> node_result" where
  "execute_answer_node E node_key input node_config c =
     (let config = (case node_config of None \<Rightarrow> JNull | Some v \<Rightarrow> v);
          system_prompt = str_field config ''system_prompt'' ''You are a helpful assistant.'';
          model_preset = (case Option.bind (jget config ''model_preset'') as_str of
                            Some s \<Rightarrow> if s = '''' then None else Some s | None \<Rightarrow> None);
          prompt = resolve_template_vars E system_prompt (answer_input c config input)
      in (Ok (node_key, JObject [(''answer'', JString (answer_text (ee_llm E model_preset prompt) prompt)),
                                 (''model_preset'', opt_string model_preset)]), c))"

section \<open>Dispatch of one node\<close>

definition execute_node ::
  "exec_env \<Rightarrow> int option \<Rightarrow> string \<Rightarrow> json option \<Rightarrow> string \<Rightarrow> json \<Rightarrow> agent_context \<Rightarrow> node_result" where
  "execute_node E function_id ntype config node_key input c =
     (if ntype = ''generate_answer_node'' then execute_answer_node E node_key input config c
      else if ntype = ''function_node''
      then (case function_id of
              None \<Rightarrow> (Err (NodeFailure node_key ''function node has no function_id''), c)
            | Some f \<Rightarrow> execute_function_node E node_key f input c)
      else (Err (NodeFailure node_key (''unsupported node type: '' @ ntype)), c))"

lemma execute_node_key:
  "execute_node E f t cfg k inp c = (Ok (nk, out), c') \<Longrightarrow> nk = k"
  by (auto simp: execute_node_def execute_answer_node_def execute_function_node_def
      execute_builtin_function_def execute_plugin_function_def Let_def
      split: if_splits option.splits sum.splits prod.splits)

lemma execute_node_no_panic: "fst (execute_node E f t cfg k inp c) \<noteq> Panic"
  by (auto simp: execute_node_def execute_answer_node_def execute_function_node_def
      execute_builtin_function_def execute_plugin_function_def Let_def
      split: option.splits sum.splits prod.splits)

section \<open>Inputs of a node\<close>

type_synonym field_result = "(string \<times> string, json) result"

fun walk_path :: "json \<Rightarrow> string list \<Rightarrow> string \<Rightarrow> field_result" where
  "walk_path cur [] field = Ok cur"
| "walk_path cur (seg # segs) field =
     (case as_object cur of
        None \<Rightarrow> Err (field, ''cannot index into non-object at segment '' @ quoted seg)
      | Some m \<Rightarrow>
          (case obj_get m seg of
             None \<Rightarrow> Err (field, ''path segment '' @ quoted seg @ '' not found in upstream output'')
           | Some v \<Rightarrow> walk_path v segs field))"

definition resolve_dot_path :: "json \<Rightarrow> string \<Rightarrow> string \<Rightarrow> field_result" where
  "resolve_dot_path root path field = walk_path root (split_char CHR ''.'' path) field"

definition resolve_from_external :: "string \<Rightarrow> string \<Rightarrow> json \<Rightarrow> field_result" where
  "resolve_from_external key field ext =
     (case as_object ext of
        None \<Rightarrow> Err (field, ''external_input is not a JSON object'')
      | Some m \<Rightarrow> Ok (case obj_get m key of None \<Rightarrow> JString '''' | Some v \<Rightarrow> v))"

definition find_by_str :: "string \<Rightarrow> string \<Rightarrow> json list \<Rightarrow> json option" where
  "find_by_str name key xs = find (\<lambda>r. Option.bind (jget r name) as_str = Some key) xs"

definition resolve_record :: "string \<Rightarrow> string \<Rightarrow> json \<Rightarrow> string \<Rightarrow> field_result" where
  "resolve_record cat_name key snap field =
     (case Option.bind (jget snap cat_name) as_array of
        None \<Rightarrow> Err (field, ''snapshot.'' @ cat_name @ '' missing'')
      | Some arr \<Rightarrow>
          (case Option.bind (find_by_str ''key'' key arr) (\<lambda>r. jget r ''value'') of
             None \<Rightarrow> Err (field, cat_name @ ''.'' @ key @ '' not found'')
           | Some v \<Rightarrow> Ok v))"

definition resolve_user_input :: "string \<Rightarrow> string option \<Rightarrow> json \<Rightarrow> string \<Rightarrow> field_result" where
  "resolve_user_input key sub_key snap field =
     (case Option.bind (jget snap ''user_input'') as_object of
        None \<Rightarrow> Err (field, ''snapshot.user_input missing'')
      | Some ui \<Rightarrow>
          (case sub_key of
             Some sk \<Rightarrow>
               (case Option.bind (obj_get ui ''metadata'') as_object of
                  None \<Rightarrow> Err (field, ''snapshot.user_input.metadata missing'')
                | Some md \<Rightarrow>
                    (case obj_get md sk of
                       None \<Rightarrow> Err (field, ''user_input.metadata.'' @ sk @ '' not found'')
                     | Some v \<Rightarrow> Ok v))
           | None \<Rightarrow>
               (case obj_get ui key of
                  None \<Rightarrow> Err (field, ''user_input.'' @ key @ '' not found'')
                | Some v \<Rightarrow> Ok v)))"

definition resolve_extension :: "string \<Rightarrow> string option \<Rightarrow> json \<Rightarrow> string \<Rightarrow> field_result" where
  "resolve_extension key sub_key snap field =
     (case Option.bind (jget snap ''extensions'') as_array of
        None \<Rightarrow> Err (field, ''snapshot.extensions missing'')
      | Some arr \<Rightarrow>
          (case find_by_str ''id'' key arr of
             None \<Rightarrow> Err (field, ''extension id '' @ quoted key @ '' not found'')
           | Some ext \<Rightarrow>
               (case sub_key of
                  None \<Rightarrow> Err (field, ''extensions requires sub_key (field name)'')
                | Some sk \<Rightarrow>
                    (case jget ext sk of
                       None \<Rightarrow> Err (field, ''extension '' @ quoted key @ '' has no field '' @ quoted sk)
                     | Some v \<Rightarrow> Ok v))))"

fun resolve_from_agent_context ::
  "agent_context_category \<Rightarrow> string \<Rightarrow> string option \<Rightarrow> json \<Rightarrow> string \<Rightarrow> field_result" where
  "resolve_from_agent_context AcUserInput key sub_key snap field = resolve_user_input key sub_key snap field"
| "resolve_from_agent_context AcEntities key sub_key snap field = resolve_record ''entities'' key snap field"
| "resolve_from_agent_context AcToolResults key sub_key snap field = resolve_record ''tool_results'' key snap field"
| "resolve_from_agent_context AcStateChanges key sub_key snap field = resolve_record ''state_changes'' key snap field"
| "resolve_from_agent_context AcExtensions key sub_key snap field = resolve_extension key sub_key snap field"

fun resolve_source ::
  "(string \<rightharpoonup> json) \<Rightarrow> json \<Rightarrow> json \<Rightarrow> string \<Rightarrow> input_source \<Rightarrow> field_result" where
  "resolve_source outputs ext snap field (Upstream node_key sub) =
     (if node_key = ''start''
      then resolve_from_external (case sub of None \<Rightarrow> field | Some k \<Rightarrow> k) field ext
      else case outputs node_key of
             None \<Rightarrow> Err (field, ''upstream node '' @ quoted node_key @ '' produced no output'')
           | Some up \<Rightarrow> (case sub of Some path \<Rightarrow> resolve_dot_path up path field | None \<Rightarrow> Ok up))"
| "resolve_source outputs ext snap field (Custom v) = Ok v"
| "resolve_source outputs ext snap field (AgentCtx category key sub_key) =
     resolve_from_agent_context category key sub_key snap field"

fun build_fields ::
  "(string \<rightharpoonup> json) \<Rightarrow> json \<Rightarrow> json \<Rightarrow> input_spec \<Rightarrow> jmap \<Rightarrow> field_result" where
  "build_fields outputs ext snap [] input = Ok (JObject input)"
| "build_fields outputs ext snap ((field, src) # rest) input =
     bind_res (resolve_source outputs ext snap field src) (\<lambda>v.
       build_fields outputs ext snap rest (obj_insert field v input))"

definition build_input_from_spec ::
  "exec_env \<Rightarrow> input_spec \<Rightarrow> (string \<rightharpoonup> json) \<Rightarrow> json \<Rightarrow> agent_context \<Rightarrow> field_result" where
  "build_input_from_spec E spec outputs ext c =
     build_fields outputs ext (agent_context_snapshot_value (ee_serde E) c) spec []"

text \<open>The text of a parse error is \<^verbatim>\<open>parse node_config.input_mapping: \<dots>\<close>; its tail is serde's.\<close>

definition build_node_input ::
  "exec_env \<Rightarrow> string \<Rightarrow> string \<Rightarrow> (string \<rightharpoonup> json) \<Rightarrow> json \<Rightarrow> json option \<Rightarrow> agent_context
   \<Rightarrow> field_result" where
  "build_node_input E ntype node_key outputs ext config c =
     (if ntype = ''function_node'' \<or> ntype = ''generate_answer_node''
      then (case parse_input_spec (ee_source E)
                   (case config_field config ''input_mapping'' of None \<Rightarrow> JNull | Some v \<Rightarrow> v) of
              Err e \<Rightarrow> Err (node_key, ''parse node_config.input_mapping: '')
            | Panic \<Rightarrow> Panic
            | Ok spec \<Rightarrow> build_input_from_spec E spec outputs ext c)
      else Ok ext)"

section \<open>Topology\<close>

text \<open>
  The lookup tables that \<^verbatim>\<open>execute\<close> collects from the rows (a later row wins in a
  \<^verbatim>\<open>HashMap\<close>), the in-degrees and the successor lists.
\<close>

definition collect :: "('a \<Rightarrow> 'k) \<Rightarrow> ('a \<Rightarrow> 'v) \<Rightarrow> 'a list \<Rightarrow> 'k \<rightharpoonup> 'v" where
  "collect key val xs = map_of (rev (map (\<lambda>x. (key x, val x)) xs))"

fun count_edges ::
  "(int \<rightharpoonup> string) \<Rightarrow> workflow_edge list \<Rightarrow> (string \<rightharpoonup> nat) \<Rightarrow> (string \<rightharpoonup> string list)
   \<Rightarrow> (string \<rightharpoonup> nat) \<times> (string \<rightharpoonup> string list)" where
  "count_edges id_to_key [] ind suc = (ind, suc)"
| "count_edges id_to_key (e # es) ind suc =
     (case (id_to_key (we_src_node_id e), id_to_key (we_dst_node_id e)) of
        (Some a, Some b) \<Rightarrow>
          count_edges id_to_key es
            (ind(b \<mapsto> (case ind b of None \<Rightarrow> 0 | Some n \<Rightarrow> n) + 1))
            (suc(a \<mapsto> (case suc a of None \<Rightarrow> [] | Some l \<Rightarrow> l) @ [b]))
      | _ \<Rightarrow> count_edges id_to_key es ind suc)"

record topology =
  tp_function :: "string \<rightharpoonup> int option"
  tp_type :: "string \<rightharpoonup> string"
  tp_config :: "string \<rightharpoonup> json option"
  tp_succ :: "string \<rightharpoonup> string list"
  tp_external :: json

definition initial_indegree :: "node_row list \<Rightarrow> workflow_edge list \<Rightarrow> string \<rightharpoonup> nat" where
  "initial_indegree nodes edges =
     fst (count_edges (collect nr_id nr_node_key nodes) edges (collect nr_node_key (\<lambda>_. 0) nodes) Map.empty)"

definition successors :: "node_row list \<Rightarrow> workflow_edge list \<Rightarrow> string \<rightharpoonup> string list" where
  "successors nodes edges =
     snd (count_edges (collect nr_id nr_node_key nodes) edges (collect nr_node_key (\<lambda>_. 0) nodes) Map.empty)"

definition topology_of :: "node_row list \<Rightarrow> workflow_edge list \<Rightarrow> json \<Rightarrow> topology" where
  "topology_of nodes edges ext =
     \<lparr>tp_function = collect nr_node_key nr_function_id nodes,
      tp_type = collect nr_node_key nr_node_type nodes,
      tp_config = collect nr_node_key nr_node_config nodes,
      tp_succ = successors nodes edges,
      tp_external = ext\<rparr>"

section \<open>The scheduler\<close>

record run_state =
  rs_outputs :: "string \<rightharpoonup> json"
  rs_inputs :: "string \<rightharpoonup> json"
  rs_contexts :: "string \<rightharpoonup> json"
  rs_remaining :: "string list"
  rs_indegree :: "string \<rightharpoonup> nat"

definition node_type_of :: "topology \<Rightarrow> string \<Rightarrow> string" where
  "node_type_of X k = (case tp_type X k of None \<Rightarrow> ''function_node'' | Some t \<Rightarrow> t)"

definition node_config_of :: "topology \<Rightarrow> string \<Rightarrow> json option" where
  "node_config_of X k = (case tp_config X k of None \<Rightarrow> None | Some c \<Rightarrow> c)"

definition layer_of :: "run_state \<Rightarrow> string list" where
  "layer_of st =
     filter (\<lambda>k. (case rs_indegree st k of None \<Rightarrow> 0 | Some n \<Rightarrow> n) = 0) (rs_remaining st)"

fun clean_input :: "json \<Rightarrow> json" where
  "clean_input (JObject m) = JObject (obj_remove ''_agent_context'' m)"
| "clean_input v = v"

definition context_value :: "exec_env \<Rightarrow> agent_context \<Rightarrow> json" where
  "context_value E c =
     (case snapshot c (ee_now E) of
        Ok s \<Rightarrow> (case ee_snapshot_value E s of None \<Rightarrow> JNull | Some v \<Rightarrow> v)
      | _ \<Rightarrow> JNull)"

text \<open>The first loop over a layer: resolve inputs; nothing runs before all are resolved.\<close>

fun prepare_layer ::
  "exec_env \<Rightarrow> topology \<Rightarrow> agent_context \<Rightarrow> string list \<Rightarrow> run_state
   \<Rightarrow> (workflow_error, (string \<times> int option \<times> json) list \<times> run_state) result" where
  "prepare_layer E X c [] st = Ok ([], st)"
| "prepare_layer E X c (k # ks) st =
     (case build_node_input E (node_type_of X k) k (rs_outputs st) (tp_external X) (node_config_of X k) c of
        Err (field, msg) \<Rightarrow> Err (MappingResolve k field msg)
      | Panic \<Rightarrow> Panic
      | Ok input \<Rightarrow>
          (case tp_function X k of
             None \<Rightarrow> Err (MissingFunction k)
           | Some f \<Rightarrow>
               bind_res (prepare_layer E X c ks
                   (st\<lparr>rs_inputs := (rs_inputs st)(k \<mapsto> clean_input input),
                       rs_contexts := (rs_contexts st)(k \<mapsto> context_value E c)\<rparr>))
                 (\<lambda>(ps, st'). Ok ((k, f, input) # ps, st'))))"

fun run_nodes ::
  "exec_env \<Rightarrow> topology \<Rightarrow> (string \<times> int option \<times> json) list \<Rightarrow> agent_context
   \<Rightarrow> (workflow_error, string \<times> json) result list \<times> agent_context" where
  "run_nodes E X [] c = ([], c)"
| "run_nodes E X ((k, f, input) # ps) c =
     (let (r, c1) = execute_node E f (node_type_of X k) (node_config_of X k) k input c;
          (rs, c2) = run_nodes E X ps c1
      in (r # rs, c2))"

fun decrement :: "(string \<rightharpoonup> nat) \<Rightarrow> string list \<Rightarrow> string \<rightharpoonup> nat" where
  "decrement ind [] = ind"
| "decrement ind (k # ks) =
     decrement (case ind k of None \<Rightarrow> ind | Some n \<Rightarrow> ind(k \<mapsto> n - 1)) ks"

definition complete_node :: "topology \<Rightarrow> string \<Rightarrow> json \<Rightarrow> run_state \<Rightarrow> run_state" where
  "complete_node X k out st = st\<lparr>
      rs_outputs := (rs_outputs st)(k \<mapsto> out),
      rs_remaining := removeAll k (rs_remaining st),
      rs_indegree := decrement (rs_indegree st) (case tp_succ X k of None \<Rightarrow> [] | Some ds \<Rightarrow> ds)\<rparr>"

text \<open>The second loop: apply each output in order, stop at the first failed node.\<close>

fun absorb ::
  "exec_env \<Rightarrow> topology \<Rightarrow> (workflow_error, string \<times> json) result list \<Rightarrow> run_state \<Rightarrow> agent_context
   \<Rightarrow> (workflow_error, run_state) result \<times> agent_context" where
  "absorb E X [] st c = (Ok st, c)"
| "absorb E X (Ok (k, out) # rs) st c =
     (case apply_agent_context_updates (ee_now E) out c of
        (Panic, c') \<Rightarrow> (Panic, c')
      | (_, c') \<Rightarrow> absorb E X rs (complete_node X k out st) c')"
| "absorb E X (Err e # rs) st c = (Err e, c)"
| "absorb E X (Panic # rs) st c = (Panic, c)"

definition topology_error :: workflow_error where
  "topology_error = NodeFailure ''<topology>''
     (''no schedulable node '' @ utf8 [0xE2, 0x80, 0x94] @ '' possible cycle slipped past save-time check'')"

lemma prepare_layer_keys:
  "prepare_layer E X c ks st = Ok (ps, st') \<Longrightarrow>
     map fst ps = ks \<and> rs_remaining st' = rs_remaining st \<and> rs_outputs st' = rs_outputs st
     \<and> rs_indegree st' = rs_indegree st"
  by (induction ks arbitrary: st ps) (auto split: result.splits option.splits prod.splits)

lemma run_nodes_keys:
  assumes "run_nodes E X ps c = (rs, c')"
  shows "length rs = length ps" "i < length ps \<Longrightarrow> rs ! i = Ok (k, out) \<Longrightarrow> k = fst (ps ! i)"
  using assms
proof (induction ps arbitrary: c rs c' i)
  case (Cons p ps)
  { case 1 then show ?case using Cons.IH(1) by (cases p) (auto simp: Let_def split: prod.splits)
  next
    case 2 then show ?case
      using Cons.IH(2) by (cases p; cases i) (auto simp: Let_def dest: execute_node_key split: prod.splits) }
qed auto

lemma absorb_remaining:
  "absorb E X rs st c = (Ok st', c') \<Longrightarrow> set (rs_remaining st') \<subseteq> set (rs_remaining st)
     \<and> length (rs_remaining st') \<le> length (rs_remaining st)"
proof (induction E X rs st c rule: absorb.induct)
  case (2 E X k out rs st c)
  obtain r c1 where "apply_agent_context_updates (ee_now E) out c = (r, c1)" by force
  then show ?case
    using 2 by (cases r) (auto simp: complete_node_def intro: le_trans[OF _ length_removeAll_less_eq])
qed auto

lemma absorb_shrinks:
  assumes "absorb E X (Ok (k, out) # rs) st c = (Ok st', c')" "k \<in> set (rs_remaining st)"
  shows "length (rs_remaining st') < length (rs_remaining st)"
proof -
  obtain r c1 where "apply_agent_context_updates (ee_now E) out c = (r, c1)" by force
  then have "absorb E X rs (complete_node X k out st) c1 = (Ok st', c')"
    using assms(1) by (cases r) auto
  then have "length (rs_remaining st') \<le> length (removeAll k (rs_remaining st))"
    using absorb_remaining by (fastforce simp: complete_node_def)
  also have "\<dots> < length (rs_remaining st)" using assms(2) by (rule length_removeAll_less)
  finally show ?thesis .
qed

lemma layer_shrinks:
  assumes "layer_of st \<noteq> []" "prepare_layer E X c (layer_of st) st = Ok (ps, st1)"
    "run_nodes E X ps c = (rs, c1)" "absorb E X rs st1 c1 = (Ok st2, c2)"
  shows "length (rs_remaining st2) < length (rs_remaining st)"
proof -
  note prep = prepare_layer_keys[OF assms(2)]
  obtain k ks where layer: "layer_of st = k # ks" using assms(1) by (cases "layer_of st") auto
  then obtain p qs where ps: "ps = p # qs" "fst p = k" using prep by (cases ps) auto
  obtain r rs' where rs: "rs = r # rs'" using run_nodes_keys(1)[OF assms(3)] ps by (cases rs) auto
  obtain nk out where r: "r = Ok (nk, out)" using assms(4) rs by (cases r) auto
  have "nk = k" using run_nodes_keys(2)[OF assms(3), of 0 nk out] rs r ps by simp
  moreover have "k \<in> set (rs_remaining st1)"
    using prep layer by (metis filter_is_subset layer_of_def list.set_intros(1) subsetD)
  ultimately show ?thesis using absorb_shrinks assms(4) rs r prep by metis
qed

function run_layers ::
  "exec_env \<Rightarrow> topology \<Rightarrow> run_state \<Rightarrow> agent_context
   \<Rightarrow> (workflow_error, run_state) result \<times> agent_context" where
  "run_layers E X st c =
     (if rs_remaining st = [] then (Ok st, c)
      else if layer_of st = [] then (Err topology_error, c)
      else (case prepare_layer E X c (layer_of st) st of
              Err e \<Rightarrow> (Err e, c)
            | Panic \<Rightarrow> (Panic, c)
            | Ok (ps, st1) \<Rightarrow>
                (case run_nodes E X ps c of (rs, c1) \<Rightarrow>
                   (case absorb E X rs st1 c1 of
                      (Ok st2, c2) \<Rightarrow> run_layers E X st2 c2
                    | (Err e, c2) \<Rightarrow> (Err e, c2)
                    | (Panic, c2) \<Rightarrow> (Panic, c2)))))"
  by pat_completeness auto
termination
  by (relation "measure (\<lambda>(E, X, st, c). length (rs_remaining st))") (auto dest: layer_shrinks[OF _ _ sym sym])

declare run_layers.simps [simp del]

section \<open>The entry point\<close>

record execute_outcome =
  eo_end_value :: json
  eo_node_results :: "string \<rightharpoonup> json"
  eo_node_inputs :: "string \<rightharpoonup> json"
  eo_node_agent_contexts :: "string \<rightharpoonup> json"

definition schema_fields :: "json \<Rightarrow> string list" where
  "schema_fields schema =
     (case Option.bind (jget schema ''properties'') as_object of None \<Rightarrow> [] | Some m \<Rightarrow> map fst m)"

fun take_fields :: "jmap \<Rightarrow> string list \<Rightarrow> jmap \<Rightarrow> jmap" where
  "take_fields obj [] acc = acc"
| "take_fields obj (f # fs) acc =
     take_fields obj fs (case obj_get obj f of None \<Rightarrow> acc | Some v \<Rightarrow> obj_insert f v acc)"

fun collect_end :: "(string \<rightharpoonup> json) \<Rightarrow> string list \<Rightarrow> string list \<Rightarrow> jmap \<Rightarrow> jmap" where
  "collect_end outputs flds [] acc = acc"
| "collect_end outputs flds (k # ks) acc =
     collect_end outputs flds ks
       (case Option.bind (outputs k) as_object of None \<Rightarrow> acc | Some obj \<Rightarrow> take_fields obj flds acc)"

fun strip_updates :: "json \<Rightarrow> json" where
  "strip_updates (JObject m) = JObject (obj_remove ''_agent_context_updates'' m)"
| "strip_updates v = v"

definition build_end_output ::
  "node_row list \<Rightarrow> (string \<rightharpoonup> string list) \<Rightarrow> (string \<rightharpoonup> json) \<Rightarrow> json option \<Rightarrow> json" where
  "build_end_output nodes suc outputs output_schema =
     (case output_schema of
        Some schema \<Rightarrow>
          (let flds = schema_fields schema;
               final_keys = filter (\<lambda>k. suc k = None) (map nr_node_key nodes)
           in if flds = [] then JObject [] else JObject (collect_end outputs flds final_keys []))
      | None \<Rightarrow>
          (case outputs ''end'' of None \<Rightarrow> JObject [] | Some v \<Rightarrow> strip_updates v))"

definition initial_state :: "exec_env \<Rightarrow> node_row list \<Rightarrow> workflow_edge list \<Rightarrow> run_state" where
  "initial_state E nodes edges =
     \<lparr>rs_outputs = Map.empty, rs_inputs = Map.empty, rs_contexts = Map.empty,
      rs_remaining = ee_hash_order E (remdups (map nr_node_key nodes)),
      rs_indegree = initial_indegree nodes edges\<rparr>"

definition load_sql :: "mysql \<Rightarrow> sql_stmt \<Rightarrow> db \<Rightarrow> (workflow_error, unit) result" where
  "load_sql M stmt d = (case rejects M stmt d of None \<Rightarrow> Ok () | Some e \<Rightarrow> Err (LoadFailed e))"

text \<open>
  \<^verbatim>\<open>timeout_ms as u64\<close> sign-extends a negative value. Whether the timer of the run fires
  before the last layer is done is the argument \<open>timed_out\<close>.
\<close>

definition timeout_u64 :: "int \<Rightarrow> nat" where
  "timeout_u64 t = nat (t mod 2 ^ 64)"

definition execute ::
  "exec_env \<Rightarrow> mysql \<Rightarrow> db \<Rightarrow> int \<Rightarrow> json \<Rightarrow> agent_context \<Rightarrow> bool
   \<Rightarrow> (workflow_error, execute_outcome) result" where
  "execute E M d i ext c timed_out =
     bind_res (load_sql M (SelWorkflow i) d) (\<lambda>_.
     case find_key wf_id (tb_workflows d) i of
       None \<Rightarrow> Err (WfNotFound i)
     | Some w \<Rightarrow>
     bind_res (load_sql M (SelNodes i) d) (\<lambda>_.
     bind_res (load_sql M (SelEdges i) d) (\<lambda>_.
     let nodes = nodes_of d i; edges = edges_of d i; X = topology_of nodes edges ext in
     if timed_out then Err (WfTimeout (timeout_u64 (wf_timeout_ms w)))
     else bind_res (fst (run_layers E X (initial_state E nodes edges) c)) (\<lambda>st.
       Ok \<lparr>eo_end_value = build_end_output nodes (tp_succ X) (rs_outputs st) (wf_output_schema w),
           eo_node_results = rs_outputs st,
           eo_node_inputs = rs_inputs st,
           eo_node_agent_contexts = rs_contexts st\<rparr>))))"

section \<open>In-degrees count unfinished predecessors\<close>

definition key_pairs :: "(int \<rightharpoonup> string) \<Rightarrow> workflow_edge list \<Rightarrow> (string \<times> string) list" where
  "key_pairs m es = List.map_filter (\<lambda>e.
     case (m (we_src_node_id e), m (we_dst_node_id e)) of
       (Some a, Some b) \<Rightarrow> Some (a, b) | _ \<Rightarrow> None) es"

definition pending :: "(string \<times> string) list \<Rightarrow> string set \<Rightarrow> string \<Rightarrow> nat" where
  "pending es R k = length (filter (\<lambda>p. snd p = k \<and> fst p \<in> R) es)"

definition succ_list :: "(string \<times> string) list \<Rightarrow> string \<Rightarrow> string list" where
  "succ_list es k = map snd (filter (\<lambda>p. fst p = k) es)"

abbreviation or_nil :: "'a list option \<Rightarrow> 'a list" where
  "or_nil x \<equiv> (case x of None \<Rightarrow> [] | Some l \<Rightarrow> l)"

abbreviation or_zero :: "nat option \<Rightarrow> nat" where
  "or_zero x \<equiv> (case x of None \<Rightarrow> 0 | Some n \<Rightarrow> n)"

lemma key_pairs_simps [simp]:
  "key_pairs m [] = []"
  "key_pairs m (e # es) =
     (case (m (we_src_node_id e), m (we_dst_node_id e)) of
        (Some a, Some b) \<Rightarrow> (a, b) # key_pairs m es | _ \<Rightarrow> key_pairs m es)"
  by (auto simp: key_pairs_def List.map_filter_def split: option.split)

lemma count_edges_indegree:
  "or_zero (fst (count_edges m es ind suc) k) = or_zero (ind k) + pending (key_pairs m es) UNIV k
   \<and> dom (fst (count_edges m es ind suc)) = dom ind \<union> snd ` set (key_pairs m es)"
proof (induction es arbitrary: ind suc)
  case (Cons e es)
  show ?case
    by (cases "m (we_src_node_id e)"; cases "m (we_dst_node_id e)")
      (auto simp: Cons pending_def)
qed (simp add: pending_def)

lemma count_edges_succ:
  "or_nil (snd (count_edges m es ind suc) k) = or_nil (suc k) @ succ_list (key_pairs m es) k"
proof (induction es arbitrary: ind suc)
  case (Cons e es)
  show ?case
    by (cases "m (we_src_node_id e)"; cases "m (we_dst_node_id e)")
      (simp_all add: Cons succ_list_def)
qed (simp add: succ_list_def)

lemma decrement_count: "decrement ind ks j = map_option (\<lambda>n. n - count_list ks j) (ind j)"
proof (induction ks arbitrary: ind)
  case (Cons k ks)
  show ?case by (cases "ind k"; cases "ind j") (auto simp: Cons)
qed (simp add: option.map_ident)

lemma count_succ_list: "count_list (succ_list es k) j = length (filter (\<lambda>p. fst p = k \<and> snd p = j) es)"
  by (induction es) (auto simp: succ_list_def)

lemma pending_split:
  "k \<in> R \<Longrightarrow> pending es R j = count_list (succ_list es k) j + pending es (R - {k}) j"
  unfolding count_succ_list by (induction es) (auto simp: pending_def)

lemma pending_zero: "pending es R k = 0 \<longleftrightarrow> (\<forall>p. (p, k) \<in> set es \<longrightarrow> p \<notin> R)"
  by (auto simp: pending_def filter_empty_conv)

section \<open>The invariant of a run\<close>

definition topology_ok :: "topology \<Rightarrow> string set \<Rightarrow> (string \<times> string) list \<Rightarrow> bool" where
  "topology_ok X keys es \<longleftrightarrow>
     (\<forall>k. or_nil (tp_succ X k) = succ_list es k) \<and> (\<forall>k \<in> keys. tp_function X k \<noteq> None)
   \<and> fst ` set es \<subseteq> keys \<and> snd ` set es \<subseteq> keys"

definition run_inv :: "string set \<Rightarrow> (string \<times> string) list \<Rightarrow> run_state \<Rightarrow> bool" where
  "run_inv keys es st \<longleftrightarrow>
     distinct (rs_remaining st) \<and> set (rs_remaining st) \<subseteq> keys
   \<and> dom (rs_outputs st) = keys - set (rs_remaining st)
   \<and> (\<forall>k \<in> keys. rs_indegree st k = Some (pending es (set (rs_remaining st)) k))"

lemma run_inv_complete:
  assumes "topology_ok X keys es" "run_inv keys es st" "k \<in> set (rs_remaining st)"
  shows "run_inv keys es (complete_node X k out st)"
proof -
  have "rs_indegree (complete_node X k out st) j = Some (pending es (set (rs_remaining st) - {k}) j)"
    if "j \<in> keys" for j
  proof -
    have "rs_indegree (complete_node X k out st) j
        = Some (pending es (set (rs_remaining st)) j - count_list (succ_list es k) j)"
      using assms(1,2) that by (simp add: complete_node_def decrement_count topology_ok_def run_inv_def)
    then show ?thesis using pending_split[OF assms(3), of es j] by simp
  qed
  then show ?thesis
    using assms(2,3) by (auto simp: run_inv_def complete_node_def distinct_removeAll)
qed

definition results_for :: "(workflow_error, string \<times> json) result list \<Rightarrow> string list \<Rightarrow> bool" where
  "results_for rs ks \<longleftrightarrow> list_all2 (\<lambda>r k. \<forall>nk out. r = Ok (nk, out) \<longrightarrow> nk = k) rs ks"

lemma results_for_run_nodes: "run_nodes E X ps c = (rs, c') \<Longrightarrow> results_for rs (map fst ps)"
proof (induction ps arbitrary: c rs c')
  case (Cons p ps)
  obtain k f inp where p: "p = (k, f, inp)" by (cases p)
  obtain r c1 where r: "execute_node E f (node_type_of X k) (node_config_of X k) k inp c = (r, c1)" by force
  obtain rs' c2 where rs': "run_nodes E X ps c1 = (rs', c2)" by force
  have "rs = r # rs'" using Cons.prems p r rs' by simp
  moreover have "\<forall>nk out. r = Ok (nk, out) \<longrightarrow> nk = k" using execute_node_key r by blast
  ultimately show ?case using Cons.IH[OF rs'] p by (simp add: results_for_def)
qed (simp add: results_for_def)

lemma absorb_step:
  assumes "absorb E X (r # rs) st c = (Ok st', c')"
  obtains k out c1 where "r = Ok (k, out)" "absorb E X rs (complete_node X k out st) c1 = (Ok st', c')"
proof (cases r)
  case (Ok p)
  obtain k out where p: "p = (k, out)" by (cases p)
  obtain r1 c1 where "apply_agent_context_updates (ee_now E) out c = (r1, c1)" by force
  then have "absorb E X rs (complete_node X k out st) c1 = (Ok st', c')"
    using assms Ok p by (cases r1) auto
  then show ?thesis using that Ok p by blast
qed (use assms in auto)

lemma absorb_inv:
  assumes "topology_ok X keys es"
  shows "absorb E X rs st c = (Ok st', c') \<Longrightarrow> results_for rs ks \<Longrightarrow> distinct ks
    \<Longrightarrow> set ks \<subseteq> set (rs_remaining st) \<Longrightarrow> run_inv keys es st \<Longrightarrow> run_inv keys es st'"
proof (induction rs arbitrary: st c ks)
  case (Cons r rs)
  obtain k out c1 where r: "r = Ok (k, out)"
    and rest: "absorb E X rs (complete_node X k out st) c1 = (Ok st', c')"
    using Cons.prems(1) by (rule absorb_step)
  obtain ks' where ks: "ks = k # ks'" "results_for rs ks'"
    using Cons.prems(2) r by (auto simp: results_for_def list_all2_Cons1)
  have "run_inv keys es (complete_node X k out st)"
    using Cons.prems(4,5) ks(1) by (intro run_inv_complete[OF assms]) auto
  moreover have "set ks' \<subseteq> set (rs_remaining (complete_node X k out st))"
    using Cons.prems(3,4) ks(1) by (auto simp: complete_node_def)
  ultimately show ?case using Cons.IH[OF rest ks(2)] Cons.prems(3) ks(1) by simp
qed simp

lemma layer_inv:
  assumes "topology_ok X keys es" "run_inv keys es st"
    "prepare_layer E X c (layer_of st) st = Ok (ps, st1)" "run_nodes E X ps c = (rs, c1)"
    "absorb E X rs st1 c1 = (Ok st2, c2)"
  shows "run_inv keys es st2"
proof -
  note prep = prepare_layer_keys[OF assms(3)]
  have "run_inv keys es st1" using assms(2) prep by (simp add: run_inv_def)
  moreover have "results_for rs (layer_of st)" using results_for_run_nodes[OF assms(4)] prep by simp
  moreover have "distinct (layer_of st)" "set (layer_of st) \<subseteq> set (rs_remaining st1)"
    using assms(2) prep by (auto simp: layer_of_def run_inv_def)
  ultimately show ?thesis using absorb_inv[OF assms(1,5)] by blast
qed

text \<open>A node of a layer has all its predecessors done, and there is always such a node.\<close>

lemma layer_ready:
  assumes "topology_ok X keys es" "run_inv keys es st" "k \<in> set (layer_of st)" "(p, k) \<in> set es"
  shows "p \<in> dom (rs_outputs st)"
proof -
  have "k \<in> keys" using assms(2,3) by (auto simp: layer_of_def run_inv_def)
  then have "pending es (set (rs_remaining st)) k = 0"
    using assms(2,3) by (auto simp: layer_of_def run_inv_def)
  then have "p \<notin> set (rs_remaining st)" using assms(4) by (simp add: pending_zero)
  moreover have "p \<in> keys" using assms(1,4) by (force simp: topology_ok_def)
  ultimately show ?thesis using assms(2) by (simp add: run_inv_def)
qed

definition has_sources :: "(string \<times> string) list \<Rightarrow> bool" where
  "has_sources es \<longleftrightarrow> (\<forall>N. N \<noteq> {} \<longrightarrow> (\<exists>n \<in> N. \<forall>p. (p, n) \<in> set es \<longrightarrow> p \<notin> N))"

lemma layer_nonempty:
  assumes "has_sources es" "run_inv keys es st" "rs_remaining st \<noteq> []"
  shows "layer_of st \<noteq> []"
proof -
  obtain n where "n \<in> set (rs_remaining st)" "\<forall>p. (p, n) \<in> set es \<longrightarrow> p \<notin> set (rs_remaining st)"
    using assms(1,3) unfolding has_sources_def by (metis set_empty)
  then have "n \<in> set (layer_of st)"
    using assms(2) by (auto simp: layer_of_def run_inv_def pending_zero)
  then show ?thesis by auto
qed

section \<open>How a run ends\<close>

text \<open>
  An error that one node is answerable for: its input could not be resolved although the
  outputs of all its predecessors were there, or executing it failed.
\<close>

definition node_error ::
  "exec_env \<Rightarrow> topology \<Rightarrow> string set \<Rightarrow> (string \<times> string) set \<Rightarrow> workflow_error \<Rightarrow> bool" where
  "node_error E X keys es e \<longleftrightarrow>
     (\<exists>k \<in> keys.
        (\<exists>outs c field msg. dom outs \<subseteq> keys \<and> (\<forall>p. (p, k) \<in> es \<longrightarrow> p \<in> dom outs)
           \<and> build_node_input E (node_type_of X k) k outs (tp_external X) (node_config_of X k) c = Err (field, msg)
           \<and> e = MappingResolve k field msg)
      \<or> (\<exists>f input c c'. execute_node E f (node_type_of X k) (node_config_of X k) k input c = (Err e, c')))"

lemma walk_path_no_panic [simp]: "walk_path v segs field \<noteq> Panic"
  by (induction v segs field rule: walk_path.induct) (auto split: option.splits)

lemma resolve_source_no_panic [simp]: "resolve_source outs ext snap field src \<noteq> Panic"
proof (cases src)
  case (AgentCtx cat key sub)
  then show ?thesis
    by (cases cat) (auto simp: resolve_user_input_def resolve_record_def resolve_extension_def split: option.splits)
qed (auto simp: resolve_from_external_def resolve_dot_path_def split: option.splits)

lemma build_fields_no_panic [simp]: "build_fields outs ext snap spec inp \<noteq> Panic"
  by (induction outs ext snap spec inp rule: build_fields.induct) auto

lemma build_node_input_no_panic [simp]: "build_node_input E t k outs ext cfg c \<noteq> Panic"
  by (auto simp: build_node_input_def build_input_from_spec_def split: result.splits)

lemma prepare_layer_no_panic [simp]: "prepare_layer E X c ks st \<noteq> Panic"
  by (induction E X c ks st rule: prepare_layer.induct) (auto split: result.splits option.splits prod.splits)

lemma prepare_layer_error:
  assumes "topology_ok X keys es"
  shows "prepare_layer E X c ks st = Err e \<Longrightarrow> set ks \<subseteq> keys \<Longrightarrow> dom (rs_outputs st) \<subseteq> keys
    \<Longrightarrow> \<forall>k \<in> set ks. \<forall>p. (p, k) \<in> set es \<longrightarrow> p \<in> dom (rs_outputs st) \<Longrightarrow> node_error E X keys (set es) e"
proof (induction ks arbitrary: st)
  case (Cons k ks)
  show ?case
  proof (cases "build_node_input E (node_type_of X k) k (rs_outputs st) (tp_external X) (node_config_of X k) c")
    case (Err fm)
    then have "e = MappingResolve k (fst fm) (snd fm)" using Cons.prems(1) by (cases fm) simp
    then show ?thesis using Err Cons.prems(2-) unfolding node_error_def
      by (intro bexI[of _ k] disjI1 exI[of _ "rs_outputs st"] exI[of _ c] exI[of _ "fst fm"] exI[of _ "snd fm"]) auto
  next
    case (Ok inp)
    obtain f where f: "tp_function X k = Some f"
      using assms Cons.prems(2) by (force simp: topology_ok_def)
    show ?thesis
      using Cons.IH[of "st\<lparr>rs_inputs := (rs_inputs st)(k \<mapsto> clean_input inp),
                       rs_contexts := (rs_contexts st)(k \<mapsto> context_value E c)\<rparr>"] Cons.prems Ok f
      by (auto split: prod.splits)
  qed simp
qed simp

lemma run_nodes_error:
  "run_nodes E X ps c = (rs, c') \<Longrightarrow> Err e \<in> set rs \<Longrightarrow> fst ` set ps \<subseteq> keys \<Longrightarrow> node_error E X keys es e"
proof (induction ps arbitrary: c rs c')
  case (Cons p ps)
  obtain k f inp where p: "p = (k, f, inp)" by (cases p)
  obtain r c1 where r: "execute_node E f (node_type_of X k) (node_config_of X k) k inp c = (r, c1)" by force
  obtain rs' c2 where rs': "run_nodes E X ps c1 = (rs', c2)" by force
  have "rs = r # rs'" using Cons.prems(1) p r rs' by simp
  then consider "r = Err e" | "Err e \<in> set rs'" using Cons.prems(2) by auto
  then show ?case
  proof cases
    case 1
    then show ?thesis using r p Cons.prems(3) unfolding node_error_def
      by (intro bexI[of _ k] disjI2 exI[of _ f] exI[of _ inp] exI[of _ c] exI[of _ c1]) auto
  next
    case 2
    then show ?thesis using Cons.IH[OF rs'] Cons.prems(3) by simp
  qed
qed simp

lemma run_nodes_no_panic: "run_nodes E X ps c = (rs, c') \<Longrightarrow> Panic \<notin> set rs"
proof (induction ps arbitrary: c rs c')
  case (Cons p ps)
  obtain k f inp where p: "p = (k, f, inp)" by (cases p)
  obtain r c1 where r: "execute_node E f (node_type_of X k) (node_config_of X k) k inp c = (r, c1)" by force
  obtain rs' c2 where rs': "run_nodes E X ps c1 = (rs', c2)" by force
  have "rs = r # rs'" using Cons.prems(1) p r rs' by simp
  then show ?case using Cons.IH[OF rs'] execute_node_no_panic r by (metis fst_conv set_ConsD)
qed simp

lemma absorb_error: "absorb E X rs st c = (Err e, c') \<Longrightarrow> Err e \<in> set rs"
  by (induction E X rs st c rule: absorb.induct) (auto split: prod.splits result.splits)

text \<open>
  The builtin handlers are outside the model. What the scheduler relies on is that a
  handler leaves the locks of the context unpoisoned.
\<close>

definition handlers_ok :: "exec_env \<Rightarrow> bool" where
  "handlers_ok E \<longleftrightarrow>
     (\<forall>name handler input c r c'. ee_builtin E name = Some handler \<longrightarrow> handler input c = (r, c')
        \<longrightarrow> ctx_sound c \<longrightarrow> ctx_sound c')"

lemma execute_node_sound:
  assumes "handlers_ok E" "ctx_sound c" "execute_node E f t cfg k inp c = (r, c')"
  shows "ctx_sound c'"
  using assms
  by (auto simp: execute_node_def execute_answer_node_def execute_function_node_def
      execute_builtin_function_def execute_plugin_function_def Let_def handlers_ok_def
      split: if_splits option.splits sum.splits prod.splits)

lemma run_nodes_sound:
  "run_nodes E X ps c = (rs, c') \<Longrightarrow> handlers_ok E \<Longrightarrow> ctx_sound c \<Longrightarrow> ctx_sound c'"
proof (induction ps arbitrary: c rs c')
  case (Cons p ps)
  obtain k f inp where p: "p = (k, f, inp)" by (cases p)
  obtain r c1 where r: "execute_node E f (node_type_of X k) (node_config_of X k) k inp c = (r, c1)" by force
  obtain rs' c2 where rs': "run_nodes E X ps c1 = (rs', c2)" by force
  have "c' = c2" using Cons.prems(1) p r rs' by simp
  then show ?case using Cons.IH[OF rs'] execute_node_sound[OF Cons.prems(2,3) r] Cons.prems(2) by simp
qed simp

lemma absorb_sound:
  "absorb E X rs st c = (r, c') \<Longrightarrow> ctx_sound c \<Longrightarrow> Panic \<notin> set rs \<Longrightarrow> ctx_sound c' \<and> r \<noteq> Panic"
proof (induction E X rs st c rule: absorb.induct)
  case (2 E X k out rs st c)
  obtain u c1 where u: "apply_agent_context_updates (ee_now E) out c = (u, c1)" by force
  have "u \<noteq> Panic" "ctx_sound c1" using ctx_runD[OF ctx_run_updates 2(4) u] by auto
  then show ?case using 2 u by (cases u) auto
qed auto

lemma run_layers_outcome:
  assumes "topology_ok X keys es" "has_sources es" "handlers_ok E"
  shows "run_inv keys es st \<Longrightarrow> ctx_sound c \<Longrightarrow>
    (\<exists>st' c'. run_layers E X st c = (Ok st', c') \<and> dom (rs_outputs st') = keys)
    \<or> (\<exists>e c'. run_layers E X st c = (Err e, c') \<and> node_error E X keys (set es) e)"
proof (induction "length (rs_remaining st)" arbitrary: st c rule: less_induct)
  case less
  show ?case
  proof (cases "rs_remaining st = []")
    case True
    then show ?thesis using less.prems(1) by (simp add: run_layers.simps[of E X st c] run_inv_def)
  next
    case False
    have layer: "layer_of st \<noteq> []" using layer_nonempty[OF assms(2) less.prems(1) False] .
    have layer_keys: "set (layer_of st) \<subseteq> keys" and outs: "dom (rs_outputs st) \<subseteq> keys"
      using less.prems(1) by (auto simp: layer_of_def run_inv_def)
    show ?thesis
    proof (cases "prepare_layer E X c (layer_of st) st")
      case (Err e)
      then have "node_error E X keys (set es) e"
        using prepare_layer_error[OF assms(1) Err layer_keys outs]
          layer_ready[OF assms(1) less.prems(1)] by blast
      then show ?thesis using Err False layer by (simp add: run_layers.simps[of E X st c])
    next
      case (Ok prep)
      obtain ps st1 where prep: "prep = (ps, st1)" by (cases prep)
      obtain rs c1 where rs: "run_nodes E X ps c = (rs, c1)" by force
      obtain r c2 where r: "absorb E X rs st1 c1 = (r, c2)" by force
      have step: "run_layers E X st c =
          (case r of Ok st2 \<Rightarrow> run_layers E X st2 c2 | Err e \<Rightarrow> (Err e, c2) | Panic \<Rightarrow> (Panic, c2))"
        using Ok prep rs r False layer by (simp add: run_layers.simps[of E X st c] split: result.split)
      have sound: "ctx_sound c2" "r \<noteq> Panic"
        using absorb_sound[OF r] run_nodes_sound[OF rs assms(3) less.prems(2)] run_nodes_no_panic[OF rs] by auto
      show ?thesis
      proof (cases r)
        case (Err e)
        have "fst ` set ps \<subseteq> keys"
          using prepare_layer_keys[OF Ok[unfolded prep]] layer_keys by (metis list.set_map)
        then have "node_error E X keys (set es) e"
          using run_nodes_error[OF rs absorb_error[OF r[unfolded Err]]] by blast
        then show ?thesis using step Err by simp
      next
        case (Ok st2)
        note prep' = \<open>prepare_layer E X c (layer_of st) st = Ok prep\<close>[unfolded prep]
        have "run_inv keys es st2" using layer_inv[OF assms(1) less.prems(1) prep' rs r[unfolded Ok]] .
        moreover have "length (rs_remaining st2) < length (rs_remaining st)"
          using layer_shrinks[OF layer prep' rs r[unfolded Ok]] .
        ultimately show ?thesis using less.hyps[of st2 c2] sound(1) step Ok by simp
      qed (use sound in simp)
    qed simp
  qed
qed

section \<open>Stored graphs\<close>

lemma collect_dom: "dom (collect key val xs) = key ` set xs"
  by (simp add: collect_def dom_map_of_conv_image_fst image_image)

lemma collect_distinct:
  assumes "distinct (map key xs)" "x \<in> set xs"
  shows "collect key val xs (key x) = Some (val x)"
proof -
  have "distinct (map fst (rev (map (\<lambda>x. (key x, val x)) xs)))"
    using assms(1) by (simp add: comp_def rev_map[symmetric])
  then show ?thesis unfolding collect_def using assms(2) by (intro map_of_is_SomeI) auto
qed

lemma key_pairs_saved:
  assumes "graph_ok d i"
  shows "set (key_pairs (collect nr_id nr_node_key (nodes_of d i)) (edges_of d i)) = saved_edges d i"
proof -
  let ?m = "collect nr_id nr_node_key (nodes_of d i)"
  have ids: "distinct (map nr_id (nodes_of d i))" using assms by (simp add: graph_ok_def)
  have look: "?m x = Some k \<longleftrightarrow> (\<exists>r \<in> set (nodes_of d i). nr_id r = x \<and> nr_node_key r = k)" for x k
  proof
    assume x: "?m x = Some k"
    then have "x \<in> nr_id ` set (nodes_of d i)" using collect_dom[of nr_id nr_node_key "nodes_of d i"] by blast
    then obtain r where r: "r \<in> set (nodes_of d i)" "nr_id r = x" by blast
    then have "?m x = Some (nr_node_key r)" using collect_distinct[OF ids r(1), of nr_node_key] by simp
    then show "\<exists>r \<in> set (nodes_of d i). nr_id r = x \<and> nr_node_key r = k" using r x by auto
  qed (use collect_distinct[OF ids, of _ nr_node_key] in auto)
  have pairs: "(a, b) \<in> set (key_pairs ?m es) \<longleftrightarrow>
      (\<exists>e \<in> set es. ?m (we_src_node_id e) = Some a \<and> ?m (we_dst_node_id e) = Some b)" for es a b
    by (induction es) (auto split: option.splits)
  have "(a, b) \<in> set (key_pairs ?m (edges_of d i)) \<longleftrightarrow> (a, b) \<in> saved_edges d i" for a b
    unfolding pairs look saved_edges_def mem_Collect_eq prod.inject by metis
  then show ?thesis by auto
qed

interpretation stored_graph: dag_check "\<lambda>(d, i). saved_edges d i" "\<lambda>(d, i). graph_ok d i"
proof
  fix g :: "db \<times> int"
  show "(case g of (d, i) \<Rightarrow> graph_ok d i) \<Longrightarrow> acyclic (case g of (d, i) \<Rightarrow> saved_edges d i)"
    by (auto simp: graph_ok_def)
  have "finite (saved_edges d i)" for d i
    by (rule finite_subset[of _ "nr_node_key ` set (nodes_of d i) \<times> nr_node_key ` set (nodes_of d i)"])
      (auto simp: saved_edges_def)
  then show "finite (case g of (d, i) \<Rightarrow> saved_edges d i)"
    by (simp split: prod.split)
qed

lemma stored_has_sources:
  assumes "graph_ok d i"
  shows "has_sources (key_pairs (collect nr_id nr_node_key (nodes_of d i)) (edges_of d i))"
  unfolding has_sources_def key_pairs_saved[OF assms]
proof (intro allI impI)
  fix N :: "string set"
  assume "N \<noteq> {}"
  then obtain n where "n \<in> N" "\<And>p. (p, n) \<in> saved_edges d i \<Longrightarrow> p \<notin> N"
    using stored_graph.exists_ready_node[of "(d, i)" N] assms by auto
  then show "\<exists>n \<in> N. \<forall>p. (p, n) \<in> saved_edges d i \<longrightarrow> p \<notin> N" by blast
qed

definition keys_of :: "db \<Rightarrow> int \<Rightarrow> string set" where
  "keys_of d i = nr_node_key ` set (nodes_of d i)"

lemma stored_topology_ok:
  assumes "graph_ok d i"
  shows "topology_ok (topology_of (nodes_of d i) (edges_of d i) ext) (keys_of d i)
    (key_pairs (collect nr_id nr_node_key (nodes_of d i)) (edges_of d i))"
proof -
  have "saved_edges d i \<subseteq> keys_of d i \<times> keys_of d i" by (auto simp: saved_edges_def keys_of_def)
  moreover have "tp_function (topology_of (nodes_of d i) (edges_of d i) ext) k \<noteq> None" if "k \<in> keys_of d i" for k
    using that collect_dom[of nr_node_key nr_function_id "nodes_of d i"]
    by (auto simp: topology_of_def keys_of_def)
  ultimately show ?thesis
    using key_pairs_saved[OF assms] by (auto simp: topology_ok_def topology_of_def successors_def count_edges_succ)
qed

text \<open>A hash set enumerates each of its elements once.\<close>

definition order_ok :: "exec_env \<Rightarrow> bool" where
  "order_ok E \<longleftrightarrow> (\<forall>xs. distinct xs \<longrightarrow> distinct (ee_hash_order E xs) \<and> set (ee_hash_order E xs) = set xs)"

lemma initial_run_inv:
  assumes "graph_ok d i" "order_ok E"
  shows "run_inv (keys_of d i) (key_pairs (collect nr_id nr_node_key (nodes_of d i)) (edges_of d i))
    (initial_state E (nodes_of d i) (edges_of d i))"
proof -
  let ?es = "key_pairs (collect nr_id nr_node_key (nodes_of d i)) (edges_of d i)"
  have ord: "distinct (ee_hash_order E (remdups (map nr_node_key (nodes_of d i))))"
    "set (ee_hash_order E (remdups (map nr_node_key (nodes_of d i)))) = keys_of d i"
    using assms(2) by (auto simp: order_ok_def keys_of_def)
  have "fst ` set ?es \<subseteq> keys_of d i"
    unfolding key_pairs_saved[OF assms(1)] by (auto simp: saved_edges_def keys_of_def)
  then have univ: "pending ?es UNIV k = pending ?es (keys_of d i) k" for k
    unfolding pending_def by (intro arg_cong[where f = length] filter_cong) auto
  have zero: "collect nr_node_key (\<lambda>_. 0) (nodes_of d i) k = Some (0::nat)" if "k \<in> keys_of d i" for k
    using that collect_distinct[of nr_node_key "nodes_of d i" _ "\<lambda>_. 0"] assms(1)
    by (auto simp: keys_of_def graph_ok_def)
  have "initial_indegree (nodes_of d i) (edges_of d i) k = Some (pending ?es (keys_of d i) k)"
    if "k \<in> keys_of d i" for k
  proof -
    note count = count_edges_indegree[of "collect nr_id nr_node_key (nodes_of d i)" "edges_of d i"
        "collect nr_node_key (\<lambda>_. 0) (nodes_of d i)" Map.empty k, folded initial_indegree_def]
    have "k \<in> dom (initial_indegree (nodes_of d i) (edges_of d i))" using count zero[OF that] by blast
    then obtain n where "initial_indegree (nodes_of d i) (edges_of d i) k = Some n" by blast
    then show ?thesis using conjunct1[OF count] zero[OF that] univ[of k] by simp
  qed
  then show ?thesis using ord by (simp add: run_inv_def initial_state_def)
qed

section \<open>Nodes of a finished run had their inputs\<close>

lemma prepare_layer_inputs:
  "prepare_layer E X c ks st = Ok (ps, st') \<Longrightarrow> k \<in> set ks \<Longrightarrow>
     is_ok (build_node_input E (node_type_of X k) k (rs_outputs st) (tp_external X) (node_config_of X k) c)"
proof (induction ks arbitrary: st ps st')
  case (Cons j ks)
  then obtain inp f ps' st1 where
    j: "build_node_input E (node_type_of X j) j (rs_outputs st) (tp_external X) (node_config_of X j) c = Ok inp"
    "prepare_layer E X c ks (st\<lparr>rs_inputs := (rs_inputs st)(j \<mapsto> clean_input inp),
                       rs_contexts := (rs_contexts st)(j \<mapsto> context_value E c)\<rparr>) = Ok (ps', st1)"
    by (auto split: result.splits option.splits prod.splits)
  show ?case
  proof (cases "k = j")
    case False
    then show ?thesis using Cons.IH[OF j(2)] Cons.prems(2) by simp
  qed (use j(1) in simp)
qed simp

lemma absorb_keeps_others:
  "absorb E X rs st c = (Ok st', c') \<Longrightarrow> results_for rs ks
     \<Longrightarrow> set (rs_remaining st) \<subseteq> set ks \<union> set (rs_remaining st')"
proof (induction rs arbitrary: st c ks)
  case (Cons r rs)
  obtain k out c1 where r: "r = Ok (k, out)"
    and rest: "absorb E X rs (complete_node X k out st) c1 = (Ok st', c')"
    using Cons.prems(1) by (rule absorb_step)
  obtain ks' where ks: "ks = k # ks'" "results_for rs ks'"
    using Cons.prems(2) r by (auto simp: results_for_def list_all2_Cons1)
  show ?case using Cons.IH[OF rest ks(2)] ks(1) by (auto simp: complete_node_def)
qed (simp add: results_for_def)

lemma run_layers_inputs:
  assumes "topology_ok X keys es"
  shows "run_inv keys es st \<Longrightarrow> run_layers E X st c = (Ok st', c') \<Longrightarrow> k \<in> set (rs_remaining st)
    \<Longrightarrow> \<exists>outs c. dom outs \<subseteq> keys
      \<and> is_ok (build_node_input E (node_type_of X k) k outs (tp_external X) (node_config_of X k) c)"
proof (induction "length (rs_remaining st)" arbitrary: st c rule: less_induct)
  case less
  have ne: "rs_remaining st \<noteq> []" "layer_of st \<noteq> []"
    using less.prems by (auto simp: run_layers.simps[of E X st c] split: if_splits)
  obtain ps st1 where prep: "prepare_layer E X c (layer_of st) st = Ok (ps, st1)"
    using less.prems(2) ne by (auto simp: run_layers.simps[of E X st c] split: result.splits prod.splits)
  obtain rs c1 where rs: "run_nodes E X ps c = (rs, c1)" by force
  obtain st2 c2 where ab: "absorb E X rs st1 c1 = (Ok st2, c2)" and rest: "run_layers E X st2 c2 = (Ok st', c')"
    using less.prems(2) ne prep rs
    by (cases "absorb E X rs st1 c1") (auto simp: run_layers.simps[of E X st c] split: result.splits)
  show ?case
  proof (cases "k \<in> set (layer_of st)")
    case True
    then show ?thesis
      using prepare_layer_inputs[OF prep] less.prems(1) by (intro exI[of _ "rs_outputs st"] exI[of _ c])
        (auto simp: run_inv_def)
  next
    case False
    have "results_for rs (layer_of st)"
      using results_for_run_nodes[OF rs] prepare_layer_keys[OF prep] by simp
    then have "k \<in> set (rs_remaining st2)"
      using absorb_keeps_others[OF ab] prepare_layer_keys[OF prep] less.prems(3) False by auto
    then show ?thesis
      using less.hyps[OF layer_shrinks[OF ne(2) prep rs ab] layer_inv[OF assms less.prems(1) prep rs ab] rest]
      by blast
  qed
qed

lemma build_fields_upstream:
  "(field, Upstream k sub) \<in> set spec \<Longrightarrow> k \<noteq> ''start'' \<Longrightarrow> outs k = None
     \<Longrightarrow> \<not> is_ok (build_fields outs ext snap spec inp)"
  by (induction outs ext snap spec inp rule: build_fields.induct) auto

lemma execute_unfold:
  assumes "\<forall>s. rejects M s d = None" "find_key wf_id (tb_workflows d) i = Some w"
  shows "execute E M d i ext c False =
     bind_res (fst (run_layers E (topology_of (nodes_of d i) (edges_of d i) ext)
                 (initial_state E (nodes_of d i) (edges_of d i)) c)) (\<lambda>st.
       Ok \<lparr>eo_end_value = build_end_output (nodes_of d i) (successors (nodes_of d i) (edges_of d i))
             (rs_outputs st) (wf_output_schema w),
           eo_node_results = rs_outputs st, eo_node_inputs = rs_inputs st,
           eo_node_agent_contexts = rs_contexts st\<rparr>)"
  using assms by (simp add: execute_def load_sql_def Let_def topology_of_def)

lemma take_fields_keys: "fst ` set (take_fields obj fs acc) \<subseteq> set fs \<union> fst ` set acc"
proof (induction fs arbitrary: acc)
  case (Cons f fs)
  show ?case
  proof (cases "obj_get obj f")
    case None
    then show ?thesis using Cons[of acc] by simp blast
  next
    case (Some v)
    then show ?thesis using Cons[of "obj_insert f v acc"] by simp
  qed
qed simp

lemma collect_end_keys: "fst ` set (collect_end outs fs ks acc) \<subseteq> set fs \<union> fst ` set acc"
proof (induction ks arbitrary: acc)
  case (Cons k ks)
  show ?case
  proof (cases "Option.bind (outs k) as_object")
    case None
    then show ?thesis using Cons[of acc] by simp
  next
    case (Some obj)
    then show ?thesis using Cons[of "take_fields obj fs acc"] take_fields_keys[of obj fs acc] by simp blast
  qed
qed simp

lemma stored_execute_cases:
  assumes "wf_reachable d" "ctx_reachable c" "handlers_ok E" "order_ok E"
    and "\<forall>s. rejects M s d = None" "find_key wf_id (tb_workflows d) i = Some w"
  obtains (finished) st :: run_state where "execute E M d i ext c False = Ok
      \<lparr>eo_end_value = build_end_output (nodes_of d i) (successors (nodes_of d i) (edges_of d i))
             (rs_outputs st) (wf_output_schema w),
       eo_node_results = rs_outputs st, eo_node_inputs = rs_inputs st,
       eo_node_agent_contexts = rs_contexts st\<rparr>" "dom (rs_outputs st) = keys_of d i"
  | (failed) e where "execute E M d i ext c False = Err e"
      "node_error E (topology_of (nodes_of d i) (edges_of d i) ext) (keys_of d i) (saved_edges d i) e"
proof -
  have ok: "graph_ok d i" using wf_store.inv_reach[OF assms(1)] by simp
  have sound: "ctx_sound c" using clean_sys.inv_reach[OF assms(2)] by simp
  note outcome = run_layers_outcome[OF stored_topology_ok[OF ok, of ext] stored_has_sources[OF ok] assms(3)
        initial_run_inv[OF ok assms(4)] sound, unfolded key_pairs_saved[OF ok]]
  from outcome show ?thesis
  proof (elim disjE exE conjE)
    fix st c'
    assume "run_layers E (topology_of (nodes_of d i) (edges_of d i) ext)
      (initial_state E (nodes_of d i) (edges_of d i)) c = (Ok st, c')" and "dom (rs_outputs st) = keys_of d i"
    then show ?thesis by (intro finished[of st]) (simp_all add: execute_unfold[OF assms(5,6)])
  next
    fix e c'
    assume "run_layers E (topology_of (nodes_of d i) (edges_of d i) ext)
      (initial_state E (nodes_of d i) (edges_of d i)) c = (Err e, c')"
      and "node_error E (topology_of (nodes_of d i) (edges_of d i) ext) (keys_of d i) (saved_edges d i) e"
    then show ?thesis by (intro failed[of e]) (simp_all add: execute_unfold[OF assms(5,6)])
  qed
qed

section \<open>Properties\<close>


definition demo_env :: exec_env where
  "demo_env =
     \<lparr>ee_fetch_meta = \<lambda>f. Inr (if f = 7 then Some \<lparr>fm_kind = 1, fm_identifier = ''echo'',
          fm_plugin_id = None, fm_plugin_export = None\<rparr> else None),
      ee_builtin = \<lambda>name. if name = ''echo'' then Some (\<lambda>input c. (Inr (JObject [(''text'', JString ''hi'')]), c)) else None,
      ee_invoke = \<lambda>_ _ _ _. Inl ''no plugin'',
      ee_to_string = \<lambda>_. Inr ''{}'', ee_from_str = \<lambda>_. None, ee_display = \<lambda>_. '''',
      ee_strip_placeholders = id, ee_llm = \<lambda>_ _. LlmReply (Some ''hello''),
      ee_serde = \<lparr>ser_string_map = \<lambda>_. [], ser_extension = \<lambda>_. None\<rparr>,
      ee_snapshot_value = \<lambda>_. None, ee_source = demo_de, ee_hash_order = rev, ee_now = 3,
      ee_agent_id = 1, ee_permissions = []\<rparr>"

lemma demo_env_ok: "handlers_ok demo_env" "order_ok demo_env"
  by (auto simp: handlers_ok_def order_ok_def demo_env_def split: if_splits)

definition demo_saved :: db where
  "demo_saved = snd (put_graph demo_mysql demo_de 5 demo_graph demo_db)"

lemma demo_saved_reachable: "wf_reachable demo_saved"
  unfolding demo_saved_def by (rule demo_step)

lemma demo_saved_workflow: "\<exists>w. find_key wf_id (tb_workflows demo_saved) 5 = Some w \<and> wf_output_schema w = None"
proof -
  have "map_option wf_output_schema (find_key wf_id (tb_workflows demo_saved) 5) = Some None"
    by code_simp
  then show ?thesis by auto
qed

lemma demo_ctx_new_reachable: "ctx_reachable (agent_context_new ''c'' demo_input default_config 0)"
  by (rule reach_init) (auto simp: ctx_init_def)

abbreviation demo_run :: "(workflow_error, execute_outcome) result" where
  "demo_run \<equiv> execute demo_env demo_mysql demo_saved 5 (JObject []) (agent_context_new ''c'' demo_input default_config 0) False"


text \<open>
  An input that names an unknown upstream node is not caught when the graph is saved,
  and every run of the workflow then fails: no run of a stored graph
  in which a node reads from a key that is neither \<^verbatim>\<open>start\<close> nor a node of the graph returns a
  result.
\<close>

theorem dangling_upstream_never_succeeds:
  assumes "wf_reachable d" "order_ok E" "\<forall>s. rejects M s d = None" "find_key wf_id (tb_workflows d) i = Some w"
    and r: "r \<in> set (nodes_of d i)" "nr_node_type r \<in> {''function_node'', ''generate_answer_node''}"
    and spec: "config_field (nr_node_config r) ''input_mapping'' = Some v" "parse_input_spec (ee_source E) v = Ok spec"
      "(field, Upstream k sub) \<in> set spec" "k \<noteq> ''start''" "k \<notin> keys_of d i"
  shows "\<not> is_ok (execute E M d i ext c False)"
proof
  assume "is_ok (execute E M d i ext c False)"
  then obtain st c' where run: "run_layers E (topology_of (nodes_of d i) (edges_of d i) ext)
      (initial_state E (nodes_of d i) (edges_of d i)) c = (Ok st, c')"
    by (auto simp: execute_unfold[OF assms(3,4)]) (metis prod.collapse)
  have ok: "graph_ok d i" using wf_store.inv_reach[OF assms(1)] by simp
  then have keys: "distinct (map nr_node_key (nodes_of d i))" by (simp add: graph_ok_def)
  have "nr_node_key r \<in> set (rs_remaining (initial_state E (nodes_of d i) (edges_of d i)))"
    using r(1) assms(2) by (simp add: initial_state_def order_ok_def)
  from run_layers_inputs[OF stored_topology_ok[OF ok] initial_run_inv[OF ok assms(2)] run this]
  obtain outs c1 where outs: "dom outs \<subseteq> keys_of d i"
    and inp: "is_ok (build_node_input E (node_type_of (topology_of (nodes_of d i) (edges_of d i) ext) (nr_node_key r))
        (nr_node_key r) outs ext (node_config_of (topology_of (nodes_of d i) (edges_of d i) ext) (nr_node_key r)) c1)"
    by (auto simp: topology_of_def)
  have "outs k = None" using outs spec(5) by blast
  then have "\<not> is_ok (build_fields outs ext snap spec [])" for snap
    using build_fields_upstream[OF spec(3,4)] by blast
  moreover have "node_type_of (topology_of (nodes_of d i) (edges_of d i) ext) (nr_node_key r) = nr_node_type r"
    "node_config_of (topology_of (nodes_of d i) (edges_of d i) ext) (nr_node_key r) = nr_node_config r"
    by (simp_all add: node_type_of_def node_config_of_def topology_of_def collect_distinct[OF keys r(1)])
  ultimately show False
    using inp r(2) spec(1,2) by (auto simp: build_node_input_def build_input_from_spec_def)
qed

text \<open>A decoder that reads a one-element array as an upstream reference.\<close>

definition ref_de :: "json \<Rightarrow> input_source option" where
  "ref_de v = (case v of JArray [JString k] \<Rightarrow> Some (Upstream k None) | _ \<Rightarrow> None)"

definition dangling_graph :: graph_put where
  "dangling_graph =
     \<lparr>gp_nodes = [demo_node ''a'' GenerateAnswerNode None
        (Some (JObject [(''input_mapping'', JObject [(''q'', JArray [JString ''ghost''])])]))],
      gp_edges = []\<rparr>"

definition dangling_db :: db where
  "dangling_db = snd (put_graph demo_mysql ref_de 5 dangling_graph demo_db)"

theorem dangling_upstream_never_succeeds_witness:
  "is_ok (fst (put_graph demo_mysql ref_de 5 dangling_graph demo_db))
   \<and> \<not> is_ok (execute (demo_env\<lparr>ee_source := ref_de\<rparr>) demo_mysql dangling_db 5 (JObject []) demo_ctx False)"
proof
  show "is_ok (fst (put_graph demo_mysql ref_de 5 dangling_graph demo_db))" by code_simp
  let ?E = "demo_env\<lparr>ee_source := ref_de\<rparr>"
  have "wf_reachable demo_db" by (rule reach_init) (simp add: wf_init_def demo_db_def)
  moreover have "wf_step demo_db (wf_exec demo_mysql ref_de (OpPutGraph 5 dangling_graph) demo_db)"
    by (rule wf_stepI[OF demo_mysql_fresh])
  ultimately have reach: "wf_reachable dangling_db" unfolding dangling_db_def by (auto intro: reach_step)
  have "find_key wf_id (tb_workflows dangling_db) 5 \<noteq> None" by code_simp
  then obtain w where w: "find_key wf_id (tb_workflows dangling_db) 5 = Some w" by auto
  have nodes: "nodes_of dangling_db 5 = [new_row demo_mysql 5 (hd (gp_nodes dangling_graph)) demo_db]"
    by code_simp
  have ord: "order_ok ?E" using demo_env_ok(2) by (simp add: order_ok_def demo_env_def)
  have parsed: "parse_input_spec ref_de (JObject [(''q'', JArray [JString ''ghost''])]) = Ok [(''q'', Upstream ''ghost'' None)]"
    by code_simp
  show "\<not> is_ok (execute ?E demo_mysql dangling_db 5 (JObject []) demo_ctx False)"
    by (rule dangling_upstream_never_succeeds[OF reach ord _ w, where r = "new_row demo_mysql 5 (hd (gp_nodes dangling_graph)) demo_db"
          and v = "JObject [(''q'', JArray [JString ''ghost''])]" and k = "''ghost''" and sub = None and field = "''q''"
          and spec = "[(''q'', Upstream ''ghost'' None)]"])
      (use demo_mysql_quiet parsed in \<open>auto simp: nodes keys_of_def new_row_def dangling_graph_def demo_node_def config_field_def demo_env_def\<close>)
qed

text \<open>
  What a run hands back to its caller has only the fields that the output schema
  declares. In particular a workflow without an output schema always returns the empty object:
  no stored node is called \<^verbatim>\<open>end\<close>, so the fallback that returns the output of the node
  \<^verbatim>\<open>end\<close> never applies.
\<close>

theorem end_value_has_declared_fields:
  assumes "wf_reachable d" "order_ok E" "handlers_ok E" "ctx_reachable c"
    and "\<forall>s. rejects M s d = None" "find_key wf_id (tb_workflows d) i = Some w"
    and "execute E M d i ext c False = Ok res"
  shows "\<exists>m. eo_end_value res = JObject m
    \<and> fst ` set m \<subseteq> (case wf_output_schema w of None \<Rightarrow> {} | Some schema \<Rightarrow> set (schema_fields schema))"
proof (cases rule: stored_execute_cases[OF assms(1,4,3,2,5,6), of ext, case_names finished failed])
  case (finished st)
  have "graph_ok d i" using wf_store.inv_reach[OF assms(1)] by simp
  then have "''end'' \<notin> keys_of d i" by (auto simp: graph_ok_def keys_of_def)
  then have "rs_outputs st ''end'' = None" using finished(2) by (metis domIff)
  moreover have "eo_end_value res = build_end_output (nodes_of d i) (successors (nodes_of d i) (edges_of d i))
             (rs_outputs st) (wf_output_schema w)"
    using finished(1) assms(7) by auto
  ultimately show ?thesis
    using collect_end_keys[of "rs_outputs st" _ _ "[]"]
    by (auto simp: build_end_output_def Let_def split: option.split)
qed (use assms(7) in simp)

theorem end_value_has_declared_fields_witness:
  "\<exists>res. demo_run = Ok res \<and> eo_end_value res = JObject []"
proof -
  obtain w where w: "find_key wf_id (tb_workflows demo_saved) 5 = Some w" "wf_output_schema w = None"
    using demo_saved_workflow by blast
  have quiet: "\<forall>s. rejects demo_mysql s demo_saved = None" using demo_mysql_quiet by blast
  have "is_ok demo_run" by code_simp
  then obtain res where run: "demo_run = Ok res" by (metis is_ok_iff)
  show ?thesis
    using end_value_has_declared_fields[OF demo_saved_reachable demo_env_ok(2,1) demo_ctx_new_reachable quiet w(1) run]
      w(2) run by auto
qed

end
