(* ===== verification/Session_History.thy ===== *)
theory Session_History
  imports HC_Json HC_Text "HOL-Library.Finite_Map"
begin

text \<open>
  Conversation sessions (crates/session/src/manager.rs, the struct \<^verbatim>\<open>Session\<close>, and the message
  helpers of crates/utils/src/helpers.rs): adding messages, the history handed to the language
  model, and the cap on the length of a session with its archive. A message is a JSON value, as
  in the code. \<open>now\<close> is the reading of the clock, a point in time as an integer. The record
  \<open>session_lib\<close> stands for serde\_json, chrono and the iteration order of a \<^verbatim>\<open>HashMap\<close>.
\<close>

record session_lib =
  json_to_string :: "json \<Rightarrow> string"
  json_of_string :: "string \<Rightarrow> json option"
  map_entries :: "(string, json) fmap \<Rightarrow> jmap"
  to_rfc3339 :: "int \<Rightarrow> string"
  parse_rfc3339 :: "string \<Rightarrow> int option"
  parse_naive :: "string \<Rightarrow> string \<Rightarrow> int option"
  local_single :: "int \<Rightarrow> int option"

section \<open>Message helpers\<close>

definition msg_role :: "json \<Rightarrow> string option" where
  "msg_role m = Option.bind (jget m ''role'') as_str"

definition is_user :: "json \<Rightarrow> bool" where
  "is_user m \<longleftrightarrow> msg_role m = Some ''user''"

definition id_text :: "json \<Rightarrow> string option" where
  "id_text v = (case as_str v of Some s \<Rightarrow> Some s | None \<Rightarrow> map_option show_int (as_i64 v))"

definition tool_calls_of :: "json \<Rightarrow> json list" where
  "tool_calls_of m = (case Option.bind (jget m ''tool_calls'') as_array of Some tcs \<Rightarrow> tcs | None \<Rightarrow> [])"

text \<open>The ids of the tool calls of a message, and the id a tool result answers.\<close>

definition declared_ids :: "json \<Rightarrow> string set" where
  "declared_ids m = set (List.map_filter (\<lambda>tc. Option.bind (jget tc ''id'') id_text) (tool_calls_of m))"

definition result_id :: "json \<Rightarrow> string" where
  "result_id m = (case Option.bind (jget m ''tool_call_id'') id_text of Some s \<Rightarrow> s | None \<Rightarrow> '''')"

text \<open>
  The scan: \<open>i\<close> is the index of the message in \<open>messages\<close>, \<open>start\<close> the first index of the window,
  \<open>declared\<close> the ids declared in it. After an orphan at \<open>i\<close> the window starts at \<open>i + 1\<close>; the code
  then scans the slice \<^verbatim>\<open>start..=i\<close> again (only string ids), which is written out.
\<close>

definition rescan_ids :: "json list \<Rightarrow> string set" where
  "rescan_ids ms =
     (\<Union>m \<in> set ms. if msg_role m = Some ''assistant''
        then set (List.map_filter (\<lambda>tc. Option.bind (jget tc ''id'') as_str) (tool_calls_of m)) else {})"

fun legal_scan :: "json list \<Rightarrow> nat \<Rightarrow> nat \<Rightarrow> string set \<Rightarrow> json list \<Rightarrow> nat" where
  "legal_scan messages i start declared [] = start"
| "legal_scan messages i start declared (m # rest) =
     (if msg_role m = Some ''assistant''
      then legal_scan messages (Suc i) start (declared \<union> declared_ids m) rest
      else if msg_role m = Some ''tool''
      then (if result_id m \<noteq> '''' \<and> result_id m \<notin> declared
            then let start' = i + 1
                 in legal_scan messages (Suc i) start'
                      (rescan_ids (take (Suc i - start') (drop start' messages))) rest
            else legal_scan messages (Suc i) start declared rest)
      else legal_scan messages (Suc i) start declared rest)"

definition find_legal_message_start :: "json list \<Rightarrow> nat" where
  "find_legal_message_start messages = legal_scan messages 0 0 {} messages"

definition image_placeholder_text_with :: "string option \<Rightarrow> string \<Rightarrow> string" where
  "image_placeholder_text_with path fallback =
     (case path of
        Some p \<Rightarrow> if p \<noteq> '''' then ''[image: '' @ p @ '']'' else fallback
      | None \<Rightarrow> fallback)"

definition image_placeholder_text :: "string option \<Rightarrow> string" where
  "image_placeholder_text path = image_placeholder_text_with path ''[image]''"

text \<open>\<^verbatim>\<open>safe_filename\<close>: the unsafe characters are ASCII, so they are replaced byte by byte.\<close>

definition unsafe_chars :: string where
  "unsafe_chars = ''<>:'' @ [CHR 0x22] @ ''/'' @ [CHR 0x5C] @ ''|?*''"

definition safe_filename :: "string \<Rightarrow> string" where
  "safe_filename name = trim (map (\<lambda>c. if c \<in> set unsafe_chars then CHR ''_'' else c) name)"

section \<open>Replay text\<close>

text \<open>
  The three regular expressions: a leading message time (at least one character up to the first
  closing bracket, and a line feed if there is one), a line that is a breadcrumb of a local
  image, a line that echoes a tool call.
\<close>

definition strip_message_time :: "string \<Rightarrow> string" where
  "strip_message_time s =
     (if starts_with ''[Message Time: '' s
      then let rest = drop (length ''[Message Time: '') s;
               body = takeWhile (\<lambda>c. c \<noteq> CHR '']'') rest;
               after = dropWhile (\<lambda>c. c \<noteq> CHR '']'') rest
           in if body = [] \<or> after = [] then s
              else (case tl after of
                      c # t \<Rightarrow> if byte c = 10 then t else c # t
                    | [] \<Rightarrow> [])
      else s)"

definition is_image_breadcrumb :: "string \<Rightarrow> bool" where
  "is_image_breadcrumb l \<longleftrightarrow>
     (starts_with ''[image: /'' l \<or> starts_with ''[image: ~'' l) \<and>
     (let rest = drop (length ''[image: /'') l;
          body = takeWhile (\<lambda>c. c \<noteq> CHR '']'') rest;
          after = dropWhile (\<lambda>c. c \<noteq> CHR '']'') rest
      in body \<noteq> [] \<and> after \<noteq> [] \<and> trim_start (tl after) = [])"

definition is_call_of :: "string \<Rightarrow> string \<Rightarrow> bool" where
  "is_call_of name l \<longleftrightarrow>
     starts_with (name @ ''('') l \<and>
     (let after = dropWhile (\<lambda>c. c \<noteq> CHR '')'') (drop (length name + 1) l)
      in after \<noteq> [] \<and> trim_start (tl after) = [])"

definition is_tool_call_echo :: "string \<Rightarrow> bool" where
  "is_tool_call_echo l \<longleftrightarrow>
     is_call_of ''generate_image'' (trim_start l) \<or> is_call_of ''message'' (trim_start l)"

definition sanitize_assistant_replay_text :: "string \<Rightarrow> string" where
  "sanitize_assistant_replay_text content =
     trim (join [CHR 0x0A]
       (filter (\<lambda>l. \<not> is_image_breadcrumb l \<and> \<not> is_tool_call_echo l) (lines (strip_message_time content))))"

definition estimate_tokens_for_message :: "json \<Rightarrow> nat" where
  "estimate_tokens_for_message msg =
     length (case Option.bind (jget msg ''content'') as_str of Some s \<Rightarrow> s | None \<Rightarrow> '''') div 4
     + (case Option.bind (jget msg ''tool_calls'') as_array of Some a \<Rightarrow> length a * 20 | None \<Rightarrow> 0)
     + 10"

section \<open>Session\<close>

record session =
  s_key :: string
  s_messages :: "json list"
  s_created_at :: int
  s_updated_at :: int
  s_metadata :: "(string, json) fmap"
  s_last_consolidated :: nat

definition session_new :: "int \<Rightarrow> string \<Rightarrow> session" where
  "session_new n key =
     \<lparr>s_key = key, s_messages = [], s_created_at = n, s_updated_at = n, s_metadata = fmempty,
      s_last_consolidated = 0\<rparr>"

definition add_message ::
    "session_lib \<Rightarrow> int \<Rightarrow> string \<Rightarrow> string \<Rightarrow> (string, json) fmap \<Rightarrow> session \<Rightarrow> session" where
  "add_message L now role content extra s =
     (let msg = obj_insert ''timestamp'' (JString (to_rfc3339 L now))
                  (obj_insert ''content'' (JString content) (obj_insert ''role'' (JString role) []));
          msg = fold (\<lambda>(k, v). obj_insert k v) (map_entries L extra) msg
      in s\<lparr>s_messages := s_messages s @ [JObject msg], s_updated_at := now\<rparr>)"

subsection \<open>History\<close>

definition history_limit :: "nat \<Rightarrow> nat" where
  "history_limit max_messages = (if 0 < max_messages then max_messages else 120)"

definition last_n :: "nat \<Rightarrow> 'a list \<Rightarrow> 'a list" where
  "last_n n xs = (if n < length xs then drop (length xs - n) xs else xs)"

definition history_start :: "json list \<Rightarrow> nat" where
  "history_start sliced =
     (case position is_user sliced of
        None \<Rightarrow> 0
      | Some i \<Rightarrow>
          if 0 < i \<and> jget (sliced ! (i - 1)) ''_channel_delivery'' \<noteq> None then i - 1 else i)"

definition is_command :: "json \<Rightarrow> bool" where
  "is_command m \<longleftrightarrow> Option.bind (jget m ''_command'') as_bool = Some True"

definition keeps_content :: "json \<Rightarrow> bool" where
  "keeps_content m \<longleftrightarrow>
     msg_role m \<noteq> Some ''assistant'' \<or>
     (case Option.bind (jget m ''content'') as_str of Some s \<Rightarrow> trim s \<noteq> [] | None \<Rightarrow> False) \<or>
     (case jget m ''tool_calls'' of Some v \<Rightarrow> v \<noteq> JNull | None \<Rightarrow> False) \<or>
     (case Option.bind (jget m ''reasoning_content'') as_str of Some s \<Rightarrow> s \<noteq> [] | None \<Rightarrow> False) \<or>
     (case Option.bind (jget m ''thinking_blocks'') as_array of Some a \<Rightarrow> a \<noteq> [] | None \<Rightarrow> False)"

definition entry_keys :: "string list" where
  "entry_keys = [''tool_calls'', ''tool_call_id'', ''name'', ''reasoning_content'', ''thinking_blocks'']"

definition copy_keys :: "json \<Rightarrow> jmap \<Rightarrow> jmap" where
  "copy_keys message entry =
     fold (\<lambda>k e. case jget message k of Some v \<Rightarrow> obj_insert k v e | None \<Rightarrow> e) entry_keys entry"

definition add_breadcrumbs :: "json \<Rightarrow> json \<Rightarrow> json" where
  "add_breadcrumbs message content =
     (case (Option.bind (jget message ''media'') as_array, as_str content) of
        (Some media, Some txt) \<Rightarrow>
          if media = [] then content
          else let paths = List.map_filter
                     (\<lambda>v. Option.bind (as_str v) (\<lambda>s. if s \<noteq> [] then Some s else None)) media;
                   breadcrumbs = map (\<lambda>p. image_placeholder_text (Some p)) paths
               in JString (if txt = [] then join [CHR 0x0A] breadcrumbs
                           else txt @ [CHR 0x0A] @ join [CHR 0x0A] breadcrumbs)
      | _ \<Rightarrow> content)"

definition annotate_time :: "json \<Rightarrow> json \<Rightarrow> json" where
  "annotate_time message content =
     (case (as_str content, Option.bind (jget message ''timestamp'') as_str) of
        (Some s, Some ts) \<Rightarrow> JString (''[Message Time: '' @ ts @ '']'' @ [CHR 0x0A] @ s)
      | _ \<Rightarrow> content)"

definition history_entry :: "bool \<Rightarrow> json \<Rightarrow> json" where
  "history_entry include_timestamps message =
     (let role = (case msg_role message of Some r \<Rightarrow> r | None \<Rightarrow> '''');
          content = (case jget message ''content'' of Some v \<Rightarrow> v | None \<Rightarrow> JString '''');
          content = (case as_str content of
                       Some s \<Rightarrow> if role = ''assistant'' then JString (sanitize_assistant_replay_text s)
                                 else content
                     | None \<Rightarrow> content);
          content = (if role = ''user'' then add_breadcrumbs message content else content);
          content = (if include_timestamps \<and> role = ''user'' then annotate_time message content else content)
      in JObject (copy_keys message
           (obj_insert ''content'' content (obj_insert ''role'' (JString role) []))))"

text \<open>The budget loop runs over the entries from the last to the first.\<close>

fun take_budget :: "nat \<Rightarrow> nat \<Rightarrow> json list \<Rightarrow> json list \<Rightarrow> json list" where
  "take_budget max_tok used kept [] = kept"
| "take_budget max_tok used kept (m # ms) =
     (let tokens = estimate_tokens_for_message m
      in if kept \<noteq> [] \<and> used + tokens > max_tok then kept
         else take_budget max_tok (used + tokens) (kept @ [m]) ms)"

definition recovered_entry :: "json \<Rightarrow> json" where
  "recovered_entry message =
     JObject (copy_keys message
       (obj_insert ''content'' (case jget message ''content'' of Some v \<Rightarrow> v | None \<Rightarrow> JString '''')
         (obj_insert ''role'' (case jget message ''role'' of Some v \<Rightarrow> v | None \<Rightarrow> JNull) [])))"

definition align_kept :: "json list \<Rightarrow> json list \<Rightarrow> json list" where
  "align_kept sliced kept =
     (case position is_user kept of
        Some idx \<Rightarrow> drop idx kept
      | None \<Rightarrow>
          (case rposition is_user sliced of
             Some idx \<Rightarrow> map recovered_entry (drop idx sliced)
           | None \<Rightarrow> kept))"

definition drop_illegal :: "json list \<Rightarrow> json list" where
  "drop_illegal ms = drop (find_legal_message_start ms) ms"

definition history_slice :: "session \<Rightarrow> nat \<Rightarrow> json list" where
  "history_slice s max_messages =
     (let unconsolidated = drop (min (s_last_consolidated s) (length (s_messages s))) (s_messages s);
          sliced = last_n (history_limit max_messages) unconsolidated;
          sliced = drop_illegal (drop (history_start sliced) sliced)
      in filter keeps_content (filter (\<lambda>m. \<not> is_command m) sliced))"

definition get_history_with_options :: "session \<Rightarrow> nat \<Rightarrow> nat option \<Rightarrow> bool \<Rightarrow> json list" where
  "get_history_with_options s max_messages max_tokens include_timestamps =
     (let sliced = history_slice s max_messages;
          out = map (history_entry include_timestamps) sliced
      in case max_tokens of
           None \<Rightarrow> out
         | Some max_tok \<Rightarrow>
             if out = [] then out
             else drop_illegal (align_kept sliced (rev (take_budget max_tok 0 [] (rev out)))))"

definition get_history :: "session \<Rightarrow> nat \<Rightarrow> json list" where
  "get_history s max_messages = get_history_with_options s max_messages None False"

subsection \<open>Bounding a session\<close>

definition clear :: "int \<Rightarrow> session \<Rightarrow> session" where
  "clear now s =
     s\<lparr>s_messages := [], s_last_consolidated := 0, s_updated_at := now,
       s_metadata := fmdrop ''_last_summary'' (s_metadata s)\<rparr>"

definition retained_window :: "nat \<Rightarrow> json list \<Rightarrow> json list" where
  "retained_window max_messages messages =
     (let retained = drop (length messages - max_messages) messages
      in case position is_user retained of
           Some idx \<Rightarrow> drop idx retained
         | None \<Rightarrow>
             (case rposition is_user messages of
                Some idx \<Rightarrow> take (min (idx + max_messages) (length messages) - idx) (drop idx messages)
              | None \<Rightarrow> retained))"

definition retain_recent_legal_suffix :: "int \<Rightarrow> nat \<Rightarrow> session \<Rightarrow> session" where
  "retain_recent_legal_suffix now max_messages s =
     (if max_messages = 0 then clear now s
      else if length (s_messages s) \<le> max_messages then s
      else let retained = drop_illegal (retained_window max_messages (s_messages s));
               retained = (if length retained > max_messages
                           then drop_illegal (drop (length retained - max_messages) retained) else retained);
               dropped = length (s_messages s) - length retained
           in s\<lparr>s_messages := retained, s_last_consolidated := s_last_consolidated s - dropped,
                s_updated_at := now\<rparr>)"

text \<open>The result of \<^verbatim>\<open>enforce_file_cap\<close>, the argument of the call of \<^verbatim>\<open>on_archive\<close> if there is one, the session.\<close>

definition enforce_file_cap :: "int \<Rightarrow> nat \<Rightarrow> session \<Rightarrow> bool \<times> json list option \<times> session" where
  "enforce_file_cap now limit s =
     (if limit = 0 \<or> length (s_messages s) \<le> limit then (False, None, s)
      else let before = s_messages s;
               s' = retain_recent_legal_suffix now limit s;
               dropped_count = length before - length (s_messages s')
           in if dropped_count = 0 then (False, None, s')
              else let already_consolidated = min (s_last_consolidated s) dropped_count;
                       archive_chunk = take (dropped_count - already_consolidated) (drop already_consolidated before)
                   in (True, if archive_chunk = [] then None else Some archive_chunk, s'))"

section \<open>Legal windows\<close>

text \<open>
  The specification of a legal window: every tool result that names a call comes after an
  assistant message of the window that declares the call.
\<close>

definition needs_call :: "json \<Rightarrow> bool" where
  "needs_call m \<longleftrightarrow> msg_role m = Some ''tool'' \<and> result_id m \<noteq> ''''"

definition declares :: "json \<Rightarrow> string \<Rightarrow> bool" where
  "declares m t \<longleftrightarrow> msg_role m = Some ''assistant'' \<and> t \<in> declared_ids m"

definition no_orphans :: "json list \<Rightarrow> bool" where
  "no_orphans ms \<longleftrightarrow>
     (\<forall>i < length ms. needs_call (ms ! i) \<longrightarrow> (\<exists>j < i. declares (ms ! j) (result_id (ms ! i))))"

text \<open>The same with the position of the window in the whole list, and by recursion.\<close>

definition declared_in :: "json list \<Rightarrow> nat \<Rightarrow> nat \<Rightarrow> string set" where
  "declared_in ms s k = {t. \<exists>j. s \<le> j \<and> j < k \<and> declares (ms ! j) t}"

definition legal_upto :: "json list \<Rightarrow> nat \<Rightarrow> nat \<Rightarrow> bool" where
  "legal_upto ms s n \<longleftrightarrow>
     (\<forall>k. s \<le> k \<and> k < n \<and> needs_call (ms ! k) \<longrightarrow> result_id (ms ! k) \<in> declared_in ms s k)"

fun legal_in :: "(string \<Rightarrow> bool) \<Rightarrow> json list \<Rightarrow> bool" where
  "legal_in D [] = True"
| "legal_in D (m # ms) =
     ((needs_call m \<longrightarrow> D (result_id m)) \<and> legal_in (\<lambda>t. D t \<or> declares m t) ms)"

lemma legal_in_iff:
  "legal_in D ms \<longleftrightarrow>
     (\<forall>i < length ms. needs_call (ms ! i)
        \<longrightarrow> D (result_id (ms ! i)) \<or> (\<exists>j < i. declares (ms ! j) (result_id (ms ! i))))"
proof (induction ms arbitrary: D)
  case (Cons m ms)
  show ?case
    by (simp add: Cons.IH All_less_Suc2 Ex_less_Suc2 disj_assoc)
qed simp

lemma no_orphans_legal_in: "no_orphans ms \<longleftrightarrow> legal_in (\<lambda>t. False) ms"
  by (simp add: no_orphans_def legal_in_iff)

lemma no_orphans_drop: "no_orphans (drop s ms) \<longleftrightarrow> legal_upto ms s (length ms)" if "s \<le> length ms"
proof
  assume n: "no_orphans (drop s ms)"
  show "legal_upto ms s (length ms)"
    unfolding legal_upto_def
  proof (intro allI impI, elim conjE)
    fix k assume k: "s \<le> k" "k < length ms" "needs_call (ms ! k)"
    then have "k - s < length (drop s ms)" "needs_call (drop s ms ! (k - s))" by simp_all
    then obtain j where "j < k - s" "declares (drop s ms ! j) (result_id (drop s ms ! (k - s)))"
      using n unfolding no_orphans_def by blast
    then have "s \<le> s + j \<and> s + j < k \<and> declares (ms ! (s + j)) (result_id (ms ! k))" using that k by auto
    then show "result_id (ms ! k) \<in> declared_in ms s k" unfolding declared_in_def by blast
  qed
next
  assume l: "legal_upto ms s (length ms)"
  show "no_orphans (drop s ms)"
    unfolding no_orphans_def
  proof (intro allI impI)
    fix i assume i: "i < length (drop s ms)" "needs_call (drop s ms ! i)"
    then have "s \<le> s + i \<and> s + i < length ms \<and> needs_call (ms ! (s + i))" using that by auto
    then have "result_id (ms ! (s + i)) \<in> declared_in ms s (s + i)" using l unfolding legal_upto_def by blast
    then obtain j where "s \<le> j" "j < s + i" "declares (ms ! j) (result_id (ms ! (s + i)))"
      unfolding declared_in_def by blast
    then have "j - s < i \<and> declares (drop s ms ! (j - s)) (result_id (drop s ms ! i))" using that by auto
    then show "\<exists>j < i. declares (drop s ms ! j) (result_id (drop s ms ! i))" by blast
  qed
qed

lemma declared_in_Suc: "s \<le> k \<Longrightarrow> declared_in ms s (Suc k) = declared_in ms s k \<union> {t. declares (ms ! k) t}"
  by (auto simp: declared_in_def less_Suc_eq)

lemma declared_in_mono: "s \<le> s' \<Longrightarrow> declared_in ms s' k \<subseteq> declared_in ms s k"
  unfolding declared_in_def by (blast intro: le_trans)

lemma legal_upto_Suc:
  "s \<le> k \<Longrightarrow> legal_upto ms s (Suc k) \<longleftrightarrow>
     legal_upto ms s k \<and> (needs_call (ms ! k) \<longrightarrow> result_id (ms ! k) \<in> declared_in ms s k)"
  by (auto simp: legal_upto_def less_Suc_eq)

lemma orphan_stays:
  assumes "needs_call (ms ! i)" and "result_id (ms ! i) \<notin> declared_in ms start i" and "i < n"
    and "start \<le> s" and "s \<le> i"
  shows "\<not> legal_upto ms s n"
  using assms declared_in_mono [of start s ms i] unfolding legal_upto_def by blast

text \<open>
  The scan from index \<open>i\<close>: the window from \<open>start\<close> is legal up to \<open>i\<close>, \<open>declared\<close> holds its calls,
  and no earlier start is legal.
\<close>

lemma legal_scan_correct:
  assumes "rest = drop i ms" and "start \<le> i" and "i \<le> length ms"
    and "declared = declared_in ms start i" and "legal_upto ms start i"
    and "\<forall>s < start. \<not> legal_upto ms s (length ms)"
  shows "legal_scan ms i start declared rest \<le> length ms
    \<and> legal_upto ms (legal_scan ms i start declared rest) (length ms)
    \<and> (\<forall>s < legal_scan ms i start declared rest. \<not> legal_upto ms s (length ms))"
  using assms
proof (induction rest arbitrary: i start declared)
  case Nil
  then show ?case by auto
next
  case (Cons m rest)
  then have i: "i < length ms" by (metis drop_all list.distinct(1) not_le)
  have m: "ms ! i = m" and rest: "rest = drop (Suc i) ms"
    using Cons.prems(1) i by (metis Cons_nth_drop_Suc list.inject)+
  note IH = Cons.IH [OF rest _ Suc_leI [OF i]]
  note up = Cons.prems(2) declared_in_Suc [OF Cons.prems(2)] legal_upto_Suc [OF Cons.prems(2)]
  show ?case
  proof (cases "needs_call m \<and> result_id m \<notin> declared")
    case True
    then have orphan: "\<not> legal_upto ms s (length ms)" if "start \<le> s" "s \<le> i" for s
      using orphan_stays [of ms i start "length ms" s] that i m Cons.prems(4) by simp
    have "\<forall>s < Suc i. \<not> legal_upto ms s (length ms)"
      using orphan Cons.prems(6) by (meson less_Suc_eq_le not_le)
    moreover have "{} = declared_in ms (Suc i) (Suc i)" "legal_upto ms (Suc i) (Suc i)"
      by (auto simp: declared_in_def legal_upto_def)
    ultimately show ?thesis
      using IH [of "Suc i" "{}"] True by (simp add: needs_call_def rescan_ids_def)
  next
    case False
    then have leg: "legal_upto ms start (Suc i)" using Cons.prems(4,5) up(3) [of ms] m by auto
    show ?thesis
    proof (cases "msg_role m = Some ''assistant''")
      case True
      then have "declared \<union> declared_ids m = declared_in ms start (Suc i)"
        using up(2) [of ms] Cons.prems(4) m by (auto simp: declares_def)
      then show ?thesis using IH [of start] leg up(1) Cons.prems(6) True by simp
    next
      case na: False
      then have "declared = declared_in ms start (Suc i)"
        using up(2) [of ms] Cons.prems(4) m by (auto simp: declares_def)
      then show ?thesis using IH [of start] leg up(1) Cons.prems(6) na False by (auto simp: needs_call_def)
    qed
  qed
qed

lemma find_legal_correct:
  "find_legal_message_start ms \<le> length ms"
  "no_orphans (drop (find_legal_message_start ms) ms)"
  "s < find_legal_message_start ms \<Longrightarrow> \<not> no_orphans (drop s ms)"
proof -
  have "{} = declared_in ms 0 0" "legal_upto ms 0 0" by (auto simp: declared_in_def legal_upto_def)
  then have r: "find_legal_message_start ms \<le> length ms
      \<and> legal_upto ms (find_legal_message_start ms) (length ms)
      \<and> (\<forall>s < find_legal_message_start ms. \<not> legal_upto ms s (length ms))"
    unfolding find_legal_message_start_def by (intro legal_scan_correct) simp_all
  then show "find_legal_message_start ms \<le> length ms" by simp
  show "no_orphans (drop (find_legal_message_start ms) ms)" using r by (simp add: no_orphans_drop)
  show "\<not> no_orphans (drop s ms)" if "s < find_legal_message_start ms" using r that by (simp add: no_orphans_drop)
qed

text \<open>
  (C18) \<^verbatim>\<open>find_legal_message_start\<close> returns the least index from which the messages form a legal
  window: no tool result refers to a call that was cut off, and no legal message is given up.
\<close>

theorem find_legal_start_is_least:
  "find_legal_message_start ms = (LEAST s. no_orphans (drop s ms))"
  using find_legal_correct by (metis (mono_tags, lifting) LeastI Least_le le_neq_implies_less)

section \<open>The history\<close>

lemma legal_in_mono: "legal_in D ms \<Longrightarrow> (\<And>t. D t \<Longrightarrow> E t) \<Longrightarrow> legal_in E ms"
  by (auto simp: legal_in_iff)

lemma legal_in_filter:
  "legal_in D ms \<Longrightarrow> (\<And>m t. m \<in> set ms \<Longrightarrow> \<not> P m \<Longrightarrow> \<not> declares m t) \<Longrightarrow> legal_in D (filter P ms)"
proof (induction ms arbitrary: D)
  case (Cons m ms)
  have IH: "legal_in (\<lambda>t. D t \<or> declares m t) (filter P ms)"
    using Cons.prems by (intro Cons.IH) simp_all
  show ?case
  proof (cases "P m")
    case False
    then have "\<not> declares m t" for t using Cons.prems(2) by simp
    then show ?thesis using IH False by simp
  qed (use IH Cons.prems(1) in simp)
qed simp

lemma legal_in_map:
  "(\<And>m. needs_call (f m) = needs_call m) \<Longrightarrow> (\<And>m. result_id (f m) = result_id m)
   \<Longrightarrow> (\<And>m t. declares (f m) t = declares m t) \<Longrightarrow> legal_in D (map f ms) = legal_in D ms"
  by (induction ms arbitrary: D) auto

lemma obj_get_copy_keys:
  "obj_get (copy_keys m e) k =
     (if k \<in> set entry_keys then case jget m k of Some v \<Rightarrow> Some v | None \<Rightarrow> obj_get e k else obj_get e k)"
proof -
  have "obj_get (fold (\<lambda>k e. case jget m k of Some v \<Rightarrow> obj_insert k v e | None \<Rightarrow> e) ks e) k =
     (if k \<in> set ks then case jget m k of Some v \<Rightarrow> Some v | None \<Rightarrow> obj_get e k else obj_get e k)" for ks
    by (induction ks arbitrary: e) (auto split: option.splits)
  then show ?thesis by (simp add: copy_keys_def)
qed

lemma entry_jget:
  "k \<in> {''tool_calls'', ''tool_call_id''} \<Longrightarrow>
   jget (JObject (copy_keys m (obj_insert ''content'' c (obj_insert ''role'' r [])))) k = jget m k"
  by (auto simp: obj_get_copy_keys entry_keys_def split: option.split)

lemma entry_role:
  "msg_role (JObject (copy_keys m (obj_insert ''content'' c (obj_insert ''role'' r [])))) = as_str r"
  by (simp add: msg_role_def obj_get_copy_keys entry_keys_def)

lemma history_entry_jget:
  "k \<in> {''tool_calls'', ''tool_call_id''} \<Longrightarrow> jget (history_entry ts m) k = jget m k"
  unfolding history_entry_def Let_def by (rule entry_jget)

lemma history_entry_role: "msg_role (history_entry ts m) = Some (case msg_role m of Some r \<Rightarrow> r | None \<Rightarrow> '''')"
  unfolding history_entry_def Let_def entry_role by simp

lemma same_protocol:
  assumes "\<And>k. k \<in> {''tool_calls'', ''tool_call_id''} \<Longrightarrow> jget m' k = jget m k"
    and "msg_role m' = msg_role m \<or> msg_role m' = Some (case msg_role m of Some r \<Rightarrow> r | None \<Rightarrow> '''')"
  shows "needs_call m' = needs_call m" "result_id m' = result_id m" "declares m' t = declares m t"
proof -
  have r: "msg_role m' = Some r \<longleftrightarrow> msg_role m = Some r" if "r \<noteq> ''''" for r
    using assms(2) that by (cases "msg_role m") auto
  show "result_id m' = result_id m" by (simp add: result_id_def assms(1))
  then show "needs_call m' = needs_call m" by (simp add: needs_call_def r)
  show "declares m' t = declares m t"
    by (simp add: declares_def declared_ids_def tool_calls_of_def r assms(1))
qed

lemma history_entry_protocol [simp]:
  "needs_call (history_entry ts m) = needs_call m" "result_id (history_entry ts m) = result_id m"
  "declares (history_entry ts m) t = declares m t"
  using history_entry_jget history_entry_role by (intro same_protocol; blast)+

lemma dropped_content_declares_nothing: "\<not> keeps_content m \<Longrightarrow> \<not> declares m t"
  by (auto simp: keeps_content_def declares_def declared_ids_def tool_calls_of_def map_filter_simps
      split: option.splits)

lemma no_orphans_Nil [simp]: "no_orphans []"
  by (simp add: no_orphans_def)

lemma no_orphans_drop_illegal: "no_orphans (drop_illegal ms)"
  by (simp add: drop_illegal_def find_legal_correct)

lemma history_slice_legal:
  assumes "\<And>m t. m \<in> set (s_messages s) \<Longrightarrow> is_command m \<Longrightarrow> \<not> declares m t"
  shows "no_orphans (history_slice s n)"
proof -
  let ?un = "drop (min (s_last_consolidated s) (length (s_messages s))) (s_messages s)"
  let ?sl = "last_n (history_limit n) ?un"
  let ?leg = "drop_illegal (drop (history_start ?sl) ?sl)"
  have sub: "set ?leg \<subseteq> set (s_messages s)"
    unfolding drop_illegal_def last_n_def by (auto dest!: in_set_dropD)
  have "legal_in (\<lambda>t. False) ?leg" using no_orphans_drop_illegal by (simp add: no_orphans_legal_in)
  then have "legal_in (\<lambda>t. False) (filter (\<lambda>m. \<not> is_command m) ?leg)"
    by (rule legal_in_filter) (use assms sub in blast)
  then have "legal_in (\<lambda>t. False) (filter keeps_content (filter (\<lambda>m. \<not> is_command m) ?leg))"
    by (rule legal_in_filter) (rule dropped_content_declares_nothing)
  then show ?thesis by (simp add: history_slice_def Let_def no_orphans_legal_in)
qed

text \<open>
  (C27) The history handed to the language model never contains a tool result without the
  assistant message that declares its call, whatever the limits: unless a message flagged as a
  command declares tool calls (such a message is removed after the window was made legal).
\<close>

theorem history_has_no_orphan_results:
  assumes "\<forall>m \<in> set (s_messages s). is_command m \<longrightarrow> (\<forall>t. \<not> declares m t)"
  shows "no_orphans (get_history_with_options s max_messages max_tokens include_timestamps)"
proof -
  have "no_orphans (map (history_entry include_timestamps) (history_slice s max_messages))"
    using history_slice_legal [of s max_messages] assms
    by (simp add: no_orphans_legal_in legal_in_map)
  then show ?thesis
    by (simp add: get_history_with_options_def Let_def no_orphans_drop_illegal split: option.split)
qed

definition demo_user :: "string \<Rightarrow> json" where
  "demo_user t = JObject [(''role'', JString ''user''), (''content'', JString t)]"

definition demo_call :: "string \<Rightarrow> json" where
  "demo_call i = JObject [(''role'', JString ''assistant''), (''content'', JString ''''),
     (''tool_calls'', JArray [JObject [(''id'', JString i)]])]"

definition demo_result :: "string \<Rightarrow> json" where
  "demo_result i = JObject [(''role'', JString ''tool''), (''tool_call_id'', JString i), (''content'', JString ''ok'')]"

definition demo_reply :: "string \<Rightarrow> json" where
  "demo_reply t = JObject [(''role'', JString ''assistant''), (''content'', JString t)]"

lemmas demo_msg_defs = demo_user_def demo_call_def demo_result_def demo_reply_def

definition demo_session :: "json list \<Rightarrow> session" where
  "demo_session ms = (session_new 1 ''cli:a'')\<lparr>s_messages := ms\<rparr>"

theorem history_has_no_orphan_results_witness:
  "no_orphans (get_history_with_options
     (demo_session [demo_call ''c0'', demo_user ''hi'', demo_call ''c1'', demo_result ''c1'', demo_reply ''done'']) 3 None False)"
  by (rule history_has_no_orphan_results) (simp add: demo_session_def demo_msg_defs is_command_def)

subsection \<open>Bounds\<close>

definition history_tokens :: "json list \<Rightarrow> nat" where
  "history_tokens ms = sum_list (map estimate_tokens_for_message ms)"

lemma history_tokens_drop: "history_tokens (drop k ms) \<le> history_tokens ms"
  by (metis append_take_drop_id history_tokens_def le_add2 map_append sum_list_append)

lemma take_budget_prefix: "\<exists>j. take_budget T u K ms = K @ take j ms"
proof (induction T u K ms rule: take_budget.induct)
  case (2 T u K m ms)
  show ?case
  proof (cases "K \<noteq> [] \<and> u + estimate_tokens_for_message m > T")
    case True
    then show ?thesis by (auto intro: exI [of _ 0])
  next
    case False
    then obtain j where "take_budget T (u + estimate_tokens_for_message m) (K @ [m]) ms = (K @ [m]) @ take j ms"
      using 2 by auto
    then show ?thesis using False by (auto intro: exI [of _ "Suc j"])
  qed
qed simp

lemma take_budget_tokens:
  "u = history_tokens K \<Longrightarrow> u \<le> T \<or> length K \<le> 1 \<Longrightarrow>
   history_tokens (take_budget T u K ms) \<le> T \<or> length (take_budget T u K ms) \<le> 1"
proof (induction T u K ms rule: take_budget.induct)
  case (2 T u K m ms)
  let ?t = "estimate_tokens_for_message m"
  show ?case
  proof (cases "K \<noteq> [] \<and> u + ?t > T")
    case False
    have "u + ?t = history_tokens (K @ [m])" using 2(2) by (simp add: history_tokens_def)
    moreover have "u + ?t \<le> T \<or> length (K @ [m]) \<le> 1" using False by auto
    ultimately show ?thesis using 2(1) [OF refl] False by auto
  qed (use 2(2,3) in auto)
qed auto

lemma last_n_length: "length (last_n n xs) \<le> n"
  by (simp add: last_n_def)

lemma history_slice_length: "length (history_slice s n) \<le> history_limit n"
proof -
  let ?sl = "last_n (history_limit n) (drop (min (s_last_consolidated s) (length (s_messages s))) (s_messages s))"
  have "length (history_slice s n) \<le> length (drop_illegal (drop (history_start ?sl) ?sl))"
    unfolding history_slice_def Let_def by (rule le_trans [OF length_filter_le length_filter_le])
  also have "\<dots> \<le> length ?sl" by (simp add: drop_illegal_def)
  also have "\<dots> \<le> history_limit n" by (rule last_n_length)
  finally show ?thesis .
qed

lemma kept_length: "length (rev (take_budget T 0 [] (rev out))) \<le> length out"
  using take_budget_prefix [of T 0 "[]" "rev out"] by auto

lemma align_kept_cases:
  "(\<exists>k. align_kept sliced kept = drop k kept) \<or>
   (\<exists>idx. rposition is_user sliced = Some idx \<and> align_kept sliced kept = map recovered_entry (drop idx sliced))"
  unfolding align_kept_def by (auto split: option.split intro: exI [of _ 0])

text \<open>
  The history never has more messages than asked for (120 when the limit is 0). With a token
  budget its estimate stays within the budget, except for a single message that alone exceeds
  it, and for the last user turn, which is taken whole when the budget ends inside it.
\<close>

theorem history_is_bounded:
  "length (get_history_with_options s n None ts) \<le> history_limit n
   \<and> length (get_history_with_options s n (Some T) ts) \<le> history_limit n
   \<and> (history_tokens (get_history_with_options s n (Some T) ts) \<le> T
      \<or> length (get_history_with_options s n (Some T) ts) \<le> 1
      \<or> (\<exists>idx k. rposition is_user (history_slice s n) = Some idx
           \<and> get_history_with_options s n (Some T) ts = drop k (map recovered_entry (drop idx (history_slice s n)))))"
proof -
  let ?sl = "history_slice s n" and ?h = "get_history_with_options s n (Some T) ts"
  let ?out = "map (history_entry ts) ?sl"
  let ?kept = "rev (take_budget T 0 [] (rev ?out))"
  have kl: "length ?kept \<le> length ?sl" using kept_length [of T ?out] by simp
  have kt: "history_tokens ?kept \<le> T \<or> length ?kept \<le> 1"
    using take_budget_tokens [of 0 "[]" T "rev ?out"] by (simp add: history_tokens_def flip: rev_map)
  obtain k where h: "?h = drop k (align_kept ?sl ?kept)"
  proof (cases "?sl = []")
    case True
    then have "?h = drop (length (align_kept ?sl ?kept)) (align_kept ?sl ?kept)"
      by (simp add: get_history_with_options_def)
    then show thesis by (rule that)
  qed (auto simp: get_history_with_options_def drop_illegal_def Let_def intro: that)
  have none: "length (get_history_with_options s n None ts) \<le> history_limit n"
    using history_slice_length [of s n] by (simp add: get_history_with_options_def Let_def)
  from align_kept_cases [of ?sl ?kept] show ?thesis
  proof (elim disjE exE conjE)
    fix k' assume "align_kept ?sl ?kept = drop k' ?kept"
    then have d: "?h = drop (k + k') ?kept" using h by simp
    then have "length ?h \<le> length ?kept" "history_tokens ?h \<le> history_tokens ?kept"
      using history_tokens_drop [of "k + k'" ?kept] by auto
    then show ?thesis using none kl kt history_slice_length [of s n] by linarith
  next
    fix idx assume r: "rposition is_user ?sl = Some idx" "align_kept ?sl ?kept = map recovered_entry (drop idx ?sl)"
    then have "?h = drop k (map recovered_entry (drop idx ?sl))" using h by simp
    moreover from this have "length ?h \<le> length ?sl" by simp
    ultimately show ?thesis using none r(1) history_slice_length [of s n] le_trans by blast
  qed
qed

section \<open>The cap on a session\<close>

lemma retained_window_length: "length (retained_window n ms) \<le> n"
  by (auto simp: retained_window_def Let_def min_def split: option.split)

lemma retain_messages:
  assumes "0 < n" and "n < length (s_messages s)"
  shows "retain_recent_legal_suffix now n s =
     s\<lparr>s_messages := drop_illegal (retained_window n (s_messages s)),
       s_last_consolidated := s_last_consolidated s
         - (length (s_messages s) - length (drop_illegal (retained_window n (s_messages s)))),
       s_updated_at := now\<rparr>"
proof -
  have "length (drop_illegal (retained_window n (s_messages s))) \<le> n"
    using retained_window_length [of n "s_messages s"] by (simp add: drop_illegal_def)
  then show ?thesis using assms by (simp add: retain_recent_legal_suffix_def Let_def)
qed

lemma tail_window:
  assumes "(\<exists>m \<in> set (drop (length ms - n) ms). is_user m) \<or> (\<forall>m \<in> set ms. \<not> is_user m)"
  shows "\<exists>k. drop_illegal (retained_window n ms) = drop k ms"
proof -
  obtain k where "retained_window n ms = drop k ms"
  proof (cases "position is_user (drop (length ms - n) ms)")
    case None
    then have "rposition is_user ms = None"
      using assms by (auto simp: position_None_iff rposition_None_iff dest: in_set_dropD)
    then show thesis using None that by (simp add: retained_window_def)
  next
    case (Some idx)
    then show thesis using that by (simp add: retained_window_def)
  qed
  then show ?thesis by (auto simp: drop_illegal_def)
qed

lemma suffix_by_length: "xs = drop k ys \<Longrightarrow> xs = drop (length ys - length xs) ys"
  by (cases "k \<le> length ys") auto

text \<open>
  When the cap is exceeded and the tail that fits has a user message (or the session has
  none at all), nothing is lost: the archived messages followed by the retained ones are the
  unconsolidated messages of the session, in order and once each. What is retained is a legal
  suffix of at most \<open>limit\<close> messages, and the same messages count as unconsolidated as before.
\<close>

theorem file_cap_conserves_messages:
  assumes "(\<exists>m \<in> set (drop (length (s_messages s) - limit) (s_messages s)). is_user m)
           \<or> (\<forall>m \<in> set (s_messages s). \<not> is_user m)"
    and "0 < limit" and "limit < length (s_messages s)"
    and "enforce_file_cap now limit s = (trimmed, archive, s')"
  shows "trimmed
    \<and> (case archive of None \<Rightarrow> [] | Some c \<Rightarrow> c) @ s_messages s'
        = drop (min (s_last_consolidated s) (length (s_messages s) - length (s_messages s'))) (s_messages s)
    \<and> length (s_messages s') \<le> limit \<and> no_orphans (s_messages s')
    \<and> drop (s_last_consolidated s') (s_messages s')
        = drop (max (s_last_consolidated s) (length (s_messages s) - length (s_messages s'))) (s_messages s)"
proof -
  let ?ms = "s_messages s" and ?ret = "drop_illegal (retained_window limit (s_messages s))"
  let ?d = "length ?ms - length ?ret"
  let ?a = "min (s_last_consolidated s) ?d"
  obtain k where "?ret = drop k ?ms" using tail_window [OF assms(1)] by blast
  then have ret: "?ret = drop ?d ?ms" by (rule suffix_by_length)
  have len: "length ?ret \<le> limit"
    using retained_window_length [of limit ?ms] by (simp add: drop_illegal_def)
  then have d: "0 < ?d" using assms(3) by linarith
  have r: "retain_recent_legal_suffix now limit s =
      s\<lparr>s_messages := ?ret, s_last_consolidated := s_last_consolidated s - ?d, s_updated_at := now\<rparr>"
    using assms(2,3) by (rule retain_messages)
  have res: "trimmed" "archive = (if take (?d - ?a) (drop ?a ?ms) = [] then None else Some (take (?d - ?a) (drop ?a ?ms)))"
      "s_messages s' = ?ret" "s_last_consolidated s' = s_last_consolidated s - ?d"
    using assms(2-4) d unfolding enforce_file_cap_def r by (auto simp: Let_def)
  have arch: "(case archive of None \<Rightarrow> [] | Some c \<Rightarrow> c) = take (?d - ?a) (drop ?a ?ms)"
    by (simp add: res(2))
  have "take (?d - ?a) (drop ?a ?ms) @ drop ?d ?ms = drop ?a ?ms"
    by (metis append_take_drop_id drop_drop le_add_diff_inverse2 min.cobounded2)
  then have 1: "(case archive of None \<Rightarrow> [] | Some c \<Rightarrow> c) @ s_messages s' = drop ?a ?ms"
    using ret arch res(3) by simp
  have "drop (s_last_consolidated s - ?d) (drop ?d ?ms) = drop (max (s_last_consolidated s) ?d) ?ms"
    by (simp add: max_def)
  then have "drop (s_last_consolidated s') (s_messages s') = drop (max (s_last_consolidated s) ?d) ?ms"
    using ret res(3,4) by metis
  then show ?thesis using 1 res len no_orphans_drop_illegal by simp
qed

theorem file_cap_conserves_messages_witness:
  "fst (enforce_file_cap 9 2 (demo_session [demo_user ''a'', demo_reply ''b'', demo_user ''c'', demo_reply ''d'']))"
  using file_cap_conserves_messages
    [of "demo_session [demo_user ''a'', demo_reply ''b'', demo_user ''c'', demo_reply ''d'']" 2 9
      "fst (enforce_file_cap 9 2 (demo_session [demo_user ''a'', demo_reply ''b'', demo_user ''c'', demo_reply ''d'']))"
      "fst (snd (enforce_file_cap 9 2 (demo_session [demo_user ''a'', demo_reply ''b'', demo_user ''c'', demo_reply ''d''])))"
      "snd (snd (enforce_file_cap 9 2 (demo_session [demo_user ''a'', demo_reply ''b'', demo_user ''c'', demo_reply ''d''])))"]
  by (simp add: demo_session_def demo_msg_defs is_user_def msg_role_def)

text \<open>
  When the last \<open>limit\<close> messages contain no user message but an earlier one exists, the
  window is taken forward from that user message: the newest message of the session is then
  neither retained nor (unless nothing is retained) archived, so it is lost.
\<close>

theorem file_cap_loses_newest_message:
  assumes "\<forall>m \<in> set (drop (length (s_messages s) - limit) (s_messages s)). \<not> is_user m"
    and "\<exists>m \<in> set (s_messages s). is_user m" and "distinct (s_messages s)"
    and "0 < limit" and "limit < length (s_messages s)"
    and "enforce_file_cap now limit s = (trimmed, archive, s')"
  shows "last (s_messages s) \<notin> set (s_messages s')
    \<and> (s_messages s' = [] \<or> last (s_messages s) \<notin> set (case archive of None \<Rightarrow> [] | Some c \<Rightarrow> c))"
proof -
  let ?ms = "s_messages s" and ?ret = "drop_illegal (retained_window limit (s_messages s))"
  let ?d = "length ?ms - length ?ret"
  have none: "position is_user (drop (length ?ms - limit) ?ms) = None"
    using assms(1) by (simp add: position_None_iff)
  obtain idx where idx: "rposition is_user ?ms = Some idx"
    using assms(2) rposition_None_iff [of is_user ?ms] by auto
  then have u: "idx < length ?ms" "is_user (?ms ! idx)" using rposition_Some by blast+
  have "idx < length ?ms - limit"
  proof (rule ccontr)
    assume "\<not> idx < length ?ms - limit"
    then have "drop (length ?ms - limit) ?ms ! (idx - (length ?ms - limit)) = ?ms ! idx"
      "idx - (length ?ms - limit) < length (drop (length ?ms - limit) ?ms)" using u(1) by auto
    then have "?ms ! idx \<in> set (drop (length ?ms - limit) ?ms)" by (metis nth_mem)
    then show False using assms(1) u(2) by blast
  qed
  then have lt: "idx + limit < length ?ms" by linarith
  then have "retained_window limit ?ms = drop idx (take (idx + limit) ?ms)"
    using none idx by (simp add: retained_window_def take_drop add.commute)
  then have "set ?ret \<subseteq> set (take (idx + limit) ?ms)" by (auto simp: drop_illegal_def dest!: in_set_dropD)
  also have "\<dots> \<subseteq> set (take (length ?ms - 1) ?ms)" using lt by (intro set_take_subset_set_take) simp
  finally have "set ?ret \<subseteq> set (take (length ?ms - 1) ?ms)" .
  moreover have "last ?ms \<notin> set (take (length ?ms - 1) ?ms)"
    using assms(3,5) by (metis append_butlast_last_id butlast_conv_take distinct_append disjoint_insert(2) list.set(2) list.size(3) not_less_zero)
  moreover have r: "s_messages (retain_recent_legal_suffix now limit s) = ?ret"
    using retain_messages [OF assms(4,5)] by simp
  ultimately have n: "last ?ms \<notin> set ?ret" "last ?ms \<notin> set (take (length ?ms - 1) ?ms)" by blast+
  have res: "s_messages s' = ?ret"
      "set (case archive of None \<Rightarrow> [] | Some c \<Rightarrow> c) \<subseteq> set (take ?d ?ms)"
    using assms(4-6) r
    by (auto simp: enforce_file_cap_def Let_def take_drop split: if_splits dest: in_set_dropD)
  have "last ?ms \<notin> set (take ?d ?ms)" if "?ret \<noteq> []"
  proof -
    have "1 \<le> length ?ret" using that by (cases ?ret) auto
    then have "set (take ?d ?ms) \<subseteq> set (take (length ?ms - 1) ?ms)"
      by (intro set_take_subset_set_take diff_le_mono2)
    then show ?thesis using n(2) by blast
  qed
  then show ?thesis using res n(1) by auto
qed

theorem file_cap_loses_newest_message_witness:
  "demo_reply ''d'' \<notin> set (s_messages (snd (snd (enforce_file_cap 9 2
     (demo_session [demo_user ''a'', demo_reply ''b'', demo_reply ''c'', demo_reply ''d''])))))"
  using file_cap_loses_newest_message
    [of "demo_session [demo_user ''a'', demo_reply ''b'', demo_reply ''c'', demo_reply ''d'']" 2 9
      "fst (enforce_file_cap 9 2 (demo_session [demo_user ''a'', demo_reply ''b'', demo_reply ''c'', demo_reply ''d'']))"
      "fst (snd (enforce_file_cap 9 2 (demo_session [demo_user ''a'', demo_reply ''b'', demo_reply ''c'', demo_reply ''d''])))"
      "snd (snd (enforce_file_cap 9 2 (demo_session [demo_user ''a'', demo_reply ''b'', demo_reply ''c'', demo_reply ''d''])))"]
  by (simp add: demo_session_def demo_msg_defs is_user_def msg_role_def)

end
