(* ===== verification/Session_Manager.thy ===== *)
theory Session_Manager
  imports Session_History "HOL-Library.List_Lexorder" "HOL-Library.Char_ord"
begin

text \<open>
  The session manager (crates/session/src/manager.rs, the struct \<^verbatim>\<open>SessionManager\<close>): the cache in
  front of the session files, migration of files from the legacy directory, strict reading and
  repair, atomic saving through a temporary file, flushing and deletion. A directory is a map
  from file names to bytes. \<open>io_env\<close> says which file operations fail and where a write stops;
  a call that reads the clock more than once reads the same \<open>now\<close>.
\<close>

section \<open>State and files\<close>

record session_manager =
  sm_files :: "string \<rightharpoonup> string"
  sm_legacy :: "string \<rightharpoonup> string"
  sm_cache :: "(string \<times> session) list"

record io_env =
  io_open_fails :: "string \<Rightarrow> bool"
  io_create_fails :: "string \<Rightarrow> bool"
  io_write_stops :: "string \<Rightarrow> nat option"
  io_sync_fails :: "string \<Rightarrow> bool"
  io_rename_fails :: "string \<Rightarrow> bool"
  io_remove_fails :: "string \<Rightarrow> bool"

definition no_faults :: io_env where
  "no_faults =
     \<lparr>io_open_fails = \<lambda>_. False, io_create_fails = \<lambda>_. False, io_write_stops = \<lambda>_. None,
      io_sync_fails = \<lambda>_. False, io_rename_fails = \<lambda>_. False, io_remove_fails = \<lambda>_. False\<rparr>"

datatype io_op = OpenFile | CreateFile | WriteFile | SyncFile | RenameFile | InvalidData

definition manager_new :: "(string \<rightharpoonup> string) \<Rightarrow> (string \<rightharpoonup> string) \<Rightarrow> session_manager" where
  "manager_new files legacy = \<lparr>sm_files = files, sm_legacy = legacy, sm_cache = []\<rparr>"

definition safe_key :: "string \<Rightarrow> string" where
  "safe_key key = safe_filename (map (\<lambda>c. if c = CHR '':'' then CHR ''_'' else c) key)"

text \<open>The legacy directory uses the same file name.\<close>

definition session_path :: "string \<Rightarrow> string" where
  "session_path key = safe_key key @ ''.jsonl''"

text \<open>\<^verbatim>\<open>with_extension("jsonl.tmp")\<close>: the name \<^verbatim>\<open>.jsonl\<close> has no extension to replace.\<close>

definition tmp_path :: "string \<Rightarrow> string" where
  "tmp_path key = (if safe_key key = [] then ''.jsonl'' else safe_key key) @ ''.jsonl.tmp''"

definition cached :: "session_manager \<Rightarrow> string \<Rightarrow> session option" where
  "cached m key = map_option snd (find_key fst (sm_cache m) key)"

definition cache_insert :: "session \<Rightarrow> session_manager \<Rightarrow> session_manager" where
  "cache_insert s m = m\<lparr>sm_cache := upsert fst (s_key s, s) (sm_cache m)\<rparr>"

section \<open>Reading a session file\<close>

text \<open>The lines of a file; a line that is not UTF-8 is an error of the reader.\<close>

definition read_lines :: "string \<Rightarrow> string option list" where
  "read_lines txt = map (\<lambda>l. if utf8_valid l then Some l else None) (lines txt)"

definition parse_isoformat :: "session_lib \<Rightarrow> int \<Rightarrow> string \<Rightarrow> int option" where
  "parse_isoformat L now s =
     (case parse_rfc3339 L s of
        Some dt \<Rightarrow> Some dt
      | None \<Rightarrow>
          (case parse_naive L ''%Y-%m-%dT%H:%M:%S%.f'' s of
             Some naive \<Rightarrow> Some (case local_single L naive of Some t \<Rightarrow> t | None \<Rightarrow> now)
           | None \<Rightarrow>
               (case parse_naive L ''%Y-%m-%dT%H:%M:%S'' s of
                  Some naive \<Rightarrow> Some (case local_single L naive of Some t \<Rightarrow> t | None \<Rightarrow> now)
                | None \<Rightarrow> None)))"

record loaded =
  ld_messages :: "json list"
  ld_metadata :: "(string, json) fmap"
  ld_created :: "int option"
  ld_updated :: "int option"
  ld_last_consolidated :: nat

definition loaded_init :: loaded where
  "loaded_init =
     \<lparr>ld_messages = [], ld_metadata = fmempty, ld_created = None, ld_updated = None,
      ld_last_consolidated = 0\<rparr>"

definition is_metadata :: "json \<Rightarrow> bool" where
  "is_metadata data \<longleftrightarrow> Option.bind (jget data ''_type'') as_str = Some ''metadata''"

definition collect_map :: "jmap \<Rightarrow> (string, json) fmap" where
  "collect_map m = fold (\<lambda>(k, v). fmupd k v) m fmempty"

definition absorb_value :: "session_lib \<Rightarrow> int \<Rightarrow> json \<Rightarrow> loaded \<Rightarrow> loaded" where
  "absorb_value L now data acc =
     (if is_metadata data
      then acc\<lparr>ld_metadata :=
                  (case Option.bind (jget data ''metadata'') as_object of
                     Some m \<Rightarrow> collect_map m | None \<Rightarrow> ld_metadata acc),
               ld_created := Option.bind (Option.bind (jget data ''created_at'') as_str) (parse_isoformat L now),
               ld_updated := Option.bind (Option.bind (jget data ''updated_at'') as_str) (parse_isoformat L now),
               ld_last_consolidated :=
                  (case Option.bind (jget data ''last_consolidated'') as_u64 of Some n \<Rightarrow> n | None \<Rightarrow> 0)\<rparr>
      else acc\<lparr>ld_messages := ld_messages acc @ [data]\<rparr>)"

definition loaded_session :: "int \<Rightarrow> string \<Rightarrow> loaded \<Rightarrow> session" where
  "loaded_session now key acc =
     \<lparr>s_key = key, s_messages = ld_messages acc,
      s_created_at = (case ld_created acc of Some t \<Rightarrow> t | None \<Rightarrow> now),
      s_updated_at = (case ld_updated acc of Some t \<Rightarrow> t | None \<Rightarrow> now),
      s_metadata = ld_metadata acc, s_last_consolidated = ld_last_consolidated acc\<rparr>"

fun strict_lines :: "session_lib \<Rightarrow> int \<Rightarrow> string option list \<Rightarrow> loaded \<Rightarrow> (io_op, loaded) result" where
  "strict_lines L now [] acc = Ok acc"
| "strict_lines L now (None # ls) acc = Err InvalidData"
| "strict_lines L now (Some l # ls) acc =
     (let line = trim l
      in if line = [] then strict_lines L now ls acc
         else case json_of_string L line of
                None \<Rightarrow> Err InvalidData
              | Some data \<Rightarrow> strict_lines L now ls (absorb_value L now data acc))"

definition read_strict ::
    "session_lib \<Rightarrow> io_env \<Rightarrow> int \<Rightarrow> string \<Rightarrow> string \<Rightarrow> session_manager \<Rightarrow> (io_op, session) result" where
  "read_strict L io now key path m =
     (case sm_files m path of
        None \<Rightarrow> Err OpenFile
      | Some txt \<Rightarrow>
          if io_open_fails io path then Err OpenFile
          else bind_res (strict_lines L now (read_lines txt) loaded_init) (\<lambda>acc. Ok (loaded_session now key acc)))"

fun repair_lines :: "session_lib \<Rightarrow> int \<Rightarrow> string option list \<Rightarrow> loaded \<Rightarrow> loaded" where
  "repair_lines L now [] acc = acc"
| "repair_lines L now (None # ls) acc = acc"
| "repair_lines L now (Some l # ls) acc =
     (let line = trim l
      in if line = [] then repair_lines L now ls acc
         else case json_of_string L line of
                None \<Rightarrow> repair_lines L now ls acc
              | Some data \<Rightarrow> repair_lines L now ls (absorb_value L now data acc))"

definition repair :: "session_lib \<Rightarrow> io_env \<Rightarrow> int \<Rightarrow> string \<Rightarrow> session_manager \<Rightarrow> session option" where
  "repair L io now key m =
     (case sm_files m (session_path key) of
        None \<Rightarrow> None
      | Some txt \<Rightarrow>
          if io_open_fails io (session_path key) then None
          else let acc = repair_lines L now (read_lines txt) loaded_init
               in if ld_messages acc = [] \<and> ld_metadata acc = fmempty then None
                  else Some (loaded_session now key acc))"

definition migrate_legacy :: "io_env \<Rightarrow> string \<Rightarrow> session_manager \<Rightarrow> session_manager" where
  "migrate_legacy io key m =
     (let name = session_path key
      in case sm_legacy m name of
           None \<Rightarrow> m
         | Some txt \<Rightarrow>
             if io_rename_fails io name then m
             else m\<lparr>sm_files := (sm_files m)(name \<mapsto> txt), sm_legacy := (sm_legacy m)(name := None)\<rparr>)"

definition load_session ::
    "session_lib \<Rightarrow> io_env \<Rightarrow> int \<Rightarrow> string \<Rightarrow> session_manager \<Rightarrow> session option \<times> session_manager" where
  "load_session L io now key m =
     (let path = session_path key;
          m1 = (if sm_files m path = None then migrate_legacy io key m else m)
      in if sm_files m1 path = None then (None, m1)
         else case read_strict L io now key path m1 of
                Ok s \<Rightarrow> (Some s, m1)
              | _ \<Rightarrow> (repair L io now key m1, m1))"

definition get_or_create ::
    "session_lib \<Rightarrow> io_env \<Rightarrow> int \<Rightarrow> string \<Rightarrow> session_manager \<Rightarrow> session \<times> session_manager" where
  "get_or_create L io now key m =
     (case cached m key of
        Some s \<Rightarrow> (s, m)
      | None \<Rightarrow>
          let (found, m1) = load_session L io now key m;
              s = (case found of Some s \<Rightarrow> s | None \<Rightarrow> session_new now key)
          in (s, cache_insert s m1))"

section \<open>Writing\<close>

definition meta_value :: "session_lib \<Rightarrow> session \<Rightarrow> json" where
  "meta_value L s =
     JObject [(''_type'', JString ''metadata''), (''key'', JString (s_key s)),
       (''created_at'', JString (to_rfc3339 L (s_created_at s))),
       (''updated_at'', JString (to_rfc3339 L (s_updated_at s))),
       (''metadata'', JObject (map_entries L (s_metadata s))),
       (''last_consolidated'', JNumber (NumInt (int (s_last_consolidated s))))]"

definition file_text :: "session_lib \<Rightarrow> session \<Rightarrow> string" where
  "file_text L s = concat (map (\<lambda>v. json_to_string L v @ [CHR 0x0A]) (meta_value L s # s_messages s))"

definition save ::
    "session_lib \<Rightarrow> io_env \<Rightarrow> session \<Rightarrow> bool \<Rightarrow> session_manager \<Rightarrow> (io_op, unit) result \<times> session_manager" where
  "save L io s fsync m =
     (let path = session_path (s_key s);
          tmp = tmp_path (s_key s)
      in if io_create_fails io tmp then (Err CreateFile, m)
         else case io_write_stops io tmp of
                Some n \<Rightarrow> (Err WriteFile, m\<lparr>sm_files := (sm_files m)(tmp \<mapsto> take n (file_text L s))\<rparr>)
              | None \<Rightarrow>
                  let m1 = m\<lparr>sm_files := (sm_files m)(tmp \<mapsto> file_text L s)\<rparr>
                  in if fsync \<and> io_sync_fails io tmp then (Err SyncFile, m1)
                     else if io_rename_fails io path
                     then (Err RenameFile,
                           if io_remove_fails io tmp then m1
                           else m1\<lparr>sm_files := (sm_files m1)(tmp := None)\<rparr>)
                     else (Ok (),
                           cache_insert s
                             (m1\<lparr>sm_files := ((sm_files m1)(tmp := None))(path \<mapsto> file_text L s)\<rparr>)))"

text \<open>\<open>order\<close> is the iteration order of the keys of the cache.\<close>

fun flush_keys ::
    "session_lib \<Rightarrow> io_env \<Rightarrow> string list \<Rightarrow> nat \<Rightarrow> session_manager \<Rightarrow> nat \<times> session_manager" where
  "flush_keys L io [] flushed m = (flushed, m)"
| "flush_keys L io (k # ks) flushed m =
     (case cached m k of
        None \<Rightarrow> flush_keys L io ks flushed m
      | Some s \<Rightarrow>
          (case save L io s True m of
             (Ok _, m') \<Rightarrow> flush_keys L io ks (flushed + 1) m'
           | (_, m') \<Rightarrow> flush_keys L io ks flushed m'))"

definition flush_all ::
    "session_lib \<Rightarrow> io_env \<Rightarrow> (string list \<Rightarrow> string list) \<Rightarrow> session_manager \<Rightarrow> nat \<times> session_manager" where
  "flush_all L io order m = flush_keys L io (order (map fst (sm_cache m))) 0 m"

definition invalidate :: "string \<Rightarrow> session_manager \<Rightarrow> session_manager" where
  "invalidate key m = m\<lparr>sm_cache := filter (\<lambda>p. fst p \<noteq> key) (sm_cache m)\<rparr>"

definition delete_session :: "io_env \<Rightarrow> string \<Rightarrow> session_manager \<Rightarrow> bool \<times> session_manager" where
  "delete_session io key m =
     (let path = session_path key;
          m1 = invalidate key m
      in if sm_files m1 path = None then (False, m1)
         else if io_remove_fails io path then (False, m1)
         else (True, m1\<lparr>sm_files := (sm_files m1)(path := None)\<rparr>))"

section \<open>Reading for the HTTP endpoints\<close>

definition session_payload :: "session_lib \<Rightarrow> session \<Rightarrow> json" where
  "session_payload L s =
     JObject [(''key'', JString (s_key s)),
       (''created_at'', JString (to_rfc3339 L (s_created_at s))),
       (''updated_at'', JString (to_rfc3339 L (s_updated_at s))),
       (''metadata'', JObject (map_entries L (s_metadata s))),
       (''messages'', JArray (s_messages s))]"

record file_view =
  fv_messages :: "json list"
  fv_metadata :: jmap
  fv_created :: "string option"
  fv_updated :: "string option"
  fv_key :: "string option"

definition view_value :: "json \<Rightarrow> file_view \<Rightarrow> file_view" where
  "view_value data acc =
     (if is_metadata data
      then acc\<lparr>fv_metadata :=
                  (case Option.bind (jget data ''metadata'') as_object of
                     Some m \<Rightarrow> fold (\<lambda>(k, v). obj_insert k v) m [] | None \<Rightarrow> fv_metadata acc),
               fv_created := Option.bind (jget data ''created_at'') as_str,
               fv_updated := Option.bind (jget data ''updated_at'') as_str,
               fv_key := Option.bind (jget data ''key'') as_str\<rparr>
      else acc\<lparr>fv_messages := fv_messages acc @ [data]\<rparr>)"

text \<open>\<open>None\<close>: a line could not be read or parsed, and the file is repaired instead.\<close>

fun view_lines :: "session_lib \<Rightarrow> string option list \<Rightarrow> file_view \<Rightarrow> file_view option" where
  "view_lines L [] acc = Some acc"
| "view_lines L (None # ls) acc = None"
| "view_lines L (Some l # ls) acc =
     (let line = trim l
      in if line = [] then view_lines L ls acc
         else case json_of_string L line of
                None \<Rightarrow> None
              | Some data \<Rightarrow> view_lines L ls (view_value data acc))"

definition opt_string :: "string option \<Rightarrow> json" where
  "opt_string o' = (case o' of Some s \<Rightarrow> JString s | None \<Rightarrow> JNull)"

definition read_session_file ::
    "session_lib \<Rightarrow> io_env \<Rightarrow> int \<Rightarrow> string \<Rightarrow> session_manager \<Rightarrow> json option" where
  "read_session_file L io now key m =
     (case sm_files m (session_path key) of
        None \<Rightarrow> None
      | Some txt \<Rightarrow>
          (let repaired = map_option (session_payload L) (repair L io now key m)
           in if io_open_fails io (session_path key) then repaired
              else case view_lines L (read_lines txt)
                          \<lparr>fv_messages = [], fv_metadata = [], fv_created = None, fv_updated = None, fv_key = None\<rparr> of
                     None \<Rightarrow> repaired
                   | Some v \<Rightarrow>
                       Some (JObject [(''key'', JString (case fv_key v of Some k \<Rightarrow> k | None \<Rightarrow> key)),
                         (''created_at'', opt_string (fv_created v)), (''updated_at'', opt_string (fv_updated v)),
                         (''metadata'', JObject (fv_metadata v)), (''messages'', JArray (fv_messages v))])))"

section \<open>Paths and cache\<close>

lemma tmp_not_session_path: "tmp_path k \<noteq> session_path k'"
proof
  assume "tmp_path k = session_path k'"
  then have "last (tmp_path k) = last (session_path k')" by simp
  then show False by (simp add: tmp_path_def session_path_def split: if_splits)
qed

lemma session_path_eq_iff: "session_path k = session_path k' \<longleftrightarrow> safe_key k = safe_key k'"
  by (simp add: session_path_def)

lemma cached_insert [simp]:
  "cached (cache_insert s m) k = (if k = s_key s then Some s else cached m k)"
  by (simp add: cached_def cache_insert_def find_key_upsert)

lemma cached_invalidate [simp]: "cached (invalidate key m) k = (if k = key then None else cached m k)"
  by (simp add: cached_def invalidate_def find_key_filter_other)

lemma cache_insert_simps [simp]:
  "sm_files (cache_insert s m) = sm_files m" "sm_legacy (cache_insert s m) = sm_legacy m"
  by (simp_all add: cache_insert_def)

lemma invalidate_simps [simp]:
  "sm_files (invalidate k m) = sm_files m" "sm_legacy (invalidate k m) = sm_legacy m"
  by (simp_all add: invalidate_def)

lemma cached_cong [simp]: "cached (m\<lparr>sm_files := f\<rparr>) k = cached m k"
  by (simp add: cached_def)

interpretation session_cache: keyed_store s_key cache_insert cached
  by unfold_locales simp

section \<open>What a file holds\<close>

text \<open>
  A session can be stored when serde reads back the values of its file from texts that are one
  line of UTF-8 without outer white space, chrono reads back its times, the entries of the
  metadata are those of the map, no message poses as the metadata line, and the counter fits
  64 bits.
\<close>

definition line_text :: "string \<Rightarrow> bool" where
  "line_text t \<longleftrightarrow> utf8_valid t \<and> (\<forall>c \<in> set t. byte c \<noteq> 10) \<and> t \<noteq> [] \<and> trim t = t"

definition storable :: "session_lib \<Rightarrow> session \<Rightarrow> bool" where
  "storable L s \<longleftrightarrow>
     (\<forall>v \<in> set (meta_value L s # s_messages s).
        json_of_string L (json_to_string L v) = Some v \<and> line_text (json_to_string L v)) \<and>
     parse_rfc3339 L (to_rfc3339 L (s_created_at s)) = Some (s_created_at s) \<and>
     parse_rfc3339 L (to_rfc3339 L (s_updated_at s)) = Some (s_updated_at s) \<and>
     collect_map (map_entries L (s_metadata s)) = s_metadata s \<and>
     (\<forall>v \<in> set (s_messages s). \<not> is_metadata v) \<and> s_last_consolidated s < 2 ^ 64"

lemma trim_no_cr:
  assumes "trim t = t" and "t \<noteq> []"
  shows "strip_cr t = t"
proof -
  have "rev t = strip (map rev ws_chars) (rev (trim_start t))"
    using assms(1) by (metis rev_rev_ident trim_def trim_end_def)
  moreover have "[CHR 0x0D] \<in> set (map rev ws_chars)" by (simp add: ws_chars_def)
  ultimately have "\<not> starts_with [CHR 0x0D] (rev t)" using strip_done by (metis list.distinct(1))
  then have ne: "hd (rev t) \<noteq> CHR 0x0D" using assms(2) by (cases "rev t") (auto simp: starts_with_def)
  have "byte (last t) \<noteq> 13"
  proof
    assume "byte (last t) = 13"
    moreover have "byte (CHR 0x0D) = 13" by (simp add: byte_def)
    ultimately have "last t = CHR 0x0D" by (metis byte_def char_of_char)
    then show False using ne by (simp add: hd_rev)
  qed
  then show ?thesis by (simp add: strip_cr_def)
qed

lemma read_lines_texts:
  "\<forall>t \<in> set ts. line_text t \<Longrightarrow> read_lines (concat (map (\<lambda>t. t @ [CHR 0x0A]) ts)) = map Some ts"
proof (induction ts)
  case Nil
  then show ?case by (simp add: read_lines_def lines_def)
next
  case (Cons t ts)
  then have "lines (t @ CHR 0x0A # concat (map (\<lambda>t. t @ [CHR 0x0A]) ts))
      = strip_cr t # lines (concat (map (\<lambda>t. t @ [CHR 0x0A]) ts))"
    by (intro lines_line) (simp add: line_text_def)
  moreover have "strip_cr t = t" using Cons.prems by (simp add: line_text_def trim_no_cr)
  ultimately show ?case using Cons by (simp add: read_lines_def line_text_def)
qed

lemma strict_lines_texts:
  "\<forall>v \<in> set vs. json_of_string L (json_to_string L v) = Some v \<and> line_text (json_to_string L v) \<Longrightarrow>
   strict_lines L now (map Some (map (json_to_string L) vs)) acc = Ok (fold (absorb_value L now) vs acc)"
  by (induction vs arbitrary: acc) (simp_all add: line_text_def)

lemma absorb_messages:
  "\<forall>v \<in> set vs. \<not> is_metadata v \<Longrightarrow>
   fold (absorb_value L now) vs acc = acc\<lparr>ld_messages := ld_messages acc @ vs\<rparr>"
  by (induction vs arbitrary: acc) (simp_all add: absorb_value_def)

lemma absorb_meta:
  assumes "storable L s"
  shows "absorb_value L now (meta_value L s) acc =
    acc\<lparr>ld_metadata := s_metadata s, ld_created := Some (s_created_at s),
        ld_updated := Some (s_updated_at s), ld_last_consolidated := s_last_consolidated s\<rparr>"
  using assms by (simp add: storable_def absorb_value_def is_metadata_def meta_value_def parse_isoformat_def)

lemma file_text_values: "file_text L s = concat (map (\<lambda>t. t @ [CHR 0x0A]) (map (json_to_string L) (meta_value L s # s_messages s)))"
  by (simp add: file_text_def comp_def)

lemma strict_file_text:
  assumes "storable L s"
  shows "bind_res (strict_lines L now (read_lines (file_text L s)) loaded_init)
           (\<lambda>acc. Ok (loaded_session now key acc)) = Ok (s\<lparr>s_key := key\<rparr>)"
proof -
  let ?vs = "meta_value L s # s_messages s"
  have v: "\<forall>v \<in> set ?vs. json_of_string L (json_to_string L v) = Some v \<and> line_text (json_to_string L v)"
    using assms unfolding storable_def by blast
  then have "read_lines (file_text L s) = map Some (map (json_to_string L) ?vs)"
    unfolding file_text_values by (intro read_lines_texts) auto
  moreover have "fold (absorb_value L now) ?vs loaded_init =
      \<lparr>ld_messages = s_messages s, ld_metadata = s_metadata s, ld_created = Some (s_created_at s),
       ld_updated = Some (s_updated_at s), ld_last_consolidated = s_last_consolidated s\<rparr>"
    using assms by (simp add: absorb_meta absorb_messages storable_def loaded_init_def)
  ultimately show ?thesis using strict_lines_texts [OF v] by (simp add: loaded_session_def)
qed

lemma load_stored:
  assumes "storable L s" and "sm_files m (session_path key) = Some (file_text L s)"
    and "\<not> io_open_fails io (session_path key)"
  shows "load_session L io now key m = (Some (s\<lparr>s_key := key\<rparr>), m)"
proof -
  have "read_strict L io now key (session_path key) m = Ok (s\<lparr>s_key := key\<rparr>)"
    using assms(2,3) strict_file_text [OF assms(1)] unfolding read_strict_def by (simp del: bind_res_Ok)
  then show ?thesis using assms(2) by (simp add: load_session_def)
qed

section \<open>Saving\<close>

lemma save_Ok:
  assumes "save L io s fsync m = (Ok (), m')"
  shows "sm_files m' = (sm_files m)(tmp_path (s_key s) := None, session_path (s_key s) \<mapsto> file_text L s)
    \<and> sm_legacy m' = sm_legacy m \<and> (\<forall>k. cached m' k = (if k = s_key s then Some s else cached m k))"
  using assms by (auto simp: save_def Let_def split: if_splits option.splits)

lemma save_fails:
  assumes "save L io s fsync m = (r, m')" and "r \<noteq> Ok ()"
  shows "sm_files m' (session_path k) = sm_files m (session_path k) \<and> sm_legacy m' = sm_legacy m
    \<and> cached m' k = cached m k"
  using assms tmp_not_session_path [of "s_key s" k]
  by (auto simp: save_def Let_def split: if_splits option.splits)

lemma save_no_faults: "fst (save L no_faults s fsync m) = Ok ()"
  by (simp add: save_def no_faults_def)

text \<open>
  (C23) A saved session is read back by a manager that starts afterwards on the same directory:
  messages, metadata, both times and the consolidation counter are those that were saved.
\<close>

theorem saved_session_reads_back:
  assumes "storable L s" and "save L io s fsync m = (Ok (), m')"
    and "\<not> io_open_fails io' (session_path (s_key s))"
  shows "fst (get_or_create L io' now (s_key s) (manager_new (sm_files m') legacy)) = s"
proof -
  have "sm_files (manager_new (sm_files m') legacy) (session_path (s_key s)) = Some (file_text L s)"
    using save_Ok [OF assms(2)] by (simp add: manager_new_def)
  then have "load_session L io' now (s_key s) (manager_new (sm_files m') legacy)
      = (Some s, manager_new (sm_files m') legacy)"
    using load_stored [OF assms(1) _ assms(3)] by simp
  then show ?thesis by (simp add: get_or_create_def cached_def manager_new_def)
qed

text \<open>
  An instance of the libraries for the examples: the values of a list are printed as words of
  different length, times in unary, and a map is enumerated by its sorted keys.
\<close>

definition demo_codec :: "json list \<Rightarrow> session_lib" where
  "demo_codec vs =
     \<lparr>json_to_string = \<lambda>v. (case position (\<lambda>w. w = v) vs of
                               Some i \<Rightarrow> replicate (Suc i) (CHR ''a'') | None \<Rightarrow> ''z''),
      json_of_string = \<lambda>t. if t \<noteq> [] \<and> length t \<le> length vs \<and> set t \<subseteq> {CHR ''a''}
                            then Some (vs ! (length t - 1)) else None,
      map_entries = sorted_list_of_fmap,
      to_rfc3339 = \<lambda>t. replicate (nat t) (CHR ''t''),
      parse_rfc3339 = \<lambda>s. Some (int (length s)),
      parse_naive = \<lambda>_ _. None, local_single = \<lambda>_. None\<rparr>"

definition demo_codec_for :: "session \<Rightarrow> session_lib" where
  "demo_codec_for s = demo_codec (meta_value (demo_codec []) s # s_messages s)"

definition demo_stored :: "string \<Rightarrow> session" where
  "demo_stored key = (session_new 1 key)\<lparr>s_messages := [demo_user ''hi'', demo_reply ''hello'']\<rparr>"

lemma demo_codec_roundtrip:
  assumes "v \<in> set vs"
  shows "json_of_string (demo_codec vs) (json_to_string (demo_codec vs) v) = Some v
    \<and> line_text (json_to_string (demo_codec vs) v)"
proof -
  obtain i where i: "position (\<lambda>w. w = v) vs = Some i"
    using assms position_None_iff [of "\<lambda>w. w = v" vs] by auto
  have p: "plain (replicate (Suc i) (CHR ''a''))" by (auto simp: plain_def byte_def)
  then have "line_text (replicate (Suc i) (CHR ''a''))"
    using utf8_plain [OF p] trim_plain [OF p] by (auto simp: line_text_def byte_def)
  then show ?thesis using position_Some [OF i] by (auto simp: demo_codec_def i)
qed

lemma demo_storable_new:
  assumes "0 \<le> s_created_at s" "0 \<le> s_updated_at s" "s_metadata s = fmempty" "s_last_consolidated s < 2 ^ 64"
    and "\<forall>v \<in> set (s_messages s). \<not> is_metadata v"
    and "meta_value (demo_codec []) s \<in> set vs" "set (s_messages s) \<subseteq> set vs"
  shows "storable (demo_codec vs) s"
proof -
  have "meta_value (demo_codec vs) s = meta_value (demo_codec []) s" by (simp add: demo_codec_def meta_value_def)
  then have "\<forall>v \<in> set (meta_value (demo_codec vs) s # s_messages s).
      json_of_string (demo_codec vs) (json_to_string (demo_codec vs) v) = Some v
      \<and> line_text (json_to_string (demo_codec vs) v)"
    using assms(6,7) demo_codec_roundtrip [of _ vs] by auto
  moreover have "sorted_list_of_fmap (fmempty :: (string, json) fmap) = []"
    by (simp add: sorted_list_of_fmap_def sorted_list_of_fset.rep_eq)
  ultimately show ?thesis using assms(1-5) unfolding storable_def
    by (auto simp: demo_codec_def collect_map_def)
qed

lemma demo_storable: "storable (demo_codec_for (demo_stored ''a_b'')) (demo_stored ''a_b'')"
  unfolding demo_codec_for_def
  by (rule demo_storable_new)
     (auto simp: demo_stored_def session_new_def demo_msg_defs is_metadata_def)

lemma demo_save_Ok:
  "save L no_faults s False (manager_new Map.empty Map.empty)
     = (Ok (), snd (save L no_faults s False (manager_new Map.empty Map.empty)))"
  using save_no_faults [of L s False "manager_new Map.empty Map.empty"] by (metis prod.collapse)

theorem saved_session_reads_back_witness:
  "fst (get_or_create (demo_codec_for (demo_stored ''a_b'')) no_faults 7 ''a_b''
     (manager_new (sm_files (snd (save (demo_codec_for (demo_stored ''a_b'')) no_faults (demo_stored ''a_b'') False
        (manager_new Map.empty Map.empty)))) Map.empty)) = demo_stored ''a_b''"
  using saved_session_reads_back [OF demo_storable demo_save_Ok, of no_faults 7 Map.empty]
  by (simp add: no_faults_def demo_stored_def session_new_def)

text \<open>
  A save either succeeds, and then the file holds the new session and every session with
  another file name is as before, or it fails, and then no session file and nothing in the cache
  has changed: a reader never sees a partly written session, wherever the write stopped.
\<close>

theorem save_is_atomic:
  assumes "save L io s fsync m = (r, m')"
  shows "(if r = Ok ()
     then \<forall>k. sm_files m' (session_path k)
                = (if safe_key k = safe_key (s_key s) then Some (file_text L s) else sm_files m (session_path k))
            \<and> cached m' k = (if k = s_key s then Some s else cached m k)
     else \<forall>k. sm_files m' (session_path k) = sm_files m (session_path k) \<and> cached m' k = cached m k)
   \<and> sm_legacy m' = sm_legacy m"
proof (cases "r = Ok ()")
  case True
  note ok = save_Ok [OF assms [unfolded True]]
  have "sm_files m' (session_path k)
      = (if safe_key k = safe_key (s_key s) then Some (file_text L s) else sm_files m (session_path k))" for k
    using ok tmp_not_session_path [of "s_key s" k] by (auto simp: session_path_eq_iff)
  then show ?thesis using True ok by simp
qed (use save_fails [OF assms] in auto)

theorem save_is_atomic_witness:
  "sm_files (snd (save (demo_codec []) (no_faults\<lparr>io_write_stops := \<lambda>_. Some 3\<rparr>) (demo_stored ''k'') False
     (manager_new [session_path ''k'' \<mapsto> ''old''] Map.empty))) (session_path ''k'') = Some ''old''"
proof -
  let ?r = "save (demo_codec []) (no_faults\<lparr>io_write_stops := \<lambda>_. Some 3\<rparr>) (demo_stored ''k'') False
     (manager_new [session_path ''k'' \<mapsto> ''old''] Map.empty)"
  have e: "fst ?r = Err WriteFile" by (simp add: save_def no_faults_def Let_def)
  have "?r = (Err WriteFile, snd ?r)" unfolding e [symmetric] by (rule prod.collapse [symmetric])
  from save_is_atomic [OF this] show ?thesis by (simp add: manager_new_def)
qed

text \<open>
  Two keys with the same safe file name share one file: whoever saved last is what a new
  manager loads for the other key, with that key on it.
\<close>

theorem colliding_keys_share_a_file:
  assumes "storable L s" and "save L io s fsync m = (Ok (), m')" and "safe_key k = safe_key (s_key s)"
    and "\<not> io_open_fails io' (session_path k)"
  shows "fst (get_or_create L io' now k (manager_new (sm_files m') legacy)) = s\<lparr>s_key := k\<rparr>"
proof -
  have "sm_files (manager_new (sm_files m') legacy) (session_path k) = Some (file_text L s)"
    using save_Ok [OF assms(2)] assms(3) by (simp add: manager_new_def session_path_eq_iff)
  then show ?thesis
    using load_stored [OF assms(1) _ assms(4), of "manager_new (sm_files m') legacy" now]
    by (simp add: get_or_create_def cached_def manager_new_def Let_def)
qed

theorem colliding_keys_share_a_file_witness:
  "''a:b'' \<noteq> ''a_b'' \<and>
   fst (get_or_create (demo_codec_for (demo_stored ''a_b'')) no_faults 7 ''a:b''
     (manager_new (sm_files (snd (save (demo_codec_for (demo_stored ''a_b'')) no_faults (demo_stored ''a_b'') False
        (manager_new Map.empty Map.empty)))) Map.empty)) = (demo_stored ''a_b'')\<lparr>s_key := ''a:b''\<rparr>"
proof -
  have "safe_key ''a:b'' = safe_key ''a_b''" by code_simp
  then have "safe_key ''a:b'' = safe_key (s_key (demo_stored ''a_b''))" by (simp add: demo_stored_def session_new_def)
  then show ?thesis
    using colliding_keys_share_a_file [OF demo_storable demo_save_Ok, of "''a:b''" no_faults 7 Map.empty]
    by (simp add: no_faults_def)
qed

section \<open>Damaged files\<close>

definition readable_values :: "session_lib \<Rightarrow> string \<Rightarrow> json list" where
  "readable_values L txt =
     List.map_filter (\<lambda>l. if trim l = [] then None else json_of_string L (trim l)) (lines txt)"

lemma strict_is_repair: "strict_lines L now ls acc = Ok acc' \<Longrightarrow> acc' = repair_lines L now ls acc"
  by (induction L now ls acc rule: strict_lines.induct) (auto simp: Let_def split: if_splits option.splits)

lemma repair_lines_values:
  "repair_lines L now (map Some ls) acc =
     fold (absorb_value L now) (List.map_filter (\<lambda>l. if trim l = [] then None else json_of_string L (trim l)) ls) acc"
  by (induction ls arbitrary: acc) (auto simp: Let_def map_filter_simps split: option.split)

lemma absorb_values_messages:
  "ld_messages (fold (absorb_value L now) vs acc) = ld_messages acc @ filter (\<lambda>v. \<not> is_metadata v) vs"
  by (induction vs arbitrary: acc) (auto simp: absorb_value_def)

text \<open>
  Lines of a session file that are not JSON cost only themselves: the loaded session has
  every message that can be parsed, in the order of the file.
\<close>

theorem load_recovers_readable_messages:
  assumes "sm_files m (session_path key) = Some txt" and "\<not> io_open_fails io (session_path key)"
    and "\<forall>l \<in> set (lines txt). utf8_valid l"
    and "\<exists>v \<in> set (readable_values L txt). \<not> is_metadata v"
  shows "\<exists>s. fst (load_session L io now key m) = Some s \<and> s_key s = key
    \<and> s_messages s = filter (\<lambda>v. \<not> is_metadata v) (readable_values L txt)"
proof -
  have "read_lines txt = map Some (lines txt)" using assms(3) by (simp add: read_lines_def)
  then have msgs: "ld_messages (repair_lines L now (read_lines txt) loaded_init)
      = filter (\<lambda>v. \<not> is_metadata v) (readable_values L txt)"
    by (simp add: repair_lines_values absorb_values_messages readable_values_def loaded_init_def)
  then have ne: "ld_messages (repair_lines L now (read_lines txt) loaded_init) \<noteq> []"
    using assms(4) by (metis (mono_tags, lifting) filter_empty_conv)
  show ?thesis
  proof (cases "strict_lines L now (read_lines txt) loaded_init")
    case (Ok acc)
    then have "acc = repair_lines L now (read_lines txt) loaded_init" by (rule strict_is_repair)
    then show ?thesis using Ok assms(1,2) msgs by (simp add: load_session_def read_strict_def loaded_session_def)
  qed (use assms(1,2) msgs ne in \<open>simp_all add: load_session_def read_strict_def repair_def loaded_session_def Let_def\<close>)
qed

theorem load_recovers_readable_messages_witness:
  "\<exists>s. fst (load_session (demo_codec [demo_user ''hi'']) no_faults 7 ''k''
        (manager_new [session_path ''k'' \<mapsto> ''{broken'' @ [CHR 0x0A] @ ''a''] Map.empty)) = Some s
     \<and> s_messages s = [demo_user ''hi'']"
proof -
  let ?L = "demo_codec [demo_user ''hi'']" and ?t = "''{broken'' @ [CHR 0x0A] @ ''a''"
  have v: "readable_values ?L ?t = [demo_user ''hi'']" by code_simp
  have u: "\<forall>l \<in> set (lines ?t). utf8_valid l" by code_simp
  have n: "\<not> is_metadata (demo_user ''hi'')" by (simp add: is_metadata_def demo_user_def)
  show ?thesis
    using load_recovers_readable_messages
      [of "manager_new [session_path ''k'' \<mapsto> ?t] Map.empty" "''k''" ?t no_faults ?L 7] u n
    unfolding v by (auto simp: manager_new_def no_faults_def)
qed

section \<open>Refinement of two maps\<close>

text \<open>
  What the manager promises: a map of saved sessions and a map of open ones. Getting a session
  opens the saved one or a new one, saving writes both maps, a restart forgets what was only
  open. The requests run without file errors.
\<close>

datatype sm_request =
    Get int string | Save session bool | Invalidate string | Delete string | Flush | Restart

datatype sm_answer = Found session | Deleted bool | Done

fun sm_step :: "session_lib \<Rightarrow> (string list \<Rightarrow> string list) \<Rightarrow> sm_request \<Rightarrow> session_manager \<Rightarrow> sm_answer \<times> session_manager" where
  "sm_step L order (Get now k) m = map_prod Found id (get_or_create L no_faults now k m)"
| "sm_step L order (Save s fsync) m = (Done, snd (save L no_faults s fsync m))"
| "sm_step L order (Invalidate k) m = (Done, invalidate k m)"
| "sm_step L order (Delete k) m = map_prod Deleted id (delete_session no_faults k m)"
| "sm_step L order Flush m = (Done, snd (flush_all L no_faults order m))"
| "sm_step L order Restart m = (Done, manager_new (sm_files m) (sm_legacy m))"

type_synonym session_maps = "(string \<rightharpoonup> session) \<times> (string \<rightharpoonup> session)"

definition session_to_open :: "session_maps \<Rightarrow> int \<Rightarrow> string \<Rightarrow> session" where
  "session_to_open A now k =
     (case snd A k of
        Some s \<Rightarrow> s
      | None \<Rightarrow> (case fst A k of Some s \<Rightarrow> s | None \<Rightarrow> session_new now k))"

fun spec_step :: "sm_request \<Rightarrow> session_maps \<Rightarrow> sm_answer \<times> session_maps" where
  "spec_step (Get now k) (saved, opened) =
     (let s = session_to_open (saved, opened) now k in (Found s, saved, opened(k \<mapsto> s)))"
| "spec_step (Save s fsync) (saved, opened) = (Done, saved(s_key s \<mapsto> s), opened(s_key s \<mapsto> s))"
| "spec_step (Invalidate k) (saved, opened) = (Done, saved, opened(k := None))"
| "spec_step (Delete k) (saved, opened) = (Deleted (saved k \<noteq> None), saved(k := None), opened(k := None))"
| "spec_step Flush (saved, opened) = (Done, saved ++ opened, opened)"
| "spec_step Restart (saved, opened) = (Done, saved, Map.empty)"

text \<open>Requests on the keys of a set, with sessions that can be stored.\<close>

fun legal_request :: "session_lib \<Rightarrow> (string list \<Rightarrow> string list) \<Rightarrow> string set \<Rightarrow> sm_request \<Rightarrow> bool" where
  "legal_request L order K (Get now k) \<longleftrightarrow> k \<in> K \<and> storable L (session_new now k)"
| "legal_request L order K (Save s fsync) \<longleftrightarrow> s_key s \<in> K \<and> storable L s"
| "legal_request L order K (Invalidate k) \<longleftrightarrow> True"
| "legal_request L order K (Delete k) \<longleftrightarrow> k \<in> K"
| "legal_request L order K Flush \<longleftrightarrow> (\<forall>ks. set (order ks) = set ks)"
| "legal_request L order K Restart \<longleftrightarrow> True"

definition file_holds :: "session_lib \<Rightarrow> session_manager \<Rightarrow> string \<Rightarrow> session option \<Rightarrow> bool" where
  "file_holds L m k d \<longleftrightarrow>
     sm_legacy m (session_path k) = None \<and>
     (case d of
        None \<Rightarrow> sm_files m (session_path k) = None
      | Some s \<Rightarrow> s_key s = k \<and> storable L s \<and> sm_files m (session_path k) = Some (file_text L s))"

definition store_rel :: "session_lib \<Rightarrow> string set \<Rightarrow> session_manager \<Rightarrow> session_maps \<Rightarrow> bool" where
  "store_rel L K m A \<longleftrightarrow>
     inj_on safe_key K \<and> (\<forall>k. cached m k = snd A k) \<and>
     (\<forall>k s. snd A k = Some s \<longrightarrow> k \<in> K \<and> s_key s = k \<and> storable L s) \<and>
     (\<forall>k \<in> K. file_holds L m k (fst A k))"

lemma store_relD:
  assumes "store_rel L K m (D, V)"
  shows "cached m k = V k" "V k = Some s \<Longrightarrow> k \<in> K \<and> s_key s = k \<and> storable L s"
    "k \<in> K \<Longrightarrow> file_holds L m k (D k)" "inj_on safe_key K"
  using assms by (auto simp: store_rel_def)

lemma load_file_holds:
  assumes "file_holds L m k d"
  shows "load_session L no_faults now k m = (d, m)"
proof (cases d)
  case None
  then show ?thesis using assms by (simp add: file_holds_def load_session_def migrate_legacy_def Let_def)
next
  case (Some s)
  then have s: "s_key s = k" "storable L s" "sm_files m (session_path k) = Some (file_text L s)"
    using assms by (simp_all add: file_holds_def)
  have "s\<lparr>s_key := k\<rparr> = s" using s(1) by auto
  then show ?thesis using load_stored [OF s(2,3), of no_faults now] Some by (simp add: no_faults_def)
qed

lemma file_holds_cong:
  "sm_files m' (session_path k) = sm_files m (session_path k) \<Longrightarrow> sm_legacy m' = sm_legacy m
   \<Longrightarrow> file_holds L m' k d = file_holds L m k d"
  by (cases d) (simp_all add: file_holds_def)

lemma file_holds_simps [simp]:
  "file_holds L (cache_insert s m) k d = file_holds L m k d"
  "file_holds L (invalidate k' m) k d = file_holds L m k d"
  "file_holds L (manager_new (sm_files m) (sm_legacy m)) k d = file_holds L m k d"
  by (rule file_holds_cong; simp add: manager_new_def)+

lemma store_rel_get:
  assumes r: "store_rel L K m (D, V)" and k: "k \<in> K" "storable L (session_new now k)"
  shows "fst (get_or_create L no_faults now k m) = session_to_open (D, V) now k"
    and "store_rel L K (snd (get_or_create L no_faults now k m)) (D, V(k \<mapsto> session_to_open (D, V) now k))"
proof -
  let ?s = "session_to_open (D, V) now k"
  have fh: "file_holds L m k (D k)" by (rule store_relD(3) [OF r k(1)])
  have sess: "s_key ?s = k" "storable L ?s"
    using store_relD(2) [OF r, of k] fh k(2)
    by (auto simp: session_to_open_def file_holds_def session_new_def split: option.splits)
  have load: "load_session L no_faults now k m = (D k, m)" by (rule load_file_holds [OF fh])
  have g: "get_or_create L no_faults now k m = (?s, if V k = None then cache_insert ?s m else m)"
    using store_relD(1) [OF r, of k] load by (simp add: get_or_create_def session_to_open_def Let_def split: option.split)
  then show "fst (get_or_create L no_faults now k m) = ?s" by simp
  have "cached (snd (get_or_create L no_faults now k m)) j = (V(k \<mapsto> ?s)) j" for j
    using g store_relD(1) [OF r] sess(1) by (auto simp: session_to_open_def split: option.split)
  moreover have "file_holds L (snd (get_or_create L no_faults now k m)) j (D j)" if "j \<in> K" for j
    using store_relD(3) [OF r that] g by simp
  ultimately show "store_rel L K (snd (get_or_create L no_faults now k m)) (D, V(k \<mapsto> ?s))"
    using r sess k(1) unfolding store_rel_def by simp
qed

lemma store_rel_save:
  assumes r: "store_rel L K m (D, V)" and s: "s_key s \<in> K" "storable L s"
  shows "store_rel L K (snd (save L no_faults s fsync m)) (D(s_key s \<mapsto> s), V(s_key s \<mapsto> s))"
proof -
  obtain m' where m': "save L no_faults s fsync m = (Ok (), m')"
    using save_no_faults [of L s fsync m] by (metis prod.collapse)
  note at = save_Ok [OF m']
  have same: "sm_files m' (session_path k) = sm_files m (session_path k)" if "k \<in> K" "k \<noteq> s_key s" for k
    using at store_relD(4) [OF r] that s(1) tmp_not_session_path [of "s_key s" k]
    by (auto simp: inj_on_eq_iff session_path_eq_iff)
  have "file_holds L m' k ((D(s_key s \<mapsto> s)) k)" if "k \<in> K" for k
  proof (cases "k = s_key s")
    case True
    then show ?thesis using at store_relD(3) [OF r that] s(2) by (simp add: file_holds_def)
  next
    case False
    then have "file_holds L m' k (D k) = file_holds L m k (D k)"
      using same [OF that] at by (intro file_holds_cong) simp_all
    then show ?thesis using False store_relD(3) [OF r that] by simp
  qed
  then show ?thesis using r s at m' unfolding store_rel_def by simp
qed

lemma store_rel_flush:
  "store_rel L K m (D, V) \<Longrightarrow>
   store_rel L K (snd (flush_keys L no_faults ks n m)) (\<lambda>k. if k \<in> set ks \<and> V k \<noteq> None then V k else D k, V)"
proof (induction ks arbitrary: m D n)
  case (Cons k ks)
  show ?case
  proof (cases "V k")
    case None
    then have "cached m k = None" using store_relD(1) [OF Cons.prems] by simp
    moreover have "(\<lambda>j. if j \<in> set (k # ks) \<and> V j \<noteq> None then V j else D j)
        = (\<lambda>j. if j \<in> set ks \<and> V j \<noteq> None then V j else D j)" using None by (intro ext) auto
    ultimately show ?thesis using Cons.IH [OF Cons.prems, of n] by simp
  next
    case (Some s)
    then have s: "cached m k = Some s" "k \<in> K" "s_key s = k" "storable L s"
      using store_relD(1,2) [OF Cons.prems, of k] by auto
    obtain m' where m': "save L no_faults s True m = (Ok (), m')"
      using save_no_faults [of L s True m] by (metis prod.collapse)
    have "V(k \<mapsto> s) = V" using Some by auto
    then have "store_rel L K m' (D(k \<mapsto> s), V)"
      using store_rel_save [OF Cons.prems, of s True] s m' by simp
    note IH = Cons.IH [OF this, of "Suc n"]
    have "(\<lambda>j. if j \<in> set (k # ks) \<and> V j \<noteq> None then V j else D j)
        = (\<lambda>j. if j \<in> set ks \<and> V j \<noteq> None then V j else (D(k \<mapsto> s)) j)" using Some by (intro ext) auto
    then show ?thesis using IH s(1) m' by simp
  qed
qed simp

lemma store_rel_flush_all:
  assumes r: "store_rel L K m (D, V)" and order: "\<forall>ks. set (order ks) = set ks"
  shows "store_rel L K (snd (flush_all L no_faults order m)) (D ++ V, V)"
proof -
  have "V k = None" if "k \<notin> set (order (map fst (sm_cache m)))" for k
  proof -
    have "k \<notin> fst ` set (sm_cache m)" using that order by simp
    then have "find_key fst (sm_cache m) k = None" by (simp add: find_key_None_iff)
    then show ?thesis using store_relD(1) [OF r, of k] by (simp add: cached_def)
  qed
  then have "(\<lambda>k. if k \<in> set (order (map fst (sm_cache m))) \<and> V k \<noteq> None then V k else D k) = D ++ V"
    by (intro ext) (auto simp: map_add_def split: option.split)
  then show ?thesis
    using store_rel_flush [OF r, of "order (map fst (sm_cache m))" 0] by (simp add: flush_all_def)
qed

lemma store_rel_delete:
  assumes r: "store_rel L K m (D, V)" and k: "k \<in> K"
  shows "fst (delete_session no_faults k m) = (D k \<noteq> None)"
    and "store_rel L K (snd (delete_session no_faults k m)) (D(k := None), V(k := None))"
proof -
  have fk: "(sm_files m (session_path k) = None) = (D k = None)"
    using store_relD(3) [OF r k] by (auto simp: file_holds_def split: option.splits)
  have d: "delete_session no_faults k m = (D k \<noteq> None, (invalidate k m)\<lparr>sm_files := (sm_files m)(session_path k := None)\<rparr>)"
    using fk by (auto simp: delete_session_def no_faults_def Let_def fun_upd_idem)
  then show "fst (delete_session no_faults k m) = (D k \<noteq> None)" by simp
  have "file_holds L (snd (delete_session no_faults k m)) j ((D(k := None)) j)" if "j \<in> K" for j
  proof (cases "j = k")
    case True
    then show ?thesis using d store_relD(3) [OF r that] by (simp add: file_holds_def)
  next
    case False
    then have "session_path j \<noteq> session_path k"
      using store_relD(4) [OF r] that k by (simp add: session_path_eq_iff inj_on_eq_iff)
    then have "file_holds L (snd (delete_session no_faults k m)) j (D j) = file_holds L m j (D j)"
      using d by (intro file_holds_cong) simp_all
    then show ?thesis using False store_relD(3) [OF r that] by simp
  qed
  then show "store_rel L K (snd (delete_session no_faults k m)) (D(k := None), V(k := None))"
    using r d unfolding store_rel_def by simp
qed

interpretation session_service: simulation "sm_step L order" spec_step "store_rel L K" "legal_request L order K"
  for L order K
proof
  fix m A op
  assume r: "store_rel L K m A" and l: "legal_request L order K op"
  obtain D V where A: "A = (D, V)" by (cases A)
  note r = r [unfolded A]
  show "fst (sm_step L order op m) = fst (spec_step op A)"
    using store_rel_get(1) [OF r] store_rel_delete(1) [OF r] l unfolding A by (cases op) (simp_all add: Let_def)
  have inval: "store_rel L K (invalidate k m) (D, V(k := None))" for k
    using r by (simp add: store_rel_def)
  have restart: "store_rel L K (manager_new (sm_files m) (sm_legacy m)) (D, Map.empty)"
    using r by (simp add: store_rel_def) (simp add: manager_new_def cached_def)
  show "store_rel L K (snd (sm_step L order op m)) (snd (spec_step op A))"
    using store_rel_get(2) [OF r] store_rel_delete(2) [OF r] store_rel_save [OF r] store_rel_flush_all [OF r]
      inval restart l unfolding A by (cases op) (simp_all add: Let_def)
qed

text \<open>
  (C11) On keys that have different file names, and without file errors, the manager with its
  cache, its files and their text form answers every sequence of requests, restarts included,
  exactly as a map of saved sessions and a map of open ones would.
\<close>

theorem session_manager_refines_maps:
  assumes "inj_on safe_key K" and "\<forall>op \<in> set ops. legal_request L order K op"
  shows "answers (sm_step L order) ops (manager_new Map.empty Map.empty)
       = answers spec_step ops (Map.empty, Map.empty)"
proof -
  have "store_rel L K (manager_new Map.empty Map.empty) (Map.empty, Map.empty)"
    using assms(1) by (simp add: store_rel_def file_holds_def manager_new_def cached_def)
  then show ?thesis using assms(2) by (rule session_service.same_answers)
qed

definition demo_store_lib :: session_lib where
  "demo_store_lib =
     demo_codec ([meta_value (demo_codec []) (demo_stored ''a_b''), meta_value (demo_codec []) (session_new 7 ''a_b'')]
               @ s_messages (demo_stored ''a_b''))"

theorem session_manager_refines_maps_witness:
  "answers (sm_step demo_store_lib rev)
     [Save (demo_stored ''a_b'') True, Restart, Get 7 ''a_b'', Flush, Delete ''a_b''] (manager_new Map.empty Map.empty)
   = [Done, Done, Found (demo_stored ''a_b''), Done, Deleted True]"
proof -
  have k: "s_key (demo_stored ''a_b'') = ''a_b''" by (simp add: demo_stored_def session_new_def)
  have "storable demo_store_lib (demo_stored ''a_b'')"
    unfolding demo_store_lib_def
    by (rule demo_storable_new) (auto simp: demo_stored_def session_new_def demo_msg_defs is_metadata_def)
  moreover have "storable demo_store_lib (session_new 7 ''a_b'')"
    unfolding demo_store_lib_def by (rule demo_storable_new) (auto simp: session_new_def)
  ultimately show ?thesis
    using session_manager_refines_maps [of "{''a_b''}"
        "[Save (demo_stored ''a_b'') True, Restart, Get 7 ''a_b'', Flush, Delete ''a_b'']" demo_store_lib rev] k
    by (simp add: session_to_open_def Let_def)
qed

end
