(* ===== verification/Session_Goal.thy ===== *)
theory Session_Goal
  imports Session_Manager
begin

text \<open>
  Sustained goals and web turns of a session (crates/session/src/goal_state.rs, webui_turns.rs):
  the goal stored in the metadata under the current or the legacy key, the three views of it
  (runtime lines, the WebSocket blob, the timeout of the runner), titles of web sessions and the
  start times of running turns.
\<close>

section \<open>goal\_state.rs\<close>

type_synonym metadata = "(string, json) fmap"

definition goal_state_key :: string where
  "goal_state_key = ''goal_state''"

definition legacy_goal_state_session_key :: string where
  "legacy_goal_state_session_key = ''thread_goal''"

definition max_objective_in_runtime :: nat where
  "max_objective_in_runtime = 4000"

definition max_objective_ws :: nat where
  "max_objective_ws = 600"

definition ellipsis :: string where
  "ellipsis = [CHR 0xE2, CHR 0x80, CHR 0xA6]"

definition session_goal_raw :: "metadata option \<Rightarrow> json option" where
  "session_goal_raw metadata =
     (case metadata of
        None \<Rightarrow> None
      | Some m \<Rightarrow>
          (case fmlookup m goal_state_key of
             Some v \<Rightarrow> Some v
           | None \<Rightarrow> fmlookup m legacy_goal_state_session_key))"

definition discard_legacy_goal_state_key :: "metadata \<Rightarrow> metadata" where
  "discard_legacy_goal_state_key metadata = fmdrop legacy_goal_state_session_key metadata"

definition goal_state_raw :: "metadata option \<Rightarrow> json option" where
  "goal_state_raw metadata = session_goal_raw metadata"

definition parse_goal_state :: "session_lib \<Rightarrow> json option \<Rightarrow> jmap option" where
  "parse_goal_state L blob =
     (case blob of
        None \<Rightarrow> None
      | Some b \<Rightarrow>
          (case as_object b of
             Some obj \<Rightarrow> Some obj
           | None \<Rightarrow>
               (case Option.bind (as_str b) (json_of_string L) of
                  Some (JObject obj) \<Rightarrow> Some obj
                | _ \<Rightarrow> None)))"

definition goal_status :: "jmap \<Rightarrow> string option" where
  "goal_status goal = Option.bind (obj_get goal ''status'') as_str"

definition sustained_goal_active :: "session_lib \<Rightarrow> metadata option \<Rightarrow> bool" where
  "sustained_goal_active L metadata =
     (case parse_goal_state L (goal_state_raw metadata) of
        Some g \<Rightarrow> goal_status g = Some ''active''
      | None \<Rightarrow> False)"

definition trimmed_text :: "jmap \<Rightarrow> string \<Rightarrow> string" where
  "trimmed_text goal k = trim (case Option.bind (obj_get goal k) as_str of Some s \<Rightarrow> s | None \<Rightarrow> '''')"

definition runtime_objective :: "string \<Rightarrow> string" where
  "runtime_objective objective =
     (if length objective > max_objective_in_runtime
      then trim_end (take_chars max_objective_in_runtime objective) @ [CHR 0x0A] @ ellipsis @ '' (truncated)''
      else objective)"

definition goal_state_runtime_lines :: "session_lib \<Rightarrow> metadata option \<Rightarrow> string list" where
  "goal_state_runtime_lines L metadata =
     (case metadata of
        None \<Rightarrow> []
      | Some m \<Rightarrow>
          (case parse_goal_state L (session_goal_raw (Some m)) of
             None \<Rightarrow> []
           | Some goal \<Rightarrow>
               if goal_status goal \<noteq> Some ''active'' then []
               else let objective = trimmed_text goal ''objective''
                    in if objective = [] then [''Goal: active (no objective text stored).'']
                       else let out = [''Goal (active):'', runtime_objective objective]
                            in case Option.bind (obj_get goal ''ui_summary'') as_str of
                                 Some hint \<Rightarrow>
                                   if trim hint \<noteq> [] then out @ [''Summary: '' @ trim hint] else out
                               | None \<Rightarrow> out))"

definition ws_objective :: "string \<Rightarrow> string" where
  "ws_objective objective =
     (if length objective > max_objective_ws
      then trim_end (take_chars max_objective_ws objective) @ ellipsis
      else objective)"

definition goal_state_ws_blob :: "session_lib \<Rightarrow> metadata option \<Rightarrow> json" where
  "goal_state_ws_blob L metadata =
     (let goal = Option.bind metadata (\<lambda>m.
            Option.bind (session_goal_raw (Some m)) (\<lambda>v. parse_goal_state L (Some v)))
      in case goal of
           Some goal \<Rightarrow>
             if goal_status goal = Some ''active''
             then let objective = ws_objective (trimmed_text goal ''objective'');
                      summary = take_chars 120 (trimmed_text goal ''ui_summary'');
                      blob = obj_insert ''active'' (JBool True) [];
                      blob = (if summary \<noteq> [] then obj_insert ''ui_summary'' (JString summary) blob else blob);
                      blob = (if objective \<noteq> [] then obj_insert ''objective'' (JString objective) blob else blob)
                  in JObject blob
             else JObject [(''active'', JBool False)]
         | None \<Rightarrow> JObject [(''active'', JBool False)])"

text \<open>The result is a number of seconds; 0 disables the timeout.\<close>

definition runner_wall_llm_timeout_s ::
    "session_lib \<Rightarrow> session_manager \<Rightarrow> string option \<Rightarrow> metadata option \<Rightarrow> nat option" where
  "runner_wall_llm_timeout_s L sessions session_key metadata =
     (let meta = (if metadata \<noteq> None then metadata
                  else if session_key \<noteq> None then None else None)
      in if sustained_goal_active L meta then Some 0 else None)"

section \<open>webui\_turns.rs\<close>

definition webui_session_metadata_key :: string where
  "webui_session_metadata_key = ''webui''"

definition title_max_chars :: nat where
  "title_max_chars = 60"

definition is_webui_session :: "metadata \<Rightarrow> bool" where
  "is_webui_session metadata =
     (case Option.bind (fmlookup metadata webui_session_metadata_key) as_bool of Some b \<Rightarrow> b | None \<Rightarrow> False)"

definition mark_webui_session :: "session \<Rightarrow> metadata \<Rightarrow> bool \<times> session" where
  "mark_webui_session s metadata =
     (if \<not> (case Option.bind (fmlookup metadata webui_session_metadata_key) as_bool of Some b \<Rightarrow> b | None \<Rightarrow> False)
      then (False, s)
      else (True, s\<lparr>s_metadata := fmupd webui_session_metadata_key (JBool True) (s_metadata s)\<rparr>))"

text \<open>
  The leading \<^verbatim>\<open>title\<close> (any case) or its Chinese equivalent, followed by an ASCII or full-width
  colon, with white space around both.
\<close>

definition biaoti :: string where
  "biaoti = [CHR 0xE6, CHR 0xA0, CHR 0x87, CHR 0xE9, CHR 0xA2, CHR 0x98]"

definition wide_colon :: string where
  "wide_colon = [CHR 0xEF, CHR 0xBC, CHR 0x9A]"

definition strip_title_prefix :: "string \<Rightarrow> string" where
  "strip_title_prefix t =
     (let a = trim_start t;
          rest = (if map ascii_lower (take 5 a) = ''title'' then Some (drop 5 a)
                  else if starts_with biaoti a then Some (drop (length biaoti) a) else None)
      in case rest of
           None \<Rightarrow> t
         | Some r \<Rightarrow>
             (let b = trim_start r
              in if starts_with '':'' b then trim_start (drop 1 b)
                 else if starts_with wide_colon b then trim_start (drop (length wide_colon) b)
                 else t))"

definition quote_chars :: "string list" where
  "quote_chars = [[CHR 0x22], [CHR 0x27], [CHR 0x60]]"

definition title_punctuation :: "string list" where
  "title_punctuation =
     [[CHR 0xE3, CHR 0x80, CHR 0x82], ''.'', ''!'', [CHR 0xEF, CHR 0xBC, CHR 0x81], ''?'',
      [CHR 0xEF, CHR 0xBC, CHR 0x9F], '','', [CHR 0xEF, CHR 0xBC, CHR 0x8C], '';'',
      [CHR 0xEF, CHR 0xBC, CHR 0x9B], '':'']"

text \<open>Runs of white space become one blank and the ends are trimmed: the words joined by blanks.\<close>

definition title_text :: "string \<Rightarrow> string" where
  "title_text t =
     (let a = trim_matches quote_chars (trim (strip_title_prefix t))
      in trim_end_matches title_punctuation (join '' '' (split_whitespace a)))"

definition clean_generated_title :: "string option \<Rightarrow> string" where
  "clean_generated_title raw =
     (let t = trim (case raw of Some s \<Rightarrow> s | None \<Rightarrow> '''')
      in if t = [] then []
         else let txt = title_text t
              in if length txt > title_max_chars
                 then trim_end (take_chars (title_max_chars - 1) txt) @ ellipsis
                 else txt)"

fun title_scan :: "json list \<Rightarrow> string \<Rightarrow> string \<Rightarrow> string \<times> string" where
  "title_scan [] user_text assistant_text = (user_text, assistant_text)"
| "title_scan (message # rest) user_text assistant_text =
     (if Option.bind (jget message ''_command'') as_bool = Some True
      then title_scan rest user_text assistant_text
      else let role = (case msg_role message of Some r \<Rightarrow> r | None \<Rightarrow> '''');
               content = (case Option.bind (jget message ''content'') as_str of Some c \<Rightarrow> c | None \<Rightarrow> '''')
           in if trim content = [] then title_scan rest user_text assistant_text
              else let u = (if role = ''user'' \<and> user_text = [] then trim content else user_text);
                       a = (if \<not> (role = ''user'' \<and> user_text = []) \<and> role = ''assistant'' \<and> assistant_text = []
                            then trim content else assistant_text)
                   in if u \<noteq> [] \<and> a \<noteq> [] then (u, a) else title_scan rest u a)"

definition title_inputs :: "session \<Rightarrow> string \<times> string" where
  "title_inputs s = title_scan (s_messages s) '''' ''''"

text \<open>The start of the running turn of each chat.\<close>

definition websocket_turn_wall_started_at :: "(string, 't) fmap \<Rightarrow> string \<Rightarrow> 't option" where
  "websocket_turn_wall_started_at turns chat_id = fmlookup turns chat_id"

definition record_turn_start :: "'t \<Rightarrow> string \<Rightarrow> (string, 't) fmap \<Rightarrow> (string, 't) fmap" where
  "record_turn_start now chat_id turns = fmupd chat_id now turns"

definition clear_turn_start :: "string \<Rightarrow> (string, 't) fmap \<Rightarrow> (string, 't) fmap" where
  "clear_turn_start chat_id turns = fmdrop chat_id turns"

definition build_webui_goal_state :: "session_lib \<Rightarrow> session \<Rightarrow> json option" where
  "build_webui_goal_state L s =
     (let blob = goal_state_ws_blob L (Some (s_metadata s)) in if blob = JNull then None else Some blob)"

section \<open>Properties\<close>

text \<open>
  The views of the goal agree: runtime lines are produced exactly when the goal is active,
  exactly then the blob says so, and exactly then the runner's timeout is switched off.
\<close>

theorem goal_views_agree:
  "(goal_state_runtime_lines L meta \<noteq> [] \<longleftrightarrow> sustained_goal_active L meta)
   \<and> (jget (goal_state_ws_blob L meta) ''active'' = Some (JBool (sustained_goal_active L meta)))
   \<and> (runner_wall_llm_timeout_s L sessions key meta = (if sustained_goal_active L meta then Some 0 else None))"
proof (cases "Option.bind meta (\<lambda>m. session_goal_raw (Some m))")
  case None
  then show ?thesis
    by (cases meta) (auto simp: goal_state_runtime_lines_def sustained_goal_active_def goal_state_ws_blob_def
        runner_wall_llm_timeout_s_def goal_state_raw_def session_goal_raw_def parse_goal_state_def Let_def)
next
  case (Some v)
  then obtain m where m: "meta = Some m" "session_goal_raw (Some m) = Some v" by (cases meta) auto
  show ?thesis
  proof (cases "parse_goal_state L (Some v)")
    case None
    then show ?thesis using m
      by (simp add: goal_state_runtime_lines_def sustained_goal_active_def goal_state_ws_blob_def
          runner_wall_llm_timeout_s_def goal_state_raw_def)
  next
    case (Some g)
    then show ?thesis using m
      by (simp add: goal_state_runtime_lines_def sustained_goal_active_def goal_state_ws_blob_def
          runner_wall_llm_timeout_s_def goal_state_raw_def Let_def split: option.split)
  qed
qed

lemma strip_suffix: "\<exists>p. s = p @ strip W s"
proof (induction W s rule: strip.induct)
  case (1 W s)
  show ?case
  proof (cases "find (\<lambda>w. w \<noteq> [] \<and> starts_with w s) W")
    case (Some w)
    then obtain p where p: "drop (length w) s = p @ strip W (drop (length w) s)" using 1 by blast
    have "s = take (length w) s @ drop (length w) s" by simp
    also have "\<dots> = (take (length w) s @ p) @ strip W (drop (length w) s)" by (subst p) simp
    also have "strip W (drop (length w) s) = strip W s" by (subst (2) strip.simps) (simp add: Some)
    finally show ?thesis by blast
  qed (simp add: strip.simps)
qed

lemma trim_end_prefix: "\<exists>p. s = trim_end s @ p"
  using strip_suffix [of "rev s" "map rev ws_chars"] unfolding trim_end_def by (metis rev_append rev_rev_ident)

lemma chars_count_trim_end: "chars_count (trim_end s) \<le> chars_count s"
  using trim_end_prefix [of s] chars_count_append by (metis le_add1)

lemma chars_count_length: "chars_count s \<le> length s"
  by (simp add: chars_count_def)

text \<open>
  A generated title has at most 60 characters.
\<close>

theorem title_is_bounded: "chars_count (clean_generated_title raw) \<le> 60"
proof -
  have "chars_count (trim_end (take_chars 59 t)) \<le> 59" for t
    using chars_count_trim_end take_chars_count le_trans by blast
  moreover have "chars_count ellipsis = 1" by code_simp
  ultimately have "chars_count (trim_end (take_chars 59 t) @ ellipsis) \<le> 60" for t
    by (simp add: chars_count_append)
  then show ?thesis
    using chars_count_length [of "title_text (trim (case raw of Some s \<Rightarrow> s | None \<Rightarrow> ''''))"]
    by (auto simp: clean_generated_title_def title_max_chars_def Let_def)
qed

lemma trim_fixed:
  assumes "trim s = s"
  shows "trim_end s = s"
proof -
  obtain p where p: "s = p @ trim_start s" using strip_suffix [of s ws_chars] unfolding trim_start_def by blast
  obtain q where q: "trim_start s = trim_end (trim_start s) @ q" using trim_end_prefix by blast
  have "trim_end (trim_start s) = s" using assms by (simp add: trim_def)
  then have "length (trim_start s) = length s + length q" using q by (metis length_append)
  then have "p = []" using p by (metis add_cancel_left_left add_leD1 le_add2 le_antisym length_0_conv length_append)
  then show ?thesis using p assms by (simp add: trim_def)
qed

text \<open>
  The limits compare the bytes of a text and cut it by characters: an objective of at most
  4000 characters that takes more than 4000 bytes (one of Chinese text, say) is shown whole and
  still marked as truncated.
\<close>

theorem whole_objective_is_marked_truncated:
  assumes "fmlookup m ''goal_state'' = Some (JObject g)" and "obj_get g ''status'' = Some (JString ''active'')"
    and "obj_get g ''objective'' = Some (JString obj)" and "trim obj = obj"
    and "chars_count obj \<le> 4000" and "4000 < length obj"
  shows "take 2 (goal_state_runtime_lines L (Some m))
    = [''Goal (active):'', obj @ [CHR 0x0A] @ ellipsis @ '' (truncated)'']"
proof -
  have "obj \<noteq> []" using assms(6) by auto
  moreover have "runtime_objective obj = obj @ [CHR 0x0A] @ ellipsis @ '' (truncated)''"
    using assms(5,6) trim_fixed [OF assms(4)]
    by (simp add: runtime_objective_def max_objective_in_runtime_def take_chars_all)
  ultimately show ?thesis using assms(1-4)
    by (simp add: goal_state_runtime_lines_def session_goal_raw_def goal_state_key_def parse_goal_state_def
        goal_status_def trimmed_text_def Let_def split: option.split)
qed

definition demo_objective :: string where
  "demo_objective = ''x'' @ concat (replicate 1500 ellipsis) @ ''x''"

lemma chars_count_ellipses: "chars_count (concat (replicate n ellipsis)) = n"
  by (induction n) (simp_all add: chars_count_append, simp_all add: ellipsis_def chars_count_def byte_def)

lemma length_ellipses: "length (concat (replicate n ellipsis)) = 3 * n"
  by (induction n) (simp_all add: ellipsis_def)

lemma trim_x: "trim (''x'' @ t @ ''x'') = ''x'' @ t @ ''x''"
proof -
  have "trim_start (''x'' @ t @ ''x'') = ''x'' @ t @ ''x''"
    unfolding trim_start_def by (rule strip_id) (auto simp: ws_chars_def starts_with_def)
  moreover have "strip (map rev ws_chars) (''x'' @ rev t @ ''x'') = ''x'' @ rev t @ ''x''"
    by (rule strip_id) (auto simp: ws_chars_def starts_with_def)
  ultimately show ?thesis by (simp add: trim_def trim_end_def)
qed

theorem whole_objective_is_marked_truncated_witness:
  "take 2 (goal_state_runtime_lines (demo_codec []) (Some (fmupd ''goal_state''
      (JObject [(''status'', JString ''active''), (''objective'', JString demo_objective)]) fmempty)))
   = [''Goal (active):'', demo_objective @ [CHR 0x0A] @ ellipsis @ '' (truncated)'']"
proof -
  have "chars_count demo_objective \<le> 4000" "4000 < length demo_objective"
    by (simp_all add: demo_objective_def chars_count_append chars_count_ellipses length_ellipses
        chars_count_Cons byte_def)
  moreover have "trim demo_objective = demo_objective" unfolding demo_objective_def by (rule trim_x)
  ultimately show ?thesis
    by (intro whole_objective_is_marked_truncated [where g =
          "[(''status'', JString ''active''), (''objective'', JString demo_objective)]"]) simp_all
qed

end
