(* ===== verification/Sensitive_Filter.thy ===== *)
theory Sensitive_Filter
  imports HC_Text "HOL-Library.Multiset"
begin

text \<open>
  The sensitive-word filter of the web service (crates/hiveweb/src/services/sensitive_filter.rs,
  models/sensitive_word.rs): the words table, the in-memory matchers built from it, the check of
  a text and the administration calls that change the table and refresh the matchers.
  Arguments: \<open>match_lib\<close> is the Aho-Corasick and the regex crate together with the Unicode tables
  behind \<^verbatim>\<open>to_lowercase\<close>; \<open>word_server\<close> is the MySQL server (which statement it rejects and with
  which text, fresh keys, column clocks). No code panics while it holds a write guard, so the
  locks are never poisoned and the filter is its three fields.
\<close>

section \<open>Data\<close>

record sensitive_word =
  sw_id :: int
  sw_word :: string
  sw_match_mode :: string
  sw_enabled :: bool
  sw_created_at :: int
  sw_updated_at :: int

record create_word_request =
  cw_word :: string
  cw_match_mode :: string

record update_word_request =
  uw_word :: "string option"
  uw_match_mode :: "string option"
  uw_enabled :: "bool option"

text \<open>A compiled regular expression is its \<^verbatim>\<open>is_match\<close>, a compiled automaton its \<^verbatim>\<open>find(..).is_some()\<close>.\<close>

record match_lib =
  ac_new :: "string list \<Rightarrow> (string \<Rightarrow> bool) option"
  regex_limited :: "string \<Rightarrow> (string \<Rightarrow> bool) option"
  regex_error :: "string \<Rightarrow> string option"
  lowercase :: "string \<Rightarrow> string"

datatype sensitive_pattern =
    ExactWord int string
  | RegexWord int string "string \<Rightarrow> bool"

fun pattern_id :: "sensitive_pattern \<Rightarrow> int" where
  "pattern_id (ExactWord i w) = i"
| "pattern_id (RegexWord i w re) = i"

fun pattern_word :: "sensitive_pattern \<Rightarrow> string" where
  "pattern_word (ExactWord i w) = w"
| "pattern_word (RegexWord i w re) = w"

record sensitive_filter =
  sf_patterns :: "sensitive_pattern list"
  sf_ac :: "(string \<Rightarrow> bool) option"
  sf_exact_words :: "(int \<times> string) list"

definition filter_new :: sensitive_filter where
  "filter_new = \<lparr>sf_patterns = [], sf_ac = None, sf_exact_words = []\<rparr>"

section \<open>Matching\<close>

fun compile_row :: "match_lib \<Rightarrow> sensitive_word \<Rightarrow> sensitive_pattern option" where
  "compile_row L row =
     (if sw_match_mode row = ''regex''
      then map_option (RegexWord (sw_id row) (sw_word row)) (regex_limited L (sw_word row))
      else Some (ExactWord (sw_id row) (sw_word row)))"

definition exact_tuples :: "sensitive_word list \<Rightarrow> (int \<times> string) list" where
  "exact_tuples rows =
     map (\<lambda>r. (sw_id r, sw_word r)) (filter (\<lambda>r. sw_match_mode r \<noteq> ''regex'') rows)"

definition build_matchers :: "match_lib \<Rightarrow> sensitive_word list \<Rightarrow> sensitive_filter" where
  "build_matchers L rows =
     \<lparr>sf_patterns = List.map_filter (compile_row L) rows,
      sf_ac = (if exact_tuples rows = [] then None else ac_new L (map snd (exact_tuples rows))),
      sf_exact_words = exact_tuples rows\<rparr>"

fun exact_hit :: "match_lib \<Rightarrow> string \<Rightarrow> sensitive_pattern \<Rightarrow> bool" where
  "exact_hit L txt (ExactWord i w) = str_contains (lowercase L w) (lowercase L txt)"
| "exact_hit L txt (RegexWord i w re) = False"

fun regex_hit :: "string \<Rightarrow> sensitive_pattern \<Rightarrow> bool" where
  "regex_hit txt (ExactWord i w) = False"
| "regex_hit txt (RegexWord i w re) = re txt"

definition check :: "match_lib \<Rightarrow> sensitive_filter \<Rightarrow> string \<Rightarrow> sensitive_pattern option" where
  "check L f txt =
     (if txt = [] then None
      else case (case sf_ac f of
                   Some ac \<Rightarrow> if ac txt then find (exact_hit L txt) (sf_patterns f) else None
                 | None \<Rightarrow> None) of
             Some p \<Rightarrow> Some p
           | None \<Rightarrow> find (regex_hit txt) (sf_patterns f))"

section \<open>The table and the administration calls\<close>

datatype word_stmt =
    SelEnabled
  | SelWord int
  | InsWord string string
  | UpdWord int string string bool
  | DelWord int

record word_server =
  ws_rejects :: "word_stmt \<Rightarrow> sensitive_word list \<Rightarrow> string option"
  ws_new_id :: "sensitive_word list \<Rightarrow> int"
  ws_now :: "sensitive_word list \<Rightarrow> int"
  ws_touched :: "sensitive_word \<Rightarrow> sensitive_word \<Rightarrow> int"

datatype word_error =
    EmptyWord
  | WordTooLong
  | BadMatchMode
  | BadRegex string
  | DuplicateWord
  | UnknownWord
  | InternalError string

definition load_from_db ::
    "match_lib \<Rightarrow> word_server \<Rightarrow> sensitive_word list \<Rightarrow> sensitive_filter \<Rightarrow> (string, unit) result \<times> sensitive_filter" where
  "load_from_db L S tb f =
     (case ws_rejects S SelEnabled tb of
        Some e \<Rightarrow> (Err e, f)
      | None \<Rightarrow> (Ok (), build_matchers L (filter sw_enabled tb)))"

definition refresh_cache ::
    "match_lib \<Rightarrow> word_server \<Rightarrow> sensitive_word list \<Rightarrow> sensitive_filter \<Rightarrow> (string, unit) result \<times> sensitive_filter" where
  "refresh_cache L S tb f = load_from_db L S tb f"

text \<open>A statement that fails on the unique key is recognised by the text of the error.\<close>

definition write_error :: "string \<Rightarrow> string \<Rightarrow> word_error" where
  "write_error stage e = (if str_contains ''Duplicate'' e then DuplicateWord else InternalError (stage @ e))"

definition check_word :: "match_lib \<Rightarrow> string \<Rightarrow> string \<Rightarrow> (word_error, unit) result" where
  "check_word L word mode =
     (if mode \<noteq> ''exact'' \<and> mode \<noteq> ''regex'' then Err BadMatchMode
      else if mode = ''regex''
      then (case regex_error L word of Some e \<Rightarrow> Err (BadRegex e) | None \<Rightarrow> Ok ())
      else Ok ())"

definition fetch_word ::
    "word_server \<Rightarrow> string \<Rightarrow> int \<Rightarrow> sensitive_word list \<Rightarrow> (word_error, sensitive_word) result" where
  "fetch_word S stage i tb =
     (case ws_rejects S (SelWord i) tb of
        Some e \<Rightarrow> Err (InternalError (stage @ e))
      | None \<Rightarrow>
          (case find_key sw_id tb i of
             Some row \<Rightarrow> Ok row
           | None \<Rightarrow> Err (InternalError (stage @ ''no rows returned by a query that expected to return at least one row''))))"

type_synonym word_state = "sensitive_word list \<times> sensitive_filter"

definition create_sensitive_word ::
    "match_lib \<Rightarrow> word_server \<Rightarrow> create_word_request \<Rightarrow> word_state
       \<Rightarrow> (word_error, sensitive_word) result \<times> word_state" where
  "create_sensitive_word L S req st =
     (let (tb, f) = st; word = trim (cw_word req); mode = cw_match_mode req
      in if word = [] then (Err EmptyWord, st)
         else if length word > 512 then (Err WordTooLong, st)
         else case check_word L word mode of
                Err e \<Rightarrow> (Err e, st)
              | Panic \<Rightarrow> (Panic, st)
              | Ok _ \<Rightarrow>
                  (case ws_rejects S (InsWord word mode) tb of
                     Some e \<Rightarrow> (Err (write_error ''create sensitive word: '' e), st)
                   | None \<Rightarrow>
                       let i = ws_new_id S tb;
                           row = \<lparr>sw_id = i, sw_word = word, sw_match_mode = mode, sw_enabled = True,
                                  sw_created_at = ws_now S tb, sw_updated_at = ws_now S tb\<rparr>;
                           tb' = tb @ [row];
                           f' = snd (refresh_cache L S tb' f)
                       in (fetch_word S ''fetch created word: '' i tb', (tb', f'))))"

definition update_sensitive_word ::
    "match_lib \<Rightarrow> word_server \<Rightarrow> int \<Rightarrow> update_word_request \<Rightarrow> word_state
       \<Rightarrow> (word_error, sensitive_word) result \<times> word_state" where
  "update_sensitive_word L S i req st =
     (let (tb, f) = st
      in case ws_rejects S (SelWord i) tb of
           Some e \<Rightarrow> (Err (InternalError (''fetch sensitive word: '' @ e)), st)
         | None \<Rightarrow>
             (case find_key sw_id tb i of
                None \<Rightarrow> (Err UnknownWord, st)
              | Some existing \<Rightarrow>
                  (let word = trim (case uw_word req of Some w \<Rightarrow> w | None \<Rightarrow> sw_word existing);
                       mode = (case uw_match_mode req of Some m \<Rightarrow> m | None \<Rightarrow> sw_match_mode existing)
                   in if word = [] then (Err EmptyWord, st)
                      else case check_word L word mode of
                             Err e \<Rightarrow> (Err e, st)
                           | Panic \<Rightarrow> (Panic, st)
                           | Ok _ \<Rightarrow>
                               let enabled = (case uw_enabled req of Some b \<Rightarrow> b | None \<Rightarrow> sw_enabled existing)
                               in case ws_rejects S (UpdWord i word mode enabled) tb of
                                    Some e \<Rightarrow> (Err (write_error ''update sensitive word: '' e), st)
                                  | None \<Rightarrow>
                                      let upd = (\<lambda>r. r\<lparr>sw_word := word, sw_match_mode := mode, sw_enabled := enabled\<rparr>);
                                          tb' = map (\<lambda>r. if sw_id r = i then (upd r)\<lparr>sw_updated_at := ws_touched S r (upd r)\<rparr> else r) tb;
                                          f' = snd (refresh_cache L S tb' f)
                                      in (fetch_word S ''fetch updated word: '' i tb', (tb', f')))))"

definition delete_sensitive_word ::
    "match_lib \<Rightarrow> word_server \<Rightarrow> int \<Rightarrow> word_state \<Rightarrow> (word_error, bool) result \<times> word_state" where
  "delete_sensitive_word L S i st =
     (let (tb, f) = st
      in case ws_rejects S (DelWord i) tb of
           Some e \<Rightarrow> (Err (InternalError (''delete sensitive word: '' @ e)), st)
         | None \<Rightarrow>
             let tb' = filter (\<lambda>r. sw_id r \<noteq> i) tb;
                 deleted = length tb' < length tb;
                 f' = (if deleted then snd (refresh_cache L S tb' f) else f)
             in (Ok deleted, (tb', f')))"

section \<open>What a check finds\<close>

text \<open>The documented behaviour of the automaton: some word occurs in the text, byte for byte.\<close>

definition ac_finds_words :: "match_lib \<Rightarrow> bool" where
  "ac_finds_words L \<longleftrightarrow>
     (\<forall>ws txt f. ac_new L ws = Some f \<longrightarrow> (f txt \<longleftrightarrow> (\<exists>w \<in> set ws. str_contains w txt)))"

definition exact_words :: "sensitive_word list \<Rightarrow> string set" where
  "exact_words rows = sw_word ` {r \<in> set rows. sw_match_mode r \<noteq> ''regex''}"

definition regexes :: "match_lib \<Rightarrow> sensitive_word list \<Rightarrow> (string \<Rightarrow> bool) set" where
  "regexes L rows =
     {re. \<exists>r \<in> set rows. sw_match_mode r = ''regex'' \<and> regex_limited L (sw_word r) = Some re}"

lemma exact_tuples_words: "snd ` set (exact_tuples rows) = exact_words rows"
  by (force simp: exact_tuples_def exact_words_def)

lemma patterns_bex:
  "(\<exists>p \<in> set (sf_patterns (build_matchers L rows)). P p)
     \<longleftrightarrow> (\<exists>r \<in> set rows. \<exists>p. compile_row L r = Some p \<and> P p)"
proof
  assume "\<exists>p \<in> set (sf_patterns (build_matchers L rows)). P p"
  then obtain r p where "r \<in> set rows" "compile_row L r = Some p" "P p"
    by (auto simp: build_matchers_def List.map_filter_def simp del: compile_row.simps)
  then show "\<exists>r \<in> set rows. \<exists>p. compile_row L r = Some p \<and> P p" by blast
next
  assume "\<exists>r \<in> set rows. \<exists>p. compile_row L r = Some p \<and> P p"
  then obtain r p where "r \<in> set rows" "compile_row L r = Some p" "P p" by blast
  then have "p \<in> set (sf_patterns (build_matchers L rows))"
    by (force simp: build_matchers_def List.map_filter_def simp del: compile_row.simps)
  then show "\<exists>p \<in> set (sf_patterns (build_matchers L rows)). P p" using \<open>P p\<close> by blast
qed

lemma exact_hit_iff:
  "(\<exists>p \<in> set (sf_patterns (build_matchers L rows)). exact_hit L txt p)
     \<longleftrightarrow> (\<exists>w \<in> exact_words rows. str_contains (lowercase L w) (lowercase L txt))"
  unfolding patterns_bex exact_words_def by auto

lemma regex_hit_iff:
  "(\<exists>p \<in> set (sf_patterns (build_matchers L rows)). regex_hit txt p) \<longleftrightarrow> (\<exists>re \<in> regexes L rows. re txt)"
proof -
  have "(\<exists>p. compile_row L r = Some p \<and> regex_hit txt p) \<longleftrightarrow>
      sw_match_mode r = ''regex'' \<and> (\<exists>re. regex_limited L (sw_word r) = Some re \<and> re txt)" for r
    by auto
  then show ?thesis unfolding patterns_bex regexes_def by blast
qed

lemma ac_hit_iff:
  assumes "ac_finds_words L" and "exact_words rows \<noteq> {} \<Longrightarrow> ac_new L (map snd (exact_tuples rows)) \<noteq> None"
  shows "(\<exists>ac. sf_ac (build_matchers L rows) = Some ac \<and> ac txt) \<longleftrightarrow> (\<exists>w \<in> exact_words rows. str_contains w txt)"
proof (cases "exact_tuples rows = []")
  case True
  then have "exact_words rows = {}" using exact_tuples_words [of rows] by simp
  then show ?thesis using True by (simp add: build_matchers_def)
next
  case False
  then have "exact_words rows \<noteq> {}" using exact_tuples_words [of rows] by (metis image_is_empty set_empty)
  then obtain ac where ac: "ac_new L (map snd (exact_tuples rows)) = Some ac" using assms(2) by blast
  have "ac txt \<longleftrightarrow> (\<exists>w \<in> exact_words rows. str_contains w txt)"
    using assms(1) ac exact_tuples_words [of rows] unfolding ac_finds_words_def by (metis list.set_map)
  then show ?thesis using False ac by (simp add: build_matchers_def)
qed

lemma check_None_iff:
  "check L f txt = None \<longleftrightarrow>
     txt = [] \<or> \<not> ((\<exists>ac. sf_ac f = Some ac \<and> ac txt) \<and> (\<exists>p \<in> set (sf_patterns f). exact_hit L txt p))
               \<and> \<not> (\<exists>p \<in> set (sf_patterns f). regex_hit txt p)"
proof -
  have f: "find P xs = None \<longleftrightarrow> \<not> (\<exists>x \<in> set xs. P x)" for P and xs :: "sensitive_pattern list"
    by (auto simp: find_None_iff)
  have "(case o1 of Some p \<Rightarrow> Some p | None \<Rightarrow> o2) = None \<longleftrightarrow> o1 = None \<and> o2 = None"
    for o1 o2 :: "sensitive_pattern option" by (cases o1) auto
  then show ?thesis
    unfolding check_def by (cases "sf_ac f") (simp_all add: f)
qed

text \<open>
  What a check reports, when the automaton was built: a nonempty text is flagged exactly if
  a regular expression matches it, or if some exact word occurs in it byte for byte and some
  exact word occurs in it up to case.
\<close>

theorem sensitive_check_iff:
  assumes "ac_finds_words L" and "exact_words rows \<noteq> {} \<longrightarrow> ac_new L (map snd (exact_tuples rows)) \<noteq> None"
  shows "check L (build_matchers L rows) txt \<noteq> None \<longleftrightarrow>
    txt \<noteq> [] \<and>
    ((\<exists>w \<in> exact_words rows. str_contains w txt)
       \<and> (\<exists>w \<in> exact_words rows. str_contains (lowercase L w) (lowercase L txt))
     \<or> (\<exists>re \<in> regexes L rows. re txt))"
  unfolding check_None_iff exact_hit_iff regex_hit_iff using ac_hit_iff [OF assms(1)] assms(2) by blast

text \<open>
  The pattern type and the search for the word that matched are case-insensitive, the
  automaton in front of them is not: a text that contains a sensitive word only in another case
  passes the filter.
\<close>

theorem case_variant_passes_filter:
  assumes "ac_finds_words L" and "\<forall>r \<in> set rows. sw_match_mode r \<noteq> ''regex''"
    and "\<forall>r \<in> set rows. \<not> str_contains (sw_word r) txt"
    and "r \<in> set rows" and "str_contains (lowercase L (sw_word r)) (lowercase L txt)"
  shows "check L (build_matchers L rows) txt = None"
proof -
  have "\<not> ac txt" if "sf_ac (build_matchers L rows) = Some ac" for ac
  proof -
    have "ac_new L (map snd (exact_tuples rows)) = Some ac"
      using that by (simp add: build_matchers_def split: if_splits)
    then have "ac txt \<longleftrightarrow> (\<exists>w \<in> exact_words rows. str_contains w txt)"
      using assms(1) exact_tuples_words [of rows] unfolding ac_finds_words_def by (metis list.set_map)
    then show ?thesis using assms(3) by (auto simp: exact_words_def)
  qed
  moreover have "regexes L rows = {}" using assms(2) by (auto simp: regexes_def)
  ultimately show ?thesis unfolding check_None_iff regex_hit_iff by blast
qed

text \<open>An instance of the libraries: byte search, a lower case for three letters, no regular expressions.\<close>

definition demo_match_lib :: match_lib where
  "demo_match_lib =
     \<lparr>ac_new = \<lambda>ws. Some (\<lambda>txt. \<exists>w \<in> set ws. str_contains w txt),
      regex_limited = \<lambda>_. None, regex_error = \<lambda>_. None,
      lowercase = map (\<lambda>c. if c = CHR ''G'' then CHR ''g'' else if c = CHR ''U'' then CHR ''u''
                            else if c = CHR ''N'' then CHR ''n'' else c)\<rparr>"

definition demo_word :: "int \<Rightarrow> string \<Rightarrow> sensitive_word" where
  "demo_word i w = \<lparr>sw_id = i, sw_word = w, sw_match_mode = ''exact'', sw_enabled = True,
     sw_created_at = 0, sw_updated_at = 0\<rparr>"

lemma demo_match_ok: "ac_finds_words demo_match_lib"
  by (auto simp: ac_finds_words_def demo_match_lib_def)

theorem sensitive_check_iff_witness:
  "check demo_match_lib (build_matchers demo_match_lib [demo_word 1 ''gun'']) ''a gun'' \<noteq> None"
proof -
  have w: "exact_words [demo_word 1 ''gun''] = {''gun''}" 
    unfolding exact_words_def by (rule set_eqI) (simp add: image_iff demo_word_def)
  have "str_contains ''gun'' ''a gun''" by (simp add: str_contains_def starts_with_def)
  then show ?thesis
    using sensitive_check_iff [OF demo_match_ok, of "[demo_word 1 ''gun'']" "''a gun''"]
    by (simp add: w demo_match_lib_def)
qed

theorem case_variant_passes_filter_witness:
  "check demo_match_lib (build_matchers demo_match_lib [demo_word 1 ''gun'']) ''A GUN'' = None"
proof -
  have "\<not> str_contains ''gun'' ''A GUN''" "str_contains ''gun'' ''A gun''"
    by (simp_all add: str_contains_def starts_with_def)
  then show ?thesis
    by (intro case_variant_passes_filter [OF demo_match_ok, where r = "demo_word 1 ''gun''"])
       (simp_all add: demo_word_def demo_match_lib_def)
qed

section \<open>The filter follows the table\<close>

definition in_sync :: "match_lib \<Rightarrow> word_state \<Rightarrow> bool" where
  "in_sync L st \<longleftrightarrow> snd st = build_matchers L (filter sw_enabled (fst st))"

text \<open>
  The administration calls, with a server that may reject any statement but the read of the
  enabled words: each refresh succeeds.
\<close>

inductive word_step :: "match_lib \<Rightarrow> word_state \<Rightarrow> word_state \<Rightarrow> bool" for L where
  create: "ws_rejects S SelEnabled = (\<lambda>_. None) \<Longrightarrow> word_step L st (snd (create_sensitive_word L S req st))"
| update: "ws_rejects S SelEnabled = (\<lambda>_. None) \<Longrightarrow> word_step L st (snd (update_sensitive_word L S i ureq st))"
| delete: "ws_rejects S SelEnabled = (\<lambda>_. None) \<Longrightarrow> word_step L st (snd (delete_sensitive_word L S i st))"

text \<open>The service starts with any table and the matchers loaded from it.\<close>

definition word_init :: "match_lib \<Rightarrow> word_state \<Rightarrow> bool" where
  "word_init L st \<longleftrightarrow> (\<exists>S. load_from_db L S (fst st) filter_new = (Ok (), snd st))"

lemma refresh_in_sync:
  "ws_rejects S SelEnabled = (\<lambda>_. None) \<Longrightarrow> in_sync L (tb, snd (refresh_cache L S tb f))"
  by (simp add: in_sync_def refresh_cache_def load_from_db_def)

lemma create_in_sync:
  assumes "ws_rejects S SelEnabled = (\<lambda>_. None)" and "in_sync L st"
  shows "in_sync L (snd (create_sensitive_word L S req st))"
  using assms(2) refresh_in_sync [OF assms(1)]
  by (cases st) (simp add: create_sensitive_word_def Let_def split: result.split option.split)

lemma update_in_sync:
  assumes "ws_rejects S SelEnabled = (\<lambda>_. None)" and "in_sync L st"
  shows "in_sync L (snd (update_sensitive_word L S i req st))"
  using assms(2) refresh_in_sync [OF assms(1)]
  by (cases st) (simp add: update_sensitive_word_def Let_def split: result.split option.split)

lemma delete_in_sync:
  assumes "ws_rejects S SelEnabled = (\<lambda>_. None)" and "in_sync L st"
  shows "in_sync L (snd (delete_sensitive_word L S i st))"
proof -
  have same: "filter P xs = xs" if "\<not> length (filter P xs) < length xs" for P and xs :: "sensitive_word list"
    using that by (metis filter_True length_filter_less)
  obtain tb f where st: "st = (tb, f)" by (cases st)
  show ?thesis
  proof (cases "length (filter (\<lambda>r. sw_id r \<noteq> i) tb) < length tb")
    case True
    then show ?thesis using assms(2) refresh_in_sync [OF assms(1)]
      by (simp add: st delete_sensitive_word_def Let_def split: option.split)
  next
    case False
    then show ?thesis using assms(2) same [OF False]
      by (simp add: st delete_sensitive_word_def Let_def split: option.split)
  qed
qed

interpretation words: invariant_system "word_init L" "word_step L" "in_sync L" for L
proof
  fix st assume "word_init L st"
  then show "in_sync L st" by (auto simp: word_init_def in_sync_def load_from_db_def split: option.splits)
next
  fix s t assume "in_sync L s" "word_step L s t"
  from this(2,1) show "in_sync L t" by cases (auto intro: create_in_sync update_in_sync delete_in_sync)
qed

text \<open>
  Whatever the administrators change, and whichever other statements fail, the matchers in
  memory are always those of the enabled rows of the table.
\<close>

theorem filter_follows_table:
  assumes "reach (word_init L) (word_step L) (tb, f)"
  shows "f = build_matchers L (filter sw_enabled tb)"
  using words.inv_reach [OF assms] by (simp add: in_sync_def)

definition demo_word_server :: word_server where
  "demo_word_server = \<lparr>ws_rejects = \<lambda>_ _. None, ws_new_id = \<lambda>tb. int (length tb) + 1, ws_now = \<lambda>_. 0,
     ws_touched = \<lambda>_ _. 0\<rparr>"

definition demo_create :: create_word_request where
  "demo_create = \<lparr>cw_word = '' gun '', cw_match_mode = ''exact''\<rparr>"

theorem filter_follows_table_witness:
  "snd (snd (create_sensitive_word demo_match_lib demo_word_server demo_create ([], build_matchers demo_match_lib [])))
   = build_matchers demo_match_lib [demo_word 1 ''gun'']"
proof -
  let ?st = "snd (create_sensitive_word demo_match_lib demo_word_server demo_create ([], build_matchers demo_match_lib []))"
  have "load_from_db demo_match_lib demo_word_server [] filter_new = (Ok (), build_matchers demo_match_lib [])"
    by (simp add: load_from_db_def demo_word_server_def)
  then have "word_init demo_match_lib ([], build_matchers demo_match_lib [])" by (auto simp: word_init_def)
  then have r: "reach (word_init demo_match_lib) (word_step demo_match_lib) ?st"
    by (rule reach_step [OF reach_init]) (rule word_step.create, simp add: demo_word_server_def)
  have t: "trim '' gun '' = ''gun''" by code_simp
  have "fst ?st = [demo_word 1 ''gun'']"
    by (simp add: create_sensitive_word_def demo_create_def t check_word_def demo_word_server_def demo_word_def Let_def)
  then show ?thesis
    using filter_follows_table [of demo_match_lib "fst ?st" "snd ?st", unfolded prod.collapse, OF r]
    by (simp add: demo_word_def)
qed

end
