(* ===== verification/Plugin_Pool.thy ===== *)
theory Plugin_Pool
  imports HC_Prelude "HOL-Library.Multiset"
begin

text \<open>
  The pool of WASM plugin instances and the plugin call (crates/hiveweb/src/runtime/pool.rs,
  invoker.rs). Every method holds the lock of the map until it returns, so an idle acquisition,
  the registration of a new instance and a release are atomic steps; the cold start between
  them touches no state of the pool. \<open>'p\<close> is an Extism plugin. Arguments: \<open>pool_env\<close> is the object
  store, the SHA-256 digest and the Extism builder; \<open>call_outcome\<close> is what a call of the plugin
  did. Instants are integers.
\<close>

section \<open>State\<close>

record pool_metrics =
  pm_in_use :: nat
  pm_idle :: nat
  pm_created_total :: nat
  pm_cache_misses :: nat
  pm_wait_count :: nat
  pm_reset_failures :: nat

record pool_config =
  pc_max_per_plugin :: nat
  pc_max_total :: nat
  pc_idle_timeout :: nat
  pc_acquire_timeout :: nat
  pc_call_timeout_ms :: nat
  pc_call_memory_mb :: nat

text \<open>\<^verbatim>\<open>from_env\<close>: a variable that is missing or does not parse gives the default.\<close>

definition config_from_env :: "(string \<Rightarrow> nat option) \<Rightarrow> pool_config" where
  "config_from_env env =
     (let get = (\<lambda>name d. case env name of Some n \<Rightarrow> n | None \<Rightarrow> d)
      in \<lparr>pc_max_per_plugin = get ''PLUGIN_POOL_MAX_PER_PLUGIN'' 8,
          pc_max_total = get ''PLUGIN_POOL_MAX_TOTAL'' 64,
          pc_idle_timeout = get ''PLUGIN_POOL_IDLE_TIMEOUT_SEC'' 600,
          pc_acquire_timeout = get ''PLUGIN_POOL_ACQUIRE_TIMEOUT_MS'' 5000,
          pc_call_timeout_ms = get ''PLUGIN_CALL_TIMEOUT_MS'' 33000,
          pc_call_memory_mb = get ''PLUGIN_CALL_MAX_MEMORY_MB'' 128\<rparr>)"

record 'p pooled_plugin =
  pi_plugin :: 'p
  pi_plugin_id :: int
  pi_last_used :: int

record 'p plugin_pool =
  pp_plugin_id :: int
  pp_identifier :: string
  pp_version :: string
  pp_idle :: "'p pooled_plugin list"
  pp_in_use :: nat
  pp_cache_misses :: nat

record 'p instance_pool =
  ip_config :: pool_config
  ip_inner :: "'p plugin_pool list"
  ip_metrics :: pool_metrics

record plugin_row =
  pr_id :: int
  pr_identifier :: string
  pr_version :: string
  pr_s3_key :: string
  pr_sha256 :: string

record per_plugin_metrics =
  ppm_plugin_id :: int
  ppm_identifier :: string
  ppm_version :: string
  ppm_in_use :: nat
  ppm_idle :: nat
  ppm_cache_misses :: nat

datatype pool_error = S3Error string | Sha256Mismatch | CompileError string

definition pool_new :: "pool_config \<Rightarrow> 'p instance_pool" where
  "pool_new config =
     \<lparr>ip_config = config, ip_inner = [],
      ip_metrics = \<lparr>pm_in_use = 0, pm_idle = 0, pm_created_total = 0, pm_cache_misses = 0,
                    pm_wait_count = 0, pm_reset_failures = 0\<rparr>\<rparr>"

definition metrics_snapshot :: "'p instance_pool \<Rightarrow> pool_metrics" where
  "metrics_snapshot P = ip_metrics P"

definition per_plugin_snapshot :: "'p instance_pool \<Rightarrow> per_plugin_metrics list" where
  "per_plugin_snapshot P =
     map (\<lambda>p. \<lparr>ppm_plugin_id = pp_plugin_id p, ppm_identifier = pp_identifier p, ppm_version = pp_version p,
               ppm_in_use = pp_in_use p, ppm_idle = length (pp_idle p), ppm_cache_misses = pp_cache_misses p\<rparr>)
       (ip_inner P)"

section \<open>Operations\<close>

text \<open>
  The map from plugin ids to their pools is a list of pools with distinct ids: an entry is only
  ever inserted under the \<^verbatim>\<open>plugin_id\<close> it carries. \<open>put_pool\<close> writes an entry back.
\<close>

definition put_pool :: "'p plugin_pool \<Rightarrow> 'p instance_pool \<Rightarrow> 'p instance_pool" where
  "put_pool p P = P\<lparr>ip_inner := upsert pp_plugin_id p (ip_inner P)\<rparr>"

definition find_pool :: "'p instance_pool \<Rightarrow> int \<Rightarrow> 'p plugin_pool option" where
  "find_pool P i = find_key pp_plugin_id (ip_inner P) i"

definition try_acquire_idle :: "int \<Rightarrow> 'p instance_pool \<Rightarrow> 'p pooled_plugin option \<times> 'p instance_pool" where
  "try_acquire_idle i P =
     (case find_pool P i of
        None \<Rightarrow> (None, P)
      | Some p \<Rightarrow>
          (case pp_idle p of
             [] \<Rightarrow> (None, P)
           | inst # rest \<Rightarrow>
               (Some inst,
                (put_pool (p\<lparr>pp_idle := rest, pp_in_use := pp_in_use p + 1\<rparr>) P)
                  \<lparr>ip_metrics := (ip_metrics P)\<lparr>pm_in_use := pm_in_use (ip_metrics P) + 1,
                                               pm_idle := pm_idle (ip_metrics P) - 1\<rparr>\<rparr>)))"

definition release :: "int \<Rightarrow> 'p pooled_plugin \<Rightarrow> bool \<Rightarrow> 'p instance_pool \<Rightarrow> 'p instance_pool" where
  "release now inst reset_ok P =
     (case find_pool P (pi_plugin_id inst) of
        None \<Rightarrow> P
      | Some p \<Rightarrow>
          (let p1 = p\<lparr>pp_in_use := pp_in_use p - 1\<rparr>;
               m1 = (ip_metrics P)\<lparr>pm_in_use := pm_in_use (ip_metrics P) - 1\<rparr>
           in if reset_ok \<and> length (pp_idle p1) < pc_max_per_plugin (ip_config P)
              then (put_pool (p1\<lparr>pp_idle := pp_idle p1 @ [inst\<lparr>pi_last_used := now\<rparr>]\<rparr>) P)
                     \<lparr>ip_metrics := m1\<lparr>pm_idle := pm_idle m1 + 1\<rparr>\<rparr>
              else (put_pool p1 P)
                     \<lparr>ip_metrics := if \<not> reset_ok then m1\<lparr>pm_reset_failures := pm_reset_failures m1 + 1\<rparr> else m1\<rparr>))"

datatype 'p build_outcome = Built 'p | BuildFailed string | BuildPanicked string

record 'p pool_env =
  get_wasm :: "string \<Rightarrow> string + string"
  sha256_hex :: "string \<Rightarrow> string"
  build_plugin :: "string \<Rightarrow> 'p build_outcome"

text \<open>The registration of a cold start, \<^verbatim>\<open>entry(..).or_insert_with\<close> and the counters.\<close>

definition register_cold :: "plugin_row \<Rightarrow> 'p instance_pool \<Rightarrow> 'p instance_pool" where
  "register_cold row P =
     (let p = (case find_pool P (pr_id row) of
                 Some p \<Rightarrow> p
               | None \<Rightarrow> \<lparr>pp_plugin_id = pr_id row, pp_identifier = pr_identifier row, pp_version = pr_version row,
                          pp_idle = [], pp_in_use = 0, pp_cache_misses = 0\<rparr>);
          m = ip_metrics P
      in (put_pool (p\<lparr>pp_in_use := pp_in_use p + 1, pp_cache_misses := pp_cache_misses p + 1\<rparr>) P)
           \<lparr>ip_metrics := m\<lparr>pm_in_use := pm_in_use m + 1, pm_created_total := pm_created_total m + 1,
                            pm_cache_misses := pm_cache_misses m + 1\<rparr>\<rparr>)"

definition cold_start :: "'p pool_env \<Rightarrow> bool \<Rightarrow> plugin_row \<Rightarrow> pool_error + 'p" where
  "cold_start E s3 row =
     (if \<not> s3 then Inl (S3Error ''plugin system disabled: S3 client unavailable for cold start'')
      else case get_wasm E (pr_s3_key row) of
             Inl e \<Rightarrow> Inl (S3Error e)
           | Inr bytes \<Rightarrow>
               if sha256_hex E bytes \<noteq> pr_sha256 row then Inl Sha256Mismatch
               else case build_plugin E bytes of
                      BuildPanicked e \<Rightarrow> Inl (CompileError (''spawn_blocking: '' @ e))
                    | BuildFailed e \<Rightarrow> Inl (CompileError e)
                    | Built p \<Rightarrow> Inr p)"

definition acquire ::
    "'p pool_env \<Rightarrow> int \<Rightarrow> bool \<Rightarrow> plugin_row \<Rightarrow> 'p instance_pool
       \<Rightarrow> (pool_error + 'p pooled_plugin) \<times> 'p instance_pool" where
  "acquire E now s3 row P =
     (case try_acquire_idle (pr_id row) P of
        (Some inst, P') \<Rightarrow> (Inr inst, P')
      | (None, P') \<Rightarrow>
          (case cold_start E s3 row of
             Inl e \<Rightarrow> (Inl e, P')
           | Inr p \<Rightarrow>
               (Inr \<lparr>pi_plugin = p, pi_plugin_id = pr_id row, pi_last_used = now\<rparr>, register_cold row P')))"

section \<open>The plugin call\<close>

datatype invoker_error =
    PluginMissing int
  | PoolBusy
  | Timeout nat
  | PluginError string
  | PoolFailed pool_error

text \<open>The call ran (its result, the plugin afterwards, whether the reset worked), or its thread died.\<close>

datatype 'p call_outcome =
    Called "string + string" 'p bool
  | CallPanicked string

record audit_event =
  ae_plugin_id :: int
  ae_outcome :: string
  ae_error :: "string option"

definition call_audit :: "int \<Rightarrow> string + string \<Rightarrow> audit_event" where
  "call_audit i r =
     (case r of
        Inl msg \<Rightarrow>
          \<lparr>ae_plugin_id = i,
           ae_outcome = (if str_contains ''timeout'' msg \<or> str_contains ''fuel'' msg then ''timeout'' else ''error''),
           ae_error = Some msg\<rparr>
      | Inr out \<Rightarrow> \<lparr>ae_plugin_id = i, ae_outcome = ''success'', ae_error = None\<rparr>)"

definition invoke ::
    "'p pool_env \<Rightarrow> (int \<Rightarrow> string + plugin_row option) \<Rightarrow> ('p pooled_plugin \<Rightarrow> 'p call_outcome)
       \<Rightarrow> int \<Rightarrow> bool \<Rightarrow> int \<Rightarrow> 'p instance_pool
       \<Rightarrow> (invoker_error + string) \<times> audit_event list \<times> 'p instance_pool" where
  "invoke E lookup call now s3 i P =
     (case lookup i of
        Inl e \<Rightarrow> (Inl (PluginError (''plugin lookup: '' @ e)), [], P)
      | Inr None \<Rightarrow> (Inl (PluginMissing i), [], P)
      | Inr (Some row) \<Rightarrow>
          (case acquire E now s3 row P of
             (Inl e, P1) \<Rightarrow> (Inl (PoolFailed e), [], P1)
           | (Inr inst, P1) \<Rightarrow>
               (case call inst of
                  CallPanicked e \<Rightarrow> (Inl (PluginError (''spawn_blocking join: '' @ e)), [], P1)
                | Called r plugin reset_ok \<Rightarrow>
                    let P2 = release now (inst\<lparr>pi_plugin := plugin\<rparr>) reset_ok P1;
                        ev = call_audit i r
                    in (case r of
                          Inr out \<Rightarrow> Inr out
                        | Inl msg \<Rightarrow>
                            if ae_outcome ev = ''timeout'' then Inl (Timeout (pc_call_timeout_ms (ip_config P1)))
                            else Inl (PluginError msg),
                        [ev], P2))))"

section \<open>The counters\<close>

lemma sum_upsert:
  fixes f :: "'a \<Rightarrow> nat"
  assumes "distinct (map key xs)"
  shows "sum_list (map f (upsert key x xs)) + (case find_key key xs (key x) of Some y \<Rightarrow> f y | None \<Rightarrow> 0)
       = sum_list (map f xs) + f x"
  using assms by (induction xs) auto

text \<open>
  The state of the pool together with the plugin ids of the instances that are out. \<open>lost\<close> is a
  call whose thread died: its instance never comes back.
\<close>

type_synonym 'p pool_state = "'p instance_pool \<times> int multiset"

inductive pool_step :: "'p pool_state \<Rightarrow> 'p pool_state \<Rightarrow> bool" where
  take_idle: "try_acquire_idle i P = (Some inst, P') \<Longrightarrow> pool_step (P, out) (P', add_mset i out)"
| take_cold: "pool_step (P, out) (register_cold row P, add_mset (pr_id row) out)"
| give_back: "pi_plugin_id inst \<in># out \<Longrightarrow>
    pool_step (P, out) (release now inst reset_ok P, out - {#pi_plugin_id inst#})"
| lost: "i \<in># out \<Longrightarrow> pool_step (P, out) (P, out - {#i#})"

definition pool_init :: "'p pool_state \<Rightarrow> bool" where
  "pool_init s \<longleftrightarrow> (\<exists>c. s = (pool_new c, {#}))"

definition total :: "('p plugin_pool \<Rightarrow> nat) \<Rightarrow> 'p instance_pool \<Rightarrow> nat" where
  "total f P = sum_list (map f (ip_inner P))"

definition in_use_of :: "'p instance_pool \<Rightarrow> int \<Rightarrow> nat" where
  "in_use_of P i = (case find_pool P i of Some p \<Rightarrow> pp_in_use p | None \<Rightarrow> 0)"

definition pool_ok :: "'p plugin_pool \<Rightarrow> nat \<Rightarrow> bool" where
  "pool_ok p n \<longleftrightarrow> length (pp_idle p) \<le> n \<and> (\<forall>inst \<in> set (pp_idle p). pi_plugin_id inst = pp_plugin_id p)"

definition pool_inv :: "'p pool_state \<Rightarrow> bool" where
  "pool_inv s \<longleftrightarrow>
     distinct (map pp_plugin_id (ip_inner (fst s))) \<and>
     pm_in_use (ip_metrics (fst s)) = total pp_in_use (fst s) \<and>
     pm_idle (ip_metrics (fst s)) = total (\<lambda>p. length (pp_idle p)) (fst s) \<and>
     pm_cache_misses (ip_metrics (fst s)) = total pp_cache_misses (fst s) \<and>
     pm_created_total (ip_metrics (fst s)) = total pp_cache_misses (fst s) \<and>
     (\<forall>p \<in> set (ip_inner (fst s)). pool_ok p (pc_max_per_plugin (ip_config (fst s)))) \<and>
     (\<forall>i. count (snd s) i \<le> in_use_of (fst s) i)"

text \<open>Writing back a pool whose entry exists (or is new): what happens to the sums.\<close>

lemma put_pool_total:
  assumes "distinct (map pp_plugin_id (ip_inner P))"
  shows "total f (put_pool p P) + (case find_pool P (pp_plugin_id p) of Some y \<Rightarrow> f y | None \<Rightarrow> 0) = total f P + f p"
  using sum_upsert [OF assms, of f p] by (simp add: total_def put_pool_def find_pool_def)

lemma find_put_pool: "find_pool (put_pool p P) i = (if i = pp_plugin_id p then Some p else find_pool P i)"
  by (simp add: find_pool_def put_pool_def find_key_upsert)

lemma put_pool_simps [simp]:
  "ip_config (put_pool p P) = ip_config P" "ip_metrics (put_pool p P) = ip_metrics P"
  by (simp_all add: put_pool_def)

lemma total_metrics [simp]:
  "total f (P\<lparr>ip_metrics := m\<rparr>) = total f P" "find_pool (P\<lparr>ip_metrics := m\<rparr>) i = find_pool P i"
  by (simp_all add: total_def find_pool_def)

lemma put_pool_all:
  "Q p \<Longrightarrow> (\<And>y. y \<in> set (ip_inner P) \<Longrightarrow> Q y) \<Longrightarrow> y \<in> set (ip_inner (put_pool p P)) \<Longrightarrow> Q y"
  using set_upsert [of pp_plugin_id p "ip_inner P"] by (auto simp: put_pool_def)

text \<open>The invariant after an entry is written back together with adjusted counters.\<close>

lemma find_pool_SomeD: "find_pool P i = Some p \<Longrightarrow> p \<in> set (ip_inner P) \<and> pp_plugin_id p = i"
  by (auto simp: find_pool_def find_key_def find_Some_iff)

lemma distinct_put_pool:
  "distinct (map pp_plugin_id (ip_inner P)) \<Longrightarrow> distinct (map pp_plugin_id (ip_inner (put_pool p P)))"
  by (simp add: put_pool_def distinct_upsert)

definition was :: "'p instance_pool \<Rightarrow> int \<Rightarrow> ('p plugin_pool \<Rightarrow> nat) \<Rightarrow> nat" where
  "was P i f = (case find_pool P i of Some p \<Rightarrow> f p | None \<Rightarrow> 0)"

lemma pool_inv_put:
  assumes inv: "pool_inv (P, out)"
    and "pm_in_use m + was P (pp_plugin_id p) pp_in_use = pm_in_use (ip_metrics P) + pp_in_use p"
    and "pm_idle m + was P (pp_plugin_id p) (\<lambda>p. length (pp_idle p)) = pm_idle (ip_metrics P) + length (pp_idle p)"
    and "pm_cache_misses m + was P (pp_plugin_id p) pp_cache_misses = pm_cache_misses (ip_metrics P) + pp_cache_misses p"
    and "pm_created_total m + was P (pp_plugin_id p) pp_cache_misses = pm_created_total (ip_metrics P) + pp_cache_misses p"
    and ok: "pool_ok p (pc_max_per_plugin (ip_config P))"
    and other: "\<And>i. i \<noteq> pp_plugin_id p \<Longrightarrow> count out' i \<le> count out i"
    and here: "count out' (pp_plugin_id p) \<le> pp_in_use p"
  shows "pool_inv ((put_pool p P)\<lparr>ip_metrics := m\<rparr>, out')"
proof -
  have d: "distinct (map pp_plugin_id (ip_inner P))" using inv by (simp add: pool_inv_def)
  note t = put_pool_total [OF d, of _ p, folded was_def]
  have all: "\<forall>q \<in> set (ip_inner (put_pool p P)). pool_ok q (pc_max_per_plugin (ip_config P))"
    using inv put_pool_all [of "\<lambda>q. pool_ok q (pc_max_per_plugin (ip_config P))", OF ok]
    by (auto simp: pool_inv_def)
  have out: "count out' i \<le> in_use_of (put_pool p P) i" for i
    using inv other [of i] here le_trans by (fastforce simp: pool_inv_def in_use_of_def find_put_pool)
  show ?thesis
    using inv assms(2-5) t [of pp_in_use] t [of "\<lambda>p. length (pp_idle p)"] t [of pp_cache_misses]
      all out distinct_put_pool [OF d]
    by (simp add: pool_inv_def in_use_of_def)
qed

lemma try_acquire_idle_inv:
  assumes "pool_inv (P, out)" and "try_acquire_idle i P = (Some inst, P')"
  shows "pool_inv (P', add_mset i out)"
proof -
  obtain p rest where p: "find_pool P i = Some p" "pp_idle p = inst # rest"
    and P': "P' = (put_pool (p\<lparr>pp_idle := rest, pp_in_use := pp_in_use p + 1\<rparr>) P)
                  \<lparr>ip_metrics := (ip_metrics P)\<lparr>pm_in_use := pm_in_use (ip_metrics P) + 1,
                                               pm_idle := pm_idle (ip_metrics P) - 1\<rparr>\<rparr>"
    using assms(2) by (auto simp: try_acquire_idle_def split: option.splits list.splits)
  have id: "pp_plugin_id p = i" and pin: "p \<in> set (ip_inner P)" using find_pool_SomeD [OF p(1)] by auto
  have "length (pp_idle p) \<le> pm_idle (ip_metrics P)"
    using assms(1) pin member_le_sum_list [of "length (pp_idle p)" "map (\<lambda>p. length (pp_idle p)) (ip_inner P)"]
    by (simp add: pool_inv_def total_def)
  moreover have "pool_ok p (pc_max_per_plugin (ip_config P))" "count out i \<le> in_use_of P i"
    using assms(1) pin by (auto simp: pool_inv_def)
  ultimately show ?thesis
    unfolding P' using assms(1) p id
    by (intro pool_inv_put) (auto simp: was_def pool_ok_def in_use_of_def)
qed

lemma register_cold_inv:
  assumes "pool_inv (P, out)"
  shows "pool_inv (register_cold row P, add_mset (pr_id row) out)"
proof -
  have "count out (pr_id row) \<le> in_use_of P (pr_id row)" using assms by (simp add: pool_inv_def)
  moreover have "find_pool P (pr_id row) = Some p \<Longrightarrow> pool_ok p (pc_max_per_plugin (ip_config P)) \<and> pp_plugin_id p = pr_id row" for p
    using assms find_pool_SomeD [of P "pr_id row" p] by (auto simp: pool_inv_def)
  ultimately show ?thesis
    unfolding register_cold_def Let_def using assms
    by (intro pool_inv_put) (auto simp: was_def pool_ok_def in_use_of_def split: option.splits)
qed

lemma release_inv:
  assumes "pool_inv (P, out)" and "pi_plugin_id inst \<in># out"
  shows "pool_inv (release now inst reset_ok P, out - {#pi_plugin_id inst#})"
proof -
  let ?i = "pi_plugin_id inst"
  have c: "count out ?i \<le> in_use_of P ?i" "?i \<in># out" using assms by (auto simp: pool_inv_def)
  then obtain p where p: "find_pool P ?i = Some p"
    using not_in_iff [of ?i out] by (cases "find_pool P ?i") (auto simp: in_use_of_def)
  have id: "pp_plugin_id p = ?i" and pin: "p \<in> set (ip_inner P)" using find_pool_SomeD [OF p] by auto
  have "pp_in_use p \<le> pm_in_use (ip_metrics P)"
    using assms(1) pin member_le_sum_list [of "pp_in_use p" "map pp_in_use (ip_inner P)"]
    by (simp add: pool_inv_def total_def)
  moreover have "pool_ok p (pc_max_per_plugin (ip_config P))" using assms(1) pin by (auto simp: pool_inv_def)
  moreover have "0 < pp_in_use p" using c p order_less_le_trans [of 0 "count out ?i"] by (simp add: in_use_of_def)
  ultimately show ?thesis
    using assms(1) p id c unfolding release_def Let_def
    by (auto simp: was_def pool_ok_def in_use_of_def intro!: pool_inv_put)
qed

interpretation pool: invariant_system pool_init pool_step pool_inv
proof
  show "pool_inv s" if "pool_init s" for s :: "'a pool_state"
    using that by (auto simp: pool_init_def pool_inv_def pool_new_def total_def in_use_of_def)
next
  show "pool_inv s'" if "pool_step s s'" "pool_inv s" for s s' :: "'a pool_state"
    using that
  proof (induction rule: pool_step.induct)
    case (lost i out P)
    then show ?case by (auto simp: pool_inv_def intro: le_trans [OF diff_le_self])
  qed (blast intro: try_acquire_idle_inv register_cold_inv release_inv)+
qed

section \<open>A call as steps of the pool\<close>

lemma try_acquire_idle_None: "try_acquire_idle i P = (None, P') \<Longrightarrow> P' = P"
  by (auto simp: try_acquire_idle_def split: option.splits list.splits)

lemma try_acquire_idle_id:
  "pool_inv (P, out) \<Longrightarrow> try_acquire_idle i P = (Some inst, P') \<Longrightarrow> pi_plugin_id inst = i"
  using find_pool_SomeD [of P i]
  by (fastforce simp: try_acquire_idle_def pool_inv_def pool_ok_def split: option.splits list.splits)

lemma acquire_step:
  assumes "pool_inv (P, out)" and "acquire E now s3 row P = (Inr inst, P')"
  shows "pi_plugin_id inst = pr_id row \<and> pool_step (P, out) (P', add_mset (pr_id row) out)"
  using assms try_acquire_idle_id [OF assms(1)]
  by (auto simp: acquire_def try_acquire_idle_None split: prod.splits option.splits sum.splits
           intro: pool_step.intros dest: try_acquire_idle_None)

lemma acquire_Inl: "acquire E now s3 row P = (Inl e, P') \<Longrightarrow> P' = P"
  by (auto simp: acquire_def split: prod.splits option.splits sum.splits dest: try_acquire_idle_None)

lemma invoke_steps:
  assumes "pool_inv (P, out)"
  shows "pool_step\<^sup>*\<^sup>* (P, out) (snd (snd (invoke E lookup call now s3 i P)), out)"
proof (cases "\<exists>row inst P1. lookup i = Inr (Some row) \<and> acquire E now s3 row P = (Inr inst, P1)")
  case True
  then obtain row inst P1 where l: "lookup i = Inr (Some row)" and a: "acquire E now s3 row P = (Inr inst, P1)"
    by blast
  note st = acquire_step [OF assms a]
  have "pool_step (P1, add_mset (pr_id row) out) (P1, out)"
    using pool_step.lost [of "pr_id row" "add_mset (pr_id row) out" P1] by simp
  moreover have "pool_step (P1, add_mset (pr_id row) out) (release now (inst\<lparr>pi_plugin := q\<rparr>) ok P1, out)" for q ok
    using pool_step.give_back [of "inst\<lparr>pi_plugin := q\<rparr>" "add_mset (pr_id row) out" P1 now ok] st by simp
  ultimately have "pool_step (P1, add_mset (pr_id row) out) (snd (snd (invoke E lookup call now s3 i P)), out)"
    by (auto simp: invoke_def l a Let_def split: call_outcome.splits)
  then show ?thesis using st by (meson converse_rtranclp_into_rtranclp r_into_rtranclp)
next
  case False
  then have "snd (snd (invoke E lookup call now s3 i P)) = P"
    by (auto simp: invoke_def split: sum.splits option.splits prod.splits dest: acquire_Inl)
  then show ?thesis by simp
qed

section \<open>Properties\<close>

lemma snapshot_sums:
  "sum_list (map ppm_in_use (per_plugin_snapshot P)) = total pp_in_use P"
  "sum_list (map ppm_idle (per_plugin_snapshot P)) = total (\<lambda>p. length (pp_idle p)) P"
  "sum_list (map ppm_cache_misses (per_plugin_snapshot P)) = total pp_cache_misses P"
  by (simp_all add: per_plugin_snapshot_def total_def comp_def)

text \<open>
  Whatever the interleaving of the acquisitions, cold starts, releases and lost calls
  of concurrent invocations, the global counters of the pool are the sums of the counters of the
  plugins, an instance is created for each cache miss and for nothing else, no plugin keeps
  more idle instances than \<open>max_per_plugin\<close>, and every instance that is out is counted as in use;
  and an invocation of a plugin leads from such a state to such a state.
\<close>

theorem pool_metrics_are_exact:
  assumes "reach pool_init pool_step (P, out)"
    and "P' = P \<or> P' = snd (snd (invoke E lookup call now s3 i P))"
  shows "pm_in_use (metrics_snapshot P') = sum_list (map ppm_in_use (per_plugin_snapshot P'))
       \<and> pm_idle (metrics_snapshot P') = sum_list (map ppm_idle (per_plugin_snapshot P'))
       \<and> pm_cache_misses (metrics_snapshot P') = sum_list (map ppm_cache_misses (per_plugin_snapshot P'))
       \<and> pm_created_total (metrics_snapshot P') = pm_cache_misses (metrics_snapshot P')
       \<and> (\<forall>q \<in> set (per_plugin_snapshot P'). ppm_idle q \<le> pc_max_per_plugin (ip_config P'))
       \<and> (\<forall>j. count out j \<le> in_use_of P' j)"
proof -
  have "pool_inv (P, out)" using assms(1) by (rule pool.inv_reach)
  then have "pool_inv (P', out)" using assms(2) invoke_steps pool.inv_steps by blast
  moreover from this have "\<forall>q \<in> set (per_plugin_snapshot P'). ppm_idle q \<le> pc_max_per_plugin (ip_config P')"
    by (auto simp: pool_inv_def per_plugin_snapshot_def pool_ok_def)
  ultimately show ?thesis by (simp add: pool_inv_def snapshot_sums metrics_snapshot_def)
qed

definition acquire_n :: "'p pool_env \<Rightarrow> int \<Rightarrow> plugin_row \<Rightarrow> nat \<Rightarrow> 'p instance_pool \<Rightarrow> 'p instance_pool" where
  "acquire_n E now row n = ((\<lambda>P. snd (acquire E now True row P)) ^^ n)"

lemma register_cold_simps:
  "ip_config (register_cold row P) = ip_config P"
  "pm_in_use (ip_metrics (register_cold row P)) = Suc (pm_in_use (ip_metrics P))"
  by (simp_all add: register_cold_def Let_def)

lemma register_cold_idle:
  assumes "\<forall>q. find_pool P (pr_id row) = Some q \<longrightarrow> pp_idle q = []"
  shows "\<forall>q. find_pool (register_cold row P) (pr_id row) = Some q \<longrightarrow> pp_idle q = []"
  using assms find_pool_SomeD [of P "pr_id row"]
  by (cases "find_pool P (pr_id row)") (auto simp: register_cold_def Let_def find_put_pool)

lemma acquire_n_state:
  assumes "cold_start E True row = Inr p"
  shows "ip_config (acquire_n E now row n (pool_new c)) = c
       \<and> pm_in_use (ip_metrics (acquire_n E now row n (pool_new c))) = n
       \<and> (\<forall>q. find_pool (acquire_n E now row n (pool_new c)) (pr_id row) = Some q \<longrightarrow> pp_idle q = [])"
proof (induction n)
  case 0
  show ?case by (simp add: acquire_n_def pool_new_def find_pool_def)
next
  case (Suc n)
  let ?P = "acquire_n E now row n (pool_new c)"
  have "try_acquire_idle (pr_id row) ?P = (None, ?P)"
    using Suc by (cases "find_pool ?P (pr_id row)") (simp_all add: try_acquire_idle_def)
  then have "acquire_n E now row (Suc n) (pool_new c) = register_cold row ?P"
    using assms by (simp add: acquire_n_def acquire_def)
  then show ?case using Suc register_cold_idle by (simp only: register_cold_simps) blast
qed

text \<open>
  The instance limits are not enforced: as long as every cold start succeeds,
  \<open>n\<close> concurrent callers get \<open>n\<close> instances of one plugin, whatever \<open>max_per_plugin\<close> and
  \<open>max_total\<close> are; none of them waits or is told that the pool is busy.
\<close>

theorem pool_limits_not_enforced:
  assumes "cold_start E True row = Inr p"
  shows "\<exists>inst P'. acquire E now True row (acquire_n E now row n (pool_new c)) = (Inr inst, P')
           \<and> pm_in_use (metrics_snapshot P') = Suc n"
proof -
  let ?P = "acquire_n E now row n (pool_new c)"
  have "try_acquire_idle (pr_id row) ?P = (None, ?P)"
    using acquire_n_state [OF assms, of now n c]
    by (cases "find_pool ?P (pr_id row)") (simp_all add: try_acquire_idle_def)
  then show ?thesis
    using assms acquire_n_state [OF assms, of now n c]
    by (simp add: acquire_def register_cold_simps metrics_snapshot_def)
qed

definition demo_pool_env :: "nat pool_env" where
  "demo_pool_env = \<lparr>get_wasm = (\<lambda>key. Inr key), sha256_hex = id, build_plugin = (\<lambda>bytes. Built (length bytes))\<rparr>"

definition demo_row :: plugin_row where
  "demo_row = \<lparr>pr_id = 1, pr_identifier = ''p'', pr_version = ''1'', pr_s3_key = ''k'', pr_sha256 = ''k''\<rparr>"

theorem pool_limits_not_enforced_witness:
  "pc_max_total (config_from_env (\<lambda>_. None)) = 64
   \<and> (\<exists>inst P'. acquire demo_pool_env 0 True demo_row (acquire_n demo_pool_env 0 demo_row 64 (pool_new (config_from_env (\<lambda>_. None))))
           = (Inr inst, P') \<and> pm_in_use (metrics_snapshot P') = Suc 64)"
proof
  show "pc_max_total (config_from_env (\<lambda>_. None)) = 64" by (simp add: config_from_env_def)
  have "cold_start demo_pool_env True demo_row = Inr 1" by (simp add: cold_start_def demo_pool_env_def demo_row_def)
  then show "\<exists>inst P'. acquire demo_pool_env 0 True demo_row (acquire_n demo_pool_env 0 demo_row 64 (pool_new (config_from_env (\<lambda>_. None))))
           = (Inr inst, P') \<and> pm_in_use (metrics_snapshot P') = Suc 64"
    by (rule pool_limits_not_enforced)
qed

theorem pool_metrics_are_exact_witness:
  "let P' = snd (snd (invoke demo_pool_env (\<lambda>_. Inr (Some demo_row)) (\<lambda>inst. Called (Inr ''ok'') 1 True) 5 True 1
                        (pool_new (config_from_env (\<lambda>_. None)))))
   in pm_idle (metrics_snapshot P') = sum_list (map ppm_idle (per_plugin_snapshot P'))"
proof -
  have r: "reach pool_init pool_step (pool_new (config_from_env (\<lambda>_. None)) :: nat instance_pool, {#})"
    by (rule reach_init) (auto simp: pool_init_def)
  show ?thesis unfolding Let_def
    by (rule pool_metrics_are_exact [OF r, THEN conjunct2, THEN conjunct1]) (rule disjI2, rule refl)
qed

end
