(* ===== verification/Llm_Messages.thy ===== *)
theory Llm_Messages
  imports HC_Json HC_Text
begin

text \<open>
  The data of a language model call and the clean-up of the messages it carries
  (crates/providers/src/base.rs, lines 20 to 520): requests and responses, empty content, role
  alternation, images, provider-safe keys, cache markers. \<^verbatim>\<open>f32\<close> and \<^verbatim>\<open>f64\<close> values are their bits.
\<close>

section \<open>Data\<close>

record llm_tool_call_request =
  tc_id :: string
  tc_name :: string
  tc_arguments :: jmap
  tc_extra_content :: "jmap option"
  tc_provider_specific_fields :: "jmap option"
  tc_function_provider_specific_fields :: "jmap option"

text \<open>\<open>text_of\<close> is \<^verbatim>\<open>serde_json::to_string\<close>.\<close>

definition to_openai_tool_call :: "(json \<Rightarrow> string) \<Rightarrow> llm_tool_call_request \<Rightarrow> json" where
  "to_openai_tool_call text_of t =
     (let add = (\<lambda>key m out. case m of Some f \<Rightarrow> obj_insert key (JObject f) out | None \<Rightarrow> out);
          func = add ''provider_specific_fields'' (tc_function_provider_specific_fields t)
                   [(''name'', JString (tc_name t)), (''arguments'', JString (text_of (JObject (tc_arguments t))))]
      in JObject (add ''provider_specific_fields'' (tc_provider_specific_fields t)
                   (add ''extra_content'' (tc_extra_content t)
                     [(''id'', JString (tc_id t)), (''type'', JString ''function''), (''function'', JObject func)])))"

record llm_response =
  lr_content :: "string option"
  lr_tool_calls :: "llm_tool_call_request list"
  lr_finish_reason :: string
  lr_usage :: "(string \<times> int) list"
  lr_retry_after :: "64 word option"
  lr_reasoning_content :: "string option"
  lr_thinking_blocks :: "json list option"
  lr_error_status_code :: "int option"
  lr_error_kind :: "string option"
  lr_error_type :: "string option"
  lr_error_code :: "string option"
  lr_error_retry_after_s :: "64 word option"
  lr_error_should_retry :: "bool option"

text \<open>\<^verbatim>\<open>Default\<close>: an empty finish reason (the \<^verbatim>\<open>"stop"\<close> default belongs to deserialization).\<close>

definition response_default :: llm_response where
  "response_default =
     \<lparr>lr_content = None, lr_tool_calls = [], lr_finish_reason = [], lr_usage = [], lr_retry_after = None,
      lr_reasoning_content = None, lr_thinking_blocks = None, lr_error_status_code = None,
      lr_error_kind = None, lr_error_type = None, lr_error_code = None, lr_error_retry_after_s = None,
      lr_error_should_retry = None\<rparr>"

definition response_error :: "string \<Rightarrow> llm_response" where
  "response_error msg = response_default\<lparr>lr_content := Some msg, lr_finish_reason := ''error''\<rparr>"

definition has_tool_calls :: "llm_response \<Rightarrow> bool" where
  "has_tool_calls r \<longleftrightarrow> lr_tool_calls r \<noteq> []"

definition should_execute_tools :: "llm_response \<Rightarrow> bool" where
  "should_execute_tools r \<longleftrightarrow>
     has_tool_calls r \<and> lr_finish_reason r \<in> {''tool_calls'', ''function_call'', ''stop''}"

definition is_error :: "llm_response \<Rightarrow> bool" where
  "is_error r \<longleftrightarrow> lr_finish_reason r = ''error''"

record generation_settings =
  gs_temperature :: "32 word"
  gs_max_tokens :: nat
  gs_reasoning_effort :: "string option"

datatype tool_choice = ChooseAuto | ChooseRequired | ChooseNone | ChooseSpecific json

record chat_request =
  cr_messages :: "json list"
  cr_tools :: "json list option"
  cr_model :: "string option"
  cr_max_tokens :: nat
  cr_temperature :: "32 word"
  cr_reasoning_effort :: "string option"
  cr_tool_choice :: "tool_choice option"

section \<open>Messages\<close>

definition role_of :: "json \<Rightarrow> string" where
  "role_of msg = (case Option.bind (jget msg ''role'') as_str of Some r \<Rightarrow> r | None \<Rightarrow> [])"

definition has_tools :: "json \<Rightarrow> bool" where
  "has_tools msg \<longleftrightarrow> (case jget msg ''tool_calls'' of Some v \<Rightarrow> v \<noteq> JNull | None \<Rightarrow> False)"

text \<open>One block of a content array: dropped (\<open>None\<close>), or kept with a flag telling whether it changed.\<close>

definition sanitize_block :: "json \<Rightarrow> (json \<times> bool) option" where
  "sanitize_block item =
     (case item of
        JObject m \<Rightarrow>
          (let ty = (case Option.bind (obj_get m ''type'') as_str of Some t \<Rightarrow> t | None \<Rightarrow> []);
               no_text = (case Option.bind (obj_get m ''text'') as_str of Some s \<Rightarrow> s = [] | None \<Rightarrow> True)
           in if ty \<in> {''text'', ''input_text'', ''output_text''} \<and> no_text then None
              else if obj_contains_key m ''_meta''
              then Some (JObject (filter (\<lambda>p. fst p \<noteq> ''_meta'') m), True)
              else Some (item, False))
      | _ \<Rightarrow> Some (item, False))"

definition sanitize_empty_content_one :: "json \<Rightarrow> json" where
  "sanitize_empty_content_one msg =
     (case msg of
        JObject obj \<Rightarrow>
          (let blank = (if Option.bind (obj_get obj ''role'') as_str = Some ''assistant'' \<and> has_tools msg
                        then JNull else JString ''(empty)'')
           in case obj_get obj ''content'' of
                Some (JString s) \<Rightarrow> if s = [] then JObject (obj_insert ''content'' blank obj) else msg
              | Some (JArray items) \<Rightarrow>
                  (let kept = List.map_filter sanitize_block items;
                       changed = (length kept < length items \<or> list_ex snd kept)
                   in if \<not> changed then msg
                      else if kept \<noteq> [] then JObject (obj_insert ''content'' (JArray (map fst kept)) obj)
                      else JObject (obj_insert ''content'' blank obj))
              | Some (JObject single) \<Rightarrow> JObject (obj_insert ''content'' (JArray [JObject single]) obj)
              | _ \<Rightarrow> msg)
      | _ \<Rightarrow> msg)"

definition sanitize_empty_content :: "json list \<Rightarrow> json list" where
  "sanitize_empty_content = map sanitize_empty_content_one"

text \<open>
  \<^verbatim>\<open>enforce_role_alternation\<close>, pass by pass. \<open>merge_into\<close> is one iteration of the first loop: the
  merged messages are kept newest first.
\<close>

definition synthetic_user :: json where
  "synthetic_user = JObject [(''role'', JString ''user''), (''content'', JString ''(conversation continued)'')]"

definition merge_message :: "json \<Rightarrow> json \<Rightarrow> json" where
  "merge_message prev msg =
     (if role_of msg = ''assistant'' \<and> has_tools msg then msg
      else if role_of msg = ''assistant'' \<and> has_tools prev then prev
      else case (case jget prev ''content'' of Some v \<Rightarrow> v | None \<Rightarrow> JString [],
                 case jget msg ''content'' of Some v \<Rightarrow> v | None \<Rightarrow> JNull) of
             (JString p, JString c) \<Rightarrow>
               (case prev of
                  JObject o1 \<Rightarrow> JObject (obj_insert ''content'' (JString (trim (p @ [CHR 0x0A, CHR 0x0A] @ c))) o1)
                | _ \<Rightarrow> prev)
           | _ \<Rightarrow> msg)"

fun merge_into :: "json list \<Rightarrow> json \<Rightarrow> json list" where
  "merge_into [] msg = [msg]"
| "merge_into (prev # merged) msg =
     (if role_of prev = role_of msg \<and> role_of msg \<in> {''user'', ''assistant''}
      then merge_message prev msg # merged
      else msg # prev # merged)"

definition is_assistant :: "json \<Rightarrow> bool" where
  "is_assistant m \<longleftrightarrow> Option.bind (jget m ''role'') as_str = Some ''assistant''"

text \<open>Removing the trailing assistant messages (the list is newest first); the last one removed is kept aside.\<close>

fun drop_trailing :: "json list \<Rightarrow> json option \<Rightarrow> json list \<times> json option" where
  "drop_trailing [] popped = ([], popped)"
| "drop_trailing (m # ms) popped = (if is_assistant m then drop_trailing ms (Some m) else (m # ms, popped))"

definition recover_popped :: "json list \<Rightarrow> json option \<Rightarrow> json list" where
  "recover_popped merged popped =
     (case popped of
        Some (JObject obj) \<Rightarrow>
          if merged \<noteq> [] \<and> \<not> list_ex (\<lambda>m. role_of m \<in> {''user'', ''tool''}) merged
          then merged @ [JObject (obj_insert ''role'' (JString ''user'') obj)]
          else merged
      | _ \<Rightarrow> merged)"

fun guard_first :: "json list \<Rightarrow> json list" where
  "guard_first [] = []"
| "guard_first (m # ms) =
     (if role_of m = ''system'' then m # guard_first ms
      else if role_of m = ''assistant'' \<and> \<not> has_tools m then synthetic_user # m # ms
      else m # ms)"

definition enforce_role_alternation :: "json list \<Rightarrow> json list" where
  "enforce_role_alternation messages =
     (case drop_trailing (foldl merge_into [] messages) None of
        (kept, popped) \<Rightarrow> guard_first (recover_popped (rev kept) popped))"

section \<open>Images, keys and cache markers\<close>

definition image_placeholder :: "string \<Rightarrow> string \<Rightarrow> string" where
  "image_placeholder path dflt = (if path = [] then dflt else ''[image: '' @ path @ '']'')"

definition is_image_block :: "json \<Rightarrow> bool" where
  "is_image_block b \<longleftrightarrow> Option.bind (jget b ''type'') as_str = Some ''image_url''"

definition strip_block :: "json \<Rightarrow> json" where
  "strip_block b =
     (if is_image_block b
      then let path = (case Option.bind (Option.bind (jget b ''_meta'') (\<lambda>m. jget m ''path'')) as_str of
                         Some p \<Rightarrow> p | None \<Rightarrow> [])
           in JObject [(''type'', JString ''text''), (''text'', JString (image_placeholder path ''[image omitted]''))]
      else b)"

definition strip_message :: "json \<Rightarrow> json" where
  "strip_message msg =
     (case msg of
        JObject obj \<Rightarrow>
          (case obj_get obj ''content'' of
             Some (JArray blocks) \<Rightarrow> JObject (obj_insert ''content'' (JArray (map strip_block blocks)) obj)
           | _ \<Rightarrow> msg)
      | _ \<Rightarrow> msg)"

definition has_image :: "json \<Rightarrow> bool" where
  "has_image msg \<longleftrightarrow> (case jget msg ''content'' of Some (JArray blocks) \<Rightarrow> list_ex is_image_block blocks | _ \<Rightarrow> False)"

definition strip_image_content :: "json list \<Rightarrow> json list option" where
  "strip_image_content messages =
     (if list_ex has_image messages then Some (map strip_message messages) else None)"

text \<open>The in-place variant returns the messages afterwards and whether an image was replaced.\<close>

definition strip_image_content_inplace :: "json list \<Rightarrow> bool \<times> json list" where
  "strip_image_content_inplace messages = (list_ex has_image messages, map strip_message messages)"

definition tool_name :: "json \<Rightarrow> string" where
  "tool_name tool =
     (case Option.bind (jget tool ''name'') as_str of
        Some n \<Rightarrow> n
      | None \<Rightarrow>
          (case Option.bind (Option.bind (Option.bind (jget tool ''function'') as_object) (\<lambda>m. obj_get m ''name'')) as_str of
             Some n \<Rightarrow> n
           | None \<Rightarrow> []))"

definition tool_cache_marker_indices :: "json list \<Rightarrow> nat list" where
  "tool_cache_marker_indices tools =
     (if tools = [] then []
      else let tail_idx = length tools - 1
           in case rposition (\<lambda>t. \<not> starts_with ''mcp_'' (tool_name t)) tools of
                Some i \<Rightarrow> if i = tail_idx then [i] else [i, tail_idx]
              | None \<Rightarrow> [tail_idx])"

definition sanitize_request_messages :: "string set \<Rightarrow> json list \<Rightarrow> json list" where
  "sanitize_request_messages allowed_keys =
     map (\<lambda>msg. case msg of
                  JObject obj \<Rightarrow>
                    (let clean = filter (\<lambda>p. fst p \<in> allowed_keys) obj
                     in JObject (if Option.bind (obj_get clean ''role'') as_str = Some ''assistant''
                                    \<and> \<not> obj_contains_key clean ''content''
                                 then obj_insert ''content'' JNull clean else clean))
                | _ \<Rightarrow> msg)"

section \<open>Role alternation\<close>

definition may_follow :: "json \<Rightarrow> json \<Rightarrow> bool" where
  "may_follow a b \<longleftrightarrow> \<not> (role_of a = role_of b \<and> role_of b \<in> {''user'', ''assistant''})"

lemma may_follow_sym: "may_follow a b \<longleftrightarrow> may_follow b a"
  by (auto simp: may_follow_def)

lemma successively_flip [simp]: "successively (\<lambda>x y. may_follow y x) xs = successively may_follow xs"
proof -
  have "(\<lambda>x y. may_follow y x) = may_follow" using may_follow_sym by blast
  then show ?thesis by (rule arg_cong)
qed

lemma role_of_insert:
  "role_of (JObject (obj_insert k v m)) =
     (if k = ''role'' then (case v of JString r \<Rightarrow> r | _ \<Rightarrow> []) else role_of (JObject m))"
  by (auto simp: role_of_def obj_get_insert split: json.splits)

lemma role_merge_message: "role_of prev = role_of msg \<Longrightarrow> role_of (merge_message prev msg) = role_of msg"
  by (auto simp: merge_message_def role_of_insert split: json.splits option.splits)

lemma may_follow_role: "role_of a = role_of a' \<Longrightarrow> may_follow a b = may_follow a' b"
  by (simp add: may_follow_def)

lemma merge_into_alternates: "successively may_follow ms \<Longrightarrow> successively may_follow (merge_into ms m)"
proof (cases ms)
  case (Cons p ps)
  assume s: "successively may_follow ms"
  show ?thesis
  proof (cases "role_of p = role_of m \<and> role_of m \<in> {''user'', ''assistant''}")
    case True
    then have "may_follow (merge_message p m) b = may_follow p b" for b
      using role_merge_message may_follow_role by metis
    then show ?thesis using s Cons True by (auto simp: successively_Cons)
  next
    case False
    then show ?thesis using s Cons by (auto simp: may_follow_def)
  qed
qed simp

lemma fold_merge_alternates: "successively may_follow ms \<Longrightarrow> successively may_follow (foldl merge_into ms xs)"
  by (induction xs arbitrary: ms) (simp_all add: merge_into_alternates)

lemma fold_merge_id: "successively may_follow (rev ms @ xs) \<Longrightarrow> foldl merge_into ms xs = rev xs @ ms"
proof (induction xs arbitrary: ms)
  case (Cons x xs)
  have "merge_into ms x = x # ms"
    using Cons.prems by (cases ms) (auto simp: may_follow_def successively_append_iff)
  then show ?case using Cons.IH [of "x # ms"] Cons.prems by simp
qed simp

lemma is_assistant_iff: "is_assistant m \<longleftrightarrow> role_of m = ''assistant''"
  by (auto simp: is_assistant_def role_of_def split: option.splits)

lemma drop_trailing_spec:
  "drop_trailing ms popped = (kept, popped') \<Longrightarrow>
     (\<exists>dropped. ms = dropped @ kept) \<and> (kept = [] \<or> role_of (hd kept) \<noteq> ''assistant'')
     \<and> (popped' = popped \<or> (\<exists>m. popped' = Some m \<and> is_assistant m))"
proof (induction ms arbitrary: popped)
  case (Cons m ms)
  show ?case
  proof (cases "is_assistant m")
    case True
    then have "drop_trailing ms (Some m) = (kept, popped')" using Cons.prems by simp
    from Cons.IH [OF this] show ?thesis using True by (metis append_Cons)
  next
    case False
    then show ?thesis using Cons.prems by (auto simp: is_assistant_iff)
  qed
qed simp

lemma recover_alternates:
  assumes "successively may_follow ms" and "ms = [] \<or> role_of (last ms) \<noteq> ''assistant''"
  shows "successively may_follow (recover_popped ms popped)"
    and "recover_popped ms popped = [] \<or> role_of (last (recover_popped ms popped)) \<noteq> ''assistant''"
  using assms
  by (auto simp: recover_popped_def successively_append_iff may_follow_def role_of_insert list_ex_iff
           split: option.splits json.splits dest!: last_in_set)

lemma role_synthetic [simp]: "role_of synthetic_user = ''user''"
  by (simp add: role_of_def synthetic_user_def obj_get_def)

lemma guard_first_last: "ms \<noteq> [] \<Longrightarrow> last (guard_first ms) = last ms \<and> guard_first ms \<noteq> []"
proof (induction ms rule: guard_first.induct)
  case (2 m ms)
  then show ?case by (cases ms) auto
qed simp

lemma guard_first_alternates: "successively may_follow ms \<Longrightarrow> successively may_follow (guard_first ms)"
proof (induction ms rule: guard_first.induct)
  case (2 m ms)
  show ?case
  proof (cases "role_of m = ''system''")
    case True
    then have "successively may_follow (guard_first ms)" using 2 by (cases ms) auto
    then show ?thesis using True by (auto simp: successively_Cons may_follow_def)
  next
    case False
    then show ?thesis using 2 by (auto simp: may_follow_def)
  qed
qed simp

definition bare_assistant :: "json \<Rightarrow> bool" where
  "bare_assistant m \<longleftrightarrow> role_of m = ''assistant'' \<and> \<not> has_tools m"

definition first_turn :: "json list \<Rightarrow> json option" where
  "first_turn ms = find (\<lambda>m. role_of m \<noteq> ''system'') ms"

lemma guard_first_turn: "first_turn (guard_first ms) = Some m \<Longrightarrow> \<not> bare_assistant m"
  by (induction ms rule: guard_first.induct) (auto simp: first_turn_def bare_assistant_def split: if_splits)

lemma guard_first_id: "(\<And>m. first_turn ms = Some m \<Longrightarrow> \<not> bare_assistant m) \<Longrightarrow> guard_first ms = ms"
  by (induction ms rule: guard_first.induct) (auto simp: first_turn_def bare_assistant_def)

lemma enforce_alternates:
  "successively may_follow (enforce_role_alternation ms)
   \<and> (enforce_role_alternation ms = [] \<or> role_of (last (enforce_role_alternation ms)) \<noteq> ''assistant'')"
proof -
  obtain kept popped where d: "drop_trailing (foldl merge_into [] ms) None = (kept, popped)" by fastforce
  have e: "enforce_role_alternation ms = guard_first (recover_popped (rev kept) popped)"
    by (simp add: enforce_role_alternation_def d)
  obtain dropped where "foldl merge_into [] ms = dropped @ kept" "kept = [] \<or> role_of (hd kept) \<noteq> ''assistant''"
    using drop_trailing_spec [OF d] by blast
  then have "successively may_follow (rev kept)" "rev kept = [] \<or> role_of (last (rev kept)) \<noteq> ''assistant''"
    using fold_merge_alternates [of "[]" ms]
    by (auto simp: successively_append_iff last_rev)
  from recover_alternates [OF this] show ?thesis
    using guard_first_alternates guard_first_last unfolding e by (metis guard_first.simps(1))
qed

text \<open>
  Role alternation: in the messages that go to the provider no two user messages
  and no two assistant messages are neighbours, the last one is not an assistant message, the
  first one after the system prompts is not an assistant text, and cleaning them again
  changes nothing.
\<close>

theorem roles_alternate:
  "successively may_follow (enforce_role_alternation ms)
   \<and> (enforce_role_alternation ms = [] \<or> role_of (last (enforce_role_alternation ms)) \<noteq> ''assistant'')
   \<and> (case first_turn (enforce_role_alternation ms) of Some m \<Rightarrow> \<not> bare_assistant m | None \<Rightarrow> True)
   \<and> enforce_role_alternation (enforce_role_alternation ms) = enforce_role_alternation ms"
proof -
  let ?out = "enforce_role_alternation ms"
  have f: "\<not> bare_assistant m" if "first_turn ?out = Some m" for m
    using that guard_first_turn by (auto simp: enforce_role_alternation_def split: prod.splits)
  have a: "successively may_follow ?out" and l: "?out = [] \<or> role_of (last ?out) \<noteq> ''assistant''"
    using enforce_alternates by blast+
  have "foldl merge_into [] ?out = rev ?out" using fold_merge_id [of "[]" ?out] a by simp
  moreover have "drop_trailing (rev ?out) None = (rev ?out, None)"
    using l by (cases "rev ?out") (auto simp: is_assistant_iff)
  ultimately have "enforce_role_alternation ?out = guard_first ?out"
    by (simp add: enforce_role_alternation_def [of ?out] recover_popped_def)
  then show ?thesis using a l f guard_first_id [of ?out] by (auto split: option.split)
qed

theorem roles_alternate_witness:
  "successively may_follow
     (enforce_role_alternation
        [JObject [(''role'', JString ''user''), (''content'', JString ''a'')],
         JObject [(''role'', JString ''user''), (''content'', JString ''b'')],
         JObject [(''role'', JString ''assistant''), (''content'', JString ''c'')]])"
  using roles_alternate
    [of "[JObject [(''role'', JString ''user''), (''content'', JString ''a'')],
          JObject [(''role'', JString ''user''), (''content'', JString ''b'')],
          JObject [(''role'', JString ''assistant''), (''content'', JString ''c'')]]"]
  by (rule conjunct1)

text \<open>
  A user message is lost: when two user messages follow each other and the second
  one carries content blocks (an image, say) instead of a text, the first one is overwritten
  instead of merged.
\<close>

theorem block_message_overwrites_previous:
  assumes "role_of a = ''user''" and "role_of b = ''user''" and "jget b ''content'' = Some (JArray blocks)"
  shows "enforce_role_alternation [a, b] = [b]"
proof -
  have "merge_message a b = b" using assms by (auto simp: merge_message_def split: json.splits option.splits)
  then show ?thesis
    using assms by (simp add: enforce_role_alternation_def is_assistant_iff recover_popped_def)
qed

theorem block_message_overwrites_previous_witness:
  "enforce_role_alternation
     [JObject [(''role'', JString ''user''), (''content'', JString ''my question'')],
      JObject [(''role'', JString ''user''), (''content'', JArray [])]]
   = [JObject [(''role'', JString ''user''), (''content'', JArray [])]]"
  by (rule block_message_overwrites_previous) (simp_all add: role_of_def obj_get_def)

section \<open>Images\<close>

lemma strip_block_no_image [simp]: "\<not> is_image_block (strip_block b)"
  by (auto simp: strip_block_def is_image_block_def Let_def obj_get_def)

lemma strip_message_no_image [simp]: "\<not> has_image (strip_message m)"
  by (auto simp: has_image_def strip_message_def obj_get_insert list_ex_iff split: json.splits option.splits)

lemma strip_images_done: "fst (strip_image_content_inplace (snd (strip_image_content_inplace ms))) = False"
  by (auto simp: strip_image_content_inplace_def list_ex_iff)

end
