(* ===== verification/Llm_Retry.thy ===== *)
theory Llm_Retry
  imports Llm_Messages
begin

text \<open>
  The retry policy of the language model providers (crates/providers/src/base.rs, lines 520 to
  1129): which errors are transient, how long to wait, and the loop of \<^verbatim>\<open>chat_with_retry\<close> and
  \<^verbatim>\<open>chat_stream_with_retry\<close>. A provider is its call, a function of the request and of a state
  \<open>'s\<close> of its own. Arguments: \<open>text_delay\<close> is the search for a delay in an error text (the regex
  crate and float parsing). A positive \<^verbatim>\<open>f64\<close> is ordered like its bits. The wait itself, with
  its heartbeat callbacks, is the event \<open>Waited\<close>. The attempt counter does not wrap: it counts
  waits of a tenth of a second at least.
\<close>

section \<open>Transient errors\<close>

definition transient_error_markers :: "string list" where
  "transient_error_markers =
     [''429'', ''rate limit'', ''500'', ''502'', ''503'', ''504'', ''overloaded'', ''timeout'', ''timed out'',
      ''connection'', ''server error'', ''temporarily unavailable'',
      [CHR 0xE9, CHR 0x80, CHR 0x9F, CHR 0xE7, CHR 0x8E, CHR 0x87, CHR 0xE9, CHR 0x99, CHR 0x90, CHR 0xE5, CHR 0x88, CHR 0xB6],
      [CHR 0xE8, CHR 0xAE, CHR 0xBF, CHR 0xE9, CHR 0x97, CHR 0xAE, CHR 0xE9, CHR 0x87, CHR 0x8F, CHR 0xE8, CHR 0xBF, CHR 0x87, CHR 0xE5, CHR 0xA4, CHR 0xA7]]"

definition non_retryable_429_text :: "string list" where
  "non_retryable_429_text =
     [''insufficient_quota'', ''insufficient quota'', ''quota exceeded'', ''quota exhausted'',
      ''billing hard limit'', ''billing_hard_limit_reached'', ''billing not active'', ''insufficient balance'',
      ''insufficient_balance'', ''credit balance too low'', ''payment required'', ''out of credits'',
      ''out of quota'', ''exceeded your current quota'']"

definition retryable_429_text :: "string list" where
  "retryable_429_text =
     [''rate limit'', ''rate_limit'', ''too many requests'', ''retry after'', ''try again in'',
      ''temporarily unavailable'', ''overloaded'', ''concurrency limit'',
      [CHR 0xE9, CHR 0x80, CHR 0x9F, CHR 0xE7, CHR 0x8E, CHR 0x87, CHR 0xE9, CHR 0x99, CHR 0x90, CHR 0xE5, CHR 0x88, CHR 0xB6]]"

definition non_retryable_429_tokens :: "string list" where
  "non_retryable_429_tokens =
     [''insufficient_quota'', ''quota_exceeded'', ''quota_exhausted'', ''billing_hard_limit_reached'',
      ''insufficient_balance'', ''credit_balance_too_low'', ''billing_not_active'', ''payment_required'']"

definition retryable_429_tokens :: "string list" where
  "retryable_429_tokens =
     [''rate_limit_exceeded'', ''rate_limit_error'', ''too_many_requests'', ''request_limit_exceeded'',
      ''requests_limit_exceeded'', ''overloaded_error'']"

definition is_transient_text :: "string option \<Rightarrow> bool" where
  "is_transient_text content =
     (case content of
        None \<Rightarrow> False
      | Some s \<Rightarrow> list_ex (\<lambda>m. str_contains m (to_ascii_lowercase s)) transient_error_markers)"

definition normalize_token :: "string option \<Rightarrow> string option" where
  "normalize_token v =
     (case v of
        None \<Rightarrow> None
      | Some s \<Rightarrow> let t = to_ascii_lowercase (trim s) in if t = [] then None else Some t)"

definition is_retryable_429 :: "llm_response \<Rightarrow> bool" where
  "is_retryable_429 resp =
     (let tokens = List.map_filter normalize_token [lr_error_type resp, lr_error_code resp];
          content_lower = to_ascii_lowercase (case lr_content resp of Some s \<Rightarrow> s | None \<Rightarrow> [])
      in if list_ex (\<lambda>t. t \<in> set non_retryable_429_tokens) tokens then False
         else if list_ex (\<lambda>m. str_contains m content_lower) non_retryable_429_text then False
         else if list_ex (\<lambda>t. t \<in> set retryable_429_tokens) tokens then True
         else if list_ex (\<lambda>m. str_contains m content_lower) retryable_429_text then True
         else True)"

definition is_transient_response :: "llm_response \<Rightarrow> bool" where
  "is_transient_response resp =
     (case lr_error_should_retry resp of
        Some flag \<Rightarrow> flag
      | None \<Rightarrow>
          let kind_or_text =
                (case lr_error_kind resp of
                   Some kind \<Rightarrow> to_ascii_lowercase (trim kind) \<in> {''timeout'', ''connection''}
                 | None \<Rightarrow> False) \<or> is_transient_text (lr_content resp)
          in case lr_error_status_code resp of
               Some status \<Rightarrow>
                 if status = 429 then is_retryable_429 resp
                 else if status \<in> {408, 409, 429} \<or> status \<ge> 500 then True
                 else kind_or_text
             | None \<Rightarrow> kind_or_text)"

section \<open>Delays\<close>

text \<open>\<open>v > 0.0\<close> on the bits of a double: no sign, not zero, not a NaN.\<close>

definition f64_pos :: "64 word \<Rightarrow> bool" where
  "f64_pos w \<longleftrightarrow> 0 < w \<and> w \<le> 0x7FF0000000000000"

definition pick_delay :: "(string \<Rightarrow> 64 word option) \<Rightarrow> llm_response \<Rightarrow> 64 word option" where
  "pick_delay text_delay resp =
     (case lr_error_retry_after_s resp of
        Some v \<Rightarrow> if f64_pos v then Some v else
          (case lr_retry_after resp of
             Some u \<Rightarrow> if f64_pos u then Some u else Option.bind (lr_content resp) text_delay
           | None \<Rightarrow> Option.bind (lr_content resp) text_delay)
      | None \<Rightarrow>
          (case lr_retry_after resp of
             Some u \<Rightarrow> if f64_pos u then Some u else Option.bind (lr_content resp) text_delay
           | None \<Rightarrow> Option.bind (lr_content resp) text_delay))"

text \<open>The delays 1.0, 2.0 and 4.0, and the limit of 60.0 seconds.\<close>

definition retry_delays :: "64 word list" where
  "retry_delays = [0x3FF0000000000000, 0x4000000000000000, 0x4010000000000000]"

definition persistent_max_delay :: "64 word" where
  "persistent_max_delay = 0x404E000000000000"

section \<open>The loop\<close>

datatype retry_mode = Standard | Persistent

definition retry_mode_from_str :: "string \<Rightarrow> retry_mode" where
  "retry_mode_from_str s = (if s = ''persistent'' then Persistent else Standard)"

datatype retry_event =
    Asked chat_request
  | Notice string
  | Waited nat "64 word"

type_synonym 's chat_fun = "chat_request \<Rightarrow> 's \<Rightarrow> llm_response \<times> 's"

record 's retry_state =
  rt_attempt :: nat
  rt_last_error_key :: "string option"
  rt_identical_count :: nat
  rt_req :: chat_request
  rt_provider :: 's
  rt_trace :: "retry_event list"

definition f32_finite :: "32 word \<Rightarrow> bool" where
  "f32_finite w \<longleftrightarrow> take_bit 8 (drop_bit 23 w) \<noteq> 0xFF"

definition with_defaults :: "generation_settings \<Rightarrow> chat_request \<Rightarrow> chat_request" where
  "with_defaults g req =
     req\<lparr>cr_max_tokens := (if cr_max_tokens req = 0 then gs_max_tokens g else cr_max_tokens req),
         cr_temperature := (if \<not> f32_finite (cr_temperature req) then gs_temperature g else cr_temperature req),
         cr_reasoning_effort := (case cr_reasoning_effort req of None \<Rightarrow> gs_reasoning_effort g | Some e \<Rightarrow> Some e),
         cr_messages := enforce_role_alternation (cr_messages req)\<rparr>"

definition error_key :: "llm_response \<Rightarrow> string" where
  "error_key resp = to_ascii_lowercase (trim (case lr_content resp of Some s \<Rightarrow> s | None \<Rightarrow> []))"

definition count_identical :: "string \<Rightarrow> string option \<Rightarrow> nat \<Rightarrow> string option \<times> nat" where
  "count_identical key last_key n =
     (if key \<noteq> [] \<and> Some key = last_key then (last_key, min (n + 1) (2 ^ 32 - 1))
      else if key = [] then (None, 0) else (Some key, 1))"

definition retry_delay :: "(string \<Rightarrow> 64 word option) \<Rightarrow> bool \<Rightarrow> nat \<Rightarrow> llm_response \<Rightarrow> 64 word" where
  "retry_delay text_delay persistent attempt resp =
     (let base_delay = retry_delays ! min (attempt - 1) (length retry_delays - 1);
          delay = (case pick_delay text_delay resp of Some d \<Rightarrow> d | None \<Rightarrow> base_delay)
      in if persistent then min delay persistent_max_delay else delay)"

text \<open>
  One iteration: the final answer, or the state of the next iteration. \<open>label\<close> is the word the two
  loops of the source differ in (\<^verbatim>\<open>request\<close> or \<^verbatim>\<open>stream request\<close>).
\<close>

definition retry_step ::
    "(string \<Rightarrow> 64 word option) \<Rightarrow> string \<Rightarrow> bool \<Rightarrow> 's chat_fun \<Rightarrow> 's retry_state
       \<Rightarrow> (llm_response \<times> retry_event list \<times> 's) + 's retry_state" where
  "retry_step text_delay label persistent call st =
     (let attempt = rt_attempt st + 1;
          (response, s1) = call (rt_req st) (rt_provider st);
          trace = rt_trace st @ [Asked (rt_req st)]
      in if lr_finish_reason response \<noteq> ''error'' then Inl (response, trace, s1)
         else
           let (key, identical) = count_identical (error_key response) (rt_last_error_key st) (rt_identical_count st)
           in if \<not> is_transient_response response
              then (case strip_image_content_inplace (cr_messages (rt_req st)) of
                      (found, messages) \<Rightarrow>
                        if found
                        then let req = (rt_req st)\<lparr>cr_messages := messages\<rparr>; (result, s2) = call req s1
                             in Inl (result, trace @ [Asked req], s2)
                        else Inl (response, trace, s1))
              else if persistent \<and> identical \<ge> 10
              then Inl (response,
                        trace @ [Notice (''Persistent retry stopped after '' @ show_nat identical @ '' identical errors.'')], s1)
              else if \<not> persistent \<and> attempt > length retry_delays
              then Inl (response,
                        trace @ [Notice (''Model '' @ label @ '' failed after '' @ show_nat attempt @ '' retries, giving up.'')], s1)
              else Inr (st\<lparr>rt_attempt := attempt, rt_last_error_key := key, rt_identical_count := identical,
                           rt_provider := s1,
                           rt_trace := trace @ [Waited attempt (retry_delay text_delay persistent attempt response)]\<rparr>))"

partial_function (option) retry_loop ::
    "(string \<Rightarrow> 64 word option) \<Rightarrow> string \<Rightarrow> bool \<Rightarrow> 's chat_fun \<Rightarrow> 's retry_state
       \<Rightarrow> (llm_response \<times> retry_event list \<times> 's) option" where
  [code]: "retry_loop text_delay label persistent call st =
     (case retry_step text_delay label persistent call st of
        Inl res \<Rightarrow> Some res
      | Inr st' \<Rightarrow> retry_loop text_delay label persistent call st')"

definition retry_start :: "generation_settings \<Rightarrow> chat_request \<Rightarrow> 's \<Rightarrow> 's retry_state" where
  "retry_start g req s =
     \<lparr>rt_attempt = 0, rt_last_error_key = None, rt_identical_count = 0,
      rt_req = with_defaults g req, rt_provider = s, rt_trace = []\<rparr>"

definition chat_with_retry ::
    "(string \<Rightarrow> 64 word option) \<Rightarrow> generation_settings \<Rightarrow> 's chat_fun \<Rightarrow> chat_request \<Rightarrow> retry_mode \<Rightarrow> 's
       \<Rightarrow> (llm_response \<times> retry_event list \<times> 's) option" where
  "chat_with_retry text_delay g chat req mode s =
     retry_loop text_delay ''request'' (mode = Persistent) chat (retry_start g req s)"

definition chat_stream_with_retry ::
    "(string \<Rightarrow> 64 word option) \<Rightarrow> generation_settings \<Rightarrow> 's chat_fun \<Rightarrow> chat_request \<Rightarrow> retry_mode \<Rightarrow> 's
       \<Rightarrow> (llm_response \<times> retry_event list \<times> 's) option" where
  "chat_stream_with_retry text_delay g chat_stream req mode s =
     retry_loop text_delay ''stream request'' (mode = Persistent) chat_stream (retry_start g req s)"

section \<open>Standard retries end\<close>

fun is_asked :: "retry_event \<Rightarrow> bool" where
  "is_asked (Asked _) = True"
| "is_asked _ = False"

fun is_wait :: "retry_event \<Rightarrow> bool" where
  "is_wait (Waited _ _) = True"
| "is_wait _ = False"

definition asked :: "retry_event list \<Rightarrow> nat" where
  "asked ev = length (filter is_asked ev)"

definition waits :: "retry_event list \<Rightarrow> nat" where
  "waits ev = length (filter is_wait ev)"

lemma asked_append [simp]: "asked (a @ b) = asked a + asked b" "waits (a @ b) = waits a + waits b"
  by (simp_all add: asked_def waits_def)

lemma asked_simps [simp]:
  "asked [] = 0" "asked (Asked r # ev) = Suc (asked ev)" "asked (Notice t # ev) = asked ev"
  "asked (Waited n d # ev) = asked ev"
  "waits [] = 0" "waits (Asked r # ev) = waits ev" "waits (Notice t # ev) = waits ev"
  "waits (Waited n d # ev) = Suc (waits ev)"
  by (simp_all add: asked_def waits_def)

definition gave_up :: "chat_request \<Rightarrow> llm_response \<Rightarrow> bool" where
  "gave_up req r \<longleftrightarrow> is_error r \<and> is_transient_response r \<and> \<not> list_ex has_image (cr_messages req)"

lemma retry_step_Inr:
  assumes "retry_step td label persistent call st = Inr st'"
  shows "rt_attempt st' = Suc (rt_attempt st)" and "rt_req st' = rt_req st"
    and "asked (rt_trace st') = Suc (asked (rt_trace st))" and "waits (rt_trace st') = Suc (waits (rt_trace st))"
    and "\<not> persistent \<Longrightarrow> rt_attempt st' \<le> 3"
  using assms
  by (auto simp: retry_step_def Let_def retry_delays_def split: prod.splits if_splits)

lemma retry_step_Inl:
  assumes "retry_step td label persistent call st = Inl (r, ev, s')"
  shows "Suc (asked (rt_trace st)) \<le> asked ev" and "asked ev \<le> asked (rt_trace st) + 2"
    and "waits ev = waits (rt_trace st)"
    and "\<not> persistent \<Longrightarrow> gave_up (rt_req st) r \<Longrightarrow> 3 \<le> rt_attempt st"
  using assms
  by (auto simp: retry_step_def Let_def retry_delays_def gave_up_def is_error_def strip_image_content_inplace_def
           split: prod.splits if_splits)

lemma retry_loop_standard:
  assumes "rt_attempt st \<le> 3" and "asked (rt_trace st) = rt_attempt st" and "waits (rt_trace st) = rt_attempt st"
  shows "\<exists>r ev s'. retry_loop td label False call st = Some (r, ev, s')
           \<and> asked ev \<le> 5 \<and> waits ev \<le> 3 \<and> (gave_up (rt_req st) r \<longrightarrow> 4 \<le> asked ev)"
  using assms
proof (induction "3 - rt_attempt st" arbitrary: st rule: less_induct)
  case less
  show ?case
  proof (cases "retry_step td label False call st")
    case (Inl res)
    obtain r ev s' where "res = (r, ev, s')" by (cases res)
    with Inl retry_step_Inl [of td label False call st r ev s'] less.prems show ?thesis
      by (subst retry_loop.simps) auto
  next
    case (Inr st')
    note n = retry_step_Inr [OF Inr]
    have "3 - rt_attempt st' < 3 - rt_attempt st" using n by simp
    from less.hyps [OF this] show ?thesis
      using n less.prems Inr by (subst retry_loop.simps) simp
  qed
qed


definition demo_generation :: generation_settings where
  "demo_generation = \<lparr>gs_temperature = 0x3F333333, gs_max_tokens = 4096, gs_reasoning_effort = None\<rparr>"

definition demo_request :: chat_request where
  "demo_request =
     \<lparr>cr_messages = [], cr_tools = None, cr_model = None, cr_max_tokens = 0, cr_temperature = 0,
      cr_reasoning_effort = None, cr_tool_choice = None\<rparr>"


section \<open>Persistent retries\<close>

definition always_fails :: "'s chat_fun \<Rightarrow> llm_response \<Rightarrow> bool" where
  "always_fails call r \<longleftrightarrow>
     (\<forall>req s. fst (call req s) = r) \<and> is_error r \<and> is_transient_response r"

lemma always_fails_call:
  assumes "always_fails call r"
  obtains s1 where "call req s = (r, s1)"
  using assms by (metis always_fails_def prod.collapse)

lemma persistent_step:
  assumes "always_fails call r" and "error_key r \<noteq> []"
    and "count_identical (error_key r) (rt_last_error_key st) (rt_identical_count st) = (key, n)"
  shows "retry_step td label True call st =
     (let trace = rt_trace st @ [Asked (rt_req st)]; s1 = snd (call (rt_req st) (rt_provider st)) in
      if n \<ge> 10 then Inl (r, trace @ [Notice (''Persistent retry stopped after '' @ show_nat n @ '' identical errors.'')], s1)
      else Inr (st\<lparr>rt_attempt := rt_attempt st + 1, rt_last_error_key := key, rt_identical_count := n, rt_provider := s1,
                   rt_trace := trace @ [Waited (rt_attempt st + 1) (retry_delay td True (rt_attempt st + 1) r)]\<rparr>))"
proof -
  obtain s1 where "call (rt_req st) (rt_provider st) = (r, s1)" using assms(1) by (rule always_fails_call)
  then show ?thesis using assms by (simp add: retry_step_def always_fails_def is_error_def Let_def)
qed

lemma persistent_count:
  assumes "always_fails call r" and "error_key r \<noteq> []"
    and "rt_last_error_key st = Some (error_key r) \<or> rt_identical_count st = 0" and "rt_identical_count st < 10"
  shows "\<exists>ev s'. retry_loop td label True call st = Some (r, ev, s')
           \<and> asked ev + rt_identical_count st = asked (rt_trace st) + 10"
  using assms(3,4)
proof (induction "10 - rt_identical_count st" arbitrary: st rule: less_induct)
  case less
  let ?n = "rt_identical_count st"
  have "count_identical (error_key r) (rt_last_error_key st) ?n = (Some (error_key r), Suc ?n)"
    using less.prems assms(2) by (auto simp: count_identical_def)
  note st = persistent_step [OF assms(1,2) this, of td label, unfolded Let_def]
  show ?case
  proof (cases "10 \<le> Suc ?n")
    case True
    then have "?n = 9" using less.prems by simp
    then show ?thesis by (subst retry_loop.simps) (simp add: st)
  next
    case False
    let ?st = "st\<lparr>rt_attempt := rt_attempt st + 1, rt_last_error_key := Some (error_key r),
                  rt_identical_count := Suc ?n, rt_provider := snd (call (rt_req st) (rt_provider st)),
                  rt_trace := (rt_trace st @ [Asked (rt_req st)])
                     @ [Waited (rt_attempt st + 1) (retry_delay td True (rt_attempt st + 1) r)]\<rparr>"
    have "\<exists>ev s'. retry_loop td label True call ?st = Some (r, ev, s')
           \<and> asked ev + rt_identical_count ?st = asked (rt_trace ?st) + 10"
      by (rule less.hyps) (use False in auto)
    then obtain ev s' where "retry_loop td label True call ?st = Some (r, ev, s')"
      and "asked ev + ?n = asked (rt_trace st) + 10" by auto
    then show ?thesis using False by (subst retry_loop.simps) (simp add: st)
  qed
qed

text \<open>
  In the persistent mode an error that repeats with the same text ends the retries at
  its tenth occurrence.
\<close>

theorem persistent_retry_stops_on_identical_errors:
  assumes "always_fails chat r" and "error_key r \<noteq> []"
  shows "\<exists>ev s'. chat_with_retry td g chat req Persistent s = Some (r, ev, s') \<and> asked ev = 10"
  using persistent_count [OF assms, of "retry_start g req s" td "''request''"]
  by (simp add: chat_with_retry_def retry_start_def)

text \<open>
  In the persistent mode a provider that keeps failing with a transient error without a
  text (a gateway's empty 503, say) is asked for ever: such errors never count as identical.
\<close>

lemma blank_step:
  assumes "always_fails call r" and "error_key r = []"
  shows "\<exists>st'. retry_step td label True call st = Inr st'"
proof -
  obtain s1 where "call (rt_req st) (rt_provider st) = (r, s1)" using assms(1) by (rule always_fails_call)
  then show ?thesis using assms by (simp add: retry_step_def always_fails_def is_error_def count_identical_def Let_def)
qed


lemma blank_loop:
  assumes "retry_loop td label p call st = Some res"
  shows "p \<longrightarrow> \<not> (always_fails call r \<and> error_key r = [])"
proof (rule retry_loop.raw_induct [OF _ assms], intro impI notI)
  fix loop td label p call st res
  assume IH: "\<And>td label p call st res. loop td label p call st = Some res
      \<Longrightarrow> p \<longrightarrow> \<not> (always_fails call r \<and> error_key r = [])"
    and "(case retry_step td label p call st of Inl res \<Rightarrow> Some res | Inr st' \<Rightarrow> loop td label p call st') = Some res"
    and "p" and "always_fails call r \<and> error_key r = []"
  moreover from this obtain st' where "retry_step td label p call st = Inr st'"
    using blank_step [of call r td label st] by auto
  ultimately show False using IH [of td label p call st' res] by simp
qed

theorem persistent_retry_may_not_end:
  assumes "always_fails chat r" and "error_key r = []"
  shows "chat_with_retry td g chat req Persistent s = None"
  using assms blank_loop [of td "''request''" True chat "retry_start g req s"]
  by (cases "chat_with_retry td g chat req Persistent s") (auto simp: chat_with_retry_def)

definition gateway_error :: llm_response where
  "gateway_error = response_default\<lparr>lr_finish_reason := ''error'', lr_error_status_code := Some 503\<rparr>"

lemma always_fails_const: "is_error r \<Longrightarrow> is_transient_response r \<Longrightarrow> always_fails (\<lambda>req s. (r, Suc s)) r"
  by (simp add: always_fails_def)

theorem persistent_retry_may_not_end_witness:
  "chat_with_retry (\<lambda>_. None) demo_generation (\<lambda>req n. (gateway_error, Suc n)) demo_request Persistent 0 = None"
proof (rule persistent_retry_may_not_end)
  show "always_fails (\<lambda>req n. (gateway_error, Suc n)) gateway_error"
    by (rule always_fails_const)
       (simp_all add: gateway_error_def response_default_def is_error_def is_transient_response_def Let_def)
  show "error_key gateway_error = []"
    by (simp add: error_key_def gateway_error_def response_default_def to_ascii_lowercase_def plain_def)
qed

theorem persistent_retry_stops_on_identical_errors_witness:
  "\<exists>ev s'. chat_with_retry (\<lambda>_. None) demo_generation (\<lambda>req n. (gateway_error\<lparr>lr_content := Some ''503''\<rparr>, Suc n)) demo_request Persistent 0
     = Some (gateway_error\<lparr>lr_content := Some ''503''\<rparr>, ev, s') \<and> asked ev = 10"
proof (rule persistent_retry_stops_on_identical_errors)
  show "always_fails (\<lambda>req n. (gateway_error\<lparr>lr_content := Some ''503''\<rparr>, Suc n)) (gateway_error\<lparr>lr_content := Some ''503''\<rparr>)"
    by (rule always_fails_const)
       (simp_all add: gateway_error_def response_default_def is_error_def is_transient_response_def Let_def)
  show "error_key (gateway_error\<lparr>lr_content := Some ''503''\<rparr>) \<noteq> []"
    by (simp add: error_key_def gateway_error_def response_default_def to_ascii_lowercase_def plain_def byte_def)
qed

end
