(* ===== verification/Llm_Fallback.thy ===== *)
theory Llm_Fallback
  imports Llm_Retry
begin

text \<open>
  Failover between models: the fallback provider with its circuit breaker
  (crates/providers/src/fallback_provider.rs) and the registry of presets that builds it
  (crates/hiveweb/src/runtime/llm.rs). A streaming call returns the response and the deltas it
  passed to the callback; a plain call is one that passes none. Instants are nanoseconds; a call
  reads the clock when it starts (\<open>now0\<close>) and after the primary model failed (\<open>now1\<close>). Calls run
  one at a time.
\<close>

section \<open>The fallback provider\<close>

datatype stream_delta = TextDelta string | ToolDelta jmap

type_synonym 's stream_fun = "chat_request \<Rightarrow> 's \<Rightarrow> llm_response \<times> stream_delta list \<times> 's"

text \<open>The provider's default \<^verbatim>\<open>chat_stream\<close>: the whole content as one delta.\<close>

definition default_chat_stream :: "'s chat_fun \<Rightarrow> 's stream_fun" where
  "default_chat_stream chat req s =
     (case chat req s of
        (r, s') \<Rightarrow>
          (r, case lr_content r of Some text \<Rightarrow> if text \<noteq> [] then [TextDelta text] else [] | None \<Rightarrow> [], s'))"

fun shows_content :: "stream_delta \<Rightarrow> bool" where
  "shows_content (TextDelta text) = (text \<noteq> [])"
| "shows_content (ToolDelta d) = True"

definition has_streamed :: "stream_delta list \<Rightarrow> bool" where
  "has_streamed ds \<longleftrightarrow> list_ex shows_content ds"

record fallback_preset =
  fp_model :: string
  fp_max_tokens :: nat
  fp_temperature :: "32 word"
  fp_reasoning_effort :: "string option"

record fallback_state =
  fs_primary_failures :: "32 word"
  fs_primary_tripped_at :: "nat option"

record 's fallback_provider =
  fb_primary :: "'s stream_fun"
  fb_default_model :: string
  fb_presets :: "fallback_preset list"
  fb_factory :: "fallback_preset \<Rightarrow> 's stream_fun"

definition fallback_state_new :: fallback_state where
  "fallback_state_new = \<lparr>fs_primary_failures = 0, fs_primary_tripped_at = None\<rparr>"

definition primary_failure_threshold :: "32 word" where
  "primary_failure_threshold = 3"

definition primary_cooldown :: nat where
  "primary_cooldown = 60 * 10 ^ 9"

definition primary_available :: "nat \<Rightarrow> fallback_state \<Rightarrow> bool" where
  "primary_available now st =
     (case fs_primary_tripped_at st of None \<Rightarrow> True | Some t \<Rightarrow> now - t \<ge> primary_cooldown)"

definition fallback_error_kinds :: "string list" where
  "fallback_error_kinds = [''timeout'', ''connection'', ''server_error'', ''rate_limit'', ''overloaded'']"

definition non_fallback_error_kinds :: "string list" where
  "non_fallback_error_kinds =
     [''authentication'', ''auth'', ''permission'', ''content_filter'', ''refusal'', ''context_length'', ''invalid_request'']"

definition fallback_error_tokens :: "string list" where
  "fallback_error_tokens =
     [''rate_limit'', ''rate limit'', ''too_many_requests'', ''too many requests'', ''overloaded'',
      ''server_error'', ''server error'', ''temporarily unavailable'', ''timeout'', ''timed out'', ''connection'',
      ''insufficient_quota'', ''insufficient quota'', ''quota_exceeded'', ''quota exceeded'', ''quota_exhausted'',
      ''quota exhausted'', ''billing_hard_limit'', ''insufficient_balance'', ''balance'', ''out of credits'']"

definition should_fallback :: "llm_response \<Rightarrow> bool" where
  "should_fallback r =
     (let low = (\<lambda>f. to_lowercase (case f r of Some s \<Rightarrow> s | None \<Rightarrow> []));
          kind = low lr_error_kind; error_type = low lr_error_type; code = low lr_error_code; text = low lr_content
      in if lr_error_should_retry r = Some False then False
         else if (case lr_error_status_code r of Some s \<Rightarrow> s \<in> {400, 401, 403, 404, 422} | None \<Rightarrow> False) then False
         else if kind \<in> set non_fallback_error_kinds then False
         else if list_ex (\<lambda>v. list_ex (\<lambda>t. str_contains t v) non_fallback_error_kinds) [kind, error_type, code] then False
         else if lr_error_should_retry r = Some True then True
         else if (case lr_error_status_code r of
                    Some s \<Rightarrow> s \<in> {408, 409, 429} \<or> (500 \<le> s \<and> s \<le> 599) | None \<Rightarrow> False) then True
         else if kind \<in> set fallback_error_kinds then True
         else list_ex (\<lambda>v. list_ex (\<lambda>t. str_contains t v) fallback_error_tokens) [kind, error_type, code, text])"

definition fallback_request :: "fallback_preset \<Rightarrow> chat_request \<Rightarrow> chat_request" where
  "fallback_request p req =
     req\<lparr>cr_model := Some (fp_model p), cr_max_tokens := fp_max_tokens p, cr_temperature := fp_temperature p,
         cr_reasoning_effort := fp_reasoning_effort p\<rparr>"

text \<open>
  The result of a call carries the log of the providers that were asked: who, the answer and
  the deltas it passed on.
\<close>

datatype callee = Primary | Fallback fallback_preset

type_synonym call_log = "(callee \<times> llm_response \<times> stream_delta list) list"

fun try_fallbacks ::
    "(fallback_preset \<Rightarrow> 's stream_fun) \<Rightarrow> chat_request \<Rightarrow> fallback_preset list \<Rightarrow> bool \<Rightarrow> llm_response option
       \<Rightarrow> 's \<Rightarrow> llm_response option \<times> call_log \<times> 's" where
  "try_fallbacks factory req [] streamed last_response s = (last_response, [], s)"
| "try_fallbacks factory req (p # ps) streamed last_response s =
     (if streamed then (last_response, [], s)
      else case factory p (fallback_request p req) s of
             (r, ds, s1) \<Rightarrow>
               if lr_finish_reason r \<noteq> ''error'' then (Some r, [(Fallback p, r, ds)], s1)
               else case try_fallbacks factory req ps (has_streamed ds) (Some r) s1 of
                      (res, log, s2) \<Rightarrow> (res, (Fallback p, r, ds) # log, s2))"

definition run_fallbacks ::
    "'s fallback_provider \<Rightarrow> chat_request \<Rightarrow> 's \<Rightarrow> llm_response \<times> call_log \<times> 's" where
  "run_fallbacks F req s =
     (case try_fallbacks (fb_factory F) req (fb_presets F) False None s of
        (Some r, log, s') \<Rightarrow> (r, log, s')
      | (None, log, s') \<Rightarrow>
          (response_default\<lparr>lr_finish_reason := ''error'', lr_content :=
             Some (''Primary model '' @ [CHR 0x27] @ (case cr_model req of Some m \<Rightarrow> m | None \<Rightarrow> fb_default_model F)
                   @ [CHR 0x27] @ '' circuit open and no fallbacks available'')\<rparr>, log, s'))"

definition try_with_fallback_stream ::
    "'s fallback_provider \<Rightarrow> nat \<Rightarrow> nat \<Rightarrow> chat_request \<Rightarrow> fallback_state \<Rightarrow> 's
       \<Rightarrow> llm_response \<times> call_log \<times> fallback_state \<times> 's" where
  "try_with_fallback_stream F now0 now1 req st s =
     (if primary_available now0 st
      then (case fb_primary F req s of
              (r, ds, s1) \<Rightarrow>
                if lr_finish_reason r \<noteq> ''error''
                then (r, [(Primary, r, ds)], st\<lparr>fs_primary_failures := 0, fs_primary_tripped_at := None\<rparr>, s1)
                else if has_streamed ds then (r, [(Primary, r, ds)], st, s1)
                else if \<not> should_fallback r then (r, [(Primary, r, ds)], st, s1)
                else let failures = fs_primary_failures st + 1;
                         st1 = st\<lparr>fs_primary_failures := failures,
                                  fs_primary_tripped_at :=
                                    (if failures \<ge> primary_failure_threshold then Some now1
                                     else fs_primary_tripped_at st)\<rparr>
                     in case run_fallbacks F req s1 of (res, log, s2) \<Rightarrow> (res, (Primary, r, ds) # log, st1, s2))
      else case run_fallbacks F req s of (res, log, s2) \<Rightarrow> (res, log, st, s2))"

text \<open>The two entry points, \<^verbatim>\<open>chat_stream\<close> and \<^verbatim>\<open>chat\<close>.\<close>

definition fallback_chat_stream ::
    "'s fallback_provider \<Rightarrow> nat \<Rightarrow> nat \<Rightarrow> chat_request \<Rightarrow> fallback_state \<Rightarrow> 's
       \<Rightarrow> llm_response \<times> call_log \<times> fallback_state \<times> 's" where
  "fallback_chat_stream F now0 now1 req st s =
     (if fb_presets F = []
      then (case fb_primary F req s of (r, ds, s1) \<Rightarrow> (r, [(Primary, r, ds)], st, s1))
      else try_with_fallback_stream F now0 now1 req st s)"

definition silent :: "'s chat_fun \<Rightarrow> 's stream_fun" where
  "silent chat req s = (case chat req s of (r, s') \<Rightarrow> (r, [], s'))"

definition fallback_chat ::
    "'s chat_fun \<Rightarrow> string \<Rightarrow> fallback_preset list \<Rightarrow> (fallback_preset \<Rightarrow> 's chat_fun) \<Rightarrow> nat \<Rightarrow> nat
       \<Rightarrow> chat_request \<Rightarrow> fallback_state \<Rightarrow> 's \<Rightarrow> llm_response \<times> call_log \<times> fallback_state \<times> 's" where
  "fallback_chat primary model presets factory now0 now1 req st s =
     fallback_chat_stream
       \<lparr>fb_primary = silent primary, fb_default_model = model, fb_presets = presets,
        fb_factory = (\<lambda>p. silent (factory p))\<rparr> now0 now1 req st s"

section \<open>What a call returns\<close>

text \<open>
  A log is sound when every answer but the last is an error that showed nothing to the caller,
  and the last one is the answer returned.
\<close>

definition quiet_failure :: "callee \<times> llm_response \<times> stream_delta list \<Rightarrow> bool" where
  "quiet_failure e \<longleftrightarrow> is_error (fst (snd e)) \<and> \<not> has_streamed (snd (snd e))"

definition answers_last :: "call_log \<Rightarrow> llm_response \<Rightarrow> bool" where
  "answers_last log r \<longleftrightarrow> log \<noteq> [] \<and> fst (snd (last log)) = r \<and> (\<forall>e \<in> set (butlast log). quiet_failure e)"

lemma try_fallbacks_log:
  assumes "try_fallbacks factory req ps False lst s = (res, log, s')" and "ps \<noteq> []"
  shows "\<exists>r. res = Some r \<and> answers_last log r
           \<and> (\<exists>tried rest. ps = tried @ rest \<and> map fst log = map Fallback tried
                \<and> (rest = [] \<or> \<not> quiet_failure (last log)))"
  using assms
proof (induction ps arbitrary: lst s res log s')
  case (Cons p ps)
  obtain r ds s1 where f: "factory p (fallback_request p req) s = (r, ds, s1)" by (metis prod.exhaust)
  show ?case
  proof (cases "lr_finish_reason r \<noteq> ''error'' \<or> has_streamed ds \<or> ps = []")
    case True
    have "res = Some r \<and> log = [(Fallback p, r, ds)]"
      using True Cons.prems f by (cases ps) (auto split: if_splits prod.splits)
    moreover have "ps = [] \<or> \<not> quiet_failure (Fallback p, r, ds)"
      using True by (auto simp: quiet_failure_def is_error_def)
    ultimately show ?thesis
      by (intro exI [of _ r] conjI exI [of _ "[p]"] exI [of _ ps]) (auto simp: answers_last_def)
  next
    case False
    then obtain log1 where t: "try_fallbacks factory req ps False (Some r) s1 = (res, log1, s')"
      and log: "log = (Fallback p, r, ds) # log1"
      using Cons.prems(1) f by (auto split: prod.splits)
    from Cons.IH [OF t] False obtain r1 tried rest where
      "res = Some r1" "answers_last log1 r1" "ps = tried @ rest" "map fst log1 = map Fallback tried"
      "rest = [] \<or> \<not> quiet_failure (last log1)" by blast
    moreover have "quiet_failure (Fallback p, r, ds)" using False by (auto simp: quiet_failure_def is_error_def)
    ultimately show ?thesis
      unfolding log
      by (intro exI [of _ r1] conjI exI [of _ "p # tried"] exI [of _ rest]) (auto simp: answers_last_def)
  qed
qed simp

lemma run_fallbacks_log:
  assumes "fb_presets F \<noteq> []" and "run_fallbacks F req s = (r, log, s')"
  shows "answers_last log r
     \<and> (\<exists>tried rest. fb_presets F = tried @ rest \<and> map fst log = map Fallback tried
          \<and> (rest = [] \<or> \<not> quiet_failure (last log)))"
proof -
  obtain res where t: "try_fallbacks (fb_factory F) req (fb_presets F) False None s = (res, log, s')"
    using assms(2) by (auto simp: run_fallbacks_def split: prod.splits option.splits)
  from try_fallbacks_log [OF t assms(1)] show ?thesis
    using assms(2) t by (auto simp: run_fallbacks_def)
qed

text \<open>
  (C15) A call with fallback models returns the answer of the last provider it asked. The
  providers are asked in order: the primary model unless its circuit is open, then the
  fallbacks. The next one is asked only when the previous one failed without showing anything
  to the caller, so the caller never sees the output of two models; and the call ends with an
  error only when no model is left, something was shown, or the primary model's error
  is not one to fall back on.
\<close>

theorem fallback_asks_in_order:
  assumes "fb_presets F \<noteq> []"
    and "fallback_chat_stream F now0 now1 req st s = (r, log, st', s')"
  shows "answers_last log r
     \<and> (\<exists>tried rest. (if primary_available now0 st then [Primary] else []) @ map Fallback (fb_presets F) = tried @ rest
          \<and> map fst log = tried
          \<and> (is_error r \<longrightarrow> rest = [] \<or> has_streamed (snd (snd (last log)))
                          \<or> (tried = [Primary] \<and> \<not> should_fallback r)))"
proof (cases "primary_available now0 st")
  case True
  obtain p ds s1 where f: "fb_primary F req s = (p, ds, s1)" by (metis prod.exhaust)
  show ?thesis
  proof (cases "lr_finish_reason p \<noteq> ''error'' \<or> has_streamed ds \<or> \<not> should_fallback p")
    case single: True
    have "r = p \<and> log = [(Primary, p, ds)]"
      using single assms True f
      by (auto simp: fallback_chat_stream_def try_with_fallback_stream_def split: if_splits prod.splits)
    then show ?thesis using single True
      by (intro conjI exI [of _ "[Primary]"] exI [of _ "map Fallback (fb_presets F)"])
         (auto simp: answers_last_def is_error_def)
  next
    case False
    then obtain log1 where t: "run_fallbacks F req s1 = (r, log1, s')" and log: "log = (Primary, p, ds) # log1"
      using assms True f
      by (auto simp: fallback_chat_stream_def try_with_fallback_stream_def Let_def split: prod.splits)
    obtain tried rest where "answers_last log1 r" "fb_presets F = tried @ rest" "map fst log1 = map Fallback tried"
      "rest = [] \<or> \<not> quiet_failure (last log1)" using run_fallbacks_log [OF assms(1) t] by blast
    moreover have "quiet_failure (Primary, p, ds)" using False by (auto simp: quiet_failure_def is_error_def)
    ultimately show ?thesis
      unfolding log using True
      by (intro conjI exI [of _ "Primary # map Fallback tried"] exI [of _ "map Fallback rest"])
         (auto simp: answers_last_def quiet_failure_def)
  qed
next
  case False
  have "run_fallbacks F req s = (r, log, s')"
    using assms False by (auto simp: fallback_chat_stream_def try_with_fallback_stream_def split: prod.splits)
  then obtain tried rest where "answers_last log r" "fb_presets F = tried @ rest" "map fst log = map Fallback tried"
      "rest = [] \<or> \<not> quiet_failure (last log)" using run_fallbacks_log [OF assms(1)] by blast
  then show ?thesis using False
    by (intro conjI exI [of _ "map Fallback tried"] exI [of _ "map Fallback rest"])
       (auto simp: answers_last_def quiet_failure_def)
qed

definition echo_provider :: "llm_response \<Rightarrow> nat stream_fun" where
  "echo_provider r req n = (r, [], Suc n)"

definition demo_preset :: fallback_preset where
  "demo_preset = \<lparr>fp_model = ''m2'', fp_max_tokens = 10, fp_temperature = 0, fp_reasoning_effort = None\<rparr>"

definition demo_provider :: "nat fallback_provider" where
  "demo_provider =
     \<lparr>fb_primary = echo_provider (response_error ''timeout''), fb_default_model = ''m1'', fb_presets = [demo_preset],
      fb_factory = (\<lambda>p. echo_provider response_default)\<rparr>"

theorem fallback_asks_in_order_witness:
  "case fallback_chat_stream demo_provider 0 0 demo_request fallback_state_new 0 of
     (r, log, st', s') \<Rightarrow> answers_last log r"
proof -
  obtain r log st' s' where r: "fallback_chat_stream demo_provider 0 0 demo_request fallback_state_new 0 = (r, log, st', s')"
    by (metis prod.exhaust)
  have "fb_presets demo_provider \<noteq> []" by (simp add: demo_provider_def)
  from fallback_asks_in_order [OF this r] show ?thesis unfolding r by simp
qed

section \<open>The circuit breaker\<close>

text \<open>
  The state of the breaker together with the number of calls made so far (the counter is an
  \<^verbatim>\<open>AtomicU32\<close>; the theorem is about runs in which it does not wrap).
\<close>

type_synonym breaker = "nat \<times> fallback_state"

inductive breaker_step :: "'s fallback_provider \<Rightarrow> breaker \<Rightarrow> breaker \<Rightarrow> bool" for F where
  "Suc n < 2 ^ 32 \<Longrightarrow> fallback_chat_stream F now0 now1 req st s = (r, log, st', s')
     \<Longrightarrow> breaker_step F (n, st) (Suc n, st')"

definition breaker_init :: "breaker \<Rightarrow> bool" where
  "breaker_init b \<longleftrightarrow> b = (0, fallback_state_new)"

definition breaker_inv :: "breaker \<Rightarrow> bool" where
  "breaker_inv b \<longleftrightarrow>
     fst b < 2 ^ 32 \<and> unat (fs_primary_failures (snd b)) \<le> fst b
     \<and> (fs_primary_tripped_at (snd b) \<noteq> None \<longleftrightarrow> 3 \<le> unat (fs_primary_failures (snd b)))"

text \<open>The four ways a call changes the breaker.\<close>

lemma fallback_state_cases:
  assumes "fallback_chat_stream F now0 now1 req st s = (r, log, st', s')"
  shows "st' = st \<or> st' = st\<lparr>fs_primary_failures := 0, fs_primary_tripped_at := None\<rparr>
    \<or> st' = st\<lparr>fs_primary_failures := fs_primary_failures st + 1,
               fs_primary_tripped_at := (if 3 \<le> fs_primary_failures st + 1 then Some now1 else fs_primary_tripped_at st)\<rparr>"
  using assms
  by (auto simp: fallback_chat_stream_def try_with_fallback_stream_def primary_failure_threshold_def Let_def
           split: if_splits prod.splits)

lemma unat_inc: "unat (w :: 32 word) \<le> n \<Longrightarrow> Suc n < 2 ^ 32 \<Longrightarrow> unat (w + 1) = Suc (unat w)"
proof -
  assume "unat w \<le> n" "Suc n < 2 ^ 32"
  then have "unat w + 1 < 2 ^ LENGTH(32)" by simp
  then show ?thesis by (simp add: unat_word_ariths)
qed

interpretation breaker: invariant_system breaker_init "breaker_step F" breaker_inv for F :: "'s fallback_provider"
proof
  show "breaker_inv b" if "breaker_init b" for b
    using that by (simp add: breaker_init_def breaker_inv_def fallback_state_new_def)
next
  fix b b' assume inv: "breaker_inv b" and step: "breaker_step F b b'"
  from step show "breaker_inv b'"
  proof (cases rule: breaker_step.cases)
    case (1 n now0 now1 req st s r log st' s')
    have u: "unat (fs_primary_failures st + 1) = Suc (unat (fs_primary_failures st))"
      using inv 1 by (intro unat_inc [of _ n]) (auto simp: breaker_inv_def)
    have "(3 \<le> fs_primary_failures st + 1) = (3 \<le> Suc (unat (fs_primary_failures st)))"
      using u by (simp add: word_le_nat_alt)
    with u inv 1 fallback_state_cases [OF 1(4)] show ?thesis
      by (auto simp: breaker_inv_def)
  qed
qed

text \<open>
  The circuit breaker: over any run of calls the circuit of the primary model is open
  or cooling down exactly when three fall-back failures happened since its last success, and
  while it is open (less than a minute after the last of them) a call does not ask the primary
  model at all and leaves the breaker as it is.
\<close>

theorem open_circuit_spares_primary:
  assumes "reach breaker_init (breaker_step F) (n, st)"
    and "fb_presets F \<noteq> []"
    and "fallback_chat_stream F now0 now1 req st s = (r, log, st', s')"
  shows "(fs_primary_tripped_at st \<noteq> None \<longleftrightarrow> 3 \<le> unat (fs_primary_failures st))
     \<and> (case fs_primary_tripped_at st of
          Some t \<Rightarrow> (now0 - t < primary_cooldown \<longrightarrow> Primary \<notin> set (map fst log) \<and> st' = st)
        | None \<Rightarrow> Primary \<in> set (map fst log))"
proof -
  have "fs_primary_tripped_at st \<noteq> None \<longleftrightarrow> 3 \<le> unat (fs_primary_failures st)"
    using breaker.inv_reach [OF assms(1)] by (simp add: breaker_inv_def)
  moreover have "Primary \<notin> set (map fst log) \<and> st' = st" if c: "\<not> primary_available now0 st"
  proof -
    have t: "run_fallbacks F req s = (r, log, s')" "st' = st"
      using assms(2,3) c by (auto simp: fallback_chat_stream_def try_with_fallback_stream_def split: prod.splits)
    moreover obtain tried where "map fst log = map Fallback tried"
      using run_fallbacks_log [OF assms(2) t(1)] by blast
    ultimately show ?thesis by (simp only: set_map) auto
  qed
  moreover have "Primary \<in> set (map fst log)" if "primary_available now0 st"
    using assms(2,3) that
    by (auto simp: fallback_chat_stream_def try_with_fallback_stream_def Let_def split: prod.splits if_splits)
  ultimately show ?thesis
    by (auto simp: primary_available_def split: option.splits)
qed

theorem open_circuit_spares_primary_witness:
  "case fallback_chat_stream demo_provider 0 0 demo_request fallback_state_new 0 of
     (r, log, st', s') \<Rightarrow> Primary \<in> set (map fst log)"
proof -
  obtain r log st' s' where r: "fallback_chat_stream demo_provider 0 0 demo_request fallback_state_new 0 = (r, log, st', s')"
    by (metis prod.exhaust)
  have i: "reach breaker_init (breaker_step demo_provider) (0, fallback_state_new)" by (rule reach_init) (simp add: breaker_init_def)
  have "fb_presets demo_provider \<noteq> []" by (simp add: demo_provider_def)
  from open_circuit_spares_primary [OF i this r] show ?thesis
    unfolding r by (simp add: fallback_state_new_def)
qed

end
