(* ===== verification/Llm_Registry.thy ===== *)
theory Llm_Registry
  imports Llm_Fallback "HOL-Library.List_Lexorder" "HOL-Library.Char_ord"
begin

text \<open>
  The registry of model presets and the providers built from it
  (crates/hiveweb/src/runtime/llm.rs). Arguments: the file (whether it exists, its text), the
  toml parser, the environment and \<^verbatim>\<open>providers::build_provider\<close>. \<open>'pr\<close> is a provider.
\<close>

section \<open>Presets\<close>

record provider_config =
  pv_kind :: string
  pv_model :: "string option"
  pv_base_url :: "string option"
  pv_api_key_env :: "string option"

record preset_raw =
  raw_name :: string
  raw_description :: string
  raw_default :: bool
  raw_providers :: "provider_config list"
  raw_max_tokens :: nat
  raw_temperature :: "32 word"

record preset_entry =
  pe_name :: string
  pe_description :: string
  pe_is_default :: bool
  pe_providers_raw :: "provider_config list"
  pe_max_tokens :: nat
  pe_temperature :: "32 word"

record llm_registry =
  reg_presets :: "preset_entry list"
  reg_default_name :: "string option"

datatype llm_adapter_error =
    NoDefault
  | MultipleDefaults "string list"
  | ReadFailed string
  | TomlError string
  | NoProviders string
  | UnknownKind string
  | ProviderBuild string
  | UnknownPreset string

definition registry_new :: llm_registry where
  "registry_new = \<lparr>reg_presets = [], reg_default_name = None\<rparr>"

definition preset_of_raw :: "preset_raw \<Rightarrow> preset_entry" where
  "preset_of_raw raw =
     \<lparr>pe_name = raw_name raw, pe_description = raw_description raw, pe_is_default = raw_default raw,
      pe_providers_raw = raw_providers raw, pe_max_tokens = raw_max_tokens raw,
      pe_temperature = raw_temperature raw\<rparr>"

definition load_from_path ::
    "bool \<Rightarrow> string + string \<Rightarrow> (string \<Rightarrow> string + preset_raw list) \<Rightarrow> llm_adapter_error + llm_registry" where
  "load_from_path path_exists content toml =
     (if \<not> path_exists then Inr registry_new
      else case content of
             Inl e \<Rightarrow> Inl (ReadFailed e)
           | Inr text \<Rightarrow>
               (case toml text of
                  Inl e \<Rightarrow> Inl (TomlError e)
                | Inr raws \<Rightarrow>
                    let presets = fold (\<lambda>raw. upsert pe_name (preset_of_raw raw)) raws [];
                        defaults = map raw_name (filter raw_default raws)
                    in case defaults of
                         [] \<Rightarrow> Inl NoDefault
                       | [d] \<Rightarrow> Inr \<lparr>reg_presets = presets, reg_default_name = Some d\<rparr>
                       | _ \<Rightarrow> Inl (MultipleDefaults defaults)))"

definition resolve :: "llm_registry \<Rightarrow> string option \<Rightarrow> llm_adapter_error + preset_entry" where
  "resolve R preset =
     (case (case preset of Some n \<Rightarrow> Some n | None \<Rightarrow> reg_default_name R) of
        None \<Rightarrow> Inl NoDefault
      | Some name \<Rightarrow>
          (case find_key pe_name (reg_presets R) name of
             Some e \<Rightarrow> Inr e
           | None \<Rightarrow> Inl (UnknownPreset name)))"

definition presets_snapshot :: "llm_registry \<Rightarrow> preset_entry list" where
  "presets_snapshot R = sort_key pe_name (reg_presets R)"

definition resolve_config :: "llm_registry \<Rightarrow> string option \<Rightarrow> nat \<times> 32 word" where
  "resolve_config R preset =
     (case resolve R preset of Inr e \<Rightarrow> (pe_max_tokens e, pe_temperature e) | Inl _ \<Rightarrow> (2048, 0x3F333333))"

section \<open>Providers\<close>

datatype backend = Anthropic | AzureOpenAI | Bedrock | GitHubCopilot | OpenAICodex | OpenAICompat

record provider_build_config =
  bc_model :: string
  bc_api_key :: "string option"
  bc_api_base :: "string option"

record 'pr build_env =
  be_var :: "string \<Rightarrow> string option"
  be_build :: "backend \<Rightarrow> provider_build_config \<Rightarrow> string + 'pr"

definition backend_of_kind :: "string \<Rightarrow> backend option" where
  "backend_of_kind k =
     (if k = ''anthropic'' then Some Anthropic
      else if k = ''azure_openai'' then Some AzureOpenAI
      else if k = ''bedrock'' then Some Bedrock
      else if k = ''github_copilot'' then Some GitHubCopilot
      else if k = ''openai_codex'' then Some OpenAICodex
      else if k = ''openai_compat'' \<or> k = ''openai'' then Some OpenAICompat
      else None)"

text \<open>An \<^verbatim>\<open>api_key_env\<close> that names no variable is taken as the key itself.\<close>

definition api_key_of :: "'pr build_env \<Rightarrow> provider_config \<Rightarrow> string option" where
  "api_key_of E cfg =
     (case pv_api_key_env cfg of
        None \<Rightarrow> None
      | Some val \<Rightarrow>
          (case be_var E val of Some key \<Rightarrow> Some key | None \<Rightarrow> if val \<noteq> [] then Some val else None))"

definition model_or_empty :: "provider_config \<Rightarrow> string" where
  "model_or_empty cfg = (case pv_model cfg of Some m \<Rightarrow> m | None \<Rightarrow> [])"

definition build_one :: "'pr build_env \<Rightarrow> provider_config \<Rightarrow> llm_adapter_error + 'pr" where
  "build_one E cfg =
     (case backend_of_kind (pv_kind cfg) of
        None \<Rightarrow> Inl (UnknownKind (pv_kind cfg))
      | Some b \<Rightarrow>
          (case be_build E b \<lparr>bc_model = model_or_empty cfg, bc_api_key = api_key_of E cfg, bc_api_base = pv_base_url cfg\<rparr> of
             Inl e \<Rightarrow> Inl (ProviderBuild e)
           | Inr p \<Rightarrow> Inr p))"

definition build_primary :: "'pr build_env \<Rightarrow> llm_registry \<Rightarrow> string option \<Rightarrow> llm_adapter_error + ('pr \<times> string)" where
  "build_primary E R preset_name =
     (case resolve R preset_name of
        Inl e \<Rightarrow> Inl e
      | Inr entry \<Rightarrow>
          (case pe_providers_raw entry of
             [] \<Rightarrow> Inl (NoProviders (pe_name entry))
           | first # _ \<Rightarrow>
               (case build_one E first of Inl e \<Rightarrow> Inl e | Inr p \<Rightarrow> Inr (p, model_or_empty first))))"

text \<open>
  The chain: the fallback entries become presets that carry only the model name, and the factory
  finds the configuration again by that name. \<open>Noop\<close> stands for the provider that always fails.
\<close>

datatype 'pr chained = Direct 'pr | Chain 'pr "fallback_preset list" "fallback_preset \<Rightarrow> 'pr option"

definition chain_preset :: "provider_config \<Rightarrow> fallback_preset" where
  "chain_preset cfg =
     \<lparr>fp_model = model_or_empty cfg, fp_max_tokens = 2048, fp_temperature = 0x3F333333, fp_reasoning_effort = None\<rparr>"

definition chain_factory :: "'pr build_env \<Rightarrow> provider_config list \<Rightarrow> fallback_preset \<Rightarrow> 'pr option" where
  "chain_factory E cfgs fp =
     (let cfg = (case find (\<lambda>c. pv_model c = Some (fp_model fp)) cfgs of
                   Some c \<Rightarrow> c
                 | None \<Rightarrow> \<lparr>pv_kind = ''openai_compat'', pv_model = Some (fp_model fp), pv_base_url = None,
                           pv_api_key_env = None\<rparr>)
      in case build_one E cfg of Inr p \<Rightarrow> Some p | Inl _ \<Rightarrow> None)"

definition build_chain :: "'pr build_env \<Rightarrow> llm_registry \<Rightarrow> string option \<Rightarrow> llm_adapter_error + ('pr chained \<times> string)" where
  "build_chain E R preset_name =
     (case resolve R preset_name of
        Inl e \<Rightarrow> Inl e
      | Inr entry \<Rightarrow>
          (case pe_providers_raw entry of
             [] \<Rightarrow> Inl (NoProviders (pe_name entry))
           | first # fallbacks \<Rightarrow>
               (case build_one E first of
                  Inl e \<Rightarrow> Inl e
                | Inr primary \<Rightarrow>
                    if fallbacks = [] then Inr (Direct primary, model_or_empty first)
                    else Inr (Chain primary (map chain_preset fallbacks) (chain_factory E fallbacks), model_or_empty first))))"

section \<open>Properties\<close>

lemma preset_of_raw_name [simp]: "pe_name (preset_of_raw raw) = raw_name raw"
  by (simp add: preset_of_raw_def)

lemma presets_find:
  "find_key pe_name (fold (\<lambda>raw. upsert pe_name (preset_of_raw raw)) raws ps) k =
     (case find_key raw_name (rev raws) k of Some raw \<Rightarrow> Some (preset_of_raw raw) | None \<Rightarrow> find_key pe_name ps k)"
proof (induction raws arbitrary: ps)
  case (Cons r raws)
  show ?case by (simp add: Cons find_key_upsert find_key_append split: option.split)
qed simp

text \<open>
  A preset file that loads declares exactly one default preset, that preset
  resolves, and so does every preset by its name, with the last declaration of that name.
\<close>

theorem loaded_registry_resolves:
  assumes "load_from_path True (Inr text) toml = Inr R"
  shows "\<exists>raws d. toml text = Inr raws \<and> map raw_name (filter raw_default raws) = [d]
     \<and> resolve R None = resolve R (Some d)
     \<and> (\<forall>raw \<in> set raws. \<exists>e. resolve R (Some (raw_name raw)) = Inr e \<and> pe_name e = raw_name raw)
     \<and> is_ok (case resolve R None of Inr e \<Rightarrow> Ok e | Inl e \<Rightarrow> Err e)"
proof -
  obtain raws d where r: "toml text = Inr raws" "map raw_name (filter raw_default raws) = [d]"
    and R: "R = \<lparr>reg_presets = fold (\<lambda>raw. upsert pe_name (preset_of_raw raw)) raws [], reg_default_name = Some d\<rparr>"
    using assms by (auto simp: load_from_path_def Let_def split: sum.splits list.splits)
  have found: "\<exists>e. resolve R (Some (raw_name raw)) = Inr e \<and> pe_name e = raw_name raw" if "raw \<in> set raws" for raw
  proof -
    obtain raw' where "find_key raw_name (rev raws) (raw_name raw) = Some raw'"
      using \<open>raw \<in> set raws\<close> find_key_None_iff [of raw_name "rev raws" "raw_name raw"]
      by (cases "find_key raw_name (rev raws) (raw_name raw)") auto
    moreover from this have "raw_name raw' = raw_name raw" using find_key_SomeD by fastforce
    ultimately show ?thesis by (simp add: R resolve_def presets_find)
  qed
  have "d \<in> set (map raw_name (filter raw_default raws))" by (simp add: r(2))
  then obtain raw where "raw \<in> set raws" "raw_name raw = d" by auto
  moreover have "resolve R None = resolve R (Some d)" by (simp add: resolve_def R)
  ultimately show ?thesis using r found by fastforce
qed

text \<open>
  Two fallback providers that serve the same model are confused: whatever the second
  one's kind, address and key are, the factory builds the first one again.
\<close>

theorem chain_confuses_providers:
  assumes "build_chain E R preset = Inr (Chain primary presets factory, model)"
    and "resolve R preset = Inr entry" and "pe_providers_raw entry = first # a # rest"
    and "b \<in> set rest" and "pv_model a = Some m" and "pv_model b = Some m"
  shows "chain_preset b \<in> set presets
       \<and> factory (chain_preset b) = (case build_one E a of Inr p \<Rightarrow> Some p | Inl _ \<Rightarrow> None)"
  using assms
  by (auto simp: build_chain_def chain_factory_def chain_preset_def model_or_empty_def split: sum.splits if_splits)

definition demo_cfg :: "string \<Rightarrow> string \<Rightarrow> provider_config" where
  "demo_cfg kind url = \<lparr>pv_kind = kind, pv_model = Some ''gpt'', pv_base_url = Some url, pv_api_key_env = None\<rparr>"

definition demo_registry :: llm_registry where
  "demo_registry =
     \<lparr>reg_presets = [\<lparr>pe_name = ''d'', pe_description = [], pe_is_default = True,
                      pe_providers_raw = [demo_cfg ''openai'' ''a'', demo_cfg ''openai'' ''b'', demo_cfg ''azure_openai'' ''c''],
                      pe_max_tokens = 1, pe_temperature = 0\<rparr>],
      reg_default_name = Some ''d''\<rparr>"

definition demo_build :: "string option build_env" where
  "demo_build = \<lparr>be_var = (\<lambda>_. None), be_build = (\<lambda>b cfg. Inr (bc_api_base cfg))\<rparr>"

lemma demo_chain:
  "build_chain demo_build demo_registry None =
     Inr (Chain (Some ''a'') [chain_preset (demo_cfg ''openai'' ''b''), chain_preset (demo_cfg ''azure_openai'' ''c'')]
            (chain_factory demo_build [demo_cfg ''openai'' ''b'', demo_cfg ''azure_openai'' ''c'']), ''gpt'')"
  by (simp add: build_chain_def resolve_def demo_registry_def demo_build_def demo_cfg_def build_one_def
      backend_of_kind_def model_or_empty_def)

theorem chain_confuses_providers_witness:
  "chain_factory demo_build [demo_cfg ''openai'' ''b'', demo_cfg ''azure_openai'' ''c''] (chain_preset (demo_cfg ''azure_openai'' ''c''))
     = Some (Some ''b'')"
proof -
  have b: "build_one demo_build (demo_cfg ''openai'' ''b'') = Inr (Some ''b'')"
    by (simp add: build_one_def demo_build_def demo_cfg_def backend_of_kind_def)
  show ?thesis
    using chain_confuses_providers [OF demo_chain, of "hd (reg_presets demo_registry)" "demo_cfg ''openai'' ''a''"
        "demo_cfg ''openai'' ''b''" "[demo_cfg ''azure_openai'' ''c'']" "demo_cfg ''azure_openai'' ''c''" "''gpt''"] b
    by (simp add: resolve_def demo_registry_def demo_cfg_def)
qed

theorem loaded_registry_resolves_witness:
  "\<exists>R. load_from_path True (Inr []) (\<lambda>_. Inr [\<lparr>raw_name = ''d'', raw_description = [], raw_default = True,
        raw_providers = [], raw_max_tokens = 1, raw_temperature = 0\<rparr>]) = Inr R
     \<and> resolve R None = resolve R (Some ''d'')"
proof -
  let ?toml = "\<lambda>_ :: string. Inr [\<lparr>raw_name = ''d'', raw_description = [], raw_default = True,
        raw_providers = [], raw_max_tokens = 1, raw_temperature = 0\<rparr>] :: string + preset_raw list"
  obtain R where R: "load_from_path True (Inr []) ?toml = Inr R" by (simp add: load_from_path_def)
  from loaded_registry_resolves [OF this] show ?thesis using R by auto
qed

end
