(* ===== verification/Net_Security.thy ===== *)
theory Net_Security
  imports HC_Prelude "HOL-Library.Word" "HOL-Library.Code_Target_Nat"
begin

text \<open>
  SSRF protection (crates/security/src/network.rs): CIDR blocks over 32- and 128-bit words,
  the list of blocked networks, the whitelist behind its lock, the URL splitter and the
  three checks the tools call. The address and integer parsers of the Rust standard library
  (\<^verbatim>\<open>core::net::parser\<close>, \<^verbatim>\<open>u8::from_str\<close>) and the \<^verbatim>\<open>Display\<close> of addresses are modelled;
  name resolution and the matches of the regular expression are arguments.
\<close>

unbundle bit_operations_syntax

datatype ip_addr = IpV4 "32 word" | IpV6 "128 word"

section \<open>Parsers of the standard library\<close>

definition to_digit :: "nat \<Rightarrow> char \<Rightarrow> nat option" where
  "to_digit radix c =
     (let b = byte c;
          d = (if 48 \<le> b \<and> b \<le> 57 then Some (b - 48)
               else if 97 \<le> b \<and> b \<le> 122 then Some (b - 87)
               else if 65 \<le> b \<and> b \<le> 90 then Some (b - 55) else None)
      in case d of Some v \<Rightarrow> if v < radix then Some v else None | None \<Rightarrow> None)"

fun read_digits :: "nat \<Rightarrow> string \<Rightarrow> nat list \<times> string" where
  "read_digits radix [] = ([], [])"
| "read_digits radix (c # s) =
     (case to_digit radix c of
        None \<Rightarrow> ([], c # s)
      | Some d \<Rightarrow> (let (ds, rest) = read_digits radix s in (d # ds, rest)))"

definition digits_value :: "nat \<Rightarrow> nat list \<Rightarrow> nat" where
  "digits_value radix ds = fold (\<lambda>d v. v * radix + d) ds 0"

text \<open>\<^verbatim>\<open>Parser::read_number\<close>: at most \<open>max_digits\<close> digits of a number below \<open>limit\<close>.\<close>

definition read_number :: "nat \<Rightarrow> nat \<Rightarrow> bool \<Rightarrow> nat \<Rightarrow> string \<Rightarrow> (nat \<times> string) option" where
  "read_number radix max_digits allow_zero_prefix limit s =
     (let (ds, rest) = read_digits radix s
      in if length ds > max_digits then None
         else if digits_value radix ds \<ge> limit then None
         else if ds = [] then None
         else if \<not> allow_zero_prefix \<and> hd ds = 0 \<and> length ds > 1 then None
         else Some (digits_value radix ds, rest))"

definition read_given_char :: "char \<Rightarrow> string \<Rightarrow> string option" where
  "read_given_char c s = (case s of [] \<Rightarrow> None | d # t \<Rightarrow> if d = c then Some t else None)"

definition read_separator ::
  "char \<Rightarrow> nat \<Rightarrow> (string \<Rightarrow> ('a \<times> string) option) \<Rightarrow> string \<Rightarrow> ('a \<times> string) option" where
  "read_separator sep i inner s =
     (if i > 0 then Option.bind (read_given_char sep s) inner else inner s)"

fun read_octets :: "nat \<Rightarrow> nat \<Rightarrow> string \<Rightarrow> (nat list \<times> string) option" where
  "read_octets i 0 s = Some ([], s)"
| "read_octets i (Suc n) s =
     (case read_separator CHR ''.'' i (read_number 10 3 False 256) s of
        None \<Rightarrow> None
      | Some (v, rest) \<Rightarrow>
          (case read_octets (Suc i) n rest of None \<Rightarrow> None | Some (vs, rest') \<Rightarrow> Some (v # vs, rest')))"

definition read_ipv4 :: "string \<Rightarrow> (nat list \<times> string) option" where
  "read_ipv4 s = read_octets 0 4 s"

text \<open>
  \<^verbatim>\<open>read_groups\<close> on a slice of \<open>limit\<close> groups: the groups read from index \<open>i\<close> on, whether they
  end in an embedded IPv4 address, and the rest.
\<close>

function read_groups :: "nat \<Rightarrow> nat \<Rightarrow> string \<Rightarrow> nat list \<times> bool \<times> string" where
  "read_groups i limit s =
     (if i \<ge> limit then ([], False, s)
      else case (if i < limit - 1 then read_separator CHR '':'' i read_ipv4 s else None) of
             Some (vs, rest) \<Rightarrow> ([vs ! 0 * 256 + vs ! 1, vs ! 2 * 256 + vs ! 3], True, rest)
           | None \<Rightarrow>
               (case read_separator CHR '':'' i (read_number 16 4 True 65536) s of
                  None \<Rightarrow> ([], False, s)
                | Some (g, rest) \<Rightarrow>
                    (let (gs, v4, rest') = read_groups (Suc i) limit rest in (g # gs, v4, rest'))))"
  by pat_completeness auto
termination by (relation "measure (\<lambda>(i, limit, s). limit - i)") auto

declare read_groups.simps [simp del]

definition read_ipv6 :: "string \<Rightarrow> (nat list \<times> string) option" where
  "read_ipv6 s =
     (let (head, head_ipv4, rest) = read_groups 0 8 s
      in if length head = 8 then Some (head, rest)
         else if head_ipv4 then None
         else case Option.bind (read_given_char CHR '':'' rest) (read_given_char CHR '':'') of
                None \<Rightarrow> None
              | Some rest' \<Rightarrow>
                  (let (tl, _, rest'') = read_groups 0 (8 - (length head + 1)) rest'
                   in Some (head @ replicate (8 - length head - length tl) 0 @ tl, rest'')))"

definition be_value :: "nat \<Rightarrow> nat list \<Rightarrow> nat" where
  "be_value radix vs = fold (\<lambda>d v. v * radix + d) vs 0"

definition parse_ip :: "string \<Rightarrow> ip_addr option" where
  "parse_ip s =
     (case read_ipv4 s of
        Some (vs, rest) \<Rightarrow> if rest = [] then Some (IpV4 (of_nat (be_value 256 vs))) else None
      | None \<Rightarrow>
          (case read_ipv6 s of
             Some (gs, rest) \<Rightarrow> if rest = [] then Some (IpV6 (of_nat (be_value 65536 gs))) else None
           | None \<Rightarrow> None))"

definition parse_u8 :: "string \<Rightarrow> nat option" where
  "parse_u8 s =
     (let t = (case s of c # t \<Rightarrow> if c = CHR ''+'' then t else s | [] \<Rightarrow> []);
          (ds, rest) = read_digits 10 t
      in if ds = [] \<or> rest \<noteq> [] \<or> digits_value 10 ds \<ge> 256 then None else Some (digits_value 10 ds))"

section \<open>Display of addresses\<close>

definition show_hex_digit :: "nat \<Rightarrow> char" where
  "show_hex_digit d = (if d < 10 then char_of (48 + d) else char_of (87 + d))"

fun show_hex :: "nat \<Rightarrow> string" where
  "show_hex n = (if n < 16 then [show_hex_digit n] else show_hex (n div 16) @ [show_hex_digit (n mod 16)])"

declare show_hex.simps [simp del]

fun intersperse_concat :: "string \<Rightarrow> string list \<Rightarrow> string" where
  "intersperse_concat sep [] = []"
| "intersperse_concat sep [x] = x"
| "intersperse_concat sep (x # y # xs) = x @ sep @ intersperse_concat sep (y # xs)"

definition show_ipv4 :: "nat \<Rightarrow> string" where
  "show_ipv4 n = intersperse_concat ''.'' (map (\<lambda>k. show_nat (n div 256 ^ k mod 256)) [3, 2, 1, 0])"

text \<open>The first longest run of zero segments: \<open>(start, len)\<close> of the current and the longest one.\<close>

fun longest_zeroes :: "nat \<Rightarrow> nat list \<Rightarrow> nat \<times> nat \<Rightarrow> nat \<times> nat \<Rightarrow> nat \<times> nat" where
  "longest_zeroes i [] cur best = best"
| "longest_zeroes i (g # gs) cur best =
     (if g = 0
      then let cur' = (if snd cur = 0 then (i, 1) else (fst cur, snd cur + 1))
           in longest_zeroes (Suc i) gs cur' (if snd cur' > snd best then cur' else best)
      else longest_zeroes (Suc i) gs (0, 0) best)"

definition show_ipv6 :: "nat \<Rightarrow> string" where
  "show_ipv6 n =
     (if n div 2 ^ 32 = 0xFFFF then ''::ffff:'' @ show_ipv4 (n mod 2 ^ 32)
      else let segs = map (\<lambda>k. n div 65536 ^ k mod 65536) [7, 6, 5, 4, 3, 2, 1, 0];
               (start, len) = longest_zeroes 0 segs (0, 0) (0, 0)
           in if len > 1
              then intersperse_concat '':'' (map show_hex (take start segs)) @ ''::''
                   @ intersperse_concat '':'' (map show_hex (drop (start + len) segs))
              else intersperse_concat '':'' (map show_hex segs))"

fun show_ip :: "ip_addr \<Rightarrow> string" where
  "show_ip (IpV4 a) = show_ipv4 (unat a)"
| "show_ip (IpV6 a) = show_ipv6 (unat a)"

section \<open>CIDR blocks\<close>

datatype cidr_block = CidrV4 "32 word" nat | CidrV6 "128 word" nat

definition mask_u32 :: "nat \<Rightarrow> 32 word" where
  "mask_u32 prefix = (if prefix = 0 then 0 else push_bit (32 - prefix) (NOT 0))"

definition mask_u128 :: "nat \<Rightarrow> 128 word" where
  "mask_u128 prefix = (if prefix = 0 then 0 else push_bit (128 - prefix) (NOT 0))"

definition split_once :: "char \<Rightarrow> string \<Rightarrow> (string \<times> string) option" where
  "split_once c s =
     (if c \<in> set s then Some (takeWhile (\<lambda>d. d \<noteq> c) s, tl (dropWhile (\<lambda>d. d \<noteq> c) s)) else None)"

definition cidr_parse :: "string \<Rightarrow> cidr_block option" where
  "cidr_parse cidr =
     (let (addr_part, prefix_part) =
        (case split_once CHR ''/'' cidr of Some (a, p) \<Rightarrow> (a, Some p) | None \<Rightarrow> (cidr, None))
      in case parse_ip addr_part of
           None \<Rightarrow> None
         | Some (IpV4 v4) \<Rightarrow>
             (case parse_u8 (case prefix_part of Some p \<Rightarrow> p | None \<Rightarrow> ''32'') of
                None \<Rightarrow> None
              | Some prefix \<Rightarrow> if prefix > 32 then None else Some (CidrV4 (v4 AND mask_u32 prefix) prefix))
         | Some (IpV6 v6) \<Rightarrow>
             (case parse_u8 (case prefix_part of Some p \<Rightarrow> p | None \<Rightarrow> ''128'') of
                None \<Rightarrow> None
              | Some prefix \<Rightarrow> if prefix > 128 then None else Some (CidrV6 (v6 AND mask_u128 prefix) prefix)))"

fun cidr_contains :: "cidr_block \<Rightarrow> ip_addr \<Rightarrow> bool" where
  "cidr_contains (CidrV4 base prefix) (IpV4 v4) = ((v4 AND mask_u32 prefix) = base)"
| "cidr_contains (CidrV6 base prefix) (IpV6 v6) = ((v6 AND mask_u128 prefix) = base)"
| "cidr_contains _ _ = False"

definition blocked_cidrs :: "string list" where
  "blocked_cidrs =
     [''0.0.0.0/8'', ''10.0.0.0/8'', ''100.64.0.0/10'', ''127.0.0.0/8'', ''169.254.0.0/16'',
      ''172.16.0.0/12'', ''192.168.0.0/16'', ''::1/128'', ''fc00::/7'', ''fe80::/10'']"

text \<open>The lazy static panics if one of the literals does not parse.\<close>

definition blocked_networks :: "(unit, cidr_block list) result" where
  "blocked_networks =
     (case those (map cidr_parse blocked_cidrs) of Some bs \<Rightarrow> Ok bs | None \<Rightarrow> Panic)"

section \<open>The whitelist and the address check\<close>

type_synonym whitelist = "cidr_block list rwlock"

definition configure_ssrf_whitelist :: "string list \<Rightarrow> whitelist \<Rightarrow> whitelist" where
  "configure_ssrf_whitelist cidrs w =
     (if lk_poisoned w then w else w\<lparr>lk_data := List.map_filter cidr_parse cidrs\<rparr>)"

definition clear_ssrf_whitelist :: "whitelist \<Rightarrow> whitelist" where
  "clear_ssrf_whitelist w = (if lk_poisoned w then w else w\<lparr>lk_data := []\<rparr>)"

definition is_allowed :: "whitelist \<Rightarrow> ip_addr \<Rightarrow> bool" where
  "is_allowed w addr =
     (case lk_read w of
        None \<Rightarrow> False
      | Some nets \<Rightarrow> nets \<noteq> [] \<and> list_ex (\<lambda>n. cidr_contains n addr) nets)"

definition is_private :: "whitelist \<Rightarrow> ip_addr \<Rightarrow> bool" where
  "is_private w addr =
     (if is_allowed w addr then False
      else list_ex (\<lambda>n. cidr_contains n addr) (case blocked_networks of Ok bs \<Rightarrow> bs | _ \<Rightarrow> []))"

section \<open>URLs\<close>

fun find_any :: "char list \<Rightarrow> string \<Rightarrow> nat option" where
  "find_any cs [] = None"
| "find_any cs (c # s) = (if c \<in> set cs then Some 0 else map_option Suc (find_any cs s))"

definition rsplit_once :: "char \<Rightarrow> string \<Rightarrow> (string \<times> string) option" where
  "rsplit_once c s =
     (case split_once c (rev s) of Some (b, a) \<Rightarrow> Some (rev a, rev b) | None \<Rightarrow> None)"

definition url_hostname :: "string \<Rightarrow> string option" where
  "url_hostname host_with_port =
     (case host_with_port of
        c # stripped \<Rightarrow>
          if c = CHR ''['' then map_option (\<lambda>close. take close stripped) (find_any [CHR '']''] stripped)
          else Some (case rsplit_once CHR '':'' host_with_port of Some (h, _) \<Rightarrow> h | None \<Rightarrow> host_with_port)
      | [] \<Rightarrow> Some [])"

definition parse_url :: "string \<Rightarrow> (string \<times> string \<times> string) option" where
  "parse_url url =
     (case str_find ''://'' url of
        None \<Rightarrow> None
      | Some scheme_end \<Rightarrow>
          let scheme = to_lowercase (take scheme_end url);
              rest = drop (scheme_end + 3) url;
              netloc_end = (case find_any [CHR ''/'', CHR ''?'', CHR ''#''] rest of
                              Some i \<Rightarrow> i | None \<Rightarrow> length rest);
              netloc = take netloc_end rest
          in if netloc = [] then None
             else map_option (\<lambda>hostname. (scheme, netloc, hostname))
                    (url_hostname (case rsplit_once CHR ''@'' netloc of Some (_, h) \<Rightarrow> h | None \<Rightarrow> netloc)))"

text \<open>\<open>resolve\<close> is \<^verbatim>\<open>resolve_host\<close>: the addresses of a name, or none if the lookup fails.\<close>

type_synonym resolver = "string \<Rightarrow> ip_addr list option"

definition validate_url_target :: "resolver \<Rightarrow> whitelist \<Rightarrow> string \<Rightarrow> bool \<times> string" where
  "validate_url_target resolve w url =
     (case parse_url url of
        None \<Rightarrow> (False, ''Missing domain'')
      | Some (scheme, netloc, hostname) \<Rightarrow>
          if scheme \<noteq> ''http'' \<and> scheme \<noteq> ''https''
          then (False, ''Only http/https allowed, got '' @ [CHR 0x27]
                  @ (if scheme = [] then ''none'' else scheme) @ [CHR 0x27])
          else if netloc = [] then (False, ''Missing domain'')
          else if hostname = [] then (False, ''Missing hostname'')
          else case resolve hostname of
                 None \<Rightarrow> (False, ''Cannot resolve hostname: '' @ hostname)
               | Some infos \<Rightarrow>
                   (case find (is_private w) infos of
                      Some addr \<Rightarrow> (False, ''Blocked: '' @ hostname
                        @ '' resolves to private/internal address '' @ show_ip addr)
                    | None \<Rightarrow> (True, [])))"

definition validate_resolved_url :: "resolver \<Rightarrow> whitelist \<Rightarrow> string \<Rightarrow> bool \<times> string" where
  "validate_resolved_url resolve w url =
     (case parse_url url of
        None \<Rightarrow> (True, [])
      | Some (_, _, hostname) \<Rightarrow>
          if hostname = [] then (True, [])
          else case parse_ip hostname of
                 Some ip \<Rightarrow>
                   if is_private w ip
                   then (False, ''Redirect target is a private address: '' @ show_ip ip)
                   else (True, [])
               | None \<Rightarrow>
                   (case resolve hostname of
                      None \<Rightarrow> (True, [])
                    | Some infos \<Rightarrow>
                        (case find (is_private w) infos of
                           Some addr \<Rightarrow> (False, ''Redirect target '' @ hostname
                             @ '' resolves to private address '' @ show_ip addr)
                         | None \<Rightarrow> (True, []))))"

text \<open>\<open>find_urls\<close> gives the matches of the URL pattern in a command line.\<close>

definition contains_internal_url ::
  "(string \<Rightarrow> string list) \<Rightarrow> resolver \<Rightarrow> whitelist \<Rightarrow> string \<Rightarrow> bool" where
  "contains_internal_url find_urls resolve w command =
     list_ex (\<lambda>url. \<not> fst (validate_url_target resolve w url)) (find_urls command)"

section \<open>CIDR blocks are intervals\<close>

lemma div_eq_interval: "0 < n \<Longrightarrow> (x::nat) div n = k \<longleftrightarrow> k * n \<le> x \<and> x < k * n + n"
  by (metis add.commute div_less_iff_less_mult less_eq_div_iff_mult_less_eq less_Suc_eq_le le_antisym
      mult_Suc order_refl)

text \<open>
  The contract of a mask function: masking keeps the leading \<open>prefix\<close> bits. Both widths
  promise it, and membership in a block is then membership in an interval.
\<close>

locale prefix_mask =
  fixes mask :: "nat \<Rightarrow> 'a::len word" and width :: nat
  assumes mask_and: "p \<le> width \<Longrightarrow> unat (a AND mask p) = unat a div 2 ^ (width - p) * 2 ^ (width - p)"
begin

lemma mask_idem: "p \<le> width \<Longrightarrow> (a AND mask p) AND mask p = a AND mask p"
  by (simp add: ac_simps)

lemma member_div:
  assumes "p \<le> width"
  shows "x AND mask p = b AND mask p \<longleftrightarrow> unat x div 2 ^ (width - p) = unat b div 2 ^ (width - p)"
  using assms by (simp add: mask_and word_unat_eq_iff)

lemma member_interval:
  assumes "p \<le> width"
  shows "x AND mask p = b AND mask p \<longleftrightarrow>
    unat (b AND mask p) \<le> unat x \<and> unat x < unat (b AND mask p) + 2 ^ (width - p)"
proof -
  let ?n = "2 ^ (width - p) :: nat"
  have "unat x div ?n = unat b div ?n \<longleftrightarrow> unat b div ?n * ?n \<le> unat x \<and> unat x < unat b div ?n * ?n + ?n"
    by (rule div_eq_interval) simp
  then show ?thesis using member_div [OF assms] mask_and [OF assms, of b] by simp
qed

end

lemma unat_and_high_mask:
  fixes a :: "'a::len word"
  assumes "w = LENGTH('a)" "p \<le> w"
  shows "unat (a AND (if p = 0 then 0 else push_bit (w - p) (NOT 0))) = unat a div 2 ^ (w - p) * 2 ^ (w - p)"
proof (cases "p = 0")
  case True
  then show ?thesis using assms(1) by simp
next
  case False
  let ?k = "w - p"
  have "a AND push_bit ?k (NOT 0) = push_bit ?k (drop_bit ?k a)"
    by (rule bit_word_eqI) (auto simp: bit_simps)
  moreover have "unat (push_bit ?k (drop_bit ?k a)) = unat a div 2 ^ ?k * 2 ^ ?k"
  proof -
    have "unat (push_bit ?k (drop_bit ?k a)) = take_bit LENGTH('a) (unat (drop_bit ?k a) * 2 ^ ?k)"
      by (subst unsigned_push_bit_eq) (simp add: push_bit_eq_mult)
    also have "unat (drop_bit ?k a) = unat a div 2 ^ ?k"
      by (subst unsigned_drop_bit_eq) (simp add: drop_bit_eq_div take_bit_nat_eq_self unsigned_less)
    also have "take_bit LENGTH('a) (unat a div 2 ^ ?k * 2 ^ ?k) = unat a div 2 ^ ?k * 2 ^ ?k"
      by (simp add: take_bit_nat_eq_self_iff) (meson div_times_less_eq_dividend le_less_trans unsigned_less)
    finally show ?thesis .
  qed
  ultimately show ?thesis using False by simp
qed

interpretation v4: prefix_mask mask_u32 32
proof
  fix p :: nat and a :: "32 word"
  assume "p \<le> 32"
  then show "unat (a AND mask_u32 p) = unat a div 2 ^ (32 - p) * 2 ^ (32 - p)"
    unfolding mask_u32_def by (intro unat_and_high_mask) simp_all
qed

interpretation v6: prefix_mask mask_u128 128
proof
  fix p :: nat and a :: "128 word"
  assume "p \<le> 128"
  then show "unat (a AND mask_u128 p) = unat a div 2 ^ (128 - p) * 2 ^ (128 - p)"
    unfolding mask_u128_def by (intro unat_and_high_mask) simp_all
qed

section \<open>The blocked networks\<close>

lemma v4_mask_of_nat: "p \<le> 32 \<Longrightarrow> a AND mask_u32 p = of_nat (unat a div 2 ^ (32 - p) * 2 ^ (32 - p))"
  by (metis v4.mask_and of_nat_unat ucast_id)

lemma v6_mask_of_nat: "p \<le> 128 \<Longrightarrow> a AND mask_u128 p = of_nat (unat a div 2 ^ (128 - p) * 2 ^ (128 - p))"
  by (metis v6.mask_and of_nat_unat ucast_id)

lemma cidr_parse_v4:
  "split_once CHR ''/'' s = Some (a, p) \<Longrightarrow> parse_ip a = Some (IpV4 v) \<Longrightarrow> parse_u8 p = Some n \<Longrightarrow> n \<le> 32
   \<Longrightarrow> cidr_parse s = Some (CidrV4 (of_nat (unat v div 2 ^ (32 - n) * 2 ^ (32 - n))) n)"
  by (simp add: cidr_parse_def v4_mask_of_nat)

lemma cidr_parse_v6:
  "split_once CHR ''/'' s = Some (a, p) \<Longrightarrow> parse_ip a = Some (IpV6 v) \<Longrightarrow> parse_u8 p = Some n \<Longrightarrow> n \<le> 128
   \<Longrightarrow> cidr_parse s = Some (CidrV6 (of_nat (unat v div 2 ^ (128 - n) * 2 ^ (128 - n))) n)"
  by (simp add: cidr_parse_def v6_mask_of_nat)

lemma split_literals:
  "map (split_once CHR ''/'') blocked_cidrs =
     [Some (''0.0.0.0'', ''8''), Some (''10.0.0.0'', ''8''), Some (''100.64.0.0'', ''10''),
      Some (''127.0.0.0'', ''8''), Some (''169.254.0.0'', ''16''), Some (''172.16.0.0'', ''12''),
      Some (''192.168.0.0'', ''16''), Some (''::1'', ''128''), Some (''fc00::'', ''7''),
      Some (''fe80::'', ''10'')]"
  by code_simp

lemma addr_literals:
  "map parse_ip [''0.0.0.0'', ''10.0.0.0'', ''100.64.0.0'', ''127.0.0.0'', ''169.254.0.0'',
       ''172.16.0.0'', ''192.168.0.0'', ''::1'', ''fc00::'', ''fe80::''] =
     [Some (IpV4 0), Some (IpV4 0x0A000000), Some (IpV4 0x64400000), Some (IpV4 0x7F000000),
      Some (IpV4 0xA9FE0000), Some (IpV4 0xAC100000), Some (IpV4 0xC0A80000), Some (IpV6 1),
      Some (IpV6 0xFC000000000000000000000000000000), Some (IpV6 0xFE800000000000000000000000000000)]"
  by code_simp

lemma prefix_literals:
  "map parse_u8 [''7'', ''8'', ''10'', ''12'', ''16'', ''128''] =
     [Some 7, Some 8, Some 10, Some 12, Some 16, Some 128]"
  by code_simp

lemma blocked_networks_eq:
  "blocked_networks = Ok
     [CidrV4 0 8, CidrV4 0x0A000000 8, CidrV4 0x64400000 10, CidrV4 0x7F000000 8,
      CidrV4 0xA9FE0000 16, CidrV4 0xAC100000 12, CidrV4 0xC0A80000 16,
      CidrV6 1 128, CidrV6 0xFC000000000000000000000000000000 7,
      CidrV6 0xFE800000000000000000000000000000 10]"
  using split_literals addr_literals prefix_literals
  by (simp add: blocked_networks_def blocked_cidrs_def cidr_parse_v4 cidr_parse_v6)

lemma contains_v4_div:
  assumes "p \<le> 32" "of_nat (unat b div 2 ^ (32 - p) * 2 ^ (32 - p)) = b"
  shows "cidr_contains (CidrV4 b p) (IpV4 a) \<longleftrightarrow> unat a div 2 ^ (32 - p) = unat b div 2 ^ (32 - p)"
proof -
  have "b AND mask_u32 p = b" using assms v4_mask_of_nat by simp
  then show ?thesis using v4.member_div [OF assms(1), of a b] by simp
qed

lemma contains_v6_div:
  assumes "p \<le> 128" "of_nat (unat b div 2 ^ (128 - p) * 2 ^ (128 - p)) = b"
  shows "cidr_contains (CidrV6 b p) (IpV6 a) \<longleftrightarrow> unat a div 2 ^ (128 - p) = unat b div 2 ^ (128 - p)"
proof -
  have "b AND mask_u128 p = b" using assms v6_mask_of_nat by simp
  then show ?thesis using v6.member_div [OF assms(1), of a b] by simp
qed

text \<open>What the block list is meant to cover, by octets and by the leading bits.\<close>

fun internal_address :: "ip_addr \<Rightarrow> bool" where
  "internal_address (IpV4 a) =
     (let o1 = unat a div 2 ^ 24; o2 = unat a div 2 ^ 16 mod 256
      in o1 = 0 \<or> o1 = 10 \<or> o1 = 127 \<or> (o1 = 100 \<and> 64 \<le> o2 \<and> o2 \<le> 127)
         \<or> (o1 = 169 \<and> o2 = 254) \<or> (o1 = 172 \<and> 16 \<le> o2 \<and> o2 \<le> 31) \<or> (o1 = 192 \<and> o2 = 168))"
| "internal_address (IpV6 a) =
     (unat a = 1 \<or> unat a div 2 ^ 121 = 0x7E \<or> unat a div 2 ^ 118 = 0x3FA)"

lemma octet_ranges:
  fixes q r :: nat
  assumes "r < 256"
  shows "(256 * q + r) div 64 = 401 \<longleftrightarrow> q = 100 \<and> 64 \<le> r \<and> r \<le> 127"
    "(256 * q + r) div 16 = 2753 \<longleftrightarrow> q = 172 \<and> 16 \<le> r \<and> r \<le> 31"
    "256 * q + r = 43518 \<longleftrightarrow> q = 169 \<and> r = 254"
    "256 * q + r = 49320 \<longleftrightarrow> q = 192 \<and> r = 168"
proof -
  have range: "256 * q0 + r0 \<le> 256 * q + r \<and> 256 * q + r < 256 * q0 + r0 + d \<longleftrightarrow> q = q0 \<and> r0 \<le> r \<and> r < r0 + d"
    if "r0 + d \<le> 256" for q0 r0 d :: nat
    using assms that by (cases q q0 rule: linorder_cases) auto
  show "(256 * q + r) div 64 = 401 \<longleftrightarrow> q = 100 \<and> 64 \<le> r \<and> r \<le> 127"
    using range [of 64 64 100] by (simp add: div_eq_interval less_Suc_eq_le [of r 127, simplified])
  show "(256 * q + r) div 16 = 2753 \<longleftrightarrow> q = 172 \<and> 16 \<le> r \<and> r \<le> 31"
    using range [of 16 16 172] by (simp add: div_eq_interval less_Suc_eq_le [of r 31, simplified])
  show "256 * q + r = 43518 \<longleftrightarrow> q = 169 \<and> r = 254"
    using range [of 254 1 169] by (auto simp: le_antisym)
  show "256 * q + r = 49320 \<longleftrightarrow> q = 192 \<and> r = 168"
    using range [of 168 1 192] by (auto simp: le_antisym)
qed

lemma blocked_v4:
  "list_ex (\<lambda>n. cidr_contains n (IpV4 a)) (case blocked_networks of Ok bs \<Rightarrow> bs | _ \<Rightarrow> [])
     \<longleftrightarrow> internal_address (IpV4 a)"
proof -
  let ?n = "unat a"
  have "?n div 2 ^ 24 = ?n div 2 ^ 16 div 256" "?n div 2 ^ 22 = ?n div 2 ^ 16 div 64"
    "?n div 2 ^ 20 = ?n div 2 ^ 16 div 16"
    by (simp_all flip: div_mult2_eq)
  moreover have "m div 64 = 401 \<longleftrightarrow> m div 256 = 100 \<and> 64 \<le> m mod 256 \<and> m mod 256 \<le> 127"
    "m div 16 = 2753 \<longleftrightarrow> m div 256 = 172 \<and> 16 \<le> m mod 256 \<and> m mod 256 \<le> 31"
    "m = 43518 \<longleftrightarrow> m div 256 = 169 \<and> m mod 256 = 254"
    "m = 49320 \<longleftrightarrow> m div 256 = 192 \<and> m mod 256 = 168" for m :: nat
    using octet_ranges [of "m mod 256" "m div 256"] by simp_all
  moreover have v6: "\<not> cidr_contains (CidrV6 b p) (IpV4 a)" for b p by simp
  ultimately show ?thesis
    by (simp add: blocked_networks_eq contains_v4_div v6 Let_def del: cidr_contains.simps) blast
qed

lemma blocked_v6:
  "list_ex (\<lambda>n. cidr_contains n (IpV6 a)) (case blocked_networks of Ok bs \<Rightarrow> bs | _ \<Rightarrow> [])
     \<longleftrightarrow> internal_address (IpV6 a)"
proof -
  have v4: "\<not> cidr_contains (CidrV4 b p) (IpV6 a)" for b p by simp
  show ?thesis
    by (simp add: blocked_networks_eq contains_v6_div v4 del: cidr_contains.simps)
qed

lemma is_private_iff: "is_private w addr \<longleftrightarrow> internal_address addr \<and> \<not> is_allowed w addr"
  by (cases addr) (simp_all only: is_private_def blocked_v4 blocked_v6 if_bool_eq_conj simp_thms, auto)

section \<open>Main properties\<close>

text \<open>
  (C12) An address is blocked exactly if it is internal (0/8, 10/8, 100.64/10, 127/8,
  169.254/16, 172.16/12, 192.168/16, the IPv6 loopback, fc00::/7, fe80::/10) and none of the
  whitelist entries that parse contains it; every literal of the block list parses.
\<close>

theorem is_private_blocks_internal:
  "is_private (configure_ssrf_whitelist cidrs (lk_new old)) addr \<longleftrightarrow>
     internal_address addr \<and> (\<forall>s \<in> set cidrs. \<forall>b. cidr_parse s = Some b \<longrightarrow> \<not> cidr_contains b addr)"
proof -
  have "is_allowed (configure_ssrf_whitelist cidrs (lk_new old)) addr \<longleftrightarrow>
      (\<exists>s \<in> set cidrs. \<exists>b. cidr_parse s = Some b \<and> cidr_contains b addr)"
    by (induction cidrs) (auto simp: is_allowed_def configure_ssrf_whitelist_def lk_new_def lk_read_def
        List.map_filter_def split: option.splits)
  then show ?thesis unfolding is_private_iff by blast
qed

theorem is_private_blocks_internal_witness:
  "is_private (configure_ssrf_whitelist [] (lk_new [])) (IpV4 0xA9FEA9FE)
   \<and> \<not> is_private (configure_ssrf_whitelist [] (lk_new [])) (IpV4 0x08080808)"
  by (simp add: is_private_blocks_internal Let_def)

text \<open>
  A CIDR text that parses denotes an interval: the block of prefix \<open>p\<close> contains exactly
  the \<open>2 ^ (w - p)\<close> addresses from its base on, and none of the other family.
\<close>

theorem cidr_blocks_are_intervals:
  assumes "cidr_parse s = Some b"
  shows "case b of
      CidrV4 base p \<Rightarrow> p \<le> 32 \<and> (\<forall>a. cidr_contains b (IpV4 a) \<longleftrightarrow>
          unat base \<le> unat a \<and> unat a < unat base + 2 ^ (32 - p)) \<and> (\<forall>a. \<not> cidr_contains b (IpV6 a))
    | CidrV6 base p \<Rightarrow> p \<le> 128 \<and> (\<forall>a. cidr_contains b (IpV6 a) \<longleftrightarrow>
          unat base \<le> unat a \<and> unat a < unat base + 2 ^ (128 - p)) \<and> (\<forall>a. \<not> cidr_contains b (IpV4 a))"
proof (cases b)
  case (CidrV4 base p)
  then obtain v where v: "p \<le> 32" "base = v AND mask_u32 p"
    using assms by (auto simp: cidr_parse_def Let_def split: option.splits prod.splits ip_addr.splits if_splits)
  then show ?thesis using CidrV4 v4.member_interval [OF v(1), of _ v] by simp
next
  case (CidrV6 base p)
  then obtain v where v: "p \<le> 128" "base = v AND mask_u128 p"
    using assms by (auto simp: cidr_parse_def Let_def split: option.splits prod.splits ip_addr.splits if_splits)
  then show ?thesis using CidrV6 v6.member_interval [OF v(1), of _ v] by simp
qed

lemma demo_cidr: "cidr_parse ''10.0.0.0/8'' = Some (CidrV4 0x0A000000 8)"
proof -
  have "split_once CHR ''/'' ''10.0.0.0/8'' = Some (''10.0.0.0'', ''8'')" by code_simp
  from cidr_parse_v4 [OF this] addr_literals prefix_literals show ?thesis by simp
qed

theorem cidr_blocks_are_intervals_witness:
  "cidr_contains (CidrV4 0x0A000000 8) (IpV4 0x0AFFFFFF) \<and> \<not> cidr_contains (CidrV4 0x0A000000 8) (IpV4 0x0B000000)"
  using cidr_blocks_are_intervals [OF demo_cidr] by (simp del: cidr_contains.simps)

lemma validate_url_target_cases:
  "(fst (validate_url_target resolve w url) \<longleftrightarrow>
     (\<exists>scheme netloc hostname infos.
        parse_url url = Some (scheme, netloc, hostname) \<and> scheme \<in> {''http'', ''https''}
        \<and> hostname \<noteq> '''' \<and> resolve hostname = Some infos
        \<and> (\<forall>a \<in> set infos. internal_address a \<longrightarrow> is_allowed w a)))
   \<and> (fst (validate_url_target resolve w url) \<longleftrightarrow> snd (validate_url_target resolve w url) = '''')"
proof (cases "parse_url url")
  case None
  then show ?thesis by (simp add: validate_url_target_def)
next
  case (Some t)
  obtain scheme netloc hostname where t: "t = (scheme, netloc, hostname)" by (cases t)
  have net: "netloc \<noteq> []" using Some t
    by (auto simp: parse_url_def Let_def split: option.splits if_splits)
  show ?thesis
  proof (cases "scheme \<in> {''http'', ''https''} \<and> hostname \<noteq> []")
    case False
    then show ?thesis using Some t net by (auto simp: validate_url_target_def)
  next
    case True
    show ?thesis
    proof (cases "resolve hostname")
      case None
      then show ?thesis using Some t net True by (auto simp: validate_url_target_def)
    next
      case (Some infos)
      have safe: "(\<forall>a \<in> set infos. internal_address a \<longrightarrow> is_allowed w a) \<longleftrightarrow> find (is_private w) infos = None"
        by (auto simp: find_None_iff is_private_iff)
      have v: "validate_url_target resolve w url =
          (case find (is_private w) infos of
             Some addr \<Rightarrow> (False, ''Blocked: '' @ hostname @ '' resolves to private/internal address '' @ show_ip addr)
           | None \<Rightarrow> (True, []))"
        using \<open>parse_url url = Some t\<close> t net True Some by (auto simp: validate_url_target_def)
      show ?thesis unfolding v using \<open>parse_url url = Some t\<close> t True Some
        by (cases "find (is_private w) infos") (auto simp: safe)
    qed
  qed
qed

lemma accepted_url:
  "fst (validate_url_target resolve w url) \<Longrightarrow>
     \<exists>scheme netloc hostname infos. parse_url url = Some (scheme, netloc, hostname)
       \<and> resolve hostname = Some infos \<and> (\<forall>a \<in> set infos. \<not> (internal_address a \<and> \<not> is_allowed w a))"
  using validate_url_target_cases [of resolve w url] by blast

text \<open>
  A URL is accepted exactly if it is an http or https URL with a host name that resolves,
  and no address it resolves to is internal and outside the whitelist; an accepted URL has no
  message, a refused one has.
\<close>

theorem validate_url_target_iff:
  "(fst (validate_url_target resolve w url) \<longleftrightarrow>
     (\<exists>scheme netloc hostname infos.
        parse_url url = Some (scheme, netloc, hostname) \<and> scheme \<in> {''http'', ''https''}
        \<and> hostname \<noteq> '''' \<and> resolve hostname = Some infos
        \<and> (\<forall>a \<in> set infos. internal_address a \<longrightarrow> is_allowed w a)))
   \<and> (fst (validate_url_target resolve w url) \<longleftrightarrow> snd (validate_url_target resolve w url) = '''')"
  by (rule validate_url_target_cases)

lemma demo_url: "parse_url ''http://u:p@example.com:8080/x?y'' = Some (''http'', ''u:p@example.com:8080'', ''example.com'')"
  by code_simp

theorem validate_url_target_iff_witness:
  "fst (validate_url_target (\<lambda>_. Some [IpV4 0x08080808]) (lk_new []) ''http://u:p@example.com:8080/x?y'')
   \<and> \<not> fst (validate_url_target (\<lambda>_. Some [IpV4 0x7F000001]) (lk_new []) ''http://u:p@example.com:8080/x?y'')"
proof -
  have "\<not> is_allowed (lk_new []) a" for a by (simp add: is_allowed_def lk_new_def lk_read_def)
  then show ?thesis
    unfolding conjunct1 [OF validate_url_target_iff] demo_url by (simp add: Let_def)
qed

text \<open>
  A command line that passes the shell guard contains no URL, among the matches of the
  pattern, whose host resolves to an internal address outside the whitelist.
\<close>

theorem shell_guard_blocks_internal_urls:
  assumes "\<not> contains_internal_url find_urls resolve w command" and "url \<in> set (find_urls command)"
  shows "\<exists>scheme netloc hostname infos. parse_url url = Some (scheme, netloc, hostname)
    \<and> resolve hostname = Some infos \<and> (\<forall>a \<in> set infos. \<not> (internal_address a \<and> \<not> is_allowed w a))"
proof -
  have "fst (validate_url_target resolve w url)"
    using assms by (auto simp: contains_internal_url_def list_ex_iff)
  then show ?thesis using accepted_url [of resolve w url] by blast
qed

theorem shell_guard_blocks_internal_urls_witness:
  "\<exists>infos. (\<lambda>_::string. Some [IpV4 0x08080808]) ''example.com'' = Some infos
     \<and> (\<forall>a \<in> set infos. \<not> (internal_address a \<and> \<not> is_allowed (lk_new []) a))"
proof -
  let ?url = "''http://u:p@example.com:8080/x?y''"
  have "\<not> contains_internal_url (\<lambda>_. [?url]) (\<lambda>_. Some [IpV4 0x08080808]) (lk_new []) ''curl''"
    by (simp add: contains_internal_url_def validate_url_target_def demo_url is_private_iff Let_def)
  from shell_guard_blocks_internal_urls [OF this, of ?url] show ?thesis by (simp add: demo_url)
qed

text \<open>
  The block list does not cover IPv4-mapped IPv6 addresses: the text
  \<^verbatim>\<open>::ffff:169.254.169.254\<close> parses to the address \<open>0xFFFF * 2 ^ 32 + 0xA9FEA9FE\<close>, and no
  address of that form is blocked, while the embedded metadata address is.
\<close>

theorem mapped_ipv4_is_not_blocked:
  "parse_ip ''::ffff:169.254.169.254'' = Some (IpV6 (of_nat (0xFFFF * 2 ^ 32 + 0xA9FEA9FE)))
   \<and> is_private (lk_new []) (IpV4 0xA9FEA9FE)
   \<and> \<not> is_private w (IpV6 (of_nat (0xFFFF * 2 ^ 32 + unat (a :: 32 word))))"
proof (intro conjI)
  show "parse_ip ''::ffff:169.254.169.254'' = Some (IpV6 (of_nat (0xFFFF * 2 ^ 32 + 0xA9FEA9FE)))"
    by code_simp
  show "is_private (lk_new []) (IpV4 0xA9FEA9FE)"
    by (simp add: is_private_iff is_allowed_def lk_new_def lk_read_def Let_def)
  let ?n = "0xFFFF * 2 ^ 32 + unat a"
  have n: "?n < 2 ^ 48" "1 < ?n" using unsigned_less [where 'a = nat, of a] by simp_all
  have "?n < 2 ^ LENGTH(128)" using n(1) by simp
  then have "unat (of_nat ?n :: 128 word) = ?n" unfolding unat_of_nat by (rule mod_less)
  moreover have "?n div 2 ^ 121 = 0" "?n div 2 ^ 118 = 0" using n(1) by (simp_all add: div_eq_0_iff)
  ultimately have "\<not> internal_address (IpV6 (of_nat ?n))" using n(2) by simp
  then show "\<not> is_private w (IpV6 (of_nat ?n))" by (simp only: is_private_iff simp_thms)
qed

end
