(* ===== verification/Host_Capabilities.thy ===== *)
theory Host_Capabilities
  imports Llm_Registry Net_Security
begin

text \<open>
  What a plugin may ask the host to do (crates/hiveweb/src/runtime/capabilities): files, objects,
  secrets, HTTP requests, named queries, a model call, the log. \<open>host_world\<close> is what the handlers
  read and change; \<open>host_env\<close> is what they call: the environment, the operating system (which
  file a path reaches, which operation it refuses), the object store, the URL parser, the
  resolver and the HTTP client, the database driver, and a single model call. Error texts are
  constructors, with the values they show. A path is shown by its components.
\<close>

section \<open>The world of a handler\<close>

datatype host_error =
    DotDotPath
  | OutsideSandbox "string list"
  | OsError string "string list" string
  | NotUtf8
  | KeyOutsidePrefix
  | DotDotKey
  | S3Refused string string
  | SecretNotAllowed string
  | SecretUnset string
  | MethodNotAllowed string
  | UrlParse string
  | SchemeNotAllowed
  | NoHost
  | NetworkUnconfigured
  | HostNotAllowed string
  | PrivateAddress string
  | BodyTooLarge nat
  | HttpFailed string
  | ReadBody string
  | UnknownQuery string
  | WrongQueryKind string
  | MissingPlaceholder string
  | MissingParam string
  | DbFailed string
  | NoPrompt
  | AgentFetch string
  | BuildPrimary llm_adapter_error
  | LlmFailed string

record http_args =
  hq_method :: string
  hq_url :: string
  hq_headers :: "(string \<times> string) list"
  hq_body :: "string option"

record http_response =
  hr_status :: nat
  hr_headers :: "(string \<times> string) list"
  hr_body :: "string + string"

record log_line =
  ll_level :: string
  ll_message :: string
  ll_fields :: "json option"

record 'd host_world =
  hw_files :: "string list \<Rightarrow> string option"
  hw_objects :: "string \<Rightarrow> string option"
  hw_db :: 'd
  hw_requests :: "http_args list"
  hw_log :: "log_line list"

datatype sql_arg = SqlNull | SqlBool bool | SqlInt int | SqlFloat "64 word" | SqlText string

record named_query =
  nq_name :: string
  nq_sql :: string
  nq_kind :: string
  nq_params :: "string list"

record 'd host_env =
  he_var :: "string \<Rightarrow> string option"
  he_follow :: "string list \<Rightarrow> string list"
  he_os_error :: "string \<Rightarrow> string list \<Rightarrow> string option"
  he_not_found :: string
  he_torn :: "string \<Rightarrow> string"
  he_s3_error :: "string \<Rightarrow> string \<Rightarrow> string option"
  he_url_parse :: "string \<Rightarrow> string + (string \<times> string option)"
  he_lookup_host :: resolver
  he_http :: "http_args \<Rightarrow> string + http_response"
  he_queries :: "named_query list"
  he_db_query :: "string \<Rightarrow> sql_arg list \<Rightarrow> 'd \<Rightarrow> string + json list"
  he_db_execute :: "string \<Rightarrow> sql_arg list \<Rightarrow> 'd \<Rightarrow> (string + (nat \<times> nat)) \<times> 'd"
  he_f64_of :: "int \<Rightarrow> 64 word"
  he_json_text :: "json \<Rightarrow> string"
  he_model_preset :: "int \<Rightarrow> string + string option option"
  he_build_primary :: "string option \<Rightarrow> llm_adapter_error + ((chat_request \<Rightarrow> llm_response) \<times> string)"

section \<open>Files\<close>

definition components :: "string \<Rightarrow> string list" where
  "components p = filter (\<lambda>c. c \<noteq> [] \<and> c \<noteq> ''.'') (split_char CHR ''/'' p)"

definition sandbox :: "string list" where
  "sandbox = [''tmp'', ''plugin'']"

definition in_sandbox :: "string list \<Rightarrow> bool" where
  "in_sandbox p \<longleftrightarrow> take 2 p = sandbox"

definition resolve_path :: "string \<Rightarrow> host_error + string list" where
  "resolve_path path_arg =
     (if str_contains ''..'' path_arg then Inl DotDotPath
      else let p = (if starts_with ''/'' path_arg then path_arg else ''/tmp/plugin/'' @ path_arg);
               canon = components p
           in if \<not> in_sandbox canon then Inl (OutsideSandbox canon) else Inr canon)"

definition fs_read :: "'d host_env \<Rightarrow> string \<Rightarrow> 'd host_world \<Rightarrow> host_error + json" where
  "fs_read H path W =
     (case resolve_path path of
        Inl e \<Rightarrow> Inl e
      | Inr p \<Rightarrow>
          (case he_os_error H ''read'' p of
             Some e \<Rightarrow> Inl (OsError ''read'' p e)
           | None \<Rightarrow>
               (case hw_files W (he_follow H p) of
                  None \<Rightarrow> Inl (OsError ''read'' p (he_not_found H))
                | Some bytes \<Rightarrow>
                    if utf8_valid bytes
                    then Inr (JObject [(''content'', JString bytes), (''size_bytes'', JNumber (NumInt (int (length bytes))))])
                    else Inl NotUtf8)))"

definition put_file :: "string list \<Rightarrow> string \<Rightarrow> 'd host_world \<Rightarrow> 'd host_world" where
  "put_file p bytes W = W\<lparr>hw_files := (hw_files W)(p := Some bytes)\<rparr>"

text \<open>An append that fails, or an overwrite, may have written a part of the bytes (\<open>he_torn\<close>).\<close>

definition fs_write ::
    "'d host_env \<Rightarrow> string \<Rightarrow> string \<Rightarrow> bool \<Rightarrow> 'd host_world \<Rightarrow> (host_error + json) \<times> 'd host_world" where
  "fs_write H path content appending W =
     (case resolve_path path of
        Inl e \<Rightarrow> (Inl e, W)
      | Inr p \<Rightarrow>
          (case he_os_error H ''mkdir'' (butlast p) of
             Some e \<Rightarrow> (Inl (OsError ''mkdir'' (butlast p) e), W)
           | None \<Rightarrow>
               let q = he_follow H p;
                   old = (if appending then case hw_files W q of Some b \<Rightarrow> b | None \<Rightarrow> [] else [])
               in case (if appending then he_os_error H ''open append'' p else None) of
                    Some e \<Rightarrow> (Inl (OsError ''open append'' p e), W)
                  | None \<Rightarrow>
                      (case he_os_error H ''write'' p of
                         Some e \<Rightarrow> (Inl (OsError ''write'' p e), put_file q (old @ he_torn H content) W)
                       | None \<Rightarrow>
                           (Inr (JObject [(''bytes_written'', JNumber (NumInt (int (length content))))]),
                            put_file q (old @ content) W))))"

section \<open>Objects and secrets\<close>

definition validate_key :: "string \<Rightarrow> host_error option" where
  "validate_key key =
     (if \<not> starts_with ''plugin-data/'' key then Some KeyOutsidePrefix
      else if str_contains ''..'' key then Some DotDotKey
      else None)"

definition s3_read :: "'d host_env \<Rightarrow> string \<Rightarrow> 'd host_world \<Rightarrow> host_error + json" where
  "s3_read H key W =
     (case validate_key key of
        Some e \<Rightarrow> Inl e
      | None \<Rightarrow>
          (case he_s3_error H ''get_object'' key of
             Some e \<Rightarrow> Inl (S3Refused ''get_object'' e)
           | None \<Rightarrow>
               (case hw_objects W key of
                  None \<Rightarrow> Inl (S3Refused ''get_object'' (he_not_found H))
                | Some bytes \<Rightarrow>
                    if utf8_valid bytes
                    then Inr (JObject [(''content'', JString bytes), (''size_bytes'', JNumber (NumInt (int (length bytes))))])
                    else Inl NotUtf8)))"

definition s3_write :: "'d host_env \<Rightarrow> string \<Rightarrow> string \<Rightarrow> 'd host_world \<Rightarrow> (host_error + json) \<times> 'd host_world" where
  "s3_write H key content W =
     (case validate_key key of
        Some e \<Rightarrow> (Inl e, W)
      | None \<Rightarrow>
          (case he_s3_error H ''put_object'' key of
             Some e \<Rightarrow> (Inl (S3Refused ''put_object'' e), W)
           | None \<Rightarrow>
               (Inr (JObject [(''bytes_written'', JNumber (NumInt (int (length content))))]),
                W\<lparr>hw_objects := (hw_objects W)(key := Some content)\<rparr>)))"

text \<open>A comma-separated environment variable as a list.\<close>

definition env_list :: "'d host_env \<Rightarrow> string \<Rightarrow> string list" where
  "env_list H name =
     filter (\<lambda>s. s \<noteq> []) (map trim (split_char CHR '','' (case he_var H name of Some v \<Rightarrow> v | None \<Rightarrow> [])))"

definition secret_get :: "'d host_env \<Rightarrow> string \<Rightarrow> host_error + json" where
  "secret_get H key =
     (if key \<notin> set (env_list H ''SECRET_ALLOWLIST'') then Inl (SecretNotAllowed key)
      else case he_var H key of
             None \<Rightarrow> Inl (SecretUnset key)
           | Some v \<Rightarrow> Inr (JObject [(''value'', JString v)]))"

section \<open>HTTP\<close>

definition body_max_bytes :: nat where
  "body_max_bytes = 4 * 1024 * 1024"

text \<open>\<^verbatim>\<open>Ipv4Addr::is_private\<close>, \<^verbatim>\<open>is_loopback\<close>, \<^verbatim>\<open>is_link_local\<close>, \<^verbatim>\<open>is_broadcast\<close>; \<^verbatim>\<open>::1\<close> and \<^verbatim>\<open>fc00::/7\<close>.\<close>

fun is_private_ip :: "ip_addr \<Rightarrow> bool" where
  "is_private_ip (IpV4 w) \<longleftrightarrow>
     drop_bit 24 w = 10 \<or> drop_bit 20 w = 0xAC1 \<or> drop_bit 16 w = 0xC0A8
     \<or> drop_bit 24 w = 127 \<or> drop_bit 16 w = 0xA9FE \<or> w = 0xFFFFFFFF"
| "is_private_ip (IpV6 w) \<longleftrightarrow> w = 1 \<or> drop_bit 121 w = 0x7E"

definition host_allowed :: "string list \<Rightarrow> string \<Rightarrow> bool" where
  "host_allowed allowlist host \<longleftrightarrow>
     list_ex (\<lambda>h. case strip_prefix ''.'' h of
                    Some suffix \<Rightarrow> ends_with suffix host \<or> host = suffix
                  | None \<Rightarrow> host = h) allowlist"

definition http_reply :: "http_response \<Rightarrow> host_error + json" where
  "http_reply resp =
     (case hr_body resp of
        Inl e \<Rightarrow> Inl (ReadBody e)
      | Inr bytes \<Rightarrow>
          Inr (JObject
            [(''status'', JNumber (NumInt (int (hr_status resp)))),
             (''headers'', JObject (fold (\<lambda>(k, v). obj_insert k (JString v)) (hr_headers resp) [])),
             (''body'', JString (from_utf8_lossy (take body_max_bytes bytes))),
             (''body_truncated'', JBool (length bytes > body_max_bytes))]))"

text \<open>The checks before the request is sent, in their order: the first one that fails answers.\<close>

definition http_guard :: "'d host_env \<Rightarrow> string \<Rightarrow> http_args \<Rightarrow> host_error option" where
  "http_guard H verb args =
     (if verb \<notin> {''GET'', ''POST'', ''PUT'', ''DELETE''} then Some (MethodNotAllowed verb)
      else case he_url_parse H (hq_url args) of
        Inl e \<Rightarrow> Some (UrlParse e)
      | Inr (scheme, host_str) \<Rightarrow>
          if scheme \<notin> {''http'', ''https''} then Some SchemeNotAllowed
          else case host_str of
            None \<Rightarrow> Some NoHost
          | Some h \<Rightarrow>
              let host = to_ascii_lowercase h; allow = env_list H ''NETWORK_HTTP_ALLOWLIST''
              in if allow = [] then Some NetworkUnconfigured
                 else if \<not> host_allowed allow host then Some (HostNotAllowed host)
                 else if (case he_lookup_host H (host @ '':0'') of Some ips \<Rightarrow> list_ex is_private_ip ips | None \<Rightarrow> False)
                 then Some (PrivateAddress host)
                 else (case hq_body args of
                         Some b \<Rightarrow> if length b > body_max_bytes then Some (BodyTooLarge (length b)) else None
                       | None \<Rightarrow> None))"

definition http_request ::
    "'d host_env \<Rightarrow> http_args \<Rightarrow> 'd host_world \<Rightarrow> (host_error + json) \<times> 'd host_world" where
  "http_request H args W =
     (let verb = to_ascii_uppercase (hq_method args)
      in case http_guard H verb args of
           Some e \<Rightarrow> (Inl e, W)
         | None \<Rightarrow>
             let req = args\<lparr>hq_method := verb\<rparr>
             in (case he_http H req of Inl e \<Rightarrow> Inl (HttpFailed e) | Inr resp \<Rightarrow> http_reply resp,
                 W\<lparr>hw_requests := hw_requests W @ [req]\<rparr>))"

section \<open>Named queries\<close>

definition load_queries :: "bool \<Rightarrow> string + string \<Rightarrow> (string \<Rightarrow> string + named_query list) \<Rightarrow> named_query list" where
  "load_queries path_exists content toml =
     (if \<not> path_exists then []
      else case content of
             Inl e \<Rightarrow> []
           | Inr text \<Rightarrow> (case toml text of Inl e \<Rightarrow> [] | Inr raws \<Rightarrow> fold (upsert nq_name) raws []))"

definition lookup_query :: "'d host_env \<Rightarrow> string \<Rightarrow> named_query option" where
  "lookup_query H name = find_key nq_name (he_queries H) name"

text \<open>One parameter after the other: its placeholder is replaced in the text, its value is appended.\<close>

fun bind_loop :: "jmap \<Rightarrow> string list \<Rightarrow> string \<Rightarrow> json list \<Rightarrow> host_error + (string \<times> json list)" where
  "bind_loop args [] sql ordered = Inr (sql, ordered)"
| "bind_loop args (p # ps) sql ordered =
     (let placeholder = '':'' @ p
      in if \<not> str_contains placeholder sql then Inl (MissingPlaceholder placeholder)
         else case obj_get args p of
                None \<Rightarrow> Inl (MissingParam p)
              | Some v \<Rightarrow> bind_loop args ps (replace_all placeholder ''?'' sql) (ordered @ [v]))"

definition bind_params :: "named_query \<Rightarrow> jmap \<Rightarrow> host_error + (string \<times> json list)" where
  "bind_params q args = bind_loop args (nq_params q) (nq_sql q) []"

definition bind_value :: "'d host_env \<Rightarrow> json \<Rightarrow> sql_arg" where
  "bind_value H v =
     (case v of
        JNull \<Rightarrow> SqlNull
      | JBool b \<Rightarrow> SqlBool b
      | JNumber (NumInt i) \<Rightarrow> if as_i64 v = Some i then SqlInt i else SqlFloat (he_f64_of H i)
      | JNumber (NumFloat f) \<Rightarrow> SqlFloat f
      | JString s \<Rightarrow> SqlText s
      | _ \<Rightarrow> SqlText (he_json_text H v))"

definition db_query :: "'d host_env \<Rightarrow> string \<Rightarrow> jmap \<Rightarrow> 'd host_world \<Rightarrow> host_error + json" where
  "db_query H name params W =
     (case lookup_query H name of
        None \<Rightarrow> Inl (UnknownQuery name)
      | Some q \<Rightarrow>
          if nq_kind q \<noteq> ''select'' then Inl (WrongQueryKind (nq_name q))
          else case bind_params q params of
                 Inl e \<Rightarrow> Inl e
               | Inr (sql, ordered) \<Rightarrow>
                   (case he_db_query H sql (map (bind_value H) ordered) (hw_db W) of
                      Inl e \<Rightarrow> Inl (DbFailed e)
                    | Inr rows \<Rightarrow>
                        Inr (JObject [(''rows'', JArray rows), (''row_count'', JNumber (NumInt (int (length rows))))])))"

definition db_execute ::
    "'d host_env \<Rightarrow> string \<Rightarrow> jmap \<Rightarrow> 'd host_world \<Rightarrow> (host_error + json) \<times> 'd host_world" where
  "db_execute H name params W =
     (case lookup_query H name of
        None \<Rightarrow> (Inl (UnknownQuery name), W)
      | Some q \<Rightarrow>
          if nq_kind q \<noteq> ''execute'' then (Inl (WrongQueryKind (nq_name q)), W)
          else case bind_params q params of
                 Inl e \<Rightarrow> (Inl e, W)
               | Inr (sql, ordered) \<Rightarrow>
                   (case he_db_execute H sql (map (bind_value H) ordered) (hw_db W) of
                      (Inl e, d) \<Rightarrow> (Inl (DbFailed e), W\<lparr>hw_db := d\<rparr>)
                    | (Inr (n, i), d) \<Rightarrow>
                        (Inr (JObject [(''rows_affected'', JNumber (NumInt (int n))), (''last_insert_id'', JNumber (NumInt (int i)))]),
                         W\<lparr>hw_db := d\<rparr>)))"

section \<open>A model call, the clock and the log\<close>

record llm_invoke_args =
  li_messages :: "json list"
  li_prompt :: "string option"
  li_max_tokens :: "nat option"
  li_temperature :: "32 word option"

definition llm_invoke :: "'d host_env \<Rightarrow> int \<Rightarrow> llm_invoke_args \<Rightarrow> host_error + json" where
  "llm_invoke H agent_id args =
     (if li_messages args = [] \<and> li_prompt args = None then Inl NoPrompt
      else case he_model_preset H agent_id of
        Inl e \<Rightarrow> Inl (AgentFetch e)
      | Inr preset \<Rightarrow>
          (case he_build_primary H (case preset of Some p \<Rightarrow> p | None \<Rightarrow> None) of
             Inl e \<Rightarrow> Inl (BuildPrimary e)
           | Inr (chat, model) \<Rightarrow>
               let messages = (if li_messages args \<noteq> [] then li_messages args
                               else [JObject [(''role'', JString ''user''),
                                              (''content'', JString (case li_prompt args of Some p \<Rightarrow> p | None \<Rightarrow> []))]]);
                   resp = chat \<lparr>cr_messages = messages, cr_tools = None, cr_model = Some model,
                                cr_max_tokens = (case li_max_tokens args of Some n \<Rightarrow> n | None \<Rightarrow> 2048),
                                cr_temperature = (case li_temperature args of Some t \<Rightarrow> t | None \<Rightarrow> 0x3F333333),
                                cr_reasoning_effort = None, cr_tool_choice = None\<rparr>
               in if is_error resp
                  then Inl (LlmFailed (case lr_content resp of
                                         Some c \<Rightarrow> c
                                       | None \<Rightarrow> (case lr_error_kind resp of Some k \<Rightarrow> k | None \<Rightarrow> ''LLM error'')))
                  else Inr (JObject
                    [(''content'', case lr_content resp of Some c \<Rightarrow> JString c | None \<Rightarrow> JNull),
                     (''finish_reason'', JString (lr_finish_reason resp)),
                     (''usage'', JObject (fold (\<lambda>(k, n). obj_insert k (JNumber (NumInt n))) (lr_usage resp) []))])))"

definition log_emit :: "log_line \<Rightarrow> 'd host_world \<Rightarrow> json \<times> 'd host_world" where
  "log_emit l W =
     (let lvl = to_ascii_lowercase (ll_level l);
          shown = (if lvl \<in> {''error'', ''warn'', ''debug''} then lvl else ''info'')
      in (JObject [], W\<lparr>hw_log := hw_log W @ [l\<lparr>ll_level := shown\<rparr>]\<rparr>))"

section \<open>Properties of the handlers\<close>

lemma in_sandbox_components: "resolve_path p = Inr canon \<Longrightarrow> in_sandbox canon"
  by (auto simp: resolve_path_def Let_def split: if_splits)

text \<open>
  The sandbox of the file handlers is lexical: a path that passes has \<^verbatim>\<open>/tmp/plugin\<close> as its first two
  components and no component \<^verbatim>\<open>..\<close>. So without symbolic links (\<open>he_follow\<close> is the identity) no
  file outside is read or written.
\<close>

lemma resolve_path_no_dotdot: "resolve_path p = Inr canon \<Longrightarrow> ''..'' \<notin> set canon"
proof
  assume r: "resolve_path p = Inr canon" and m: "''..'' \<in> set canon"
  define q where "q = (if starts_with ''/'' p then p else ''/tmp/plugin/'' @ p)"
  have nc: "\<not> str_contains ''..'' p" and canon: "canon = components q"
    using r by (auto simp: resolve_path_def q_def Let_def split: if_splits)
  have "''..'' \<in> set (split_char CHR ''/'' q)" using m by (simp add: canon components_def)
  moreover have "\<not> str_contains ''..'' q"
  proof (cases "starts_with ''/'' p")
    case False
    have "str_find ''..'' p = None" using nc by (simp add: str_contains_def)
    then show ?thesis using False by (simp add: q_def str_contains_def starts_with_def)
  qed (use nc in \<open>simp add: q_def\<close>)
  ultimately show False using split_char_infix str_contains_iff by metis
qed

lemma fs_write_confined:
  assumes "he_follow H = id" and "\<not> in_sandbox p"
  shows "hw_files (snd (fs_write H path content appending W)) p = hw_files W p"
  using assms in_sandbox_components [of path]
  by (auto simp: fs_write_def put_file_def Let_def split: sum.splits option.splits)

lemma s3_write_confined:
  assumes "\<not> starts_with ''plugin-data/'' key"
  shows "hw_objects (snd (s3_write H k content W)) key = hw_objects W key"
  using assms by (auto simp: s3_write_def validate_key_def split: option.splits if_splits)

text \<open>A request leaves the host only for a host of the allow list that does not resolve to a private address.\<close>

definition request_admitted :: "'d host_env \<Rightarrow> http_args \<Rightarrow> bool" where
  "request_admitted H req \<longleftrightarrow>
     hq_method req \<in> {''GET'', ''POST'', ''PUT'', ''DELETE''}
     \<and> (\<exists>scheme h. he_url_parse H (hq_url req) = Inr (scheme, Some h) \<and> scheme \<in> {''http'', ''https''}
          \<and> host_allowed (env_list H ''NETWORK_HTTP_ALLOWLIST'') (to_ascii_lowercase h)
          \<and> (\<forall>ips. he_lookup_host H (to_ascii_lowercase h @ '':0'') = Some ips \<longrightarrow> \<not> list_ex is_private_ip ips))
     \<and> (case hq_body req of Some b \<Rightarrow> length b \<le> body_max_bytes | None \<Rightarrow> True)"

lemma http_guard_admits: "http_guard H verb args = None \<Longrightarrow> request_admitted H (args\<lparr>hq_method := verb\<rparr>)"
  unfolding http_guard_def request_admitted_def Let_def
  by (auto split: if_split_asm sum.split_asm option.split_asm prod.split_asm)

lemma http_request_admitted:
  "\<exists>reqs. hw_requests (snd (http_request H args W)) = hw_requests W @ reqs \<and> (\<forall>r \<in> set reqs. request_admitted H r)"
  by (cases "http_guard H (to_ascii_uppercase (hq_method args)) args")
     (auto simp: http_request_def Let_def http_guard_admits)

section \<open>Named queries and the allow list\<close>

lemma bind_loop_values:
  "bind_loop args ps sql ordered = Inr (sql', vs) \<Longrightarrow>
     vs = ordered @ map (\<lambda>p. the (obj_get args p)) ps \<and> (\<forall>p \<in> set ps. obj_get args p \<noteq> None)"
  by (induction args ps sql ordered rule: bind_loop.induct) (auto simp: Let_def split: if_splits option.splits)

lemma bind_loop_text:
  "bind_loop args ps sql ordered = Inr (sql1, vs1) \<Longrightarrow> bind_loop args' ps sql ordered' = Inr (sql2, vs2) \<Longrightarrow> sql1 = sql2"
  by (induction args ps sql ordered arbitrary: ordered' rule: bind_loop.induct)
     (auto simp: Let_def split: if_splits option.splits)

text \<open>
  No injection: the SQL text that is executed depends on the registered query alone,
  never on the arguments of the plugin; the arguments are only bound, one for each declared
  parameter, in the order of the declaration.
\<close>

theorem named_query_text_is_fixed:
  assumes "bind_params q args = Inr (sql, vs)" and "bind_params q args' = Inr (sql', vs')"
  shows "sql' = sql \<and> length vs = length (nq_params q) \<and> vs = map (\<lambda>p. the (obj_get args p)) (nq_params q)"
  using assms bind_loop_values bind_loop_text unfolding bind_params_def by fastforce

definition update_query :: "string list \<Rightarrow> named_query" where
  "update_query params =
     \<lparr>nq_name = ''rename'', nq_sql = ''UPDATE t SET name = :name WHERE id = :id'', nq_kind = ''execute'', nq_params = params\<rparr>"

definition update_args :: "json \<Rightarrow> json \<Rightarrow> jmap" where
  "update_args n i = [(''name'', n), (''id'', i)]"

lemma update_bound:
  "bind_params (update_query [''name'', ''id'']) (update_args n i) = Inr (''UPDATE t SET name = ? WHERE id = ?'', [n, i])"
  "bind_params (update_query [''id'', ''name'']) (update_args n i) = Inr (''UPDATE t SET name = ? WHERE id = ?'', [i, n])"
  by (simp_all add: bind_params_def update_query_def update_args_def str_contains_def starts_with_def obj_get_def Let_def)

theorem named_query_text_is_fixed_witness:
  "length [JNull, JBool True] = length (nq_params (update_query [''name'', ''id'']))"
  using named_query_text_is_fixed [OF update_bound(1) [of JNull "JBool True"] update_bound(1) [of "JBool False" JNull]]
  by simp

text \<open>
  Values bound to the wrong placeholder: when a query declares its parameters in
  another order than its text uses them, the text is the same and the values are bound in the
  order of the declaration: the row \<open>name\<close> gets the id, and the condition is on the name.
\<close>

theorem named_query_binds_declared_order:
  "bind_params (update_query [''name'', ''id'']) (update_args n i) = Inr (''UPDATE t SET name = ? WHERE id = ?'', [n, i])
   \<and> bind_params (update_query [''id'', ''name'']) (update_args n i) = Inr (''UPDATE t SET name = ? WHERE id = ?'', [i, n])"
  using update_bound by blast

text \<open>
  The allow list of the HTTP handler lets foreign domains in: an entry with a leading
  dot, meant for the subdomains of a domain, admits every host whose name ends in the letters
  of that domain, \<^verbatim>\<open>evilexample.com\<close> for \<^verbatim>\<open>.example.com\<close>.
\<close>

theorem suffix_entry_admits_foreign_domains:
  "host_allowed (allow1 @ (CHR ''.'' # domain) # allow2) (anything @ domain)"
  by (auto simp: host_allowed_def strip_prefix_def starts_with_def ends_with_iff)

text \<open>
  A symbolic link leaves the sandbox: a link below \<^verbatim>\<open>/tmp/plugin\<close> to a file elsewhere is
  followed by \<^verbatim>\<open>fs.read\<close>, since the path is compared before the system resolves it.
\<close>

theorem symlink_escapes_sandbox:
  assumes "resolve_path path = Inr link" and "he_os_error H ''read'' link = None"
    and "he_follow H link = target" and "hw_files W target = Some bytes" and "utf8_valid bytes"
  shows "fs_read H path W =
    Inr (JObject [(''content'', JString bytes), (''size_bytes'', JNumber (NumInt (int (length bytes))))])"
  using assms by (simp add: fs_read_def)

definition demo_host :: "unit host_env" where
  "demo_host =
     \<lparr>he_var = (\<lambda>_. None), he_follow = (\<lambda>p. if p = [''tmp'', ''plugin'', ''l''] then [''etc'', ''shadow''] else p),
      he_os_error = (\<lambda>_ _. None), he_not_found = ''not found'', he_torn = id, he_s3_error = (\<lambda>_ _. None),
      he_url_parse = (\<lambda>_. Inl []), he_lookup_host = (\<lambda>_. None), he_http = (\<lambda>_. Inl []),
      he_queries = [], he_db_query = (\<lambda>_ _ _. Inr []), he_db_execute = (\<lambda>_ _ d. (Inr (0, 0), d)),
      he_f64_of = (\<lambda>_. 0), he_json_text = (\<lambda>_. []), he_model_preset = (\<lambda>_. Inr None),
      he_build_primary = (\<lambda>_. Inl NoDefault)\<rparr>"

definition demo_world :: "unit host_world" where
  "demo_world =
     \<lparr>hw_files = [[''etc'', ''shadow''] \<mapsto> ''root''], hw_objects = Map.empty, hw_db = (), hw_requests = [], hw_log = []\<rparr>"

lemma resolve_demo: "resolve_path ''/tmp/plugin/l'' = Inr [''tmp'', ''plugin'', ''l'']"
  by (simp add: resolve_path_def str_contains_def starts_with_def components_def in_sandbox_def sandbox_def Let_def)

theorem symlink_escapes_sandbox_witness:
  "fs_read demo_host ''/tmp/plugin/l'' demo_world =
     Inr (JObject [(''content'', JString ''root''), (''size_bytes'', JNumber (NumInt (int (length ''root''))))])"
  by (rule symlink_escapes_sandbox [OF resolve_demo])
     (simp_all add: demo_host_def demo_world_def utf8_plain plain_def byte_def)

end
