(* ===== verification/Host_Dispatch.thy ===== *)
theory Host_Dispatch
  imports Host_Capabilities
begin

text \<open>
  The dispatcher behind a plugin's \<^verbatim>\<open>host_call\<close> (crates/hiveweb/src/runtime/capability.rs) and the
  redaction of its audit records (services/runtime_audit.rs): parse the envelope, refuse an
  unknown capability, check the agent's permissions, run the handler, write one audit record.
  Arguments: \<open>dispatch_env\<close> holds the derived deserializers (the envelope from its text, the
  arguments of each capability from a JSON value), the permission table, the clock and whether
  the object store is configured.
\<close>

section \<open>Capabilities\<close>

record capability =
  cap_name :: string
  cap_is_dangerous :: bool

definition capabilities :: "capability list" where
  "capabilities =
     map (\<lambda>(n, d). \<lparr>cap_name = n, cap_is_dangerous = d\<rparr>)
       [(''network.http'', True), (''fs.read'', False), (''fs.write'', False), (''s3.read'', False),
        (''s3.write'', False), (''db.query'', False), (''db.execute'', True), (''llm.invoke'', False),
        (''secret.get'', True), (''time.now'', False), (''log.emit'', False), (''chat_respond'', False),
        (''exec.run'', True), (''agent.spawn'', False), (''cron.manage'', False)]"

definition lookup_capability :: "string \<Rightarrow> capability option" where
  "lookup_capability name = find_key cap_name capabilities name"

definition is_dangerous :: "string \<Rightarrow> bool" where
  "is_dangerous name = (case lookup_capability name of Some c \<Rightarrow> cap_is_dangerous c | None \<Rightarrow> False)"

section \<open>Audit records\<close>

definition masked_key :: "string \<Rightarrow> bool" where
  "masked_key k \<longleftrightarrow>
     (let key_lower = to_lowercase k
      in str_contains ''password'' key_lower \<or> str_contains ''token'' key_lower
         \<or> str_contains ''secret'' key_lower \<or> str_contains ''api_key'' key_lower)"

function (sequential) redact_args :: "json \<Rightarrow> json" where
  "redact_args (JObject m) =
     JObject (map (\<lambda>p. (fst p, if masked_key (fst p) then JString ''***'' else redact_args (snd p))) m)"
| "redact_args (JArray arr) = JArray (map redact_args arr)"
| "redact_args v = v"
  by pat_completeness auto
termination
proof (relation "measure size")
  fix m :: jmap and p assume "p \<in> set m"
  then show "(snd p, JObject m) \<in> measure size"
    by (induction m) (auto simp: less_Suc_eq_le intro: le_trans)
next
  fix arr :: "json list" and v assume "v \<in> set arr"
  then show "(v, JArray arr) \<in> measure size"
    by (induction arr) auto
qed simp

datatype audit_error = AuditText string | AuditErr host_error

record host_audit_record =
  au_request_id :: "string option"
  au_session_id :: "int option"
  au_agent_id :: int
  au_plugin_id :: int
  au_function_id :: "int option"
  au_capability :: "string option"
  au_event_type :: string
  au_outcome :: string
  au_error_message :: "audit_error option"
  au_payload_summary :: "json option"

section \<open>Dispatch\<close>

record host_dispatch_ctx =
  dc_request_id :: "string option"
  dc_session_id :: "int option"
  dc_agent_id :: int
  dc_plugin_id :: int
  dc_function_id :: "int option"
  dc_permissions :: "string list"

record dispatch_env =
  de_envelope :: "string \<Rightarrow> string + (string \<times> json)"
  de_log :: "json \<Rightarrow> string + (string option \<times> string \<times> json option)"
  de_fs_read :: "json \<Rightarrow> string + string"
  de_fs_write :: "json \<Rightarrow> string + (string \<times> string \<times> bool)"
  de_http :: "json \<Rightarrow> string + http_args"
  de_s3_read :: "json \<Rightarrow> string + string"
  de_s3_write :: "json \<Rightarrow> string + (string \<times> string)"
  de_secret :: "json \<Rightarrow> string + string"
  de_db :: "json \<Rightarrow> string + (string \<times> jmap)"
  de_llm :: "json \<Rightarrow> string + llm_invoke_args"
  de_permissions :: "int \<Rightarrow> string + string list"
  de_time_now :: json
  de_has_s3 :: bool

datatype host_msg =
    InvalidEnvelope string
  | UnknownCapability string
  | PermissionLookupFailed
  | NotGranted string
  | BadArgs string string
  | HandlerFailed host_error
  | SystemDisabled string
  | NoHandler string

datatype reply_envelope = ReplyOk json | ReplyErr nat host_msg

fun reply_ok :: "reply_envelope \<Rightarrow> bool" where
  "reply_ok (ReplyOk _) = True"
| "reply_ok (ReplyErr _ _) = False"

type_synonym handled = "reply_envelope \<times> string \<times> audit_error option"

fun to_reply :: "host_error + json \<Rightarrow> handled" where
  "to_reply (Inr v) = (ReplyOk v, ''success'', None)"
| "to_reply (Inl e) = (ReplyErr 4000 (HandlerFailed e), ''error'', Some (AuditErr e))"

definition args_err :: "string \<Rightarrow> string \<Rightarrow> handled" where
  "args_err label e = (ReplyErr 4000 (BadArgs label e), ''error'', Some (AuditText ''invalid args''))"

definition s3_disabled :: "string \<Rightarrow> handled" where
  "s3_disabled label = (ReplyErr 5031 (SystemDisabled label), ''error'', Some (AuditText ''plugin system disabled''))"

text \<open>A handler that reads the world, one that may change it, and the decoding of the arguments before either.\<close>

definition reads :: "string \<Rightarrow> string + 'a \<Rightarrow> ('a \<Rightarrow> host_error + json) \<Rightarrow> 'd host_world \<Rightarrow> handled \<times> 'd host_world" where
  "reads label args f W = (case args of Inl e \<Rightarrow> (args_err label e, W) | Inr a \<Rightarrow> (to_reply (f a), W))"

definition changes ::
    "string \<Rightarrow> string + 'a \<Rightarrow> ('a \<Rightarrow> 'd host_world \<Rightarrow> (host_error + json) \<times> 'd host_world)
       \<Rightarrow> 'd host_world \<Rightarrow> handled \<times> 'd host_world" where
  "changes label args f W =
     (case args of Inl e \<Rightarrow> (args_err label e, W) | Inr a \<Rightarrow> (case f a W of (r, W') \<Rightarrow> (to_reply r, W')))"

definition run_handler ::
    "dispatch_env \<Rightarrow> 'd host_env \<Rightarrow> host_dispatch_ctx \<Rightarrow> string \<Rightarrow> json \<Rightarrow> 'd host_world \<Rightarrow> handled \<times> 'd host_world" where
  "run_handler D H ctx cap args W =
     (if cap = ''time.now'' then ((ReplyOk (de_time_now D), ''success'', None), W)
      else if cap = ''log.emit''
      then changes cap (de_log D args)
             (\<lambda>(level, msg, fields) W.
                case log_emit \<lparr>ll_level = (case level of Some l \<Rightarrow> l | None \<Rightarrow> ''info''), ll_message = msg, ll_fields = fields\<rparr> W of
                  (v, W') \<Rightarrow> (Inr v, W')) W
      else if cap = ''fs.read'' then reads cap (de_fs_read D args) (\<lambda>path. fs_read H path W) W
      else if cap = ''fs.write''
      then changes cap (de_fs_write D args) (\<lambda>(path, content, appending). fs_write H path content appending) W
      else if cap = ''network.http'' then changes cap (de_http D args) (http_request H) W
      else if cap = ''s3.read''
      then if \<not> de_has_s3 D then (s3_disabled cap, W) else reads cap (de_s3_read D args) (\<lambda>key. s3_read H key W) W
      else if cap = ''s3.write''
      then if \<not> de_has_s3 D then (s3_disabled cap, W)
           else changes cap (de_s3_write D args) (\<lambda>(key, content). s3_write H key content) W
      else if cap = ''secret.get'' then reads cap (de_secret D args) (secret_get H) W
      else if cap = ''db.query'' then reads cap (de_db D args) (\<lambda>(q, params). db_query H q params W) W
      else if cap = ''db.execute'' then changes cap (de_db D args) (\<lambda>(q, params). db_execute H q params) W
      else if cap = ''llm.invoke'' then reads cap (de_llm D args) (llm_invoke H (dc_agent_id ctx)) W
      else ((ReplyErr 5001 (NoHandler cap), ''error'', Some (AuditText ''handler unimplemented'')), W))"

definition audit_of ::
    "host_dispatch_ctx \<Rightarrow> string option \<Rightarrow> string \<Rightarrow> string \<Rightarrow> audit_error option \<Rightarrow> json option \<Rightarrow> host_audit_record" where
  "audit_of ctx cap event outcome err payload =
     \<lparr>au_request_id = dc_request_id ctx, au_session_id = dc_session_id ctx, au_agent_id = dc_agent_id ctx,
      au_plugin_id = dc_plugin_id ctx, au_function_id = dc_function_id ctx, au_capability = cap,
      au_event_type = event, au_outcome = outcome, au_error_message = err, au_payload_summary = payload\<rparr>"

definition granted_capabilities :: "dispatch_env \<Rightarrow> host_dispatch_ctx \<Rightarrow> string + string list" where
  "granted_capabilities D ctx =
     (if dc_permissions ctx \<noteq> [] then Inr (dc_permissions ctx) else de_permissions D (dc_agent_id ctx))"

definition dispatch ::
    "dispatch_env \<Rightarrow> 'd host_env \<Rightarrow> host_dispatch_ctx \<Rightarrow> string \<Rightarrow> 'd host_world
       \<Rightarrow> reply_envelope \<times> host_audit_record list \<times> 'd host_world" where
  "dispatch D H ctx envelope_str W =
     (case de_envelope D envelope_str of
        Inl e \<Rightarrow>
          (ReplyErr 4000 (InvalidEnvelope e),
           [audit_of ctx None ''capability_call'' ''error'' (Some (AuditText ''invalid envelope'')) None], W)
      | Inr (cap, args) \<Rightarrow>
          if lookup_capability cap = None
          then (ReplyErr 4045 (UnknownCapability cap),
                [audit_of ctx (Some cap) ''capability_denied'' ''denied'' (Some (AuditText ''unknown capability''))
                   (Some (redact_args args))], W)
          else case granted_capabilities D ctx of
            Inl e \<Rightarrow> (ReplyErr 5000 PermissionLookupFailed, [], W)
          | Inr granted \<Rightarrow>
              if cap \<notin> set granted
              then (ReplyErr 4030 (NotGranted cap),
                    [audit_of ctx (Some cap) ''capability_denied'' ''denied'' (Some (AuditText ''capability not granted''))
                       (Some (redact_args args))], W)
              else case run_handler D H ctx cap args W of
                ((reply, outcome, err), W') \<Rightarrow>
                  (reply,
                   [audit_of ctx (Some cap) ''capability_call'' outcome err
                      (Some (JObject [(''args'', redact_args args), (''ok'', JBool (reply_ok reply))]))], W'))"

section \<open>Confinement\<close>

definition confined :: "'d host_env \<Rightarrow> 'd host_world \<Rightarrow> 'd host_world \<Rightarrow> bool" where
  "confined H W W' \<longleftrightarrow>
     (\<forall>p. \<not> in_sandbox p \<longrightarrow> hw_files W' p = hw_files W p)
     \<and> (\<forall>k. \<not> starts_with ''plugin-data/'' k \<longrightarrow> hw_objects W' k = hw_objects W k)
     \<and> (\<exists>reqs. hw_requests W' = hw_requests W @ reqs \<and> (\<forall>r \<in> set reqs. request_admitted H r))"

lemma confined_refl [simp]: "confined H W W"
  by (simp add: confined_def)

lemma fs_write_frame [hc_keep]:
  "hw_objects (snd (fs_write H path content a W)) = hw_objects W"
  "hw_requests (snd (fs_write H path content a W)) = hw_requests W"
  "hw_db (snd (fs_write H path content a W)) = hw_db W"
  by (auto simp: fs_write_def put_file_def Let_def split: sum.splits option.splits)

lemma s3_write_frame [hc_keep]:
  "hw_files (snd (s3_write H key content W)) = hw_files W"
  "hw_requests (snd (s3_write H key content W)) = hw_requests W"
  "hw_db (snd (s3_write H key content W)) = hw_db W"
  by (auto simp: s3_write_def split: option.splits)

lemma http_request_frame [hc_keep]:
  "hw_files (snd (http_request H args W)) = hw_files W"
  "hw_objects (snd (http_request H args W)) = hw_objects W"
  "hw_db (snd (http_request H args W)) = hw_db W"
  by (simp_all add: http_request_def Let_def split: option.split)

lemma db_execute_frame [hc_keep]:
  "hw_files (snd (db_execute H q params W)) = hw_files W"
  "hw_objects (snd (db_execute H q params W)) = hw_objects W"
  "hw_requests (snd (db_execute H q params W)) = hw_requests W"
  by (auto simp: db_execute_def split: sum.splits option.splits prod.splits)

lemma log_emit_frame [hc_keep]:
  "hw_files (snd (log_emit l W)) = hw_files W" "hw_objects (snd (log_emit l W)) = hw_objects W"
  "hw_requests (snd (log_emit l W)) = hw_requests W" "hw_db (snd (log_emit l W)) = hw_db W"
  by (simp_all add: log_emit_def Let_def)

lemma changes_keeps:
  assumes "\<And>a. R W (snd (f a W))" and "R W W"
  shows "R W (snd (changes label args f W))"
  using assms by (auto simp: changes_def split: sum.splits prod.splits) (metis snd_conv)

lemma reads_keeps [simp]: "snd (reads label args f W) = W"
  by (auto simp: reads_def split: sum.splits)

lemma reads_refl: "R W W \<Longrightarrow> R W (snd (reads label args f W))"
  by simp

lemma snd_if:
  "(c \<Longrightarrow> R W (snd x)) \<Longrightarrow> (\<not> c \<Longrightarrow> R W (snd y)) \<Longrightarrow> R W (snd (if c then x else y))"
  by simp

text \<open>What holds of the five handlers that change the world holds of the dispatcher's choice.\<close>

lemma handler_frame:
  assumes "R W W" and "\<And>l. R W (snd (log_emit l W))"
    and "\<And>path content a. R W (snd (fs_write H path content a W))"
    and "\<And>req. R W (snd (http_request H req W))"
    and "\<And>key content. R W (snd (s3_write H key content W))"
    and "\<And>q params. cap = ''db.execute'' \<Longrightarrow> R W (snd (db_execute H q params W))"
  shows "R W (snd (run_handler D H ctx cap args W))"
proof -
  have f1: "R W (snd (changes cap a (\<lambda>(level, msg, fields) W. case log_emit (l level msg fields) W of (v, W') \<Rightarrow> (Inr v, W')) W))"
    for a :: "string + (string option \<times> string \<times> json option)" and l
    by (rule changes_keeps) (use assms(1,2) in \<open>auto split: prod.splits\<close>, metis snd_conv)
  have f2: "R W (snd (changes cap a (\<lambda>(path, content, appending). fs_write H path content appending) W))" for a
    by (rule changes_keeps) (use assms(1,3) in \<open>auto split: prod.splits\<close>)
  have f3: "R W (snd (changes cap a (http_request H) W))" for a
    by (rule changes_keeps) (use assms(1,4) in auto)
  have f4: "R W (snd (changes cap a (\<lambda>(key, content). s3_write H key content) W))" for a
    by (rule changes_keeps) (use assms(1,5) in \<open>auto split: prod.splits\<close>)
  have f5: "R W (snd (changes cap a (\<lambda>(q, params). db_execute H q params) W))" if "cap = ''db.execute''" for a
    by (rule changes_keeps) (use assms(1) assms(6) [OF that] in \<open>auto split: prod.splits\<close>)
  have r: "R W (snd (h, W))" for h :: handled using assms(1) by simp
  show ?thesis
    unfolding run_handler_def
    by (intro snd_if [of _ R W] f1 f2 f3 f4 f5 r reads_refl [of R W, OF assms(1)])
qed

lemma handler_confined:
  assumes "he_follow H = id"
  shows "confined H W (snd (run_handler D H ctx cap args W))"
  by (rule handler_frame [where R = "confined H"])
     (simp_all add: confined_def hc_keep fs_write_confined [OF assms] s3_write_confined http_request_admitted)

definition changing_capabilities :: "string set" where
  "changing_capabilities = {''log.emit'', ''fs.write'', ''network.http'', ''s3.write'', ''db.execute''}"

lemma handler_reads:
  assumes "cap \<notin> changing_capabilities"
  shows "snd (run_handler D H ctx cap args W) = W"
proof -
  have "cap \<noteq> ''log.emit''" "cap \<noteq> ''fs.write''" "cap \<noteq> ''network.http''" "cap \<noteq> ''s3.write''" "cap \<noteq> ''db.execute''"
    using assms by (auto simp: changing_capabilities_def)
  then show ?thesis
    unfolding run_handler_def
    by (intro snd_if [of _ "\<lambda>W W'. W' = W" W]) (erule notE, assumption | simp only: snd_conv reads_keeps)+
qed

lemma handler_db:
  "cap \<noteq> ''db.execute'' \<Longrightarrow> hw_db (snd (run_handler D H ctx cap args W)) = hw_db W"
  by (rule handler_frame [where R = "\<lambda>W W'. hw_db W' = hw_db W"]) (simp_all add: hc_keep)

text \<open>
  The cases of a call that reach the handler; every other one leaves the world as it is.
\<close>

lemma dispatch_world:
  assumes "dispatch D H ctx env W = (reply, audit, W')"
  obtains "W' = W"
  | cap args granted where "de_envelope D env = Inr (cap, args)" "lookup_capability cap \<noteq> None"
      "granted_capabilities D ctx = Inr granted" "cap \<in> set granted" "W' = snd (run_handler D H ctx cap args W)"
  using assms by (auto simp: dispatch_def split: sum.splits prod.splits if_splits)


section \<open>The audit trail\<close>

fun hides_secrets :: "json \<Rightarrow> bool" where
  "hides_secrets (JObject m) \<longleftrightarrow>
     (\<forall>p \<in> set m. (masked_key (fst p) \<longrightarrow> snd p = JString ''***'') \<and> hides_secrets (snd p))"
| "hides_secrets (JArray arr) \<longleftrightarrow> (\<forall>v \<in> set arr. hides_secrets v)"
| "hides_secrets v \<longleftrightarrow> True"

lemma redact_hides: "hides_secrets (redact_args v)"
  by (induction v rule: redact_args.induct) auto

lemma summary_keys [simp]: "\<not> masked_key ''args''" "\<not> masked_key ''ok''"
  by (simp_all add: masked_key_def str_contains_def starts_with_def ascii_lower_def is_upper_def byte_def Let_def)

definition good_outcome :: "handled \<Rightarrow> bool" where
  "good_outcome h \<longleftrightarrow>
     (case h of
        (ReplyOk v, outcome, err) \<Rightarrow> outcome = ''success''
      | (ReplyErr n msg, outcome, err) \<Rightarrow> outcome = ''error'' \<and> n \<in> {4000, 5031, 5001})"

lemma good_to_reply: "good_outcome (to_reply r)"
  by (cases r) (simp_all add: good_outcome_def)

lemma good_reads: "good_outcome (fst (reads label a f W))"
  by (auto simp: reads_def good_to_reply split: sum.split) (simp add: args_err_def good_outcome_def)

lemma good_changes: "good_outcome (fst (changes label a f W))"
  by (auto simp: changes_def good_to_reply split: sum.split prod.split) (simp add: args_err_def good_outcome_def)

lemma good_if: "good_outcome (fst x) \<Longrightarrow> good_outcome (fst y) \<Longrightarrow> good_outcome (fst (if c then x else y))"
  by simp

lemma good_handler: "good_outcome (fst (run_handler D H ctx cap args W))"
  unfolding run_handler_def
  by (intro good_if good_reads good_changes) (simp_all add: good_outcome_def s3_disabled_def)


section \<open>Witnesses\<close>

definition demo_dispatch :: dispatch_env where
  "demo_dispatch =
     \<lparr>de_envelope = (\<lambda>s. Inr (s, JObject [(''token'', JString ''t'')])), de_log = (\<lambda>_. Inr (None, ''hi'', None)),
      de_fs_read = (\<lambda>_. Inr ''a''), de_fs_write = (\<lambda>_. Inr (''a'', ''x'', False)), de_http = (\<lambda>_. Inl []),
      de_s3_read = (\<lambda>_. Inl []), de_s3_write = (\<lambda>_. Inl []), de_secret = (\<lambda>_. Inl []), de_db = (\<lambda>_. Inl []),
      de_llm = (\<lambda>_. Inl []), de_permissions = (\<lambda>_. Inr []), de_time_now = JNull, de_has_s3 = False\<rparr>"

definition demo_dispatch_ctx :: host_dispatch_ctx where
  "demo_dispatch_ctx = \<lparr>dc_request_id = None, dc_session_id = None, dc_agent_id = 1, dc_plugin_id = 2, dc_function_id = None,
               dc_permissions = [''log.emit'']\<rparr>"

lemma demo_call:
  "dispatch demo_dispatch (demo_host\<lparr>he_follow := id\<rparr>) demo_dispatch_ctx ''log.emit'' demo_world =
     (ReplyOk (JObject []),
      [audit_of demo_dispatch_ctx (Some ''log.emit'') ''capability_call'' ''success'' None
         (Some (JObject [(''args'', redact_args (JObject [(''token'', JString ''t'')])), (''ok'', JBool True)]))],
      demo_world\<lparr>hw_log := [\<lparr>ll_level = ''info'', ll_message = ''hi'', ll_fields = None\<rparr>]\<rparr>)"
  by (simp add: dispatch_def demo_dispatch_def demo_dispatch_ctx_def lookup_capability_def capabilities_def
      granted_capabilities_def run_handler_def changes_def log_emit_def demo_world_def Let_def
      to_ascii_lowercase_def ascii_lower_def is_upper_def byte_def)



end
