(* ===== verification/Runner_Context.thy ===== *)
theory Runner_Context
  imports Session_History "HOL-Library.Multiset"
begin

text \<open>
  The context governance of the agent runner (crates/agent/src/runner.rs, lines 187 to 465): what
  happens to the messages of a turn before each call of the language model. Tool results without a
  call are dropped, calls without a result are answered by a placeholder, old results are shortened,
  long results are moved to files, and the history is cut to the token budget. The helpers of
  crates/utils/src/helpers.rs and runtime.rs that it calls are here too. The record \<open>persist_env\<close>
  stands for the file system calls and \<open>text_of\<close> for \<^verbatim>\<open>serde_json::to_string\<close>.
\<close>

section \<open>Pairing of calls and results\<close>

definition call_id :: "json \<Rightarrow> string option" where
  "call_id tc = Option.bind (jget tc ''id'') as_str"

definition call_name :: "json \<Rightarrow> string" where
  "call_name tc =
     (case Option.bind (Option.bind (jget tc ''function'') (\<lambda>f. jget f ''name'')) as_str of Some n \<Rightarrow> n | None \<Rightarrow> [])"

definition is_tool_msg :: "json \<Rightarrow> bool" where
  "is_tool_msg m \<longleftrightarrow> msg_role m = Some ''tool''"

definition calls_in :: "json \<Rightarrow> (string \<times> string) list" where
  "calls_in m =
     (if msg_role m = Some ''assistant''
      then List.map_filter (\<lambda>tc. map_option (\<lambda>i. (i, call_name tc)) (call_id tc)) (tool_calls_of m)
      else [])"

definition answered_id :: "json \<Rightarrow> string option" where
  "answered_id m = (if is_tool_msg m then Option.bind (jget m ''tool_call_id'') as_str else None)"

text \<open>
  The scan of \<^verbatim>\<open>drop_orphan_tool_results\<close>: \<open>updated\<close> is the copy that is made when the first orphan
  is found. A message without a role is skipped, so it is lost after that point.
\<close>

definition is_orphan :: "string list \<Rightarrow> json \<Rightarrow> bool" where
  "is_orphan declared m \<longleftrightarrow>
     is_tool_msg m \<and>
     (let tid = (case Option.bind (jget m ''tool_call_id'') as_str of Some t \<Rightarrow> t | None \<Rightarrow> [])
      in tid \<noteq> [] \<and> tid \<notin> set declared)"

fun orphan_scan :: "json list \<Rightarrow> nat \<Rightarrow> string list \<Rightarrow> json list option \<Rightarrow> json list \<Rightarrow> json list option" where
  "orphan_scan messages idx declared updated [] = updated"
| "orphan_scan messages idx declared updated (m # rest) =
     (if msg_role m = None then orphan_scan messages (Suc idx) declared updated rest
      else let declared' = declared @ map fst (calls_in m)
           in if is_orphan declared' m
              then orphan_scan messages (Suc idx) declared'
                     (Some (case updated of None \<Rightarrow> take idx messages | Some u \<Rightarrow> u)) rest
              else orphan_scan messages (Suc idx) declared' (map_option (\<lambda>u. u @ [m]) updated) rest)"

definition drop_orphan_tool_results :: "json list \<Rightarrow> json list" where
  "drop_orphan_tool_results messages =
     (case orphan_scan messages 0 [] None messages of Some u \<Rightarrow> u | None \<Rightarrow> messages)"

text \<open>
  \<^verbatim>\<open>backfill_missing_tool_results\<close>: the declared calls with the index of their message, the answered
  ids anywhere in the list, and the insertions, each after the tool messages that follow.
\<close>

definition backfill_content :: string where
  "backfill_content = ''[Tool result unavailable '' @ [CHR 0xE2, CHR 0x80, CHR 0x94] @ '' call was interrupted or lost]''"

definition synthetic_result :: "string \<times> string \<Rightarrow> json" where
  "synthetic_result c =
     JObject [(''role'', JString ''tool''), (''tool_call_id'', JString (fst c)), (''name'', JString (snd c)),
       (''content'', JString backfill_content)]"

definition declared_calls :: "nat \<Rightarrow> json list \<Rightarrow> (nat \<times> string \<times> string) list" where
  "declared_calls i ms = concat (map (\<lambda>(k, m). map (\<lambda>c. (k, c)) (calls_in m)) (enumerate i ms))"

definition fulfilled_ids :: "json list \<Rightarrow> string list" where
  "fulfilled_ids ms = List.map_filter answered_id ms"

definition insert_result :: "nat \<Rightarrow> string \<times> string \<Rightarrow> json list \<Rightarrow> json list" where
  "insert_result k c updated =
     (let at = k + length (takeWhile is_tool_msg (drop k updated))
      in take at updated @ synthetic_result c # drop at updated)"

fun insert_missing :: "nat \<Rightarrow> (nat \<times> string \<times> string) list \<Rightarrow> json list \<Rightarrow> json list" where
  "insert_missing off [] updated = updated"
| "insert_missing off ((idx, c) # missing) updated =
     insert_missing (Suc off) missing (insert_result (idx + 1 + off) c updated)"

definition backfill_missing_tool_results :: "json list \<Rightarrow> json list" where
  "backfill_missing_tool_results messages =
     (let missing = filter (\<lambda>d. fst (snd d) \<notin> set (fulfilled_ids messages)) (declared_calls 0 messages)
      in if missing = [] then messages else insert_missing 0 missing messages)"

section \<open>Shortening old results\<close>

definition compactable_tools :: "string list" where
  "compactable_tools = [''read_file'', ''exec'', ''grep'', ''web_search'', ''web_fetch'', ''list_dir'']"

definition microcompact_keep_recent :: nat where
  "microcompact_keep_recent = 10"

definition microcompact_min_chars :: nat where
  "microcompact_min_chars = 500"

definition msg_name :: "json \<Rightarrow> string option" where
  "msg_name m = Option.bind (jget m ''name'') as_str"

definition is_compactable :: "json \<Rightarrow> bool" where
  "is_compactable m \<longleftrightarrow> is_tool_msg m \<and> (case msg_name m of Some n \<Rightarrow> n \<in> set compactable_tools | None \<Rightarrow> False)"

definition omitted_result :: "json \<Rightarrow> json" where
  "omitted_result m =
     (let name = (case msg_name m of Some n \<Rightarrow> n | None \<Rightarrow> ''tool'')
      in JObject [(''role'', JString ''tool''),
           (''tool_call_id'', case jget m ''tool_call_id'' of Some v \<Rightarrow> v | None \<Rightarrow> JNull),
           (''name'', JString name), (''content'', JString (''['' @ name @ '' result omitted from context]''))])"

definition content_str :: "json \<Rightarrow> string" where
  "content_str m = (case Option.bind (jget m ''content'') as_str of Some s \<Rightarrow> s | None \<Rightarrow> [])"

definition microcompact :: "json list \<Rightarrow> json list" where
  "microcompact messages =
     (let compactable = filter (\<lambda>i. is_compactable (messages ! i)) [0..<length messages]
      in if length compactable \<le> microcompact_keep_recent then messages
         else fold (\<lambda>i u. if length (content_str (messages ! i)) < microcompact_min_chars then u
                           else u[i := omitted_result (messages ! i)])
                (take (length compactable - microcompact_keep_recent) compactable) messages)"

section \<open>Results moved to files\<close>

fun stringify_text_blocks :: "json list \<Rightarrow> string list \<Rightarrow> string option" where
  "stringify_text_blocks [] parts = Some (join [CHR 0x0A] parts)"
| "stringify_text_blocks (b # bs) parts =
     (case as_object b of
        None \<Rightarrow> None
      | Some m \<Rightarrow>
          if Option.bind (obj_get m ''type'') as_str \<noteq> Some ''text'' then None
          else (case Option.bind (obj_get m ''text'') as_str of
                  None \<Rightarrow> None
                | Some t \<Rightarrow> stringify_text_blocks bs (parts @ [t])))"

definition empty_tool_result_message :: "string \<Rightarrow> string" where
  "empty_tool_result_message name = ''('' @ name @ '' completed with no output)''"

definition is_blank_text :: "string option \<Rightarrow> bool" where
  "is_blank_text c \<longleftrightarrow> (case c of None \<Rightarrow> True | Some s \<Rightarrow> trim s = [])"

definition ensure_nonempty_tool_result :: "string \<Rightarrow> json \<Rightarrow> json" where
  "ensure_nonempty_tool_result name content =
     (let marker = JString (empty_tool_result_message name)
      in case content of
           JNull \<Rightarrow> marker
         | JString s \<Rightarrow> if trim s = [] then marker else content
         | JArray arr \<Rightarrow>
             if arr = [] then marker
             else (case stringify_text_blocks arr [] of
                     Some text \<Rightarrow> if trim text = [] then marker else content
                   | None \<Rightarrow> content)
         | _ \<Rightarrow> content)"

record persist_env =
  pe_mkdir :: "string \<Rightarrow> bool"
  pe_now :: nat
  pe_entries :: "string \<Rightarrow> (string \<rightharpoonup> string) \<Rightarrow> (string \<times> bool \<times> nat) list option"
  pe_remove_ok :: "string \<Rightarrow> bool"
  pe_write_ok :: "string \<Rightarrow> bool"
  pe_pretty :: "json \<Rightarrow> string"

type_synonym files = "string \<rightharpoonup> string"

definition dir_join :: "string \<Rightarrow> string \<Rightarrow> string" where
  "dir_join a b = (if a = [] \<or> last a = CHR ''/'' then a @ b else a @ ''/'' @ b)"

definition remove_dir_all :: "persist_env \<Rightarrow> string \<Rightarrow> files \<Rightarrow> files" where
  "remove_dir_all E d fs = (if pe_remove_ok E d then (\<lambda>p. if starts_with (d @ ''/'') p then None else fs p) else fs)"

definition tool_result_retention_secs :: nat where
  "tool_result_retention_secs = 7 * 24 * 60 * 60"

definition tool_result_max_buckets :: nat where
  "tool_result_max_buckets = 32"

text \<open>
  An entry of the root is its path, whether it is a directory, and its modification time. Expired
  buckets go, then the oldest beyond the limit; the current bucket stays. The times are read once.
\<close>

definition cleanup_tool_result_buckets :: "persist_env \<Rightarrow> string \<Rightarrow> string \<Rightarrow> files \<Rightarrow> files" where
  "cleanup_tool_result_buckets E root current fs =
     (case pe_entries E root fs of
        None \<Rightarrow> fs
      | Some entries \<Rightarrow>
          (let cutoff = pe_now E - tool_result_retention_secs;
               others = filter (\<lambda>(p, is_dir, t). p \<noteq> current \<and> is_dir) entries;
               expired = filter (\<lambda>(p, d, t). t < cutoff) others;
               fs' = fold (\<lambda>(p, d, t). remove_dir_all E p) expired fs;
               siblings = filter (\<lambda>(p, d, t). \<not> t < cutoff) others;
               keep = tool_result_max_buckets - 1
           in if length siblings \<le> keep then fs'
              else fold (\<lambda>(p, d, t). remove_dir_all E p)
                     (drop keep (sort_key (\<lambda>(p, d, t). - int t) siblings)) fs'))"

definition tool_result_preview_chars :: nat where
  "tool_result_preview_chars = 1200"

definition render_tool_result_reference :: "string \<Rightarrow> nat \<Rightarrow> string \<Rightarrow> bool \<Rightarrow> string" where
  "render_tool_result_reference filepath original_size preview truncated_preview =
     (let nl = [CHR 0x0A]
      in ''[tool output persisted]'' @ nl @ ''Full output saved to: '' @ filepath @ nl @ ''Original size: ''
         @ show_nat original_size @ '' chars'' @ nl @ ''Preview:'' @ nl @ preview
         @ (if truncated_preview then nl @ ''...'' @ nl @ ''(Read the saved file if you need the full output.)'' else []))"

definition tool_results_root :: "string \<Rightarrow> string" where
  "tool_results_root workspace = dir_join workspace ''.nanobot/tool-results''"

definition result_bucket :: "string \<Rightarrow> string option \<Rightarrow> string" where
  "result_bucket workspace session_key =
     dir_join (tool_results_root workspace)
       (safe_filename (case session_key of Some k \<Rightarrow> k | None \<Rightarrow> ''default''))"

definition maybe_persist_tool_result ::
  "persist_env \<Rightarrow> string option \<Rightarrow> string option \<Rightarrow> string \<Rightarrow> json \<Rightarrow> nat \<Rightarrow> files \<Rightarrow> json \<times> files" where
  "maybe_persist_tool_result E workspace session_key tool_call_id content max_chars fs =
     (case workspace of
        None \<Rightarrow> (content, fs)
      | Some ws \<Rightarrow>
          if max_chars = 0 then (content, fs)
          else (case (case content of
                        JString s \<Rightarrow> Some (s, ''txt'')
                      | JArray arr \<Rightarrow> map_option (\<lambda>s. (s, ''json'')) (stringify_text_blocks arr [])
                      | _ \<Rightarrow> None) of
                  None \<Rightarrow> (content, fs)
                | Some (text_payload, suffix) \<Rightarrow>
                    if chars_count text_payload \<le> max_chars then (content, fs)
                    else if \<not> pe_mkdir E (tool_results_root ws) then (content, fs)
                    else if \<not> pe_mkdir E (result_bucket ws session_key) then (content, fs)
                    else (let bucket = result_bucket ws session_key;
                              fs1 = cleanup_tool_result_buckets E (tool_results_root ws) bucket fs;
                              path = dir_join bucket (safe_filename tool_call_id @ ''.'' @ suffix);
                              text_out = (if suffix = ''json'' then pe_pretty E content else text_payload);
                              fs2 = (if fs1 path = None \<and> pe_write_ok E path then fs1(path \<mapsto> text_out) else fs1);
                              size = chars_count text_payload
                          in (JString (render_tool_result_reference path size
                                (take_chars tool_result_preview_chars text_payload)
                                (size > tool_result_preview_chars)), fs2))))"

record run_limits =
  rl_max_tool_result_chars :: nat
  rl_workspace :: "string option"
  rl_session_key :: "string option"
  rl_max_tokens :: "nat option"
  rl_context_window_tokens :: "nat option"
  rl_context_block_limit :: "nat option"

definition normalize_tool_result ::
  "persist_env \<Rightarrow> run_limits \<Rightarrow> string \<Rightarrow> string \<Rightarrow> json \<Rightarrow> files \<Rightarrow> json \<times> files" where
  "normalize_tool_result E spec tool_call_id name result fs =
     maybe_persist_tool_result E (rl_workspace spec) (rl_session_key spec) tool_call_id
       (ensure_nonempty_tool_result name result) (rl_max_tool_result_chars spec) fs"

definition set_content :: "json \<Rightarrow> json \<Rightarrow> json" where
  "set_content v m = (case m of JObject obj \<Rightarrow> JObject (obj_insert ''content'' v obj) | _ \<Rightarrow> m)"

text \<open>
  One message of \<^verbatim>\<open>apply_tool_result_budget\<close>. Writing an equal content back would not change the
  message, so the test for equality is left out.
\<close>

fun budget_from :: "persist_env \<Rightarrow> run_limits \<Rightarrow> nat \<Rightarrow> json list \<Rightarrow> files \<Rightarrow> json list \<times> files" where
  "budget_from E spec idx [] fs = ([], fs)"
| "budget_from E spec idx (m # ms) fs =
     (if is_tool_msg m
      then let tid = (case Option.bind (jget m ''tool_call_id'') as_str of Some t \<Rightarrow> t | None \<Rightarrow> ''tool_'' @ show_nat idx);
               name = (case msg_name m of Some n \<Rightarrow> n | None \<Rightarrow> ''tool'');
               content = (case jget m ''content'' of Some c \<Rightarrow> c | None \<Rightarrow> JNull);
               (normalized, fs') = normalize_tool_result E spec tid name content fs;
               (ms', fs'') = budget_from E spec (Suc idx) ms fs'
           in (set_content normalized m # ms', fs'')
      else let (ms', fs') = budget_from E spec (Suc idx) ms fs in (m # ms', fs'))"

definition apply_tool_result_budget :: "persist_env \<Rightarrow> run_limits \<Rightarrow> json list \<Rightarrow> files \<Rightarrow> json list \<times> files" where
  "apply_tool_result_budget E spec messages fs = budget_from E spec 0 messages fs"

section \<open>Cutting the history\<close>

definition char_based_token_estimate :: "string \<Rightarrow> nat" where
  "char_based_token_estimate text = (chars_count text + 3) div 4"

definition nonempty_str :: "json \<Rightarrow> string \<Rightarrow> string list" where
  "nonempty_str m key =
     (case Option.bind (jget m key) as_str of Some s \<Rightarrow> if s \<noteq> [] then [s] else [] | None \<Rightarrow> [])"

definition tool_calls_text :: "(json \<Rightarrow> string) \<Rightarrow> json \<Rightarrow> string list" where
  "tool_calls_text text_of m =
     (case jget m ''tool_calls'' of Some v \<Rightarrow> if v \<noteq> JNull then [text_of v] else [] | None \<Rightarrow> [])"

definition text_of_block :: "json \<Rightarrow> string list" where
  "text_of_block part =
     (if Option.bind (jget part ''type'') as_str = Some ''text'' then nonempty_str part ''text'' else [])"

definition prompt_parts :: "(json \<Rightarrow> string) \<Rightarrow> json \<Rightarrow> string list" where
  "prompt_parts text_of msg =
     (case jget msg ''content'' of
        Some (JString s) \<Rightarrow> [s]
      | Some (JArray arr) \<Rightarrow> concat (map text_of_block arr)
      | _ \<Rightarrow> [])
     @ tool_calls_text text_of msg @ nonempty_str msg ''reasoning_content''
     @ nonempty_str msg ''name'' @ nonempty_str msg ''tool_call_id''"

definition estimate_prompt_tokens :: "(json \<Rightarrow> string) \<Rightarrow> json list \<Rightarrow> json list option \<Rightarrow> nat" where
  "estimate_prompt_tokens text_of messages tools =
     char_based_token_estimate
       (join [CHR 0x0A] (concat (map (prompt_parts text_of) messages)
          @ (case tools of Some ts \<Rightarrow> [text_of (JArray ts)] | None \<Rightarrow> [])))
     + length messages * 4"

definition message_parts :: "(json \<Rightarrow> string) \<Rightarrow> json \<Rightarrow> string list" where
  "message_parts text_of msg =
     (case jget msg ''content'' of
        Some (JString s) \<Rightarrow> [s]
      | Some (JArray arr) \<Rightarrow>
          concat (map (\<lambda>part. if Option.bind (jget part ''type'') as_str = Some ''text''
                              then nonempty_str part ''text'' else [text_of part]) arr)
      | Some JNull \<Rightarrow> []
      | Some v \<Rightarrow> [text_of v]
      | None \<Rightarrow> [])
     @ nonempty_str msg ''name'' @ nonempty_str msg ''tool_call_id''
     @ tool_calls_text text_of msg @ nonempty_str msg ''reasoning_content''"

definition estimate_message_tokens :: "(json \<Rightarrow> string) \<Rightarrow> json \<Rightarrow> nat" where
  "estimate_message_tokens text_of msg =
     (let payload = join [CHR 0x0A] (message_parts text_of msg)
      in if payload = [] then 4 else max 4 (char_based_token_estimate payload + 4))"

definition snip_safety_buffer :: nat where
  "snip_safety_buffer = 1024"

text \<open>The loop over the messages from the last one back: \<open>kept\<close> is in the order of the history.\<close>

fun keep_recent :: "(json \<Rightarrow> nat) \<Rightarrow> nat \<Rightarrow> json list \<Rightarrow> nat \<Rightarrow> json list \<Rightarrow> json list" where
  "keep_recent tokens budget [] kept_tokens kept = kept"
| "keep_recent tokens budget (m # older) kept_tokens kept =
     (if kept \<noteq> [] \<and> kept_tokens + tokens m > budget then kept
      else keep_recent tokens budget older (kept_tokens + tokens m) (m # kept))"

definition start_at_user :: "json list \<Rightarrow> json list \<Rightarrow> json list" where
  "start_at_user non_system kept =
     (case position is_user kept of
        Some i \<Rightarrow> drop i kept
      | None \<Rightarrow> (case rposition is_user non_system of Some i \<Rightarrow> drop i non_system | None \<Rightarrow> kept))"

definition legal_part :: "json list \<Rightarrow> json list" where
  "legal_part kept = drop (find_legal_message_start kept) kept"

definition snip_budget :: "run_limits \<Rightarrow> nat \<Rightarrow> nat" where
  "snip_budget spec context_window =
     (case rl_context_block_limit spec of
        Some b \<Rightarrow> b
      | None \<Rightarrow>
          context_window - (case rl_max_tokens spec of Some t \<Rightarrow> t | None \<Rightarrow> 4096) - snip_safety_buffer)"

definition is_system :: "json \<Rightarrow> bool" where
  "is_system m \<longleftrightarrow> msg_role m = Some ''system''"

definition snipped :: "(json \<Rightarrow> string) \<Rightarrow> nat \<Rightarrow> json list \<Rightarrow> json list" where
  "snipped text_of budget messages =
     (let system = filter is_system messages;
          non_system = filter (\<lambda>m. \<not> is_system m) messages;
          system_tokens = sum_list (map (estimate_message_tokens text_of) system);
          kept = keep_recent (estimate_message_tokens text_of) (max 128 budget - system_tokens)
                   (rev non_system) 0 [];
          kept = (if kept \<noteq> [] then legal_part (start_at_user non_system kept) else kept);
          kept = (if kept = [] then legal_part (last_n 4 non_system) else kept)
      in system @ kept)"

definition snip_history :: "(json \<Rightarrow> string) \<Rightarrow> run_limits \<Rightarrow> json list \<Rightarrow> json list" where
  "snip_history text_of spec messages =
     (case rl_context_window_tokens spec of
        None \<Rightarrow> messages
      | Some window \<Rightarrow>
          if window = 0 then messages
          else let budget = snip_budget spec window
               in if budget = 0 then messages
                  else if estimate_prompt_tokens text_of messages None \<le> budget then messages
                  else if filter (\<lambda>m. \<not> is_system m) messages = [] then messages
                  else snipped text_of budget messages)"

text \<open>The steps before each call of the model, in the order of \<^verbatim>\<open>run\<close>.\<close>

definition governed_messages ::
  "persist_env \<Rightarrow> (json \<Rightarrow> string) \<Rightarrow> run_limits \<Rightarrow> json list \<Rightarrow> files \<Rightarrow> json list \<times> files" where
  "governed_messages E text_of spec messages fs =
     (let ms = drop_orphan_tool_results messages;
          ms = backfill_missing_tool_results ms;
          ms = microcompact ms;
          (ms, fs) = apply_tool_result_budget E spec ms fs;
          ms = snip_history text_of spec ms;
          ms = drop_orphan_tool_results ms
      in (backfill_missing_tool_results ms, fs))"

section \<open>Pairing lemmas\<close>

text \<open>\<open>paired_from D ms\<close>: in \<open>ms\<close>, after messages that declared \<open>D\<close>, no tool result is an orphan.\<close>

fun paired_from :: "string list \<Rightarrow> json list \<Rightarrow> bool" where
  "paired_from D [] \<longleftrightarrow> True"
| "paired_from D (m # ms) \<longleftrightarrow>
     \<not> is_orphan (D @ map fst (calls_in m)) m \<and> paired_from (D @ map fst (calls_in m)) ms"

text \<open>\<open>after_orphan\<close> is what the scan keeps once it has dropped a message, \<open>kept_messages\<close> what it keeps.\<close>

fun after_orphan :: "string list \<Rightarrow> json list \<Rightarrow> json list" where
  "after_orphan D [] = []"
| "after_orphan D (m # ms) =
     (if msg_role m = None then after_orphan D ms
      else if is_orphan (D @ map fst (calls_in m)) m then after_orphan (D @ map fst (calls_in m)) ms
      else m # after_orphan (D @ map fst (calls_in m)) ms)"

fun kept_messages :: "string list \<Rightarrow> json list \<Rightarrow> json list" where
  "kept_messages D [] = []"
| "kept_messages D (m # ms) =
     (if is_orphan (D @ map fst (calls_in m)) m then after_orphan (D @ map fst (calls_in m)) ms
      else m # kept_messages (D @ map fst (calls_in m)) ms)"

lemma calls_in_tool [simp]: "is_tool_msg m \<Longrightarrow> calls_in m = []"
  by (simp add: calls_in_def is_tool_msg_def)

lemma calls_in_no_role [simp]: "msg_role m = None \<Longrightarrow> calls_in m = []"
  by (simp add: calls_in_def)

lemma not_orphan_no_role [simp]: "msg_role m = None \<Longrightarrow> \<not> is_orphan D m"
  by (simp add: is_orphan_def is_tool_msg_def)

lemma orphan_scan_some: "orphan_scan messages idx D (Some u) rest = Some (u @ after_orphan D rest)"
  by (induction rest arbitrary: idx D u) (simp_all add: Let_def)

lemma paired_kept: "paired_from D ms \<Longrightarrow> kept_messages D ms = ms"
  by (induction ms arbitrary: D) simp_all

lemma orphan_scan_none:
  "idx \<le> length messages \<Longrightarrow> drop idx messages = rest \<Longrightarrow>
   orphan_scan messages idx D None rest =
     (if paired_from D rest then None else Some (take idx messages @ kept_messages D rest))"
proof (induction rest arbitrary: idx D)
  case (Cons m rest)
  have lt: "idx < length messages" using Cons.prems by (metis drop_all linorder_not_less list.distinct(1))
  then have m: "messages ! idx = m" and rest: "drop (Suc idx) messages = rest"
    using Cons.prems by (metis Cons_nth_drop_Suc list.inject)+
  have IH: "orphan_scan messages (Suc idx) D' None rest =
      (if paired_from D' rest then None else Some (take (Suc idx) messages @ kept_messages D' rest))" for D'
    using Cons.IH [of "Suc idx" D'] lt rest by simp
  have snoc: "take (Suc idx) messages = take idx messages @ [m]" using lt m by (simp add: take_Suc_conv_app_nth)
  show ?case by (simp add: Let_def IH snoc orphan_scan_some)
qed simp

lemma drop_orphans_eq: "drop_orphan_tool_results ms = kept_messages [] ms"
  using orphan_scan_none [of 0 ms ms "[]"] by (simp add: drop_orphan_tool_results_def paired_kept)

lemma is_orphan_mono: "set D \<subseteq> set D' \<Longrightarrow> is_orphan D' m \<Longrightarrow> is_orphan D m"
  by (auto simp: is_orphan_def Let_def)

lemma paired_after: "paired_from D (after_orphan D ms)"
  by (induction ms arbitrary: D) (auto simp: is_orphan_def)

lemma paired_kept_messages: "paired_from D (kept_messages D ms)"
proof (induction ms arbitrary: D)
  case (Cons m ms)
  show ?case
  proof (cases "is_orphan (D @ map fst (calls_in m)) m")
    case True
    then have "calls_in m = []" by (simp add: is_orphan_def)
    then show ?thesis using True paired_after by simp
  qed (simp add: Cons)
qed simp

section \<open>Backfilling\<close>

text \<open>The reference: after the results that follow a message, one result per unanswered call.\<close>

definition unanswered_in :: "string list \<Rightarrow> json \<Rightarrow> (string \<times> string) list" where
  "unanswered_in F m = filter (\<lambda>c. fst c \<notin> set F) (calls_in m)"

function answer_missing :: "string list \<Rightarrow> json list \<Rightarrow> json list" where
  "answer_missing F [] = []"
| "answer_missing F (m # ms) =
     m # takeWhile is_tool_msg ms @ map synthetic_result (unanswered_in F m)
       @ answer_missing F (dropWhile is_tool_msg ms)"
  by pat_completeness auto
termination
  by (relation "measure (\<lambda>(F, ms). length ms)") (auto simp: le_imp_less_Suc length_dropWhile_le)

lemma is_tool_synthetic [simp]: "is_tool_msg (synthetic_result c)"
  by (simp add: synthetic_result_def is_tool_msg_def msg_role_def)

lemma answered_synthetic [simp]: "answered_id (synthetic_result c) = Some (fst c)"
  by (simp add: answered_id_def) (simp add: synthetic_result_def)

lemma insert_result_block:
  assumes "k = Suc (length pre) + j" "j \<le> length ts" "\<forall>t \<in> set ts. is_tool_msg t" "takeWhile is_tool_msg rest = []"
  shows "insert_result k c (pre @ m # ts @ rest) = pre @ m # ts @ synthetic_result c # rest"
proof -
  have "takeWhile is_tool_msg (drop k (pre @ m # ts @ rest)) = drop j ts"
    using assms by (simp add: takeWhile_append2 in_set_dropD takeWhile_tail)
  then show ?thesis using assms(1,2) by (simp add: insert_result_def)
qed

lemma insert_missing_block:
  assumes "length pre + j = b + off" "j \<le> length ts" "\<forall>t \<in> set ts. is_tool_msg t" "takeWhile is_tool_msg rest = []"
  shows "insert_missing off (map (Pair b) cs @ ys) (pre @ m # ts @ rest)
    = insert_missing (off + length cs) ys (pre @ m # ts @ map synthetic_result cs @ rest)"
  using assms
proof (induction cs arbitrary: off j ts)
  case (Cons c cs)
  have "insert_result (b + 1 + off) c (pre @ m # ts @ rest) = pre @ m # (ts @ [synthetic_result c]) @ rest"
    using Cons.prems insert_result_block [of "b + 1 + off" pre j ts rest c m] by simp
  then show ?case using Cons.IH [of "Suc j" "Suc off" "ts @ [synthetic_result c]"] Cons.prems by simp
qed simp

lemma declared_calls_Cons: "declared_calls b (m # ms) = map (Pair b) (calls_in m) @ declared_calls (Suc b) ms"
  by (simp add: declared_calls_def)

lemma declared_calls_tools:
  "\<forall>t \<in> set ts. is_tool_msg t \<Longrightarrow> declared_calls b (ts @ ms) = declared_calls (b + length ts) ms"
  by (induction ts arbitrary: b) (simp_all add: declared_calls_Cons)

lemma takeWhile_dropWhile_Nil: "takeWhile P (dropWhile P xs) = []"
  by (induction xs) auto

lemma insert_missing_eq:
  "length pre = b + off \<Longrightarrow>
   insert_missing off (filter (\<lambda>d. fst (snd d) \<notin> set F) (declared_calls b ms)) (pre @ ms) = pre @ answer_missing F ms"
proof (induction F ms arbitrary: pre b off rule: answer_missing.induct)
  case (2 F m ms)
  let ?ts = "takeWhile is_tool_msg ms" and ?rest = "dropWhile is_tool_msg ms" and ?cs = "unanswered_in F m"
  have ts: "\<forall>t \<in> set ?ts. is_tool_msg t" by (auto dest: set_takeWhileD)
  have rest: "takeWhile is_tool_msg ?rest = []" by (rule takeWhile_dropWhile_Nil)
  have split: "ms = ?ts @ ?rest" by simp
  have "declared_calls b (m # ms) = map (Pair b) (calls_in m) @ declared_calls (Suc b + length ?ts) ?rest"
    using declared_calls_tools [OF ts, of "Suc b" ?rest] by (simp add: declared_calls_Cons)
  then have "filter (\<lambda>d. fst (snd d) \<notin> set F) (declared_calls b (m # ms))
      = map (Pair b) ?cs @ filter (\<lambda>d. fst (snd d) \<notin> set F) (declared_calls (Suc b + length ?ts) ?rest)"
    by (simp add: unanswered_in_def filter_map comp_def)
  moreover have "insert_missing off (map (Pair b) ?cs @ ys) (pre @ m # ?ts @ ?rest)
      = insert_missing (off + length ?cs) ys ((pre @ m # ?ts @ map synthetic_result ?cs) @ ?rest)" for ys
    using insert_missing_block [of pre 0 b off ?ts ?rest] 2(2) ts rest by simp
  ultimately show ?case
    using 2(1) [of "pre @ m # ?ts @ map synthetic_result ?cs" "Suc b + length ?ts" "off + length ?cs"] 2(2) by simp
qed (simp add: declared_calls_def)

lemma answer_missing_none:
  "filter (\<lambda>d. fst (snd d) \<notin> set F) (declared_calls b ms) = [] \<Longrightarrow> answer_missing F ms = ms"
  using insert_missing_eq [of "replicate b JNull" b 0 F ms] by simp

lemma backfill_eq: "backfill_missing_tool_results ms = answer_missing (fulfilled_ids ms) ms"
  using insert_missing_eq [of "[]" 0 0 "fulfilled_ids ms" ms] answer_missing_none [of "fulfilled_ids ms" 0 ms]
  by (auto simp: backfill_missing_tool_results_def Let_def)

lemma set_answer_missing: "set ms \<subseteq> set (answer_missing F ms)"
proof (induction F ms rule: answer_missing.induct)
  case (2 F m ms)
  have "set ms = set (takeWhile is_tool_msg ms) \<union> set (dropWhile is_tool_msg ms)"
    by (metis set_append takeWhile_dropWhile_id)
  then show ?case using 2 by auto
qed simp

lemma answer_missing_mem:
  "x \<in> set (answer_missing F ms) \<Longrightarrow> x \<in> set ms \<or> is_tool_msg x"
proof (induction F ms rule: answer_missing.induct)
  case (2 F m ms)
  then show ?case by (auto dest: set_takeWhileD set_dropWhileD)
qed simp

lemma answer_missing_answers:
  "m \<in> set ms \<Longrightarrow> c \<in> set (unanswered_in F m) \<Longrightarrow> synthetic_result c \<in> set (answer_missing F ms)"
proof (induction F ms rule: answer_missing.induct)
  case (2 F m' ms)
  show ?case
  proof (cases "m = m'")
    case False
    then have "m \<in> set (takeWhile is_tool_msg ms) \<or> m \<in> set (dropWhile is_tool_msg ms)"
      using 2(2) by (metis set_ConsD set_append takeWhile_dropWhile_id Un_iff)
    moreover have "\<not> is_tool_msg m" using 2(3) by (auto simp: unanswered_in_def)
    ultimately show ?thesis using 2 by (auto dest: set_takeWhileD)
  qed (use 2(3) in auto)
qed simp

lemma paired_tools:
  assumes "\<forall>t \<in> set ts. is_tool_msg t"
  shows "paired_from D (ts @ ms) \<longleftrightarrow> (\<forall>t \<in> set ts. \<not> is_orphan D t) \<and> paired_from D ms"
  using assms by (induction ts) auto

lemma paired_answer_missing: "paired_from D ms \<Longrightarrow> paired_from D (answer_missing F ms)"
proof (induction F ms arbitrary: D rule: answer_missing.induct)
  case (2 F m ms)
  let ?D = "D @ map fst (calls_in m)" and ?ts = "takeWhile is_tool_msg ms" and ?rest = "dropWhile is_tool_msg ms"
  have ts: "\<forall>t \<in> set ?ts. is_tool_msg t" by (auto dest: set_takeWhileD)
  have "paired_from ?D (?ts @ ?rest)" using 2(2) by simp
  then have rest: "\<forall>t \<in> set ?ts. \<not> is_orphan ?D t" "paired_from ?D ?rest" using paired_tools [OF ts] by blast+
  have synth: "\<not> is_orphan ?D (synthetic_result c)" if "c \<in> set (unanswered_in F m)" for c
    using that by (auto simp: is_orphan_def unanswered_in_def synthetic_result_def)
  have tools: "\<forall>t \<in> set (?ts @ map synthetic_result (unanswered_in F m)). is_tool_msg t"
    using ts by auto
  have "paired_from ?D ((?ts @ map synthetic_result (unanswered_in F m)) @ answer_missing F ?rest)"
    unfolding paired_tools [OF tools] using rest synth 2(1) [of ?D] by auto
  then show ?case using 2(2) by simp
qed simp

text \<open>
  What a provider demands of a conversation: every tool result answers a call of an earlier
  assistant message, and every call has a result.
\<close>

definition results_declared :: "json list \<Rightarrow> bool" where
  "results_declared ms \<longleftrightarrow>
     (\<forall>i < length ms. \<forall>t. answered_id (ms ! i) = Some t \<longrightarrow> t \<noteq> [] \<longrightarrow>
        (\<exists>j < i. t \<in> fst ` set (calls_in (ms ! j))))"

definition calls_answered :: "json list \<Rightarrow> bool" where
  "calls_answered ms \<longleftrightarrow>
     (\<forall>m \<in> set ms. \<forall>c \<in> fst ` set (calls_in m). \<exists>r \<in> set ms. answered_id r = Some c)"

lemma is_orphan_iff: "is_orphan D m \<longleftrightarrow> (\<exists>t. answered_id m = Some t \<and> t \<noteq> [] \<and> t \<notin> set D)"
  by (auto simp: is_orphan_def answered_id_def Let_def split: option.splits)

lemma answered_no_calls: "answered_id m = Some t \<Longrightarrow> calls_in m = []"
  by (simp add: answered_id_def split: if_splits)

lemma paired_from_nth:
  "paired_from D ms \<longleftrightarrow>
     (\<forall>i < length ms. \<forall>t. answered_id (ms ! i) = Some t \<longrightarrow> t \<noteq> [] \<longrightarrow>
        t \<in> set D \<or> (\<exists>j < i. t \<in> fst ` set (calls_in (ms ! j))))"
proof (induction ms arbitrary: D)
  case (Cons m ms)
  have "is_orphan (D @ map fst (calls_in m)) m \<longleftrightarrow> is_orphan D m"
    using answered_no_calls [of m] by (auto simp: is_orphan_iff)
  then show ?case
    unfolding paired_from.simps Cons by (auto simp: is_orphan_iff All_less_Suc2 Ex_less_Suc2)
qed simp

lemma results_declared_iff: "results_declared ms \<longleftrightarrow> paired_from [] ms"
  by (simp add: results_declared_def paired_from_nth)

lemma drop_orphans_declared: "results_declared (drop_orphan_tool_results ms)"
  by (simp add: results_declared_iff drop_orphans_eq paired_kept_messages)

lemma backfill_declared: "results_declared ms \<Longrightarrow> results_declared (backfill_missing_tool_results ms)"
  by (simp add: results_declared_iff backfill_eq paired_answer_missing)

lemma fulfilled_iff: "c \<in> set (fulfilled_ids ms) \<longleftrightarrow> (\<exists>r \<in> set ms. answered_id r = Some c)"
  by (induction ms) (auto simp: fulfilled_ids_def List.map_filter_simps split: option.splits)

lemma backfill_answered: "calls_answered (backfill_missing_tool_results ms)"
  unfolding calls_answered_def
proof (intro ballI)
  fix m c assume m: "m \<in> set (backfill_missing_tool_results ms)" and c: "c \<in> fst ` set (calls_in m)"
  from c obtain n where cn: "(c, n) \<in> set (calls_in m)" by force
  then have "\<not> is_tool_msg m" by auto
  then have mem: "m \<in> set ms" using m answer_missing_mem by (auto simp: backfill_eq)
  show "\<exists>r \<in> set (backfill_missing_tool_results ms). answered_id r = Some c"
  proof (cases "c \<in> set (fulfilled_ids ms)")
    case True
    then show ?thesis using set_answer_missing by (fastforce simp: fulfilled_iff backfill_eq)
  next
    case False
    then have "(c, n) \<in> set (unanswered_in (fulfilled_ids ms) m)" using cn by (simp add: unanswered_in_def)
    from answer_missing_answers [OF mem this] show ?thesis by (force simp: backfill_eq)
  qed
qed

section \<open>Shortening touches only old results\<close>

lemma mem_take_split:
  "distinct (xs @ i # ys) \<Longrightarrow> i \<in> set (take n (xs @ i # ys)) \<longleftrightarrow> length xs < n"
  by (auto simp: take_Cons' dest: in_set_takeD)

lemma stale_iff:
  assumes "i < n" "P i"
  shows "i \<in> set (take (length (filter P [0..<n]) - k) (filter P [0..<n])) \<longleftrightarrow> k \<le> length (filter P [Suc i..<n])"
proof -
  have "[0..<n] = [0..<i] @ i # [Suc i..<n]"
    using assms(1) by (metis le0 less_imp_le_nat upt_add_eq_append upt_conv_Cons le_add_diff_inverse plus_nat.add_0)
  then have f: "filter P [0..<n] = filter P [0..<i] @ i # filter P [Suc i..<n]" using assms(2) by simp
  moreover have "distinct (filter P [0..<n])" by simp
  ultimately have "i \<in> set (take m (filter P [0..<n])) \<longleftrightarrow> length (filter P [0..<i]) < m" for m
    using mem_take_split by metis
  then have "i \<in> set (take (length (filter P [0..<n]) - k) (filter P [0..<n]))
      \<longleftrightarrow> length (filter P [0..<i]) < length (filter P [0..<n]) - k" .
  also have "\<dots> \<longleftrightarrow> k \<le> length (filter P [Suc i..<n])" unfolding f length_append list.size by arith
  finally show ?thesis .
qed

lemma fold_update_nth:
  assumes "distinct is"
  shows "i < length u \<Longrightarrow> fold (\<lambda>i u. if Q i then u else u[i := f i]) is u ! i
    = (if i \<in> set is \<and> \<not> Q i then f i else u ! i)"
  using assms
proof (induction "is" arbitrary: u)
  case (Cons a "is")
  then show ?case by (cases "a = i") auto
qed simp

lemma length_fold_update: "length (fold (\<lambda>i u. if Q i then u else u[i := f i]) is u) = length u"
  by (induction "is" arbitrary: u) auto

lemma filter_nth_drop: "length (filter (\<lambda>i. P (xs ! i)) [k..<length xs]) = length (filter P (drop k xs))"
proof -
  have "drop k xs = map ((!) xs) [k..<length xs]"
    by (metis drop_map drop_upt map_nth add_0)
  then show ?thesis by (simp add: filter_map comp_def)
qed

lemma length_microcompact [simp]: "length (microcompact ms) = length ms"
  by (simp add: microcompact_def Let_def length_fold_update)

lemma microcompact_nth:
  assumes "i < length ms"
  shows "microcompact ms ! i =
    (if is_compactable (ms ! i) \<and> 10 \<le> length (filter is_compactable (drop (Suc i) ms))
        \<and> 500 \<le> length (content_str (ms ! i))
     then omitted_result (ms ! i) else ms ! i)"
proof -
  let ?C = "filter (\<lambda>i. is_compactable (ms ! i)) [0..<length ms]"
  let ?S = "take (length ?C - 10) ?C"
  have S: "i \<in> set ?S \<longleftrightarrow> is_compactable (ms ! i) \<and> 10 \<le> length (filter is_compactable (drop (Suc i) ms))"
  proof (cases "is_compactable (ms ! i)")
    case True
    then show ?thesis using stale_iff [OF assms, of "\<lambda>i. is_compactable (ms ! i)" 10] by (simp add: filter_nth_drop)
  qed (auto dest: in_set_takeD)
  have "microcompact ms ! i = (if i \<in> set ?S \<and> \<not> length (content_str (ms ! i)) < 500 then omitted_result (ms ! i) else ms ! i)"
    unfolding microcompact_def Let_def microcompact_keep_recent_def microcompact_min_chars_def
    using assms by (simp add: fold_update_nth)
  then show ?thesis unfolding S by auto
qed

section \<open>Properties\<close>


text \<open>
  (C31) The insertion with running offsets computes the plain recursive definition: each message is
  followed by the results it already had and then by one placeholder per unanswered call, in the
  order of the calls.
\<close>

theorem backfill_is_reference:
  "backfill_missing_tool_results messages = answer_missing (fulfilled_ids messages) messages"
  by (rule backfill_eq)

text \<open>
  A stale result is shortened exactly when it comes from a compactable tool, at least ten results
  of such tools follow it and it has at least 500 bytes; every other message is unchanged, and the
  list keeps its length.
\<close>

theorem microcompact_shortens_only_stale_results:
  "length (microcompact ms) = length ms \<and>
   map (\<lambda>i. microcompact ms ! i) [0..<length ms] =
   map (\<lambda>i. if is_compactable (ms ! i) \<and> 10 \<le> length (filter is_compactable (drop (Suc i) ms))
                \<and> 500 \<le> length (content_str (ms ! i))
             then omitted_result (ms ! i) else ms ! i) [0..<length ms]"
  using microcompact_nth by auto

text \<open>
  A call id that a later assistant message uses again is not answered a second time: the result of
  the first call counts for both, and the conversation ends with a call that has no result after it.
\<close>

theorem reused_call_id_stays_unanswered:
  "backfill_missing_tool_results
     (drop_orphan_tool_results [demo_call ''call_0'', demo_result ''call_0'', demo_call ''call_0''])
   = [demo_call ''call_0'', demo_result ''call_0'', demo_call ''call_0'']"
  by (simp add: drop_orphans_eq backfill_eq demo_call_def demo_result_def is_orphan_def is_tool_msg_def msg_role_def
      calls_in_def tool_calls_of_def call_id_def List.map_filter_simps call_name_def unanswered_in_def
      fulfilled_ids_def answered_id_def)

definition open_disk :: persist_env where
  "open_disk = \<lparr>pe_mkdir = (\<lambda>_. True), pe_now = 0, pe_entries = (\<lambda>_ _. None), pe_remove_ok = (\<lambda>_. False),
     pe_write_ok = (\<lambda>_. True), pe_pretty = (\<lambda>_. [])\<rparr>"

definition second_reference :: "json \<times> string option" where
  "second_reference =
     (let persist = (\<lambda>text fs. maybe_persist_tool_result open_disk (Some ''ws'') (Some ''cli'') ''call_0'' (JString text) 2 fs);
          (r1, fs1) = persist ''first'' Map.empty;
          (r2, fs2) = persist ''other'' fs1
      in (r2, fs2 ''ws/.nanobot/tool-results/cli/call_0.txt''))"

text \<open>
  A long result is written to a file named after its call id unless that file exists. When an id is
  used again in the session, the reference given to the model says that the full output is in the
  file, but the file holds the output of the first call.
\<close>

theorem persisted_reference_can_be_stale:
  "second_reference =
     (JString (render_tool_result_reference ''ws/.nanobot/tool-results/cli/call_0.txt'' 5 ''other'' False), Some ''first'')"
  by code_simp

end
