(* ===== verification/Tool_Schema.thy ===== *)
theory Tool_Schema
  imports HC_Json HC_Text "HOL-Library.Word"
begin

text \<open>
  Parameters of agent tools (crates/agent/src/tools/schema.rs and the casts of tools/base.rs): the
  arguments a language model writes are cast to the types of the tool's JSON schema and then
  validated against it. The record \<open>schema_lib\<close> stands for \<^verbatim>\<open>serde_json::to_string\<close> and for the
  decimal reading and printing of an \<^verbatim>\<open>f64\<close>; a double is its bits, and its order and the rounding
  of integers to it are written out.
\<close>

record schema_lib =
  sl_to_string :: "json \<Rightarrow> string"
  sl_parse_f64 :: "string \<Rightarrow> 64 word option"
  sl_show_f64 :: "64 word \<Rightarrow> string"

section \<open>Numbers\<close>

text \<open>
  Sign and magnitude of a double; a magnitude above that of infinity is a NaN. Comparison with a
  NaN is false, the two zeros are equal.
\<close>

definition f64_mag :: "64 word \<Rightarrow> nat" where
  "f64_mag w = unat w mod 2 ^ 63"

definition f64_nan :: "64 word \<Rightarrow> bool" where
  "f64_nan w \<longleftrightarrow> f64_mag w > 0x7FF0000000000000"

definition f64_finite :: "64 word \<Rightarrow> bool" where
  "f64_finite w \<longleftrightarrow> f64_mag w < 0x7FF0000000000000"

definition f64_key :: "64 word \<Rightarrow> int" where
  "f64_key w = (if unat w < 2 ^ 63 then int (f64_mag w) else - int (f64_mag w))"

definition f64_less :: "64 word \<Rightarrow> 64 word \<Rightarrow> bool" where
  "f64_less a b \<longleftrightarrow> \<not> f64_nan a \<and> \<not> f64_nan b \<and> f64_key a < f64_key b"

definition f64_equal :: "64 word \<Rightarrow> 64 word \<Rightarrow> bool" where
  "f64_equal a b \<longleftrightarrow> \<not> f64_nan a \<and> \<not> f64_nan b \<and> f64_key a = f64_key b"

text \<open>\<^verbatim>\<open>n as f64\<close> for the integers a JSON number holds: round to nearest, ties to even.\<close>

fun bit_length :: "nat \<Rightarrow> nat" where
  "bit_length n = (if n = 0 then 0 else Suc (bit_length (n div 2)))"

declare bit_length.simps [simp del]

definition f64_of_nat :: "nat \<Rightarrow> nat" where
  "f64_of_nat n =
     (if n = 0 then 0
      else let e = bit_length n - 1
           in if e \<le> 52 then (e + 1023) * 2 ^ 52 + (n * 2 ^ (52 - e) - 2 ^ 52)
              else let s = e - 52; q = n div 2 ^ s; r = n mod 2 ^ s; half = 2 ^ (s - 1);
                       q' = (if r > half \<or> (r = half \<and> odd q) then q + 1 else q)
                   in (e + 1023) * 2 ^ 52 + (q' - 2 ^ 52))"

definition f64_of_int :: "int \<Rightarrow> 64 word" where
  "f64_of_int n = of_nat ((if n < 0 then 2 ^ 63 else 0) + f64_of_nat (nat \<bar>n\<bar>))"

fun as_f64 :: "json \<Rightarrow> 64 word option" where
  "as_f64 (JNumber (NumInt n)) = Some (f64_of_int n)"
| "as_f64 (JNumber (NumFloat w)) = Some w"
| "as_f64 _ = None"

text \<open>\<^verbatim>\<open>serde_json::Number::from_f64\<close>: only finite doubles are numbers.\<close>

definition number_from_f64 :: "64 word \<Rightarrow> json option" where
  "number_from_f64 w = (if f64_finite w then Some (JNumber (NumFloat w)) else None)"

text \<open>\<^verbatim>\<open>str::parse::<i64>\<close>: an optional sign, at least one digit, no overflow.\<close>

fun digits_val :: "nat \<Rightarrow> string \<Rightarrow> nat option" where
  "digits_val acc [] = Some acc"
| "digits_val acc (c # s) =
     (if 48 \<le> byte c \<and> byte c \<le> 57 then digits_val (acc * 10 + (byte c - 48)) s else None)"

definition parse_i64 :: "string \<Rightarrow> int option" where
  "parse_i64 s =
     (let (neg, ds) = (case s of c # t \<Rightarrow> if c = CHR ''-'' then (True, t) else if c = CHR ''+'' then (False, t)
                                         else (False, s)
                       | [] \<Rightarrow> (False, []))
      in if ds = [] then None
         else Option.bind (digits_val 0 ds) (\<lambda>n.
           let v = (if neg then - int n else int n)
           in if - (2 ^ 63) \<le> v \<and> v < 2 ^ 63 then Some v else None))"

text \<open>
  \<^verbatim>\<open>==\<close> on JSON values: an integer never equals a double, objects are compared without their
  order.
\<close>

fun number_eq :: "json_number \<Rightarrow> json_number \<Rightarrow> bool" where
  "number_eq (NumInt a) (NumInt b) = (a = b)"
| "number_eq (NumFloat a) (NumFloat b) = f64_equal a b"
| "number_eq _ _ = False"

function (sequential) json_eq :: "json \<Rightarrow> json \<Rightarrow> bool" where
  "json_eq JNull JNull = True"
| "json_eq (JBool a) (JBool b) = (a = b)"
| "json_eq (JNumber a) (JNumber b) = number_eq a b"
| "json_eq (JString a) (JString b) = (a = b)"
| "json_eq (JArray a) (JArray b) = (length a = length b \<and> list_all (\<lambda>p. json_eq (fst p) (snd p)) (zip a b))"
| "json_eq (JObject a) (JObject b) =
     (length a = length b \<and>
      list_all (\<lambda>p. case obj_get b (fst p) of Some v \<Rightarrow> json_eq (snd p) v | None \<Rightarrow> False) a)"
| "json_eq _ _ = False"
  by pat_completeness auto

lemma size_elem: "v \<in> set arr \<Longrightarrow> size v < size (JArray arr)"
  by (induction arr) auto

lemma size_entry: "p \<in> set m \<Longrightarrow> size (snd p) < size (JObject m)"
  by (induction m) (auto simp: less_Suc_eq_le intro: le_trans)

termination json_eq
  by (relation "measure (\<lambda>(a, b). size a)") (auto dest!: set_zip_leftD size_elem size_entry)

section \<open>Casts\<close>

fun first_nonnull :: "json list \<Rightarrow> string option" where
  "first_nonnull [] = None"
| "first_nonnull (v # vs) =
     (case as_str v of Some s \<Rightarrow> if s \<noteq> ''null'' then Some s else first_nonnull vs | None \<Rightarrow> first_nonnull vs)"

fun resolve_json_schema_type :: "json \<Rightarrow> string option" where
  "resolve_json_schema_type (JString s) = Some s"
| "resolve_json_schema_type (JArray items) = first_nonnull items"
| "resolve_json_schema_type _ = None"

fun type_name :: "json \<Rightarrow> string" where
  "type_name JNull = ''null''"
| "type_name (JBool _) = ''bool''"
| "type_name (JNumber _) = ''number''"
| "type_name (JString _) = ''string''"
| "type_name (JArray _) = ''list''"
| "type_name (JObject _) = ''dict''"

fun is_integer :: "json \<Rightarrow> bool" where
  "is_integer (JNumber (NumInt n)) = (as_i64 (JNumber (NumInt n)) \<noteq> None \<or> as_u64 (JNumber (NumInt n)) \<noteq> None)"
| "is_integer _ = False"

fun is_number_non_bool :: "json \<Rightarrow> bool" where
  "is_number_non_bool (JNumber _) = True"
| "is_number_non_bool _ = False"

fun is_string :: "json \<Rightarrow> bool" where
  "is_string (JString _) = True"
| "is_string _ = False"

fun is_boolean :: "json \<Rightarrow> bool" where
  "is_boolean (JBool _) = True"
| "is_boolean _ = False"

fun is_array :: "json \<Rightarrow> bool" where
  "is_array (JArray _) = True"
| "is_array _ = False"

definition schema_props :: "json \<Rightarrow> jmap" where
  "schema_props schema = (case Option.bind (jget schema ''properties'') as_object of Some m \<Rightarrow> m | None \<Rightarrow> [])"

text \<open>The branches of \<^verbatim>\<open>cast_value\<close> for a scalar type.\<close>

definition cast_boolean :: "json \<Rightarrow> json" where
  "cast_boolean val =
     (case val of
        JString s \<Rightarrow>
          (let low = to_ascii_lowercase s
           in if low \<in> {''true'', ''1'', ''yes''} then JBool True
              else if low \<in> {''false'', ''0'', ''no''} then JBool False else val)
      | _ \<Rightarrow> val)"

definition cast_integer :: "json \<Rightarrow> json" where
  "cast_integer val =
     (if is_integer val then val
      else case Option.bind (as_str val) parse_i64 of Some n \<Rightarrow> JNumber (NumInt n) | None \<Rightarrow> val)"

definition cast_number :: "schema_lib \<Rightarrow> json \<Rightarrow> json" where
  "cast_number L val =
     (case as_f64 val of
        Some n \<Rightarrow> (case number_from_f64 n of Some v \<Rightarrow> v | None \<Rightarrow> val)
      | None \<Rightarrow>
          (case Option.bind (Option.bind (as_str val) (sl_parse_f64 L)) number_from_f64 of
             Some v \<Rightarrow> v
           | None \<Rightarrow> val))"

definition cast_string :: "schema_lib \<Rightarrow> json \<Rightarrow> json" where
  "cast_string L val = (if val = JNull \<or> is_string val then val else JString (sl_to_string L val))"

text \<open>
  Arrays and objects are cast element by element. The keys of an object are distinct, so the
  insertions into the fresh map append its entries in order.
\<close>

function (sequential) cast_value :: "schema_lib \<Rightarrow> json \<Rightarrow> json \<Rightarrow> json"
  and cast_object :: "schema_lib \<Rightarrow> json \<Rightarrow> json \<Rightarrow> json" where
  "cast_value L val schema =
     (case Option.bind (jget schema ''type'') resolve_json_schema_type of
        None \<Rightarrow> val
      | Some t \<Rightarrow>
          if t = ''boolean'' then cast_boolean val
          else if t = ''integer'' then cast_integer val
          else if t = ''number'' then cast_number L val
          else if t = ''string'' then cast_string L val
          else if t = ''array'' then
            (case val of
               JArray items \<Rightarrow>
                 (case jget schema ''items'' of
                    Some items_schema \<Rightarrow> JArray (map (\<lambda>i. cast_value L i items_schema) items)
                  | None \<Rightarrow> val)
             | _ \<Rightarrow> val)
          else if t = ''object'' then (if is_object val then cast_object L val schema else val)
          else val)"
| "cast_object L (JObject obj) schema =
     JObject (map (\<lambda>p. (fst p, case obj_get (schema_props schema) (fst p) of
                                 Some sub_schema \<Rightarrow> cast_value L (snd p) sub_schema
                               | None \<Rightarrow> snd p)) obj)"
| "cast_object L val schema = val"
  by pat_completeness auto

termination
  by (relation "measure (\<lambda>s. case s of Inl (L, v, t) \<Rightarrow> 2 * size v + 1 | Inr (L, v, t) \<Rightarrow> 2 * size v)")
     (auto dest!: size_elem size_entry)

declare cast_value.simps [simp del]

section \<open>Validation\<close>

definition subpath :: "string \<Rightarrow> string \<Rightarrow> string" where
  "subpath path key = (if path = '''' then key else path @ ''.'' @ key)"

definition label_of :: "string \<Rightarrow> string" where
  "label_of path = (if path = '''' then ''parameter'' else path)"

definition schema_type :: "jmap \<Rightarrow> string option" where
  "schema_type so = Option.bind (obj_get so ''type'') resolve_json_schema_type"

definition nullable_field :: "jmap \<Rightarrow> bool" where
  "nullable_field so \<longleftrightarrow>
     (case obj_get so ''type'' of
        Some (JArray l) \<Rightarrow> list_ex (\<lambda>v. as_str v = Some ''null'') l
      | _ \<Rightarrow> False)
     \<or> Option.bind (obj_get so ''nullable'') as_bool = Some True"

text \<open>The first \<^verbatim>\<open>match\<close>: the error of a value that does not have the type.\<close>

definition type_error :: "string option \<Rightarrow> json \<Rightarrow> string option" where
  "type_error t val =
     (if t = Some ''integer'' \<and> \<not> is_integer val then Some ''integer''
      else if t = Some ''number'' \<and> \<not> is_number_non_bool val then Some ''number''
      else if t = Some ''string'' \<and> \<not> is_string val then Some ''string''
      else if t = Some ''boolean'' \<and> \<not> is_boolean val then Some ''boolean''
      else if t = Some ''array'' \<and> \<not> is_array val then Some ''array''
      else if t = Some ''object'' \<and> \<not> is_object val then Some ''object''
      else None)"

definition enum_errors :: "schema_lib \<Rightarrow> jmap \<Rightarrow> json \<Rightarrow> string \<Rightarrow> string list" where
  "enum_errors L so val path =
     (case Option.bind (obj_get so ''enum'') as_array of
        Some en \<Rightarrow>
          if list_ex (\<lambda>v. json_eq v val) en then []
          else [label_of path @ '' must be one of '' @ sl_to_string L (JArray en)]
      | None \<Rightarrow> [])"

definition number_errors :: "schema_lib \<Rightarrow> jmap \<Rightarrow> json \<Rightarrow> string \<Rightarrow> string list" where
  "number_errors L so val path =
     (case as_f64 val of
        None \<Rightarrow> []
      | Some n \<Rightarrow>
          (case Option.bind (obj_get so ''minimum'') as_f64 of
             Some mn \<Rightarrow> if f64_less n mn then [label_of path @ '' must be >= '' @ sl_show_f64 L mn] else []
           | None \<Rightarrow> []) @
          (case Option.bind (obj_get so ''maximum'') as_f64 of
             Some mx \<Rightarrow> if f64_less mx n then [label_of path @ '' must be <= '' @ sl_show_f64 L mx] else []
           | None \<Rightarrow> []))"

text \<open>A lower and an upper bound on a count; the texts differ by the kind of value.\<close>

definition count_errors ::
  "jmap \<Rightarrow> string \<times> string \<Rightarrow> string \<times> string \<Rightarrow> string \<Rightarrow> nat \<Rightarrow> string \<Rightarrow> string list" where
  "count_errors so keys texts unit n path =
     (case Option.bind (obj_get so (fst keys)) as_u64 of
        Some mn \<Rightarrow> if n < mn then [label_of path @ fst texts @ show_nat mn @ unit] else []
      | None \<Rightarrow> []) @
     (case Option.bind (obj_get so (snd keys)) as_u64 of
        Some mx \<Rightarrow> if mx < n then [label_of path @ snd texts @ show_nat mx @ unit] else []
      | None \<Rightarrow> [])"

definition required_errors :: "jmap \<Rightarrow> jmap \<Rightarrow> string \<Rightarrow> string list" where
  "required_errors so obj path =
     (case Option.bind (obj_get so ''required'') as_array of
        Some ks \<Rightarrow>
          map (\<lambda>k. ''missing required '' @ subpath path k)
            (filter (\<lambda>k. \<not> obj_contains_key obj k) (List.map_filter as_str ks))
      | None \<Rightarrow> [])"

text \<open>
  The path of an element replaces every pair of braces in the prefix, also those of a key in
  \<open>path\<close>, by the index.
\<close>

definition item_path :: "string \<Rightarrow> nat \<Rightarrow> string" where
  "item_path path i =
     replace_all ''{}'' (show_nat i) (if path = '''' then ''[{}]'' else path @ ''[{}]'')"

function (sequential) validate_json_schema_value :: "schema_lib \<Rightarrow> json \<Rightarrow> json \<Rightarrow> string \<Rightarrow> string list" where
  "validate_json_schema_value L val (JObject so) path =
     (if nullable_field so \<and> val = JNull then []
      else case type_error (schema_type so) val of
        Some ty \<Rightarrow> [label_of path @ '' should be '' @ ty]
      | None \<Rightarrow>
          enum_errors L so val path @
          (if schema_type so \<in> {Some ''integer'', Some ''number''} then number_errors L so val path
           else if schema_type so = Some ''string'' then
             (case val of
                JString s \<Rightarrow> count_errors so (''minLength'', ''maxLength'')
                  ('' must be at least '', '' must be at most '') '' chars'' (chars_count s) path
              | _ \<Rightarrow> [])
           else if schema_type so = Some ''object'' then
             (case val of
                JObject obj \<Rightarrow>
                  required_errors so obj path @
                  concat (map (\<lambda>p. case obj_get (schema_props (JObject so)) (fst p) of
                      Some sub_schema \<Rightarrow> validate_json_schema_value L (snd p) sub_schema (subpath path (fst p))
                    | None \<Rightarrow> []) obj)
              | _ \<Rightarrow> [])
           else if schema_type so = Some ''array'' then
             (case val of
                JArray arr \<Rightarrow>
                  count_errors so (''minItems'', ''maxItems'')
                    ('' must have at least '', '' must be at most '') '' items'' (length arr) path @
                  (case obj_get so ''items'' of
                     Some items_schema \<Rightarrow>
                       concat (map (\<lambda>(i, item). validate_json_schema_value L item items_schema (item_path path i))
                         (enumerate 0 arr))
                   | None \<Rightarrow> [])
              | _ \<Rightarrow> [])
           else []))"
| "validate_json_schema_value L val _ path = []"
  by pat_completeness auto

termination
  by (relation "measure (\<lambda>(L, v, s, p). size v)")
     (auto dest!: size_entry size_elem [OF nth_mem] simp: in_set_enumerate_eq)

declare validate_json_schema_value.simps [simp del]

section \<open>What validation accepts\<close>

text \<open>
  A value conforms to a schema. This is a reading of the schema without error texts, paths or an
  order of the checks.
\<close>

definition within :: "('a \<Rightarrow> 'a \<Rightarrow> bool) \<Rightarrow> 'a option \<Rightarrow> 'a option \<Rightarrow> 'a \<Rightarrow> bool" where
  "within lt mn mx n \<longleftrightarrow>
     (case mn of Some b \<Rightarrow> \<not> lt n b | None \<Rightarrow> True) \<and> (case mx of Some b \<Rightarrow> \<not> lt b n | None \<Rightarrow> True)"

definition has_type :: "string \<Rightarrow> json \<Rightarrow> bool" where
  "has_type t val \<longleftrightarrow>
     (t = ''integer'' \<longrightarrow> is_integer val) \<and> (t = ''number'' \<longrightarrow> is_number_non_bool val) \<and>
     (t = ''string'' \<longrightarrow> is_string val) \<and> (t = ''boolean'' \<longrightarrow> is_boolean val) \<and>
     (t = ''array'' \<longrightarrow> is_array val) \<and> (t = ''object'' \<longrightarrow> is_object val)"

definition in_enum :: "jmap \<Rightarrow> json \<Rightarrow> bool" where
  "in_enum so val \<longleftrightarrow>
     (case Option.bind (obj_get so ''enum'') as_array of Some en \<Rightarrow> list_ex (\<lambda>v. json_eq v val) en | None \<Rightarrow> True)"

definition has_required :: "jmap \<Rightarrow> jmap \<Rightarrow> bool" where
  "has_required so obj \<longleftrightarrow>
     (case Option.bind (obj_get so ''required'') as_array of
        Some ks \<Rightarrow> list_all (\<lambda>k. case k of JString s \<Rightarrow> obj_contains_key obj s | _ \<Rightarrow> True) ks
      | None \<Rightarrow> True)"

function (sequential) conforms :: "json \<Rightarrow> json \<Rightarrow> bool" where
  "conforms val (JObject so) \<longleftrightarrow>
     (nullable_field so \<and> val = JNull) \<or>
     (case schema_type so of Some t \<Rightarrow> has_type t val | None \<Rightarrow> True) \<and> in_enum so val \<and>
     (schema_type so \<in> {Some ''integer'', Some ''number''} \<longrightarrow>
        (case as_f64 val of
           Some n \<Rightarrow> within f64_less (Option.bind (obj_get so ''minimum'') as_f64)
                       (Option.bind (obj_get so ''maximum'') as_f64) n
         | None \<Rightarrow> True)) \<and>
     (schema_type so = Some ''string'' \<longrightarrow>
        (case val of
           JString s \<Rightarrow> within (<) (Option.bind (obj_get so ''minLength'') as_u64)
                          (Option.bind (obj_get so ''maxLength'') as_u64) (chars_count s)
         | _ \<Rightarrow> True)) \<and>
     (schema_type so = Some ''object'' \<longrightarrow>
        (case val of
           JObject obj \<Rightarrow> has_required so obj \<and>
             list_all (\<lambda>p. case obj_get (schema_props (JObject so)) (fst p) of
                 Some sub_schema \<Rightarrow> conforms (snd p) sub_schema | None \<Rightarrow> True) obj
         | _ \<Rightarrow> True)) \<and>
     (schema_type so = Some ''array'' \<longrightarrow>
        (case val of
           JArray arr \<Rightarrow>
             within (<) (Option.bind (obj_get so ''minItems'') as_u64)
               (Option.bind (obj_get so ''maxItems'') as_u64) (length arr) \<and>
             (case obj_get so ''items'' of
                Some items_schema \<Rightarrow> list_all (\<lambda>item. conforms item items_schema) arr
              | None \<Rightarrow> True)
         | _ \<Rightarrow> True))"
| "conforms val _ \<longleftrightarrow> True"
  by pat_completeness auto

termination
  by (relation "measure (\<lambda>(v, s). size v)") (auto dest!: size_entry size_elem)

declare conforms.simps [simp del]

lemma type_error_None_iff: "type_error t val = None \<longleftrightarrow> (case t of Some s \<Rightarrow> has_type s val | None \<Rightarrow> True)"
  by (auto simp: type_error_def has_type_def split: option.splits if_splits)

lemma enum_errors_Nil_iff: "enum_errors L so val path = [] \<longleftrightarrow> in_enum so val"
  by (auto simp: enum_errors_def in_enum_def split: option.splits)

lemma count_errors_Nil_iff:
  "count_errors so keys texts unit n path = [] \<longleftrightarrow>
     within (<) (Option.bind (obj_get so (fst keys)) as_u64) (Option.bind (obj_get so (snd keys)) as_u64) n"
  by (auto simp: count_errors_def within_def split: option.splits if_splits)

lemma number_errors_Nil_iff:
  "number_errors L so val path = [] \<longleftrightarrow>
     (case as_f64 val of
        Some n \<Rightarrow> within f64_less (Option.bind (obj_get so ''minimum'') as_f64)
                    (Option.bind (obj_get so ''maximum'') as_f64) n
      | None \<Rightarrow> True)"
  by (auto simp: number_errors_def within_def split: option.splits if_splits)

lemma map_filter_as_str:
  "(\<forall>s \<in> set (List.map_filter as_str ks). P s) \<longleftrightarrow> list_all (\<lambda>k. case k of JString s \<Rightarrow> P s | _ \<Rightarrow> True) ks"
proof (induction ks)
  case (Cons k ks)
  then show ?case by (cases k) (simp_all add: List.map_filter_simps)
qed (simp add: List.map_filter_simps)

lemma required_errors_Nil_iff: "required_errors so obj path = [] \<longleftrightarrow> has_required so obj"
  by (auto simp: required_errors_def has_required_def filter_empty_conv map_filter_as_str split: option.splits)

lemmas validation_checks =
  type_error_None_iff enum_errors_Nil_iff count_errors_Nil_iff number_errors_Nil_iff required_errors_Nil_iff

lemma concat_map_Nil_iff: "concat (map f xs) = [] \<longleftrightarrow> (\<forall>x \<in> set xs. f x = [])"
  by auto

lemma validate_scalar:
  assumes "schema_type so \<noteq> Some ''object''" and "schema_type so \<noteq> Some ''array''"
  shows "validate_json_schema_value L val (JObject so) path = [] \<longleftrightarrow> conforms val (JObject so)"
proof (cases "nullable_field so \<and> val = JNull")
  case False
  then show ?thesis using assms
    by (cases val) (auto simp: validate_json_schema_value.simps conforms.simps validation_checks
        simp flip: type_error_None_iff split: option.splits)
qed (simp add: validate_json_schema_value.simps conforms.simps)

lemma ball_enumerate: "(\<forall>(i, x) \<in> set (enumerate n xs). P x) \<longleftrightarrow> (\<forall>x \<in> set xs. P x)"
  by (induction xs arbitrary: n) auto

lemma validate_iff_conforms: "validate_json_schema_value L val schema path = [] \<longleftrightarrow> conforms val schema"
proof (induction L val schema path rule: validate_json_schema_value.induct)
  case (1 L val so path)
  show ?case
  proof (cases "nullable_field so \<and> val = JNull \<or> type_error (schema_type so) val \<noteq> None")
    case True
    then show ?thesis
      by (auto simp: validate_json_schema_value.simps conforms.simps simp flip: type_error_None_iff)
  next
    case ok: False
    then have te: "type_error (schema_type so) val = None" by simp
    consider (obj) "schema_type so = Some ''object''" | (arr) "schema_type so = Some ''array''"
      | (scalar) "schema_type so \<noteq> Some ''object''" "schema_type so \<noteq> Some ''array''" by blast
    then show ?thesis
    proof cases
      case scalar
      then show ?thesis by (rule validate_scalar)
    next
      case obj
      then have "is_object val" using te by (simp add: type_error_None_iff has_type_def)
      then obtain m where m: "val = JObject m" by (cases val) auto
      have IH: "validate_json_schema_value L (snd p) s (subpath path (fst p)) = [] \<longleftrightarrow> conforms (snd p) s"
        if "p \<in> set m" "obj_get (schema_props (JObject so)) (fst p) = Some s" for p s
        using 1(1) that ok te obj m by simp
      have "validate_json_schema_value L val (JObject so) path = [] \<longleftrightarrow> in_enum so val \<and> has_required so m \<and>
          (\<forall>p \<in> set m. (case obj_get (schema_props (JObject so)) (fst p) of
             Some s \<Rightarrow> validate_json_schema_value L (snd p) s (subpath path (fst p)) | None \<Rightarrow> []) = [])"
        using ok te obj m
        by (simp add: validate_json_schema_value.simps enum_errors_Nil_iff required_errors_Nil_iff)
      also have "\<dots> \<longleftrightarrow> conforms val (JObject so)" using IH obj m
        by (auto simp: conforms.simps has_type_def list_all_iff split: option.splits)
      finally show ?thesis .
    next
      case arr
      then have "is_array val" using te by (simp add: type_error_None_iff has_type_def)
      then obtain xs where xs: "val = JArray xs" by (cases val) auto
      have IH: "validate_json_schema_value L x s (item_path path i) = [] \<longleftrightarrow> conforms x s"
        if "(i, x) \<in> set (enumerate 0 xs)" "obj_get so ''items'' = Some s" for i x s
        using 1(2) that ok te arr xs by simp
      have all: "(\<forall>(i, x) \<in> set (enumerate 0 xs). validate_json_schema_value L x s (item_path path i) = []) \<longleftrightarrow>
          (\<forall>x \<in> set xs. conforms x s)" if "obj_get so ''items'' = Some s" for s
      proof -
        have "(\<forall>(i, x) \<in> set (enumerate 0 xs). validate_json_schema_value L x s (item_path path i) = []) \<longleftrightarrow>
          (\<forall>(i, x) \<in> set (enumerate 0 xs). conforms x s)" using IH that by blast
        then show ?thesis by (simp add: ball_enumerate)
      qed
      have "validate_json_schema_value L val (JObject so) path = [] \<longleftrightarrow> in_enum so val \<and>
          within (<) (Option.bind (obj_get so ''minItems'') as_u64)
               (Option.bind (obj_get so ''maxItems'') as_u64) (length xs) \<and>
          (case obj_get so ''items'' of
             Some s \<Rightarrow> \<forall>(i, x) \<in> set (enumerate 0 xs). validate_json_schema_value L x s (item_path path i) = []
           | None \<Rightarrow> True)"
        using ok te arr xs
        by (auto simp: validate_json_schema_value.simps enum_errors_Nil_iff count_errors_Nil_iff
            split: option.splits)
      also have "\<dots> \<longleftrightarrow> conforms val (JObject so)" using arr xs
        by (simp add: conforms.simps has_type_def list_all_iff all split: option.split)
      finally show ?thesis .
    qed
  qed
qed (simp_all add: validate_json_schema_value.simps conforms.simps)

lemma is_integer_cast [simp]: "is_integer val \<Longrightarrow> cast_integer val = val"
  by (simp add: cast_integer_def)

lemma cast_boolean_idem: "cast_boolean (cast_boolean v) = cast_boolean v"
  by (cases v) (auto simp: cast_boolean_def Let_def)

lemma cast_integer_idem: "cast_integer (cast_integer v) = cast_integer v"
proof (cases "is_integer v")
  case False
  then show ?thesis
    by (cases "Option.bind (as_str v) parse_i64")
       (auto simp: cast_integer_def parse_i64_def Let_def split: option.splits if_splits bind_splits prod.splits)
qed simp

lemma cast_number_idem: "cast_number L (cast_number L v) = cast_number L v"
  by (auto simp: cast_number_def number_from_f64_def split: option.splits bind_splits)

lemma cast_string_idem: "cast_string L (cast_string L v) = cast_string L v"
  by (simp add: cast_string_def)

lemma cast_idem:
  "cast_value L (cast_value L v s) s = cast_value L v s"
  "cast_object L (cast_object L v s) s = cast_object L v s"
proof (induction L v s and L v s rule: cast_value_cast_object.induct)
  case (1 L val schema)
  show ?case
  proof (cases "Option.bind (jget schema ''type'') resolve_json_schema_type")
    case (Some t)
    consider (obj) "t = ''object''" | (arr) "t = ''array''" | (scalar) "t \<noteq> ''object''" "t \<noteq> ''array''" by blast
    then show ?thesis
    proof cases
      case obj
      then show ?thesis using 1 Some by (cases val) (auto simp: cast_value.simps)
    next
      case arr
      show ?thesis
      proof (cases "\<exists>xs s. val = JArray xs \<and> jget schema ''items'' = Some s")
        case True
        then show ?thesis using 1 Some arr by (auto simp: cast_value.simps [of L _ schema])
      next
        case False
        then show ?thesis using Some arr
          by (auto simp: cast_value.simps [of L _ schema] split: json.splits option.splits)
      qed
    next
      case scalar
      then show ?thesis using Some
        by (simp add: cast_value.simps [of L _ schema] cast_boolean_idem cast_integer_idem cast_number_idem
            cast_string_idem)
    qed
  qed (simp add: cast_value.simps)
next
  case (2 L obj schema)
  then show ?case by (auto split: option.splits)
qed simp_all

section \<open>Properties\<close>

text \<open>
  (C29) Validation reports no error exactly for the values that conform to the schema: the right type,
  one of the enumerated values, within the bounds, with every required key, and with conforming
  properties and elements. The path only names the value in the texts.
\<close>

theorem validation_accepts_conforming_values:
  "validate_json_schema_value L val schema path = [] \<longleftrightarrow> conforms val schema"
  by (rule validate_iff_conforms)

text \<open>
  Casting arguments to a schema a second time changes nothing: what the cast produced is left
  alone, at every depth.
\<close>

theorem cast_is_idempotent:
  "cast_value L (cast_value L val schema) schema = cast_value L val schema
   \<and> cast_object L (cast_object L val schema) schema = cast_object L val schema"
  by (simp add: cast_idem)

definition number_enum_schema :: json where
  "number_enum_schema =
     JObject [(''type'', JString ''number''), (''enum'', JArray [JNumber (NumInt 1), JNumber (NumInt 2)])]"

text \<open>
  A cast can turn a valid argument into an invalid one: the integer 1 is one of the enumerated
  values of the schema, but the cast of type \<^verbatim>\<open>number\<close> makes it the double 1.0, which equals no
  integer of the enumeration, and the call is rejected.
\<close>

theorem number_cast_breaks_enum:
  "validate_json_schema_value L (JNumber (NumInt 1)) number_enum_schema path = []
   \<and> cast_value L (JNumber (NumInt 1)) number_enum_schema = JNumber (NumFloat 0x3FF0000000000000)
   \<and> validate_json_schema_value L (cast_value L (JNumber (NumInt 1)) number_enum_schema) number_enum_schema path \<noteq> []"
proof -
  have one: "f64_of_int 1 = 0x3FF0000000000000"
    by (simp add: f64_of_int_def f64_of_nat_def bit_length.simps Let_def)
  have cast: "cast_value L (JNumber (NumInt 1)) number_enum_schema = JNumber (NumFloat 0x3FF0000000000000)"
    by (simp add: cast_value.simps number_enum_schema_def cast_number_def one number_from_f64_def
        f64_finite_def f64_mag_def)
  show ?thesis unfolding validate_iff_conforms cast
    by (simp add: number_enum_schema_def conforms.simps schema_type_def has_type_def in_enum_def within_def
        nullable_field_def split: option.split)
qed

end
