(* ===== verification/Tool_Registry.thy ===== *)
theory Tool_Registry
  imports Tool_Schema "HOL-Library.Finite_Map" "HOL-Library.List_Lexorder" "HOL-Library.Char_ord"
begin

text \<open>
  The registry of agent tools (crates/agent/src/tools/registry.rs) and the trait \<^verbatim>\<open>Tool\<close>
  (tools/base.rs). A tool is the record of its methods; the tools are not in this theory, so a call
  of one is an argument that may change the state \<open>'s\<close> of the world. No tool overrides the provided
  methods of the trait for casting, validation, the request schema and concurrency. The map of
  tools is a finite map; \<open>it\<close> is the order in which the hash map is iterated.
\<close>

datatype tool_exec_error = InvalidParams string | OtherError string

record 's tool =
  t_name :: string
  t_description :: string
  t_parameters :: json
  t_read_only :: bool
  t_exclusive :: bool
  t_execute :: "json \<Rightarrow> 's \<Rightarrow> (tool_exec_error + json) \<times> 's"

fun show_tool_error :: "tool_exec_error \<Rightarrow> string" where
  "show_tool_error (InvalidParams s) = s"
| "show_tool_error (OtherError s) = s"

definition concurrency_safe :: "'s tool \<Rightarrow> bool" where
  "concurrency_safe t \<longleftrightarrow> t_read_only t \<and> \<not> t_exclusive t"

definition cast_params :: "schema_lib \<Rightarrow> 's tool \<Rightarrow> json \<Rightarrow> json" where
  "cast_params L t params =
     (let schema = t_parameters t;
          ty = (case Option.bind (jget schema ''type'') as_str of Some s \<Rightarrow> s | None \<Rightarrow> ''object'')
      in if ty \<noteq> ''object'' then params else cast_object L params schema)"

text \<open>The schema that \<^verbatim>\<open>validate_params\<close> checks: the type is set to object when it is not.\<close>

definition object_schema :: "json \<Rightarrow> json" where
  "object_schema schema =
     (if Option.bind (jget schema ''type'') as_str \<noteq> Some ''object''
      then (case schema of JObject m \<Rightarrow> JObject (obj_insert ''type'' (JString ''object'') m) | _ \<Rightarrow> schema)
      else schema)"

definition validate_params :: "schema_lib \<Rightarrow> 's tool \<Rightarrow> json \<Rightarrow> string list" where
  "validate_params L t params =
     (if \<not> is_object params then [''parameters must be an object, got '' @ type_name params]
      else validate_json_schema_value L params (object_schema (t_parameters t)) '''')"

definition to_schema :: "'s tool \<Rightarrow> json" where
  "to_schema t =
     JObject [(''type'', JString ''function''),
       (''function'', JObject [(''name'', JString (t_name t)), (''description'', JString (t_description t)),
          (''parameters'', t_parameters t)])]"

definition schema_name :: "json \<Rightarrow> string" where
  "schema_name schema =
     (case Option.bind (Option.bind (jget schema ''function'') (\<lambda>f. jget f ''name'')) as_str of
        Some n \<Rightarrow> n
      | None \<Rightarrow> (case Option.bind (jget schema ''name'') as_str of Some n \<Rightarrow> n | None \<Rightarrow> []))"

section \<open>The registry\<close>

record 's registry =
  rg_tools :: "(string, 's tool) fmap"
  rg_cached_definitions :: "json list option"

type_synonym 's iteration = "(string, 's tool) fmap \<Rightarrow> (string \<times> 's tool) list"

definition tool_registry_new :: "'s registry" where
  "tool_registry_new = \<lparr>rg_tools = fmempty, rg_cached_definitions = None\<rparr>"

definition register :: "'s tool \<Rightarrow> 's registry \<Rightarrow> 's registry" where
  "register t R = R\<lparr>rg_tools := fmupd (t_name t) t (rg_tools R), rg_cached_definitions := None\<rparr>"

definition unregister :: "string \<Rightarrow> 's registry \<Rightarrow> 's registry" where
  "unregister name R = R\<lparr>rg_tools := fmdrop name (rg_tools R), rg_cached_definitions := None\<rparr>"

definition get_tool :: "'s registry \<Rightarrow> string \<Rightarrow> 's tool option" where
  "get_tool R name = fmlookup (rg_tools R) name"

definition has_tool :: "'s registry \<Rightarrow> string \<Rightarrow> bool" where
  "has_tool R name \<longleftrightarrow> name |\<in>| fmdom (rg_tools R)"

definition tool_names :: "'s iteration \<Rightarrow> 's registry \<Rightarrow> string list" where
  "tool_names it R = map fst (it (rg_tools R))"

definition fresh_definitions :: "(string \<times> 's tool) list \<Rightarrow> json list" where
  "fresh_definitions tools =
     (let schemas = map (\<lambda>p. to_schema (snd p)) tools;
          builtins = filter (\<lambda>s. \<not> starts_with ''mcp_'' (schema_name s)) schemas;
          mcp_tools = filter (\<lambda>s. starts_with ''mcp_'' (schema_name s)) schemas
      in sort_key schema_name builtins @ sort_key schema_name mcp_tools)"

definition get_definitions :: "'s iteration \<Rightarrow> 's registry \<Rightarrow> json list \<times> 's registry" where
  "get_definitions it R =
     (case rg_cached_definitions R of
        Some cached \<Rightarrow> (cached, R)
      | None \<Rightarrow>
          (let defs = fresh_definitions (it (rg_tools R)) in (defs, R\<lparr>rg_cached_definitions := Some defs\<rparr>)))"

record 's prepare_call_result =
  pc_tool :: "'s tool option"
  pc_params :: json
  pc_error :: "string option"

definition apos :: string where
  "apos = [CHR 0x27]"

definition prepare_call ::
  "schema_lib \<Rightarrow> 's iteration \<Rightarrow> 's registry \<Rightarrow> string \<Rightarrow> json \<Rightarrow> 's prepare_call_result" where
  "prepare_call L it R name params =
     (if \<not> is_object params \<and> name \<in> {''write_file'', ''read_file''}
      then \<lparr>pc_tool = None, pc_params = params,
            pc_error = Some (''Error: Tool '' @ apos @ name @ apos @ '' parameters must be a JSON object, got ''
              @ type_name params @ ''. Use named parameters: tool_name(param1='' @ [CHR 0x22] @ ''value1''
              @ [CHR 0x22] @ '', param2='' @ [CHR 0x22] @ ''value2'' @ [CHR 0x22] @ '')'')\<rparr>
      else case get_tool R name of
        None \<Rightarrow>
          \<lparr>pc_tool = None, pc_params = params,
           pc_error = Some (''Error: Tool '' @ apos @ name @ apos @ '' not found. Available: ''
             @ join '', '' (tool_names it R))\<rparr>
      | Some t \<Rightarrow>
          (let cast = cast_params L t params; errors = validate_params L t cast
           in if errors \<noteq> []
              then \<lparr>pc_tool = Some t, pc_params = cast,
                    pc_error = Some (''Error: Invalid parameters for tool '' @ apos @ name @ apos @ '': ''
                      @ join ''; '' errors)\<rparr>
              else \<lparr>pc_tool = Some t, pc_params = cast, pc_error = None\<rparr>))"

definition error_hint :: string where
  "error_hint = [CHR 0x0A, CHR 0x0A] @ ''[Analyze the error above and try a different approach.]''"

definition execute_tool ::
  "schema_lib \<Rightarrow> 's iteration \<Rightarrow> 's registry \<Rightarrow> string \<Rightarrow> json \<Rightarrow> 's \<Rightarrow> json \<times> 's" where
  "execute_tool L it R name params s =
     (let prepared = prepare_call L it R name params
      in case pc_error prepared of
           Some err \<Rightarrow> (JString (err @ error_hint), s)
         | None \<Rightarrow>
             (case pc_tool prepared of
                None \<Rightarrow> (JString (''Error: Tool '' @ apos @ name @ apos @ '' missing'' @ error_hint), s)
              | Some t \<Rightarrow>
                  (case t_execute t (pc_params prepared) s of
                     (Inr (JString r), s') \<Rightarrow>
                       (JString (if starts_with ''Error'' r then r @ error_hint else r), s')
                   | (Inr v, s') \<Rightarrow> (v, s')
                   | (Inl e, s') \<Rightarrow>
                       (JString (''Error executing '' @ name @ '': '' @ show_tool_error e @ error_hint), s'))))"

section \<open>Definitions sent to the model\<close>

text \<open>\<open>it\<close> iterates over the map: every entry once.\<close>

definition iterates :: "'s iteration \<Rightarrow> bool" where
  "iterates it \<longleftrightarrow> (\<forall>m. distinct (map fst (it m)) \<and> map_of (it m) = fmlookup m)"

inductive reg_step :: "'s registry \<Rightarrow> 's registry \<Rightarrow> bool" where
  rs_register: "reg_step R (register t R)"
| rs_unregister: "reg_step R (unregister name R)"
| rs_definitions: "iterates it \<Longrightarrow> reg_step R (snd (get_definitions it R))"

text \<open>Builtin tools come before the tools of MCP servers, and each group is ordered by name.\<close>

definition listed_before :: "json \<Rightarrow> json \<Rightarrow> bool" where
  "listed_before a b \<longleftrightarrow>
     (starts_with ''mcp_'' (schema_name a) \<longrightarrow> starts_with ''mcp_'' (schema_name b)) \<and>
     (starts_with ''mcp_'' (schema_name a) = starts_with ''mcp_'' (schema_name b) \<longrightarrow> schema_name a < schema_name b)"

definition lists_tools :: "(string, 's tool) fmap \<Rightarrow> json list \<Rightarrow> bool" where
  "lists_tools m defs \<longleftrightarrow> set defs = to_schema ` fmran' m \<and> sorted_wrt listed_before defs"

definition registry_ok :: "'s registry \<Rightarrow> bool" where
  "registry_ok R \<longleftrightarrow>
     (\<forall>name t. fmlookup (rg_tools R) name = Some t \<longrightarrow> t_name t = name) \<and>
     (case rg_cached_definitions R of Some d \<Rightarrow> lists_tools (rg_tools R) d | None \<Rightarrow> True)"

lemma schema_name_to_schema [simp]: "schema_name (to_schema t) = t_name t"
  by (simp add: schema_name_def to_schema_def)

lemma sorted_by_distinct_name:
  assumes "sorted (map schema_name xs)" "distinct (map schema_name xs)"
  shows "sorted_wrt (\<lambda>a b. schema_name a < schema_name b) xs"
  using assms by (induction xs) (auto simp: less_le)

lemma fresh_definitions_list:
  assumes it: "distinct (map fst ts)" "map_of ts = fmlookup m"
    and named: "\<forall>name t. fmlookup m name = Some t \<longrightarrow> t_name t = name"
  shows "lists_tools m (fresh_definitions ts)"
proof -
  let ?ss = "map (\<lambda>p. to_schema (snd p)) ts"
  let ?mcp = "\<lambda>s. starts_with ''mcp_'' (schema_name s)"
  have mem: "p \<in> set ts \<longleftrightarrow> fmlookup m (fst p) = Some (snd p)" for p
    using it map_of_eq_Some_iff [OF it(1), of "fst p" "snd p"] by simp
  have "map schema_name ?ss = map fst ts" using mem named by (auto intro!: map_cong)
  then have dist: "distinct (map schema_name ?ss)" using it(1) by (simp only:)
  have dist': "distinct (map schema_name (sort_key schema_name (filter P ?ss)))" for P
    using distinct_map_filter [OF dist, of P] by (metis mset_map mset_sort mset_eq_imp_distinct_iff)
  have "sorted_wrt listed_before (fresh_definitions ts)"
    unfolding fresh_definitions_def Let_def sorted_wrt_append
  proof (intro conjI)
    show "sorted_wrt listed_before (sort_key schema_name (filter (\<lambda>s. \<not> ?mcp s) ?ss))"
      by (rule sorted_wrt_mono_rel [OF _ sorted_by_distinct_name [OF sorted_sort_key dist']])
         (auto simp: listed_before_def)
    show "sorted_wrt listed_before (sort_key schema_name (filter ?mcp ?ss))"
      by (rule sorted_wrt_mono_rel [OF _ sorted_by_distinct_name [OF sorted_sort_key dist']])
         (auto simp: listed_before_def)
  qed (auto simp: listed_before_def)
  moreover have "set (fresh_definitions ts) = to_schema ` fmran' m"
  proof -
    have "set (fresh_definitions ts) = (\<lambda>p. to_schema (snd p)) ` set ts"
      by (auto simp: fresh_definitions_def Let_def)
    also have "\<dots> = to_schema ` fmran' m" using mem by (force simp: fmran'_def image_iff)
    finally show ?thesis .
  qed
  ultimately show ?thesis by (simp add: lists_tools_def)
qed

lemma get_definitions_ok:
  assumes "registry_ok R" "iterates it"
  shows "lists_tools (rg_tools R) (fst (get_definitions it R)) \<and> registry_ok (snd (get_definitions it R))"
  using assms fresh_definitions_list [of "it (rg_tools R)" "rg_tools R"]
  by (auto simp: get_definitions_def registry_ok_def iterates_def Let_def split: option.splits)

interpretation reg: invariant_system "\<lambda>R. R = tool_registry_new" reg_step registry_ok
proof unfold_locales
  fix R R' :: "'a registry" assume "registry_ok R" "reg_step R R'"
  from this(2,1) show "registry_ok R'"
  proof cases
    case (rs_definitions it)
    then show ?thesis using \<open>registry_ok R\<close> get_definitions_ok by blast
  qed (auto simp: registry_ok_def register_def unregister_def split: if_splits)
qed (simp add: registry_ok_def tool_registry_new_def)

section \<open>Properties\<close>

text \<open>
  (C30) However tools were registered, unregistered and listed before, and in whatever order the hash map
  is iterated, the definitions sent to the model are exactly those of the tools registered now,
  builtin tools first, each group strictly ordered by name: a cached list is never stale.
\<close>

theorem definitions_are_current_and_ordered:
  assumes "reach (\<lambda>R. R = tool_registry_new) reg_step R" and "iterates it"
  shows "set (fst (get_definitions it R)) = to_schema ` fmran' (rg_tools R)
    \<and> sorted_wrt listed_before (fst (get_definitions it R))"
  using get_definitions_ok [OF reg.inv_reach [OF assms(1)] assms(2)] by (simp_all add: lists_tools_def)

definition echo_tool :: "nat tool" where
  "echo_tool =
     \<lparr>t_name = ''mcp_echo'', t_description = '''', t_parameters = JObject [(''required'', JArray [JString ''x''])],
      t_read_only = True, t_exclusive = False, t_execute = (\<lambda>p n. (Inr p, Suc n))\<rparr>"

lemma iterates_sorted: "iterates (sorted_list_of_fmap :: nat iteration)"
  by (simp add: iterates_def) (simp add: sorted_list_of_fmap_def comp_def sorted_list_of_fset.rep_eq)

theorem definitions_are_current_and_ordered_witness:
  "set (fst (get_definitions sorted_list_of_fmap (register echo_tool tool_registry_new))) = {to_schema echo_tool}"
proof -
  have "reach (\<lambda>R. R = tool_registry_new) reg_step (register echo_tool tool_registry_new)"
    by (rule reach_step [OF reach_init, where t = "register echo_tool tool_registry_new"]) (simp, rule rs_register)
  from definitions_are_current_and_ordered [OF this iterates_sorted]
  show ?thesis
    by (simp add: register_def tool_registry_new_def fmran'_def ran_def) (auto split: if_splits)
qed

text \<open>
  (C8) A tool runs only on validated parameters: when a call changed the state of the world, the tool is
  registered under the name of the call, and it was given an object that is the cast of the
  arguments and conforms to its schema.
\<close>

theorem tools_run_on_valid_parameters:
  assumes "execute_tool L it R name params s = (v, s')" and "s' \<noteq> s"
  shows "\<exists>t. get_tool R name = Some t \<and> is_object (cast_params L t params)
    \<and> conforms (cast_params L t params) (object_schema (t_parameters t))
    \<and> s' = snd (t_execute t (cast_params L t params) s)"
proof -
  let ?p = "prepare_call L it R name params"
  have err: "pc_error ?p = None"
    using assms by (cases "pc_error ?p") (auto simp: execute_tool_def)
  then obtain t where t: "get_tool R name = Some t" "?p = \<lparr>pc_tool = Some t, pc_params = cast_params L t params, pc_error = None\<rparr>"
    "validate_params L t (cast_params L t params) = []"
    by (auto simp: prepare_call_def Let_def split: if_splits option.splits)
  obtain r s1 where "t_execute t (cast_params L t params) s = (r, s1)" by (cases "t_execute t (cast_params L t params) s")
  moreover from this have "s1 = s'" using assms(1) t(2)
    by (auto simp: execute_tool_def split: sum.splits json.splits)
  moreover have "is_object (cast_params L t params) \<and> conforms (cast_params L t params) (object_schema (t_parameters t))"
    using t(3) by (auto simp: validate_params_def validate_iff_conforms split: if_splits)
  ultimately show ?thesis using t(1) by simp
qed

definition no_lib :: schema_lib where
  "no_lib = \<lparr>sl_to_string = (\<lambda>_. []), sl_parse_f64 = (\<lambda>_. None), sl_show_f64 = (\<lambda>_. [])\<rparr>"

theorem tools_run_on_valid_parameters_witness:
  "\<exists>t. get_tool (register echo_tool tool_registry_new) ''mcp_echo'' = Some t
     \<and> conforms (cast_params no_lib t (JObject [(''x'', JNull)])) (object_schema (t_parameters t))"
proof -
  have "execute_tool no_lib sorted_list_of_fmap (register echo_tool tool_registry_new) ''mcp_echo'' (JObject [(''x'', JNull)]) 0
      = (JObject [(''x'', JNull)], 1)"
    by (simp add: execute_tool_def prepare_call_def register_def tool_registry_new_def get_tool_def echo_tool_def
        validate_params_def validate_iff_conforms cast_params_def object_schema_def conforms.simps schema_type_def
        has_type_def in_enum_def has_required_def schema_props_def obj_contains_key_def obj_insert_def)
  from tools_run_on_valid_parameters [OF this] show ?thesis by auto
qed

end
