(* ===== verification/Runner_Tools.thy ===== *)
theory Runner_Tools
  imports Runner_Context Tool_Registry Llm_Messages "HOL-Library.AList"
begin

text \<open>
  Execution of the tool calls of one model response (crates/agent/src/runner.rs, lines 1429 to 1602
  and 1741 to 1919, with the throttles of crates/utils/src/runtime.rs): repeated lookups are blocked,
  errors are classified, violations of the network guard and of the workspace get their own texts,
  and calls of tools that are safe to run together form batches. The tools of a batch run in its
  order. The map of counts is an association list. \<open>canonical\<close> is \<^verbatim>\<open>Path::canonicalize\<close>, and
  \<open>outside_path\<close> the first match of the expression \<^verbatim>\<open>OUTSIDE_PATH_RE\<close> of runtime.rs.
\<close>

section \<open>Throttles\<close>

type_synonym counts = "(string \<times> nat) list"

definition count_of :: "counts \<Rightarrow> string \<Rightarrow> nat" where
  "count_of m k = (case map_of m k of Some n \<Rightarrow> n | None \<Rightarrow> 0)"

definition trimmed_arg :: "json \<Rightarrow> string \<Rightarrow> string" where
  "trimmed_arg args key = trim (case Option.bind (jget args key) as_str of Some s \<Rightarrow> s | None \<Rightarrow> [])"

definition external_lookup_signature :: "string \<Rightarrow> json \<Rightarrow> string option" where
  "external_lookup_signature name args =
     (if name = ''web_fetch'' then
        (let url = trimmed_arg args ''url''
         in if url = [] then None else Some (''web_fetch:'' @ to_lowercase url))
      else if name = ''web_search'' then
        (let q = trimmed_arg args ''query''; query = (if q = [] then trimmed_arg args ''search_term'' else q)
         in if query = [] then None else Some (''web_search:'' @ to_lowercase query))
      else None)"

definition max_repeat_external_lookups :: nat where
  "max_repeat_external_lookups = 2"

definition lookup_blocked_text :: string where
  "lookup_blocked_text = ''Error: repeated external lookup blocked. ''
     @ ''Use the results you already have to answer, or try a meaningfully different source.''"

definition repeated_external_lookup_error :: "string \<Rightarrow> json \<Rightarrow> counts \<Rightarrow> string option \<times> counts" where
  "repeated_external_lookup_error name args seen =
     (case external_lookup_signature name args of
        None \<Rightarrow> (None, seen)
      | Some sig \<Rightarrow>
          (let count = count_of seen sig + 1; seen' = AList.update sig count seen
           in (if count \<le> max_repeat_external_lookups then None else Some lookup_blocked_text, seen')))"

section \<open>Violations\<close>

definition ssrf_markers :: "string list" where
  "ssrf_markers = [''internal/private url detected'', ''private/internal address'', ''private address'']"

definition workspace_violation_markers :: "string list" where
  "workspace_violation_markers =
     [''outside the configured workspace'', ''outside allowed directory'', ''working_dir is outside'',
      ''working_dir could not be resolved'', ''path outside working dir'', ''path traversal detected'']"

definition ssrf_boundary_note :: string where
  "ssrf_boundary_note =
     ''This is a non-bypassable security boundary. Stop trying to access ''
     @ ''private/internal URLs. Do not retry with curl, wget, encoded IPs, ''
     @ ''alternate DNS, redirects, proxies, or another tool. Ask the user for ''
     @ ''local files, logs, screenshots, or an explicit safe public URL instead. ''
     @ ''If the user explicitly trusts this private URL, ask them to whitelist ''
     @ ''the exact IP/CIDR via tools.ssrfWhitelist.''"

definition is_ssrf_violation :: "string \<Rightarrow> bool" where
  "is_ssrf_violation text \<longleftrightarrow>
     text \<noteq> [] \<and> list_ex (\<lambda>m. str_contains m (to_lowercase text)) ssrf_markers"

definition is_workspace_violation :: "string \<Rightarrow> bool" where
  "is_workspace_violation text \<longleftrightarrow>
     text \<noteq> [] \<and>
     (is_ssrf_violation (to_lowercase text)
      \<or> list_ex (\<lambda>m. str_contains m (to_lowercase text)) workspace_violation_markers)"

definition event_detail :: "string \<Rightarrow> string \<Rightarrow> nat \<Rightarrow> string" where
  "event_detail prefix text limit = take_chars limit (prefix @ trim (replace_all [CHR 0x0A] '' '' text))"

definition ssrf_soft_payload :: "string \<Rightarrow> string" where
  "ssrf_soft_payload raw_text =
     (let text = (if trim raw_text = [] then ''Error: request blocked by SSRF guard'' else trim raw_text)
      in text @ [CHR 0x0A, CHR 0x0A] @ ssrf_boundary_note)"

definition normalize_violation_target :: "(string \<Rightarrow> string option) \<Rightarrow> string \<Rightarrow> string" where
  "normalize_violation_target canonical raw =
     ''violation:'' @ to_lowercase (case canonical raw of Some p \<Rightarrow> p | None \<Rightarrow> replace_all [CHR 0x5C] ''/'' raw)"

definition violation_keys :: "string list" where
  "violation_keys = [''path'', ''file_path'', ''target'', ''source'', ''destination'']"

definition workspace_violation_signature :: "(string \<Rightarrow> string option) \<Rightarrow> string \<Rightarrow> json \<Rightarrow> string option" where
  "workspace_violation_signature canonical name args =
     (case find (\<lambda>k. trimmed_arg args k \<noteq> []) violation_keys of
        Some k \<Rightarrow> Some (normalize_violation_target canonical (trimmed_arg args k))
      | None \<Rightarrow>
          if name \<in> {''exec'', ''shell''}
          then (case find (starts_with ''/'') (split_whitespace (trimmed_arg args ''command'')) of
                  Some part \<Rightarrow> Some (normalize_violation_target canonical part)
                | None \<Rightarrow>
                    (let cwd = trimmed_arg args ''working_dir''
                     in if cwd \<noteq> [] then Some (normalize_violation_target canonical cwd) else None))
          else None)"

definition max_repeat_workspace_violations :: nat where
  "max_repeat_workspace_violations = 2"

definition escalation_text :: "string \<Rightarrow> nat \<Rightarrow> string" where
  "escalation_text target n =
     ''Error: refusing repeated workspace-bypass attempts.'' @ [CHR 0x0A]
     @ ''You have tried to access '' @ apos @ target @ apos @ '' (or an equivalent path) ''
     @ show_nat n @ '' times in this turn. This is a hard policy boundary -- ''
     @ ''switching tools, shell tricks, working_dir overrides, symlinks, ''
     @ ''or base64 piping will NOT change the answer. Stop retrying. ''
     @ ''If the user genuinely needs this resource, tell them you cannot ''
     @ ''access it and ask how they want to proceed (e.g. copy the file ''
     @ ''into the workspace, or disable restrict_to_workspace for this run).''"

text \<open>
  The version of runner.rs reads the entry, which it creates as 0, adds one to the value it read
  and does not store the sum.
\<close>

definition repeated_workspace_violation_error ::
  "(string \<Rightarrow> string option) \<Rightarrow> string \<Rightarrow> json \<Rightarrow> counts \<Rightarrow> string option \<times> counts" where
  "repeated_workspace_violation_error canonical name args seen =
     (case workspace_violation_signature canonical name args of
        None \<Rightarrow> (None, seen)
      | Some sig \<Rightarrow>
          (let seen' = AList.update sig (count_of seen sig) seen; count = count_of seen sig + 1
           in (if count \<le> max_repeat_workspace_violations then None
               else Some (escalation_text
                 (case str_find ''violation:'' sig of
                    Some i \<Rightarrow> drop (i + length ''violation:'') sig
                  | None \<Rightarrow> sig) count), seen')))"

text \<open>The version of utils/src/runtime.rs, which stores the count; it has its own signature.\<close>

definition utils_normalize_violation_target :: "string \<Rightarrow> string" where
  "utils_normalize_violation_target raw = ''violation:'' @ to_lowercase (replace_all [CHR 0x5C] ''/'' raw)"

definition utils_workspace_violation_signature ::
  "(string \<Rightarrow> string option) \<Rightarrow> string \<Rightarrow> json \<Rightarrow> string option" where
  "utils_workspace_violation_signature outside_path name args =
     (case find (\<lambda>k. trimmed_arg args k \<noteq> []) violation_keys of
        Some k \<Rightarrow> Some (utils_normalize_violation_target (trimmed_arg args k))
      | None \<Rightarrow>
          if name \<in> {''exec'', ''shell''}
          then (let cmd = trimmed_arg args ''command''
                in case (if cmd = [] then None else outside_path cmd) of
                     Some t \<Rightarrow> Some (utils_normalize_violation_target t)
                   | None \<Rightarrow>
                       (let cwd = trimmed_arg args ''working_dir''
                        in if cwd \<noteq> [] then Some (utils_normalize_violation_target cwd) else None))
          else None)"

definition utils_repeated_workspace_violation_error ::
  "(string \<Rightarrow> string option) \<Rightarrow> string \<Rightarrow> json \<Rightarrow> counts \<Rightarrow> string option \<times> counts" where
  "utils_repeated_workspace_violation_error outside_path name args seen =
     (case utils_workspace_violation_signature outside_path name args of
        None \<Rightarrow> (None, seen)
      | Some sig \<Rightarrow>
          (let count = count_of seen sig + 1; seen' = AList.update sig count seen
           in (if count \<le> max_repeat_workspace_violations then None
               else Some (escalation_text
                 (case strip_prefix ''violation:'' sig of Some t \<Rightarrow> t | None \<Rightarrow> sig) count), seen')))"

section \<open>One tool call\<close>

record tool_event =
  te_name :: string
  te_status :: string
  te_detail :: string

definition truncate_text :: "string \<Rightarrow> nat \<Rightarrow> string" where
  "truncate_text text max_chars =
     (if max_chars = 0 \<or> chars_count text \<le> max_chars then text
      else take_chars max_chars text @ [CHR 0x0A] @ ''... (truncated)'')"

definition classify_violation ::
  "(string \<Rightarrow> string option) \<Rightarrow> string \<Rightarrow> tool_event \<Rightarrow> llm_tool_call_request \<Rightarrow> counts
   \<Rightarrow> (json \<times> tool_event) option \<times> counts" where
  "classify_violation canonical raw_text event tc violations =
     (if is_ssrf_violation raw_text
      then (Some (JString (ssrf_soft_payload raw_text),
                  event\<lparr>te_detail := event_detail ''ssrf_violation: '' raw_text 160\<rparr>), violations)
      else if is_workspace_violation raw_text
      then (case repeated_workspace_violation_error canonical (tc_name tc) (JObject (tc_arguments tc)) violations of
              (Some escalated, violations') \<Rightarrow>
                (Some (JString escalated,
                       event\<lparr>te_detail := event_detail ''workspace_violation_escalated: '' raw_text 160\<rparr>), violations')
            | (None, violations') \<Rightarrow>
                (Some (JString raw_text,
                       event\<lparr>te_detail := event_detail ''workspace_violation: '' raw_text 160\<rparr>), violations'))
      else (None, violations))"

record tool_env =
  te_schema_lib :: schema_lib
  te_text_of :: "json \<Rightarrow> string"
  te_canonical :: "string \<Rightarrow> string option"

record throttles =
  th_lookups :: counts
  th_violations :: counts

definition no_throttles :: throttles where
  "no_throttles = \<lparr>th_lookups = [], th_violations = []\<rparr>"

text \<open>
  The result value, the event, and the fatal error of one call. A classified violation is never
  fatal.
\<close>

definition execute_single_tool ::
  "tool_env \<Rightarrow> 's iteration \<Rightarrow> 's registry \<Rightarrow> bool \<Rightarrow> llm_tool_call_request \<Rightarrow> throttles \<Rightarrow> 's
   \<Rightarrow> (json \<times> tool_event \<times> string option) \<times> throttles \<times> 's" where
  "execute_single_tool V it R fail_on_error tc th s =
     (let args = JObject (tc_arguments tc);
          (blocked, lookups) = repeated_external_lookup_error (tc_name tc) args (th_lookups th);
          th = th\<lparr>th_lookups := lookups\<rparr>
      in case blocked of
           Some err \<Rightarrow>
             ((JString (err @ error_hint), \<lparr>te_name = tc_name tc, te_status = ''error'', te_detail = truncate_text err 120\<rparr>,
               None), th, s)
         | None \<Rightarrow>
             (let (result, s') = execute_tool (te_schema_lib V) it R (tc_name tc) args s;
                  raw_result = (case result of JString r \<Rightarrow> r | _ \<Rightarrow> te_text_of V result);
                  is_err = starts_with ''Error'' raw_result;
                  event = \<lparr>te_name = tc_name tc, te_status = (if is_err then ''error'' else ''ok''),
                           te_detail = truncate_text raw_result 200\<rparr>
              in if \<not> is_err then ((result, event, None), th, s')
                 else case classify_violation (te_canonical V) raw_result event tc (th_violations th) of
                        (Some (payload, evt), violations) \<Rightarrow>
                          ((payload, evt, None), th\<lparr>th_violations := violations\<rparr>, s')
                      | (None, violations) \<Rightarrow>
                          ((JString (raw_result @ error_hint), event,
                            if fail_on_error then Some raw_result else None), th\<lparr>th_violations := violations\<rparr>, s')))"

section \<open>Batches\<close>

fun split_batches :: "('a \<Rightarrow> bool) \<Rightarrow> 'a list \<Rightarrow> 'a list \<Rightarrow> 'a list list" where
  "split_batches can current [] = (if current = [] then [] else [current])"
| "split_batches can current (tc # tcs) =
     (if can tc then split_batches can (current @ [tc]) tcs
      else (if current = [] then [] else [current]) @ [tc] # split_batches can [] tcs)"

definition partition_tool_batches ::
  "'s registry \<Rightarrow> bool \<Rightarrow> llm_tool_call_request list \<Rightarrow> llm_tool_call_request list list" where
  "partition_tool_batches R concurrent_tools tool_calls =
     (if \<not> concurrent_tools then map (\<lambda>tc. [tc]) tool_calls
      else split_batches (\<lambda>tc. case get_tool R (tc_name tc) of Some t \<Rightarrow> concurrency_safe t | None \<Rightarrow> False)
             [] tool_calls)"

text \<open>A batch that runs together: every call starts with empty counts, which are dropped.\<close>

fun run_together ::
  "tool_env \<Rightarrow> 's iteration \<Rightarrow> 's registry \<Rightarrow> bool \<Rightarrow> llm_tool_call_request list \<Rightarrow> string option \<Rightarrow> 's
   \<Rightarrow> (json \<times> tool_event) list \<times> string option \<times> 's" where
  "run_together V it R fail_on_error [] fatal s = ([], fatal, s)"
| "run_together V it R fail_on_error (tc # tcs) fatal s =
     (let ((result, event, f), _, s') = execute_single_tool V it R fail_on_error tc no_throttles s;
          (outs, fatal', s'') = run_together V it R fail_on_error tcs (case f of Some e \<Rightarrow> Some e | None \<Rightarrow> fatal) s'
      in ((result, event) # outs, fatal', s''))"

fun run_in_order ::
  "tool_env \<Rightarrow> 's iteration \<Rightarrow> 's registry \<Rightarrow> bool \<Rightarrow> llm_tool_call_request list \<Rightarrow> throttles \<Rightarrow> 's
   \<Rightarrow> (json \<times> tool_event) list \<times> string option \<times> throttles \<times> 's" where
  "run_in_order V it R fail_on_error [] th s = ([], None, th, s)"
| "run_in_order V it R fail_on_error (tc # tcs) th s =
     (case execute_single_tool V it R fail_on_error tc th s of
        ((result, event, Some f), th', s') \<Rightarrow> ([(result, event)], Some f, th', s')
      | ((result, event, None), th', s') \<Rightarrow>
          (let (outs, fatal, th'', s'') = run_in_order V it R fail_on_error tcs th' s'
           in ((result, event) # outs, fatal, th'', s'')))"

definition run_batch ::
  "tool_env \<Rightarrow> 's iteration \<Rightarrow> 's registry \<Rightarrow> bool \<Rightarrow> bool \<Rightarrow> llm_tool_call_request list \<Rightarrow> throttles \<Rightarrow> 's
   \<Rightarrow> (json \<times> tool_event) list \<times> string option \<times> throttles \<times> 's" where
  "run_batch V it R concurrent_tools fail_on_error batch th s =
     (if concurrent_tools \<and> length batch > 1
      then (let (outs, fatal, s') = run_together V it R fail_on_error batch None s in (outs, fatal, th, s'))
      else run_in_order V it R fail_on_error batch th s)"

fun run_batches ::
  "tool_env \<Rightarrow> 's iteration \<Rightarrow> 's registry \<Rightarrow> bool \<Rightarrow> bool \<Rightarrow> llm_tool_call_request list list \<Rightarrow> throttles \<Rightarrow> 's
   \<Rightarrow> (json \<times> tool_event) list \<times> string option \<times> throttles \<times> 's" where
  "run_batches V it R concurrent_tools fail_on_error [] th s = ([], None, th, s)"
| "run_batches V it R concurrent_tools fail_on_error (batch # batches) th s =
     (case run_batch V it R concurrent_tools fail_on_error batch th s of
        (outs, Some f, th', s') \<Rightarrow> (outs, Some f, th', s')
      | (outs, None, th', s') \<Rightarrow>
          (let (outs', fatal', th'', s'') = run_batches V it R concurrent_tools fail_on_error batches th' s'
           in (outs @ outs', fatal', th'', s'')))"

definition execute_tools ::
  "tool_env \<Rightarrow> 's iteration \<Rightarrow> 's registry \<Rightarrow> bool \<Rightarrow> bool \<Rightarrow> llm_tool_call_request list \<Rightarrow> throttles \<Rightarrow> 's
   \<Rightarrow> (json \<times> tool_event) list \<times> string option \<times> throttles \<times> 's" where
  "execute_tools V it R concurrent_tools fail_on_error calls th s =
     run_batches V it R concurrent_tools fail_on_error (partition_tool_batches R concurrent_tools calls) th s"

section \<open>Results and calls\<close>

lemma concat_split_batches: "concat (split_batches can current tcs) = current @ tcs"
  by (induction can current tcs rule: split_batches.induct) simp_all

lemma concat_partition: "concat (partition_tool_batches R c calls) = calls"
  by (induction calls) (simp_all add: partition_tool_batches_def concat_split_batches)

lemma single_tool_event_name:
  "te_name (fst (snd (fst (execute_single_tool V it R f tc th s)))) = tc_name tc"
  by (auto simp: execute_single_tool_def classify_violation_def Let_def split: prod.splits option.splits if_splits)

text \<open>The outputs answer the calls in order, and all of them when there is no fatal error.\<close>

definition answers_calls :: "(json \<times> tool_event) list \<Rightarrow> string option \<Rightarrow> llm_tool_call_request list \<Rightarrow> bool" where
  "answers_calls outs fatal calls \<longleftrightarrow>
     map (\<lambda>out. te_name (snd out)) outs = map tc_name (take (length outs) calls) \<and>
     length outs \<le> length calls \<and> (fatal = None \<longrightarrow> length outs = length calls)"

lemma run_together_answers:
  assumes "run_together V it R f tcs fatal s = (outs, fatal', s')"
  shows "map (\<lambda>out. te_name (snd out)) outs = map tc_name tcs"
  using assms
proof (induction tcs arbitrary: fatal s outs)
  case (Cons tc tcs)
  then show ?case using single_tool_event_name [of V it R f tc no_throttles s]
    by (auto simp: Let_def split: prod.splits)
qed simp

lemma run_in_order_answers:
  assumes "run_in_order V it R f tcs th s = (outs, fatal, th', s')"
  shows "answers_calls outs fatal tcs"
  using assms
proof (induction tcs arbitrary: th s outs)
  case (Cons tc tcs)
  then show ?case using single_tool_event_name [of V it R f tc th s]
    by (fastforce simp: answers_calls_def Let_def split: prod.splits option.splits)
qed (simp add: answers_calls_def)

lemma answers_calls_append:
  "answers_calls outs None xs \<Longrightarrow> answers_calls outs' fatal ys \<Longrightarrow> answers_calls (outs @ outs') fatal (xs @ ys)"
  by (simp add: answers_calls_def)

lemma answers_calls_fatal: "answers_calls outs (Some f) xs \<Longrightarrow> answers_calls outs (Some f) (xs @ ys)"
  by (simp add: answers_calls_def)

lemma run_together_answers_calls:
  "run_together V it R f tcs fatal s = (outs, fatal', s') \<Longrightarrow> answers_calls outs fatal' tcs"
  using run_together_answers [of V it R f tcs fatal s outs fatal' s'] map_eq_imp_length_eq
  by (fastforce simp: answers_calls_def)

lemma run_batch_answers: "run_batch V it R c f b th s = (outs, fatal, th', s') \<Longrightarrow> answers_calls outs fatal b"
  by (auto simp: run_batch_def split: if_splits prod.splits intro: run_together_answers_calls run_in_order_answers)

lemma run_batches_answers:
  "run_batches V it R c f batches th s = (outs, fatal, th', s') \<Longrightarrow> answers_calls outs fatal (concat batches)"
proof (induction batches arbitrary: th s outs)
  case (Cons b bs)
  obtain o1 f1 t1 s1 where r: "run_batch V it R c f b th s = (o1, f1, t1, s1)" by (metis surj_pair)
  note b = run_batch_answers [OF r]
  show ?case
  proof (cases f1)
    case None
    obtain o2 where "run_batches V it R c f bs t1 s1 = (o2, fatal, th', s')" "outs = o1 @ o2"
      using Cons.prems r None by (auto split: prod.splits)
    then show ?thesis using Cons.IH b None answers_calls_append by fastforce
  next
    case (Some e)
    then show ?thesis using Cons.prems b r by (auto intro: answers_calls_fatal)
  qed
qed (simp add: answers_calls_def)

section \<open>Counts\<close>

lemma count_of_update [simp]: "count_of (AList.update k n m) k' = (if k' = k then n else count_of m k')"
  by (simp add: count_of_def update_conv')

definition zero_counts :: "counts \<Rightarrow> bool" where
  "zero_counts m \<longleftrightarrow> count_of m = (\<lambda>_. 0)"

lemma violation_counts_zero:
  assumes "zero_counts m"
  shows "fst (repeated_workspace_violation_error canonical name args m) = None
    \<and> zero_counts (snd (repeated_workspace_violation_error canonical name args m))"
  using assms
  by (auto simp: repeated_workspace_violation_error_def zero_counts_def max_repeat_workspace_violations_def fun_eq_iff
      Let_def split: option.splits)

lemma classify_zero: "zero_counts m \<Longrightarrow> zero_counts (snd (classify_violation canonical raw ev tc m))"
  using violation_counts_zero [of m canonical "tc_name tc" "JObject (tc_arguments tc)"]
  by (auto simp: classify_violation_def split: prod.splits option.splits)

lemma single_tool_zero:
  "zero_counts (th_violations th) \<Longrightarrow>
   zero_counts (th_violations (fst (snd (execute_single_tool V it R f tc th s))))"
  using classify_zero [of "th_violations th"]
  by (auto simp: execute_single_tool_def Let_def split: prod.splits option.splits)
     (metis snd_conv)+

lemma run_in_order_zero:
  "zero_counts (th_violations th) \<Longrightarrow> run_in_order V it R f tcs th s = (outs, fatal, th', s') \<Longrightarrow>
   zero_counts (th_violations th')"
proof (induction tcs arbitrary: th s outs)
  case (Cons tc tcs)
  obtain res ev fa th1 s1 where e: "execute_single_tool V it R f tc th s = ((res, ev, fa), th1, s1)"
    by (metis surj_pair)
  have z: "zero_counts (th_violations th1)" using single_tool_zero [OF Cons.prems(1), of V it R f tc s] e by simp
  show ?case using Cons.prems(2) Cons.IH [OF z] z e by (auto split: option.splits prod.splits)
qed simp

lemma run_batch_zero:
  "zero_counts (th_violations th) \<Longrightarrow> run_batch V it R c f b th s = (outs, fatal, th', s') \<Longrightarrow>
   zero_counts (th_violations th')"
  by (auto simp: run_batch_def split: if_splits prod.splits intro: run_in_order_zero)

lemma run_batches_zero:
  "zero_counts (th_violations th) \<Longrightarrow> run_batches V it R c f bs th s = (outs, fatal, th', s') \<Longrightarrow>
   zero_counts (th_violations th')"
proof (induction bs arbitrary: th s outs)
  case (Cons b bs)
  obtain o1 f1 t1 s1 where r: "run_batch V it R c f b th s = (o1, f1, t1, s1)" by (metis surj_pair)
  note z = run_batch_zero [OF Cons.prems(1) r]
  show ?case using Cons.prems(2) Cons.IH [OF z] z r by (auto split: option.splits prod.splits)
qed simp

lemma blocked_lookup:
  assumes "external_lookup_signature (tc_name tc) (JObject (tc_arguments tc)) = Some sig"
    and "2 \<le> count_of (th_lookups th) sig"
  shows "\<exists>ev th'. execute_single_tool V it R fail_on_error tc th s
    = ((JString (lookup_blocked_text @ error_hint), ev, None), th', s)"
  using assms
  by (simp add: execute_single_tool_def repeated_external_lookup_error_def max_repeat_external_lookups_def Let_def)

section \<open>Properties\<close>


definition search_tool :: "nat tool" where
  "search_tool =
     \<lparr>t_name = ''web_search'', t_description = '''', t_parameters = JObject [],
      t_read_only = True, t_exclusive = False, t_execute = (\<lambda>p n. (Inr JNull, Suc n))\<rparr>"

definition search_registry :: "nat registry" where
  "search_registry = register search_tool tool_registry_new"

definition search_call :: llm_tool_call_request where
  "search_call =
     \<lparr>tc_id = ''call_0'', tc_name = ''web_search'', tc_arguments = [(''query'', JString ''rust'')],
      tc_extra_content = None, tc_provider_specific_fields = None, tc_function_provider_specific_fields = None\<rparr>"

definition quiet_env :: tool_env where
  "quiet_env = \<lparr>te_schema_lib = no_lib, te_text_of = (\<lambda>_. ''null''), te_canonical = (\<lambda>_. None)\<rparr>"

lemma search_runs:
  "execute_tool no_lib it search_registry ''web_search'' (JObject [(''query'', JString ''rust'')]) n = (JNull, Suc n)"
  by (simp add: execute_tool_def prepare_call_def search_registry_def register_def tool_registry_new_def get_tool_def
      search_tool_def validate_params_def validate_iff_conforms cast_params_def object_schema_def conforms.simps
      schema_type_def has_type_def in_enum_def has_required_def schema_props_def obj_insert_def)

lemma search_signature:
  "\<exists>sig. external_lookup_signature ''web_search'' (JObject [(''query'', JString ''rust'')]) = Some sig"
proof -
  have "trim ''rust'' = ''rust''" by code_simp
  then show ?thesis by (simp add: external_lookup_signature_def trimmed_arg_def)
qed

text \<open>What one search does: it is refused when the count of its signature is 2 or more.\<close>

lemma search_step:
  assumes "external_lookup_signature ''web_search'' (JObject [(''query'', JString ''rust'')]) = Some sig"
  shows "\<exists>res ev. execute_single_tool quiet_env it search_registry f search_call th n =
     ((res, ev, None), th\<lparr>th_lookups := AList.update sig (Suc (count_of (th_lookups th) sig)) (th_lookups th)\<rparr>,
      if count_of (th_lookups th) sig < 2 then Suc n else n)"
  using assms
  by (simp add: execute_single_tool_def search_call_def repeated_external_lookup_error_def
      max_repeat_external_lookups_def quiet_env_def search_runs starts_with_def Let_def)


text \<open>
  A lookup that was made twice in a turn is not made again: the tool does not run, the state of the
  world is unchanged, and the model gets the text that says so.
\<close>

theorem repeated_lookup_is_blocked:
  assumes "external_lookup_signature (tc_name tc) (JObject (tc_arguments tc)) = Some sig"
    and "2 \<le> count_of (th_lookups th) sig"
  shows "\<exists>ev th'. execute_single_tool V it R fail_on_error tc th s
    = ((JString (lookup_blocked_text @ error_hint), ev, None), th', s)"
  using assms by (rule blocked_lookup)

theorem repeated_lookup_is_blocked_witness:
  "\<exists>sig ev th'. execute_single_tool quiet_env sorted_list_of_fmap search_registry False search_call
      (no_throttles\<lparr>th_lookups := [(sig, 2)]\<rparr>) 7 = ((JString (lookup_blocked_text @ error_hint), ev, None), th', 7)"
proof -
  obtain sig where "external_lookup_signature ''web_search'' (JObject [(''query'', JString ''rust'')]) = Some sig"
    using search_signature by blast
  then have "external_lookup_signature (tc_name search_call) (JObject (tc_arguments search_call)) = Some sig"
    by (simp add: search_call_def)
  from repeated_lookup_is_blocked [OF this, of "no_throttles\<lparr>th_lookups := [(sig, 2)]\<rparr>"]
  have "\<exists>ev th'. execute_single_tool quiet_env sorted_list_of_fmap search_registry False search_call
      (no_throttles\<lparr>th_lookups := [(sig, 2)]\<rparr>) 7 = ((JString (lookup_blocked_text @ error_hint), ev, None), th', 7)"
    by (simp add: count_of_def)
  then show ?thesis by blast
qed

text \<open>
  Calls of a batch that runs together have counts of their own, so the limit on repeated lookups
  does not hold there: three equal searches in one response run twice in order, and three times
  when concurrent tools are enabled.
\<close>

theorem concurrent_calls_bypass_lookup_limit:
  "snd (snd (snd (execute_tools quiet_env it search_registry False f [search_call, search_call, search_call] no_throttles 0))) = 2
   \<and> snd (snd (snd (execute_tools quiet_env it search_registry True f [search_call, search_call, search_call] no_throttles 0))) = 3"
proof -
  obtain sig where sig: "external_lookup_signature ''web_search'' (JObject [(''query'', JString ''rust'')]) = Some sig"
    using search_signature by blast
  let ?T = "\<lambda>k. no_throttles\<lparr>th_lookups := [(sig, k)]\<rparr>"
  let ?run = "execute_single_tool quiet_env it search_registry f search_call"
  obtain r1 e1 where s1: "?run no_throttles 0 = ((r1, e1, None), ?T (Suc 0), Suc 0)"
    using search_step [OF sig, of it f no_throttles 0] by (auto simp: no_throttles_def count_of_def)
  obtain r2 e2 where s2: "?run (?T (Suc 0)) (Suc 0) = ((r2, e2, None), ?T (Suc (Suc 0)), Suc (Suc 0))"
    using search_step [OF sig, of it f "?T (Suc 0)" "Suc 0"] by (auto simp: no_throttles_def count_of_def)
  obtain r3 e3 T where s3: "?run (?T (Suc (Suc 0))) (Suc (Suc 0)) = ((r3, e3, None), T, Suc (Suc 0))"
    using search_step [OF sig, of it f "?T (Suc (Suc 0))" "Suc (Suc 0)"] by (auto simp: no_throttles_def count_of_def)
  have fresh: "\<exists>r e T. ?run no_throttles n = ((r, e, None), T, Suc n)" for n
    using search_step [OF sig, of it f no_throttles n] by (auto simp: no_throttles_def count_of_def)
  obtain q2 d2 T2 where t2: "?run no_throttles (Suc 0) = ((q2, d2, None), T2, Suc (Suc 0))" using fresh by blast
  obtain q3 d3 T3 where t3: "?run no_throttles (Suc (Suc 0)) = ((q3, d3, None), T3, Suc (Suc (Suc 0)))"
    using fresh by blast
  have part: "partition_tool_batches search_registry True [search_call, search_call, search_call]
      = [[search_call, search_call, search_call]]"
    by (simp add: partition_tool_batches_def search_registry_def register_def tool_registry_new_def get_tool_def
        search_call_def search_tool_def concurrency_safe_def)
  have seq: "partition_tool_batches search_registry False [search_call, search_call, search_call]
      = [[search_call], [search_call], [search_call]]"
    by (simp add: partition_tool_batches_def)
  show ?thesis unfolding execute_tools_def part seq
    by (simp add: run_batch_def s1 s2 s3 t2 t3)
qed

text \<open>
  The counter of workspace violations never moves: in every execution of tool calls that starts with
  zero counts, as every turn does, the counts stay zero and the check for repeated attempts answers
  with no escalation. The version in the utilities, which stores the count, does escalate.
\<close>

theorem workspace_escalation_never_happens:
  assumes "zero_counts (th_violations th)"
    and "execute_tools V it R concurrent fail_on_error calls th s = (outs, fatal, th', s')"
  shows "zero_counts (th_violations th')
    \<and> fst (repeated_workspace_violation_error canonical name args (th_violations th')) = None"
  using run_batches_zero [OF assms(1) assms(2) [unfolded execute_tools_def]] violation_counts_zero by blast

theorem workspace_escalation_never_happens_witness:
  "\<exists>outs fatal th' s'. execute_tools quiet_env sorted_list_of_fmap search_registry False False [search_call] no_throttles 0
       = (outs, fatal, th', s')
     \<and> fst (repeated_workspace_violation_error (\<lambda>_. None) ''read_file'' (JObject [(''path'', JString ''/etc/passwd'')])
          (th_violations th')) = None"
proof -
  have "zero_counts (th_violations no_throttles)" by (simp add: zero_counts_def no_throttles_def count_of_def fun_eq_iff)
  moreover obtain outs fatal th' s' where e: "execute_tools quiet_env sorted_list_of_fmap search_registry False False [search_call]
      no_throttles 0 = (outs, fatal, th', s')" by (metis surj_pair)
  ultimately show ?thesis using workspace_escalation_never_happens [OF _ e] by blast
qed

text \<open>The version in the utilities answers a third attempt on the same target with the escalation.\<close>

theorem utils_version_escalates:
  assumes "utils_workspace_violation_signature outside_path name args = Some sig" and "count_of seen sig = 2"
  shows "\<exists>text. fst (utils_repeated_workspace_violation_error outside_path name args seen) = Some text
    \<and> count_of (snd (utils_repeated_workspace_violation_error outside_path name args seen)) sig = 3"
  using assms
  by (simp add: utils_repeated_workspace_violation_error_def max_repeat_workspace_violations_def Let_def)

theorem utils_version_escalates_witness:
  "\<exists>sig text. fst (utils_repeated_workspace_violation_error (\<lambda>_. None) ''read_file''
      (JObject [(''path'', JString ''/etc/passwd'')]) [(sig, 2)]) = Some text"
proof -
  have "trim ''/etc/passwd'' = ''/etc/passwd''" by code_simp
  then obtain sig where "utils_workspace_violation_signature (\<lambda>_. None) ''read_file''
      (JObject [(''path'', JString ''/etc/passwd'')]) = Some sig"
    by (simp add: utils_workspace_violation_signature_def violation_keys_def trimmed_arg_def)
  from utils_version_escalates [OF this, of "[(sig, 2)]"] show ?thesis by (auto simp: count_of_def)
qed

end
