(* ===== verification/Think_Strip.thy ===== *)
theory Think_Strip
  imports HC_Json HC_Text
begin

text \<open>
  Reasoning text in model answers (crates/utils/src/helpers.rs, lines 24 to 242): removal of inline
  \<^verbatim>\<open><think>\<close> and \<^verbatim>\<open><thought>\<close> blocks and of fragments of control tags, extraction of the reasoning, and
  the incremental extractor for streams. Each regular expression of the code is the function on
  byte strings that its matches compute; a tag is given by its name.
\<close>

section \<open>The expressions\<close>

definition open_tag :: "string \<Rightarrow> string" where
  "open_tag n = ''<'' @ n @ ''>''"

definition close_tag :: "string \<Rightarrow> string" where
  "close_tag n = ''</'' @ n @ ''>''"

text \<open>
  \<^verbatim>\<open>(?s)<n>.*?</n>\<close>: the parts before, inside and after the first block. When no closing tag follows
  the first opening tag, none follows a later one.
\<close>

definition first_block :: "string \<Rightarrow> string \<Rightarrow> (string \<times> string \<times> string) option" where
  "first_block n s =
     (case str_find (open_tag n) s of
        None \<Rightarrow> None
      | Some i \<Rightarrow>
          (let rest = drop (i + length (open_tag n)) s
           in case str_find (close_tag n) rest of
                None \<Rightarrow> None
              | Some j \<Rightarrow> Some (take i s, take j rest, drop (j + length (close_tag n)) rest)))"

lemma first_block_shorter: "first_block n s = Some (a, b, c) \<Longrightarrow> length c < length s"
  by (auto simp: first_block_def open_tag_def close_tag_def Let_def split: option.splits
      dest!: str_find_Some) (auto simp: starts_with_def dest!: arg_cong [where f = length])

function remove_blocks :: "string \<Rightarrow> string \<Rightarrow> string" where
  "remove_blocks n s =
     (case first_block n s of None \<Rightarrow> s | Some (before, inner, after) \<Rightarrow> before @ remove_blocks n after)"
  by pat_completeness auto
termination
  by (relation "measure (\<lambda>(n, s). length s)") (auto dest: first_block_shorter)

function captured_blocks :: "string \<Rightarrow> string \<Rightarrow> string list" where
  "captured_blocks n s =
     (case first_block n s of None \<Rightarrow> [] | Some (before, inner, after) \<Rightarrow> inner # captured_blocks n after)"
  by pat_completeness auto
termination
  by (relation "measure (\<lambda>(n, s). length s)") (auto dest: first_block_shorter)

declare remove_blocks.simps [simp del] captured_blocks.simps [simp del]

text \<open>\<^verbatim>\<open>(?s)^\s*<n>.*$\<close>: an unclosed block at the start takes everything.\<close>

definition remove_trail :: "string \<Rightarrow> string \<Rightarrow> string" where
  "remove_trail n s = (if starts_with (open_tag n) (trim_start s) then [] else s)"

text \<open>
  \<^verbatim>\<open><n(?:[^A-Za-z0-9_\-:>/]|$)\<close>: the start of a tag that goes on with no character of a tag name is
  removed; the character that was matched stays and is not scanned again.
\<close>

definition is_tag_char :: "char \<Rightarrow> bool" where
  "is_tag_char c \<longleftrightarrow>
     (let b = byte c in (65 \<le> b \<and> b \<le> 90) \<or> (97 \<le> b \<and> b \<le> 122) \<or> (48 \<le> b \<and> b \<le> 57)) \<or> c \<in> set ''_-:>/''"

function remove_malformed :: "string \<Rightarrow> string \<Rightarrow> string" where
  "remove_malformed n [] = []"
| "remove_malformed n (c # s) =
     (if starts_with (''<'' @ n) (c # s)
      then (case drop (length n) s of
              [] \<Rightarrow> []
            | d # t \<Rightarrow> if is_tag_char d then c # remove_malformed n s else d # remove_malformed n t)
      else c # remove_malformed n s)"
  by pat_completeness auto
termination
  by (relation "measure (\<lambda>(n, s). length s)") (auto dest!: arg_cong [where f = length])

text \<open>\<^verbatim>\<open>^\s*</n>\s*\<close> and \<^verbatim>\<open>\s*</n>\s*$\<close>.\<close>

definition remove_close_start :: "string \<Rightarrow> string \<Rightarrow> string" where
  "remove_close_start n s =
     (case strip_prefix (close_tag n) (trim_start s) of Some t \<Rightarrow> trim_start t | None \<Rightarrow> s)"

definition remove_close_end :: "string \<Rightarrow> string \<Rightarrow> string" where
  "remove_close_end n s =
     (let t = trim_end s
      in if ends_with (close_tag n) t then trim_end (take (length t - length (close_tag n)) t) else s)"

definition skip_char :: "char \<Rightarrow> string \<Rightarrow> string" where
  "skip_char c s = (case s of d # t \<Rightarrow> if d = c then t else s | [] \<Rightarrow> [])"

text \<open>\<^verbatim>\<open>^\s*<\|?channel\|?>\s*\<close>\<close>

definition remove_channel_marker :: "string \<Rightarrow> string" where
  "remove_channel_marker s =
     (case strip_prefix ''<'' (trim_start s) of
        None \<Rightarrow> s
      | Some t \<Rightarrow>
          (case strip_prefix ''channel'' (skip_char CHR ''|'' t) of
             None \<Rightarrow> s
           | Some u \<Rightarrow> (case strip_prefix ''>'' (skip_char CHR ''|'' u) of Some v \<Rightarrow> trim_start v | None \<Rightarrow> s)))"

text \<open>
  The partial control tags, in multi-line mode: after a fragment of a tag, \<^verbatim>\<open>\s*$\<close> takes all white
  space to the end of the text, or up to the last line feed in it.
\<close>

definition rest_of_line :: "string \<Rightarrow> string option" where
  "rest_of_line r =
     (let after = trim_start r; ws = take (length r - length after) r
      in if after = [] then Some []
         else (case rposition (\<lambda>c. byte c = 10) ws of Some k \<Rightarrow> Some (drop k r) | None \<Rightarrow> None))"

definition fragments :: "string \<Rightarrow> string list" where
  "fragments n = map (\<lambda>k. take k n) [1..<Suc (length n)]"

fun first_some :: "('a \<Rightarrow> 'b option) \<Rightarrow> 'a list \<Rightarrow> 'b option" where
  "first_some f [] = None"
| "first_some f (x # xs) = (case f x of Some y \<Rightarrow> Some y | None \<Rightarrow> first_some f xs)"

definition partial_tag_rest :: "string \<Rightarrow> string option" where
  "partial_tag_rest s =
     (case strip_prefix ''<'' s of
        None \<Rightarrow> None
      | Some t \<Rightarrow>
          (case first_some (\<lambda>f. Option.bind (strip_prefix f (skip_char CHR ''/'' t))
                                  (\<lambda>u. rest_of_line (skip_char CHR ''>'' u)))
                  (fragments ''think'' @ fragments ''thought'') of
             Some r \<Rightarrow> Some r
           | None \<Rightarrow>
               first_some (\<lambda>f. Option.bind (strip_prefix f (skip_char CHR ''|'' t))
                                 (\<lambda>u. rest_of_line (skip_char CHR ''>'' (skip_char CHR ''|'' u))))
                 (fragments ''channel'')))"

lemma length_skip_char: "length (skip_char c s) \<le> length s"
  by (simp add: skip_char_def split: list.split)

lemma length_rest_of_line: "rest_of_line r = Some t \<Longrightarrow> length t \<le> length r"
  by (auto simp: rest_of_line_def Let_def split: if_splits option.splits)

lemma first_some_Some: "first_some f xs = Some y \<Longrightarrow> \<exists>x \<in> set xs. f x = Some y"
  by (induction xs) (auto split: option.splits)

lemma strip_prefix_le: "strip_prefix p s = Some t \<Longrightarrow> length t \<le> length s"
  by (auto simp: strip_prefix_def split: if_splits)

lemma partial_tag_shorter: "partial_tag_rest s = Some r \<Longrightarrow> length r < length s"
proof -
  assume a: "partial_tag_rest s = Some r"
  then obtain t where t: "strip_prefix ''<'' s = Some t"
    by (auto simp: partial_tag_rest_def split: option.splits)
  then have lt: "length t < length s" by (auto simp: strip_prefix_def starts_with_iff split: if_splits)
  have "length r \<le> length t"
    using a t length_skip_char
    by (auto simp: partial_tag_rest_def split: option.splits
        dest!: first_some_Some length_rest_of_line strip_prefix_le
        split: bind_splits intro: le_trans) (meson le_trans)+
  then show ?thesis using lt by simp
qed

function remove_partial_tags :: "string \<Rightarrow> string" where
  "remove_partial_tags [] = []"
| "remove_partial_tags (c # s) =
     (case partial_tag_rest (c # s) of
        Some r \<Rightarrow> remove_partial_tags r
      | None \<Rightarrow> c # remove_partial_tags s)"
  by pat_completeness auto
termination
  by (relation "measure length") (auto dest: partial_tag_shorter)

text \<open>\<^verbatim>\<open>^\s*<\|?$\<close>\<close>

definition remove_lone_bracket :: "string \<Rightarrow> string" where
  "remove_lone_bracket s = (if trim_start s \<in> {''<'', ''<|''} then [] else s)"

section \<open>Stripping and extraction\<close>

definition strip_think :: "string \<Rightarrow> string" where
  "strip_think text =
     (let s = remove_blocks ''think'' text;
          s = remove_trail ''think'' s;
          s = remove_blocks ''thought'' s;
          s = remove_trail ''thought'' s;
          s = remove_malformed ''think'' s;
          s = remove_malformed ''thought'' s;
          s = remove_close_start ''think'' s;
          s = remove_close_end ''think'' s;
          s = remove_close_start ''thought'' s;
          s = remove_close_end ''thought'' s;
          s = remove_channel_marker s;
          s = remove_partial_tags s;
          s = remove_lone_bracket s
      in trim s)"

definition nonempty_trimmed :: "string list \<Rightarrow> string list" where
  "nonempty_trimmed xs = filter (\<lambda>t. t \<noteq> []) (map trim xs)"

definition extract_think :: "string \<Rightarrow> string option \<times> string" where
  "extract_think text =
     (let parts = nonempty_trimmed (captured_blocks ''think'' text)
                    @ nonempty_trimmed (captured_blocks ''thought'' text)
      in (if parts = [] then None else Some (join [CHR 0x0A, CHR 0x0A] parts), strip_think text))"

text \<open>
  \<^verbatim>\<open>IncrementalThinkExtractor::feed\<close> keeps the text emitted so far. Slicing at a byte index that is
  not on a character boundary panics.
\<close>

definition feed :: "string \<Rightarrow> string \<Rightarrow> (unit, string option) result \<times> string" where
  "feed emitted buf =
     (case fst (extract_think buf) of
        None \<Rightarrow> (Ok None, emitted)
      | Some thinking \<Rightarrow>
          if thinking = emitted then (Ok None, emitted)
          else if length thinking > length emitted \<and> \<not> char_boundary thinking (length emitted)
          then (Panic, emitted)
          else let new = (if length thinking > length emitted then trim (drop (length emitted) thinking)
                          else trim thinking)
               in (Ok (if new = [] then None else Some new), thinking))"

definition thinking_parts :: "json list \<Rightarrow> string list" where
  "thinking_parts blocks =
     List.map_filter (\<lambda>tb.
       Option.bind (as_object tb) (\<lambda>m.
         if Option.bind (obj_get m ''type'') as_str \<noteq> Some ''thinking'' then None
         else Option.bind (Option.bind (obj_get m ''thinking'') as_str) (\<lambda>t. if t = [] then None else Some t))) blocks"

definition extract_reasoning ::
  "string option \<Rightarrow> json list option \<Rightarrow> string option \<Rightarrow> string option \<times> string option" where
  "extract_reasoning reasoning_content thinking_blocks content =
     (if reasoning_content \<noteq> None \<and> reasoning_content \<noteq> Some []
      then (reasoning_content, map_option strip_think content)
      else case thinking_blocks of
        Some blocks \<Rightarrow>
          (let parts = thinking_parts blocks
           in (if parts = [] then None else Some (join [CHR 0x0A, CHR 0x0A] parts), map_option strip_think content))
      | None \<Rightarrow>
          (case content of
             Some c \<Rightarrow>
               (let (thinking, cleaned) = extract_think c
                in (thinking, if cleaned = [] then None else Some cleaned))
           | None \<Rightarrow> (None, None)))"

section \<open>Text without tags\<close>

text \<open>No expression matches in a text without an opening angle bracket.\<close>

definition no_tags :: "string \<Rightarrow> bool" where
  "no_tags s \<longleftrightarrow> CHR ''<'' \<notin> set s"

lemma not_starts_with_lt: "no_tags s \<Longrightarrow> \<not> starts_with (CHR ''<'' # p) s"
  by (cases s) (auto simp: starts_with_def no_tags_def)

lemma str_find_no_tags: "no_tags s \<Longrightarrow> str_find (CHR ''<'' # p) s = None"
proof (induction s)
  case (Cons c s)
  then show ?case using not_starts_with_lt [of "c # s" p] by (simp add: no_tags_def)
qed simp

lemma set_strip: "set (strip W s) \<subseteq> set s"
proof (induction W s rule: strip.induct)
  case (1 W s)
  show ?case
  proof (cases "find (\<lambda>w. w \<noteq> [] \<and> starts_with w s) W")
    case None
    then show ?thesis by (simp add: strip.simps [of W s])
  next
    case (Some w)
    then show ?thesis using 1 set_drop_subset [of "length w" s] by (auto simp: strip.simps [of W s])
  qed
qed

lemma no_tags_trim_start: "no_tags s \<Longrightarrow> no_tags (trim_start s)"
  using set_strip [of ws_chars s] by (auto simp: no_tags_def trim_start_def)

lemma no_tags_trim_end: "no_tags s \<Longrightarrow> no_tags (trim_end s)"
  using set_strip [of "map rev ws_chars" "rev s"] by (auto simp: no_tags_def trim_end_def)

lemma no_tags_blocks: "no_tags s \<Longrightarrow> remove_blocks n s = s \<and> captured_blocks n s = []"
  by (simp add: remove_blocks.simps captured_blocks.simps first_block_def open_tag_def str_find_no_tags)

lemma no_tags_malformed: "no_tags s \<Longrightarrow> remove_malformed n s = s"
proof (induction s)
  case (Cons c s)
  then show ?case using not_starts_with_lt [of "c # s" n] by (simp add: no_tags_def)
qed simp

lemma no_tags_partial: "no_tags s \<Longrightarrow> remove_partial_tags s = s"
proof (induction s)
  case (Cons c s)
  then show ?case using not_starts_with_lt [of "c # s" "[]"]
    by (simp add: no_tags_def partial_tag_rest_def strip_prefix_def)
qed simp

lemma not_ends_with_close: "no_tags s \<Longrightarrow> \<not> ends_with (close_tag n) s"
  using starts_with_set [of "rev (close_tag n)" "rev s"] by (auto simp: ends_with_def close_tag_def no_tags_def)

lemma no_tags_steps:
  assumes "no_tags s"
  shows "remove_trail n s = s" "remove_close_start n s = s" "remove_close_end n s = s"
    "remove_channel_marker s = s" "remove_lone_bracket s = s"
proof -
  have t: "\<not> starts_with (CHR ''<'' # p) (trim_start s)" for p
    using not_starts_with_lt [OF no_tags_trim_start [OF assms]] .
  show "remove_trail n s = s" using t by (simp add: remove_trail_def open_tag_def)
  show "remove_close_start n s = s" using t by (simp add: remove_close_start_def close_tag_def strip_prefix_def)
  show "remove_close_end n s = s"
    using not_ends_with_close [OF no_tags_trim_end [OF assms]] by (simp add: remove_close_end_def Let_def)
  show "remove_channel_marker s = s" using t by (simp add: remove_channel_marker_def strip_prefix_def)
  show "remove_lone_bracket s = s" using no_tags_trim_start [OF assms] by (auto simp: remove_lone_bracket_def no_tags_def)
qed

lemma strip_think_no_tags: "no_tags s \<Longrightarrow> strip_think s = trim s"
  by (simp add: strip_think_def no_tags_blocks no_tags_malformed no_tags_partial no_tags_steps)

lemma str_find_after:
  "no_tags x \<Longrightarrow> str_find (CHR ''<'' # p) (x @ CHR ''<'' # p @ y) = Some (length x)"
proof (induction x)
  case Nil
  then show ?case by (simp add: starts_with_def)
next
  case (Cons c x)
  then show ?case by (auto simp: no_tags_def starts_with_def)
qed

lemma first_block_leading:
  assumes "no_tags x"
  shows "first_block n (open_tag n @ x @ close_tag n @ y) = Some ([], x, y)"
proof -
  have "str_find (open_tag n) (open_tag n @ x @ close_tag n @ y) = Some 0"
    using str_find_after [of "[]" "n @ ''>''" "x @ close_tag n @ y"] by (simp add: open_tag_def no_tags_def)
  moreover have "str_find (close_tag n) (x @ close_tag n @ y) = Some (length x)"
    using str_find_after [OF assms, of "''/'' @ n @ ''>''" y] by (simp add: close_tag_def)
  ultimately show ?thesis by (simp add: first_block_def)
qed

section \<open>Properties\<close>

text \<open>
  An answer that starts with a closed reasoning block is split exactly: the reasoning is the trimmed
  inside of the block and the answer the trimmed rest, when neither contains an angle bracket.
\<close>

theorem reasoning_is_separated:
  assumes "no_tags x" and "no_tags y" and "trim x \<noteq> []"
  shows "extract_think (''<think>'' @ x @ ''</think>'' @ y) = (Some (trim x), trim y)"
proof -
  let ?s = "open_tag ''think'' @ x @ close_tag ''think'' @ y"
  have s: "''<think>'' @ x @ ''</think>'' @ y = ?s" by (simp add: open_tag_def close_tag_def)
  have fb: "first_block ''think'' ?s = Some ([], x, y)" by (rule first_block_leading [OF assms(1)])
  have "str_find (open_tag ''thought'') ?s = None"
  proof -
    have "\<not> str_contains (open_tag ''thought'') ?s"
    proof
      assume "str_contains (open_tag ''thought'') ?s"
      then obtain u v where "?s = u @ open_tag ''thought'' @ v" by (auto simp: str_contains_iff)
      then show False using assms(1,2)
        by (auto simp: open_tag_def close_tag_def no_tags_def append_eq_Cons_conv append_eq_append_conv2
            Cons_eq_append_conv)
    qed
    then show ?thesis by (simp add: str_contains_def)
  qed
  then have th: "captured_blocks ''thought'' ?s = []" by (simp add: captured_blocks.simps first_block_def)
  have "captured_blocks ''think'' ?s = [x]" "remove_blocks ''think'' ?s = y"
    using fb no_tags_blocks [OF assms(2)] by (simp_all add: captured_blocks.simps [of _ ?s] remove_blocks.simps [of _ ?s])
  moreover have "strip_think ?s = trim y"
    using calculation(2) strip_think_no_tags [OF assms(2)] no_tags_blocks [OF assms(2)]
    by (simp add: strip_think_def)
  ultimately have "extract_think ?s = (Some (trim x), trim y)"
    using assms(3) th by (simp add: extract_think_def nonempty_trimmed_def)
  then show ?thesis unfolding s .
qed

theorem reasoning_is_separated_witness:
  "extract_think ''<think>2+2</think>4'' = (Some (trim ''2+2''), trim ''4'')"
proof -
  have "trim ''2+2'' \<noteq> []" by code_simp
  from reasoning_is_separated [OF _ _ this, of "''4''"] show ?thesis by (simp add: no_tags_def)
qed

text \<open>
  Stripping is one pass, so a block can be assembled by the pass itself: removing the inner block
  of this answer leaves a closed reasoning block in the text that is shown to the user.
\<close>

theorem assembled_block_leaks:
  "strip_think ''a <thi<think>x</think>nk>secret</think> b'' = ''a <think>secret</think> b''"
  by code_simp

text \<open>
  While the reasoning only grows at its end, the extractor never fails and each call emits exactly
  the trimmed text that is new.
\<close>

theorem feed_emits_new_text:
  assumes "fst (extract_think buf) = Some (emitted @ new)" and "new \<noteq> []" and "\<not> is_cont (hd new)"
  shows "feed emitted buf = (Ok (if trim new = [] then None else Some (trim new)), emitted @ new)"
  using assms by (cases new) (auto simp: feed_def char_boundary_def nth_append Let_def)

theorem feed_emits_new_text_witness:
  "feed [] ''<think>ab</think>'' = (Ok (Some ''ab''), ''ab'')"
proof -
  have "fst (extract_think ''<think>ab</think>'') = Some ([] @ ''ab'')" by code_simp
  moreover have "\<not> is_cont (hd ''ab'')" by code_simp
  moreover have "trim ''ab'' = ''ab''" by code_simp
  ultimately show ?thesis using feed_emits_new_text [of "''<think>ab</think>''" "[]" "''ab''"] by simp
qed

definition thought_stream :: string where
  "thought_stream = ''<thought>x</thought>''"

definition grown_stream :: string where
  "grown_stream = thought_stream @ ''<think>'' @ [CHR 0xC3, CHR 0xA9] @ ''</think>''"

text \<open>
  The blocks of one tag come before those of the other in the extracted text, whatever their order
  in the stream. After a \<^verbatim>\<open>thought\<close> block of one byte, a later \<^verbatim>\<open>think\<close> block that starts with a two-byte
  character is inserted in front, the text is sliced inside that character and the extractor panics.
\<close>

theorem stream_extractor_panics:
  "feed [] thought_stream = (Ok (Some ''x''), ''x'') \<and> feed ''x'' grown_stream = (Panic, ''x'')"
  by code_simp

end
