(* ===== verification/Agent_Runner.thy ===== *)
theory Agent_Runner
  imports Runner_Tools Llm_Retry Think_Strip
begin

text \<open>
  The loop of the agent runner (crates/agent/src/runner.rs, \<^verbatim>\<open>run\<close> and its helpers): each iteration
  prepares the messages, asks the model, and either executes tools and goes on, retries an empty or
  truncated answer, or ends the turn. Callbacks, hooks, tools and the provider act on the state \<open>'s\<close>
  of the world and are parts of the record \<open>run_spec\<close>. \<open>None\<close> means that the loop does not return,
  which the retries of the provider may cause; \<open>Panic\<close> that it unwinds.
\<close>

section \<open>Messages\<close>

definition user_message :: "string \<Rightarrow> json" where
  "user_message text = JObject [(''role'', JString ''user''), (''content'', JString text)]"

definition build_finalization_retry_message :: json where
  "build_finalization_retry_message =
     user_message ''Your last response appeared to be empty. Please provide your answer.''"

definition build_length_recovery_message :: json where
  "build_length_recovery_message =
     user_message ''Your response was truncated. Please continue from where you left off.''"

definition build_assistant_message ::
  "string option \<Rightarrow> json list option \<Rightarrow> string option \<Rightarrow> json list option \<Rightarrow> json" where
  "build_assistant_message content tool_calls reasoning_content thinking_blocks =
     JObject ([(''role'', JString ''assistant''), (''content'', JString (case content of Some c \<Rightarrow> c | None \<Rightarrow> []))]
       @ (case tool_calls of Some tcs \<Rightarrow> if tcs \<noteq> [] then [(''tool_calls'', JArray tcs)] else [] | None \<Rightarrow> [])
       @ (if reasoning_content \<noteq> None \<or> thinking_blocks \<noteq> None
          then [(''reasoning_content'', JString (case reasoning_content of Some r \<Rightarrow> r | None \<Rightarrow> []))] else [])
       @ (case thinking_blocks of Some bs \<Rightarrow> if bs \<noteq> [] then [(''thinking_blocks'', JArray bs)] else [] | None \<Rightarrow> []))"

definition text_block :: "string \<Rightarrow> json" where
  "text_block s = JObject [(''type'', JString ''text''), (''text'', JString s)]"

definition to_blocks :: "(json \<Rightarrow> string) \<Rightarrow> json \<Rightarrow> json list" where
  "to_blocks text_of val =
     (let text = (\<lambda>v. case as_str v of Some s \<Rightarrow> s | None \<Rightarrow> text_of v)
      in case val of
           JArray items \<Rightarrow> map (\<lambda>item. if is_object item then item else text_block (text item)) items
         | JNull \<Rightarrow> []
         | other \<Rightarrow> [text_block (text other)])"

definition merge_message_content :: "(json \<Rightarrow> string) \<Rightarrow> json option \<Rightarrow> json option \<Rightarrow> json" where
  "merge_message_content text_of left right =
     (case (left, right) of
        (Some (JString a), Some (JString b)) \<Rightarrow>
          if a = [] then JString b else JString (a @ [CHR 0x0A, CHR 0x0A] @ b)
      | (Some l, Some r) \<Rightarrow> JArray (to_blocks text_of l @ to_blocks text_of r)
      | (Some v, None) \<Rightarrow> v
      | (None, Some v) \<Rightarrow> v
      | (None, None) \<Rightarrow> JString [])"

definition append_injected_message :: "(json \<Rightarrow> string) \<Rightarrow> json \<Rightarrow> json list \<Rightarrow> json list" where
  "append_injected_message text_of injection messages =
     (if messages \<noteq> [] \<and> is_user injection \<and> is_user (last messages)
      then butlast messages
        @ [set_content (merge_message_content text_of (jget (last messages) ''content'') (jget injection ''content''))
             (last messages)]
      else messages @ [injection])"

definition append_injected_messages :: "(json \<Rightarrow> string) \<Rightarrow> json list \<Rightarrow> json list \<Rightarrow> json list" where
  "append_injected_messages text_of injections messages = fold (append_injected_message text_of) injections messages"

definition append_model_error_placeholder :: "json list \<Rightarrow> json list" where
  "append_model_error_placeholder messages =
     (if messages \<noteq> [] \<and> msg_role (last messages) = Some ''assistant'' \<and>
         (case jget (last messages) ''tool_calls'' of Some v \<Rightarrow> v = JNull | None \<Rightarrow> True)
      then messages
      else messages @ [JObject [(''role'', JString ''assistant''),
                                (''content'', JString ''[Assistant reply unavailable due to model error.]'')]])"

definition append_final_message :: "string option \<Rightarrow> json list \<Rightarrow> json list" where
  "append_final_message content messages =
     (case content of
        Some c \<Rightarrow>
          if c = [] then messages
          else messages @ [JObject [(''role'', JString ''assistant''), (''content'', JString c)]]
      | None \<Rightarrow> messages)"

text \<open>
  Both helpers add the counts key by key; the sums stay far below the range of \<^verbatim>\<open>i64\<close>.
\<close>

definition accumulate_usage :: "(string \<times> int) list \<Rightarrow> (string \<times> int) list \<Rightarrow> (string \<times> int) list" where
  "accumulate_usage target delta =
     fold (\<lambda>(k, v) t. AList.update k ((case map_of t k of Some n \<Rightarrow> n | None \<Rightarrow> 0) + v) t) delta target"

definition merge_usage :: "(string \<times> int) list \<Rightarrow> (string \<times> int) list \<Rightarrow> (string \<times> int) list" where
  "merge_usage base other =
     fold (\<lambda>(k, v) t. AList.update k ((case map_of t k of Some n \<Rightarrow> n | None \<Rightarrow> 0) + v) t) other base"

section \<open>The specification of a run\<close>

record agent_hook_context =
  hx_iteration :: nat
  hx_messages :: "json list"
  hx_response :: "llm_response option"
  hx_usage :: "(string \<times> int) list"
  hx_tool_calls :: "llm_tool_call_request list"
  hx_tool_results :: "json list"
  hx_tool_events :: "tool_event list"
  hx_final_content :: "string option"
  hx_stop_reason :: "string option"
  hx_error :: "string option"
  hx_streamed_content :: bool
  hx_streamed_reasoning :: bool

definition hook_context_default :: agent_hook_context where
  "hook_context_default =
     \<lparr>hx_iteration = 0, hx_messages = [], hx_response = None, hx_usage = [], hx_tool_calls = [], hx_tool_results = [],
      hx_tool_events = [], hx_final_content = None, hx_stop_reason = None, hx_error = None,
      hx_streamed_content = False, hx_streamed_reasoning = False\<rparr>"

datatype hook_call =
    BeforeIteration agent_hook_context
  | StreamEnd agent_hook_context bool
  | BeforeExecuteTools agent_hook_context
  | EmitReasoning string
  | EmitReasoningEnd
  | AfterIteration agent_hook_context

text \<open>
  The hook is called for its effect; the runner uses no field of the context that a hook may have
  changed. Only the content that \<^verbatim>\<open>finalize_content\<close> returns comes back.
\<close>

record 's agent_hook =
  ah_wants_streaming :: bool
  ah_call :: "hook_call \<Rightarrow> 's \<Rightarrow> 's"
  ah_finalize :: "agent_hook_context \<Rightarrow> string option \<Rightarrow> 's \<Rightarrow> string option \<times> 's"

definition noop_hook :: "'s agent_hook" where
  "noop_hook = \<lparr>ah_wants_streaming = False, ah_call = (\<lambda>_ s. s), ah_finalize = (\<lambda>_ c s. (c, s))\<rparr>"

text \<open>\<^verbatim>\<open>CompositeHook\<close>: every hook in order; the content passes through all of them.\<close>

definition composite_hook :: "'s agent_hook list \<Rightarrow> 's agent_hook" where
  "composite_hook hooks =
     \<lparr>ah_wants_streaming = list_ex ah_wants_streaming hooks,
      ah_call = (\<lambda>e. fold (\<lambda>h. ah_call h e) hooks),
      ah_finalize = (\<lambda>ctx c s. fold (\<lambda>h (c, s). ah_finalize h ctx c s) hooks (c, s))\<rparr>"

text \<open>
  A provider answers a request, or streams deltas before the answer; \<open>rp_timeout\<close> says when the
  timeout of a request without streaming expires, and in which state of the world.
\<close>

record 's run_provider =
  rp_chat :: "'s chat_fun"
  rp_stream :: "chat_request \<Rightarrow> 's \<Rightarrow> llm_response \<times> string list \<times> 's"
  rp_generation :: generation_settings
  rp_text_delay :: "string \<Rightarrow> 64 word option"
  rp_timeout :: "chat_request \<Rightarrow> 's \<Rightarrow> 's option"

record 's run_spec =
  rn_initial_messages :: "json list"
  rn_model :: string
  rn_max_iterations :: nat
  rn_limits :: run_limits
  rn_temperature :: "32 word option"
  rn_reasoning_effort :: "string option"
  rn_hook :: "'s agent_hook option"
  rn_error_message :: "string option"
  rn_max_iterations_message :: "string option"
  rn_concurrent_tools :: bool
  rn_fail_on_tool_error :: bool
  rn_retry_mode :: retry_mode
  rn_checkpoint :: "(json \<Rightarrow> 's \<Rightarrow> 's) option"
  rn_injection :: "(nat \<Rightarrow> 's \<Rightarrow> json list \<times> 's) option"
  rn_progress :: "(string \<Rightarrow> 's \<Rightarrow> 's) option"
  rn_retry_wait :: "(string \<Rightarrow> 's \<Rightarrow> 's) option"
  rn_stream_progress_deltas :: bool

record 's run_env =
  ev_tools :: tool_env
  ev_persist :: persist_env
  ev_iteration :: "'s iteration"
  ev_provider :: "'s run_provider"

text \<open>The registry, the files and the rest of the world during a run.\<close>

record 's run_world =
  wd_registry :: "'s registry"
  wd_files :: files
  wd_ext :: 's

definition hook_of :: "'s run_spec \<Rightarrow> 's agent_hook" where
  "hook_of spec = (case rn_hook spec of Some h \<Rightarrow> h | None \<Rightarrow> noop_hook)"

definition call_hook :: "'s run_spec \<Rightarrow> hook_call \<Rightarrow> 's run_world \<Rightarrow> 's run_world" where
  "call_hook spec e w = w\<lparr>wd_ext := ah_call (hook_of spec) e (wd_ext w)\<rparr>"

definition notify :: "('a \<Rightarrow> 's \<Rightarrow> 's) option \<Rightarrow> 'a \<Rightarrow> 's run_world \<Rightarrow> 's run_world" where
  "notify cb v w = (case cb of Some f \<Rightarrow> w\<lparr>wd_ext := f v (wd_ext w)\<rparr> | None \<Rightarrow> w)"

definition emit_checkpoint ::
  "'s run_spec \<Rightarrow> string \<Rightarrow> nat \<Rightarrow> json \<Rightarrow> json list \<Rightarrow> json list \<Rightarrow> 's run_world \<Rightarrow> 's run_world" where
  "emit_checkpoint spec phase iteration assistant completed pending w =
     notify (rn_checkpoint spec)
       (JObject [(''phase'', JString phase), (''iteration'', JNumber (NumInt (int iteration))),
          (''model'', JString (rn_model spec)), (''assistant_message'', assistant),
          (''completed_tool_results'', JArray completed), (''pending_tool_calls'', JArray pending)]) w"

section \<open>Injections\<close>

definition max_injections_per_turn :: nat where
  "max_injections_per_turn = 3"

definition max_injection_cycles :: nat where
  "max_injection_cycles = 5"

definition as_injection :: "json \<Rightarrow> json option" where
  "as_injection item =
     (if is_user item \<and> jget item ''content'' \<noteq> None then Some item
      else case Option.bind (jget item ''content'') as_str of
             Some text \<Rightarrow> if trim text \<noteq> [] then Some (user_message text) else None
           | None \<Rightarrow> None)"

definition drain_injections :: "'s run_spec \<Rightarrow> 's run_world \<Rightarrow> json list \<times> 's run_world" where
  "drain_injections spec w =
     (case rn_injection spec of
        None \<Rightarrow> ([], w)
      | Some cb \<Rightarrow>
          (let (items, s) = cb max_injections_per_turn (wd_ext w)
           in (take max_injections_per_turn (List.map_filter as_injection items), w\<lparr>wd_ext := s\<rparr>)))"

definition try_drain_injections ::
  "(json \<Rightarrow> string) \<Rightarrow> 's run_spec \<Rightarrow> json list \<Rightarrow> json option \<Rightarrow> nat \<Rightarrow> nat option \<Rightarrow> 's run_world
   \<Rightarrow> bool \<times> nat \<times> json list \<times> 's run_world" where
  "try_drain_injections text_of spec messages assistant_message cycles iteration w =
     (if cycles \<ge> max_injection_cycles then (False, cycles, messages, w)
      else let (injected, w) = drain_injections spec w
           in if injected = [] then (False, cycles, messages, w)
              else let (messages, w) =
                         (case assistant_message of
                            None \<Rightarrow> (messages, w)
                          | Some am \<Rightarrow>
                              (messages @ [am],
                               case iteration of
                                 Some i \<Rightarrow> emit_checkpoint spec ''final_response'' i am [] [] w
                               | None \<Rightarrow> w))
                   in (True, cycles + 1, append_injected_messages text_of injected messages, w))"

section \<open>Requests\<close>

text \<open>The reasoning that the extractor finds while the deltas arrive.\<close>

fun stream_reasoning :: "string \<Rightarrow> string \<Rightarrow> string \<Rightarrow> string list \<Rightarrow> (unit, string) result" where
  "stream_reasoning buf emitted acc [] = Ok acc"
| "stream_reasoning buf emitted acc (d # ds) =
     (case feed emitted (buf @ d) of
        (Ok (Some t), emitted') \<Rightarrow> stream_reasoning (buf @ d) emitted' (acc @ t) ds
      | (Ok None, emitted') \<Rightarrow> stream_reasoning (buf @ d) emitted' acc ds
      | (Err e, _) \<Rightarrow> Err e
      | (Panic, _) \<Rightarrow> Panic)"

definition f32_nan :: "32 word" where
  "f32_nan = 0x7FC00000"

definition chat_request_for :: "'s run_spec \<Rightarrow> json list \<Rightarrow> json list \<Rightarrow> chat_request" where
  "chat_request_for spec messages tools =
     \<lparr>cr_messages = messages, cr_tools = (if tools = [] then None else Some tools),
      cr_model = Some (rn_model spec),
      cr_max_tokens = (case rl_max_tokens (rn_limits spec) of Some t \<Rightarrow> t | None \<Rightarrow> 0),
      cr_temperature = (case rn_temperature spec of Some t \<Rightarrow> t | None \<Rightarrow> f32_nan),
      cr_reasoning_effort = rn_reasoning_effort spec,
      cr_tool_choice = (if tools = [] then None else Some ChooseAuto)\<rparr>"

definition wants_stream :: "'s run_spec \<Rightarrow> bool" where
  "wants_stream spec \<longleftrightarrow>
     ah_wants_streaming (hook_of spec) \<or> (rn_stream_progress_deltas spec \<and> rn_progress spec \<noteq> None)"

definition stream_chat :: "'s run_provider \<Rightarrow> ('s \<times> string list) chat_fun" where
  "stream_chat P req st =
     (let (r, deltas, s) = rp_stream P req (fst st) in (r, (s, snd st @ deltas)))"

text \<open>What the code fills into an answer from the accumulated deltas.\<close>

definition fill_streamed :: "string \<Rightarrow> string \<Rightarrow> llm_response \<Rightarrow> llm_response" where
  "fill_streamed content reasoning r =
     (let r = (if lr_content r \<in> {None, Some []}
               then r\<lparr>lr_content := (if content = [] then None else Some content)\<rparr> else r)
      in if lr_reasoning_content r = None \<and> reasoning \<noteq> []
         then r\<lparr>lr_reasoning_content := Some reasoning\<rparr> else r)"

text \<open>
  The answer, whether content and reasoning were streamed, and the world. The delivery of single deltas to hooks
  and callbacks, which the code aborts at the end of the stream, and the live file edit events are
  not part of the model. A request whose retries do not end is ended by its timeout.
\<close>

definition request_model ::
  "'s run_env \<Rightarrow> 's run_spec \<Rightarrow> json list \<Rightarrow> 's run_world \<Rightarrow> (unit, llm_response \<times> (bool \<times> bool) \<times> 's run_world) result option" where
  "request_model E spec messages w =
     (let P = ev_provider E;
          (tools, R) = get_definitions (ev_iteration E) (wd_registry w);
          w = w\<lparr>wd_registry := R\<rparr>;
          req = chat_request_for spec messages tools
      in if wants_stream spec
         then (case chat_stream_with_retry (rp_text_delay P) (rp_generation P) (stream_chat P) req (rn_retry_mode spec)
                      (wd_ext w, []) of
                 None \<Rightarrow> None
               | Some (r, _, s, deltas) \<Rightarrow>
                   (case stream_reasoning [] [] [] deltas of
                      Ok reasoning \<Rightarrow>
                        Some (Ok (fill_streamed (concat deltas) reasoning r, (concat deltas \<noteq> [], reasoning \<noteq> []), w\<lparr>wd_ext := s\<rparr>))
                    | Err e \<Rightarrow> Some (Err e)
                    | Panic \<Rightarrow> Some Panic))
         else case rp_timeout P req (wd_ext w) of
                Some s \<Rightarrow> Some (Ok (response_error ''LLM request timed out'', (False, False), w\<lparr>wd_ext := s\<rparr>))
              | None \<Rightarrow>
                  (case chat_with_retry (rp_text_delay P) (rp_generation P) (rp_chat P) req (rn_retry_mode spec) (wd_ext w) of
                     Some (r, _, s) \<Rightarrow> Some (Ok (r, (False, False), w\<lparr>wd_ext := s\<rparr>))
                   | None \<Rightarrow> Some (Ok (response_error ''LLM request timed out'', (False, False), w))))"

definition request_finalization_retry ::
  "'s run_env \<Rightarrow> 's run_spec \<Rightarrow> json list \<Rightarrow> 's run_world \<Rightarrow> (llm_response \<times> 's run_world) option" where
  "request_finalization_retry E spec messages w =
     (let P = ev_provider E;
          req = chat_request_for spec (messages @ [build_finalization_retry_message]) []
      in case chat_with_retry (rp_text_delay P) (rp_generation P) (rp_chat P) req (rn_retry_mode spec) (wd_ext w) of
           Some (r, _, s) \<Rightarrow> Some (r, w\<lparr>wd_ext := s\<rparr>)
         | None \<Rightarrow> None)"

section \<open>The end of a turn\<close>

record agent_run_result =
  ar_final_content :: "string option"
  ar_messages :: "json list"
  ar_tools_used :: "string list"
  ar_usage :: "(string \<times> int) list"
  ar_stop_reason :: string
  ar_error :: "string option"
  ar_tool_events :: "tool_event list"
  ar_had_injections :: bool

definition empty_final_response_message :: string where
  "empty_final_response_message = ''(No response from model)''"

definition default_error_message :: string where
  "default_error_message = ''Sorry, I encountered an error calling the AI model.''"

definition final_result ::
  "string option \<Rightarrow> json list \<Rightarrow> (string \<times> int) list \<Rightarrow> string \<Rightarrow> string option \<Rightarrow> bool \<Rightarrow> agent_run_result" where
  "final_result final messages usage stop_reason error had_injections =
     \<lparr>ar_final_content = final, ar_messages = messages, ar_tools_used = [], ar_usage = usage,
      ar_stop_reason = stop_reason, ar_error = error, ar_tool_events = [], ar_had_injections = had_injections\<rparr>"

text \<open>
  The branches for an error and for an empty answer: the messages are closed, the hook is told, and
  late injections are appended.
\<close>

definition end_with_error ::
  "(json \<Rightarrow> string) \<Rightarrow> 's run_spec \<Rightarrow> string \<Rightarrow> string \<Rightarrow> json list \<Rightarrow> nat \<Rightarrow> bool \<Rightarrow> (string \<times> int) list \<Rightarrow> 's run_world
   \<Rightarrow> agent_run_result \<times> 's run_world" where
  "end_with_error text_of spec stop_reason fc messages cycles had_injections usage w =
     (let w = call_hook spec (AfterIteration (hook_context_default\<lparr>hx_messages := messages, hx_final_content := Some fc,
                hx_error := Some fc, hx_stop_reason := Some stop_reason\<rparr>)) w;
          (cont, _, messages, w) = try_drain_injections text_of spec messages None cycles None w
      in (final_result (Some fc) messages usage stop_reason (Some fc) (had_injections \<or> cont), w))"

definition handle_final_content ::
  "(json \<Rightarrow> string) \<Rightarrow> 's run_spec \<Rightarrow> json list \<Rightarrow> string option \<Rightarrow> llm_response \<Rightarrow> nat \<Rightarrow> nat \<Rightarrow> bool
   \<Rightarrow> (string \<times> int) list \<Rightarrow> 's run_world \<Rightarrow> agent_run_result \<times> 's run_world" where
  "handle_final_content text_of spec messages clean response iteration cycles had_injections usage w =
     (let blank = is_blank_text clean;
          assistant = build_assistant_message clean None (lr_reasoning_content response) (lr_thinking_blocks response);
          assistant_msg = (if lr_finish_reason response \<noteq> ''error'' \<and> \<not> blank then Some assistant else None);
          (should_continue, cycles, messages, w) =
            try_drain_injections text_of spec messages assistant_msg cycles None w;
          had_injections = (had_injections \<or> should_continue);
          w = (if ah_wants_streaming (hook_of spec) then call_hook spec (StreamEnd hook_context_default should_continue) w
               else w)
      in if should_continue
         then (final_result None messages usage ''injected'' None True,
               call_hook spec (AfterIteration (hook_context_default\<lparr>hx_messages := messages\<rparr>)) w)
         else if lr_finish_reason response = ''error''
         then end_with_error text_of spec ''error''
                (case clean of Some c \<Rightarrow> c
                 | None \<Rightarrow> (case rn_error_message spec of Some m \<Rightarrow> m | None \<Rightarrow> default_error_message))
                (append_model_error_placeholder messages) cycles had_injections usage w
         else if blank
         then end_with_error text_of spec ''empty_final_response'' empty_final_response_message
                (append_final_message (Some empty_final_response_message) messages) cycles had_injections usage w
         else (final_result clean (messages @ [assistant]) usage ''completed'' None had_injections,
               call_hook spec (AfterIteration (hook_context_default\<lparr>hx_messages := messages @ [assistant],
                   hx_final_content := clean, hx_stop_reason := Some ''completed''\<rparr>))
                 (emit_checkpoint spec ''final_response'' iteration assistant [] [] w)))"

section \<open>The loop\<close>

record 's loop_state =
  lp_messages :: "json list"
  lp_final_content :: "string option"
  lp_tools_used :: "string list"
  lp_usage :: "(string \<times> int) list"
  lp_error :: "string option"
  lp_stop_reason :: string
  lp_tool_events :: "tool_event list"
  lp_throttles :: throttles
  lp_empty_retries :: nat
  lp_length_recoveries :: nat
  lp_had_injections :: bool
  lp_injection_cycles :: nat
  lp_world :: "'s run_world"

datatype 's outcome =
    Next "'s loop_state"
  | Leave "'s loop_state"
  | Return agent_run_result "'s run_world"

definition max_empty_retries :: nat where
  "max_empty_retries = 2"

definition max_length_recoveries :: nat where
  "max_length_recoveries = 3"

fun tool_messages ::
  "persist_env \<Rightarrow> run_limits \<Rightarrow> (llm_tool_call_request \<times> json) list \<Rightarrow> files \<Rightarrow> json list \<times> files" where
  "tool_messages E limits [] fs = ([], fs)"
| "tool_messages E limits ((tc, result) # rest) fs =
     (let (content, fs') = normalize_tool_result E limits (tc_id tc) (tc_name tc) result fs;
          (ms, fs'') = tool_messages E limits rest fs'
      in (JObject [(''role'', JString ''tool''), (''tool_call_id'', JString (tc_id tc)),
            (''name'', JString (tc_name tc)), (''content'', content)] # ms, fs''))"

text \<open>The drain that follows an iteration: whether messages came in, and the state with them.\<close>

definition drain_into :: "'s run_env \<Rightarrow> 's run_spec \<Rightarrow> 's loop_state \<Rightarrow> bool \<times> 's loop_state" where
  "drain_into E spec ls =
     (let (cont, cycles, messages, w) =
            try_drain_injections (te_text_of (ev_tools E)) spec (lp_messages ls) None (lp_injection_cycles ls) None
              (lp_world ls)
      in (cont, ls\<lparr>lp_messages := messages, lp_injection_cycles := cycles, lp_world := w,
                   lp_had_injections := lp_had_injections ls \<or> cont\<rparr>))"

text \<open>The branch that executes tools; \<open>ctx\<close> is the context of the hooks after the answer.\<close>

definition tool_iteration ::
  "'s run_env \<Rightarrow> 's run_spec \<Rightarrow> nat \<Rightarrow> llm_response \<Rightarrow> agent_hook_context \<Rightarrow> 's loop_state \<Rightarrow> 's outcome" where
  "tool_iteration E spec iteration response ctx ls =
     (let text_of = te_text_of (ev_tools E);
          w = lp_world ls;
          w = (if ah_wants_streaming (hook_of spec) then call_hook spec (StreamEnd ctx True) w else w);
          calls = lr_tool_calls response;
          calls_json = map (to_openai_tool_call text_of) calls;
          assistant = build_assistant_message (lr_content response) (Some calls_json)
                        (lr_reasoning_content response) (lr_thinking_blocks response);
          w = notify (rn_progress spec) (''Executing: '' @ join '', '' (map tc_name calls)) w;
          w = emit_checkpoint spec ''awaiting_tools'' iteration assistant [] calls_json w;
          w = call_hook spec (BeforeExecuteTools ctx) w;
          (outs, fatal, th, s) = execute_tools (ev_tools E) (ev_iteration E) (wd_registry w) (rn_concurrent_tools spec)
                                   (rn_fail_on_tool_error spec) calls (lp_throttles ls) (wd_ext w);
          results = map fst outs; events = map snd outs;
          ctx = ctx\<lparr>hx_tool_events := events, hx_tool_results := results\<rparr>;
          (tool_msgs, fs) = tool_messages (ev_persist E) (rn_limits spec) (zip calls results) (wd_files w);
          w = w\<lparr>wd_ext := s, wd_files := fs\<rparr>;
          messages = lp_messages ls @ assistant # tool_msgs;
          ls = ls\<lparr>lp_tools_used := lp_tools_used ls @ map tc_name calls, lp_throttles := th,
                  lp_tool_events := lp_tool_events ls @ events\<rparr>
      in case fatal of
           Some err \<Rightarrow>
             (let text = ''Error: '' @ err;
                  messages = append_final_message (Some text) messages;
                  w = call_hook spec (AfterIteration (ctx\<lparr>hx_final_content := Some text, hx_error := Some text,
                        hx_stop_reason := Some ''tool_error''\<rparr>)) w;
                  (cont, ls) = drain_into E spec (ls\<lparr>lp_messages := messages, lp_error := Some text,
                     lp_final_content := Some text, lp_stop_reason := ''tool_error'', lp_world := w\<rparr>)
              in if cont then Next ls else Leave ls)
         | None \<Rightarrow>
             (let w = emit_checkpoint spec ''tools_completed'' iteration assistant tool_msgs [] w;
                  w = notify (rn_progress spec) ''Tool execution completed, continuing...'' w;
                  (_, ls) = drain_into E spec (ls\<lparr>lp_messages := messages, lp_empty_retries := 0,
                     lp_length_recoveries := 0, lp_world := w\<rparr>)
              in Next (ls\<lparr>lp_world := call_hook spec (AfterIteration ctx) (lp_world ls)\<rparr>)))"

text \<open>The branches without tools.\<close>

definition answer_iteration ::
  "'s run_env \<Rightarrow> 's run_spec \<Rightarrow> nat \<Rightarrow> llm_response \<Rightarrow> agent_hook_context \<Rightarrow> 's loop_state \<Rightarrow> 's outcome option" where
  "answer_iteration E spec iteration response ctx ls =
     (let text_of = te_text_of (ev_tools E);
          hook = hook_of spec;
          stream_end = (\<lambda>resuming w. if ah_wants_streaming hook then call_hook spec (StreamEnd ctx resuming) w else w);
          (clean, s) = ah_finalize hook ctx (lr_content response) (wd_ext (lp_world ls));
          w = (lp_world ls)\<lparr>wd_ext := s\<rparr>;
          finish = (\<lambda>clean response ls w.
            case handle_final_content text_of spec (lp_messages ls) clean response iteration (lp_injection_cycles ls)
                   (lp_had_injections ls) (lp_usage ls) w of (r, w) \<Rightarrow> Return r w)
      in if lr_finish_reason response \<noteq> ''error'' \<and> is_blank_text clean
         then let ls = ls\<lparr>lp_empty_retries := lp_empty_retries ls + 1\<rparr>
              in if lp_empty_retries ls < max_empty_retries
                 then (let w = notify (rn_retry_wait spec) ''Empty response, retrying...'' w;
                           w = call_hook spec (AfterIteration ctx) (stream_end False w)
                       in Some (Next (ls\<lparr>lp_world := w\<rparr>)))
                 else (case request_finalization_retry E spec (lp_messages ls) (stream_end False w) of
                         None \<Rightarrow> None
                       | Some (retry, w) \<Rightarrow>
                           (let usage = accumulate_usage (lp_usage ls) (lr_usage retry);
                                ctx = ctx\<lparr>hx_response := Some retry, hx_usage := merge_usage (lr_usage response) (lr_usage retry),
                                          hx_tool_calls := lr_tool_calls retry\<rparr>;
                                (retry_clean, s) = ah_finalize hook ctx (lr_content retry) (wd_ext w)
                            in Some (finish retry_clean retry (ls\<lparr>lp_usage := usage\<rparr>) (w\<lparr>wd_ext := s\<rparr>))))
         else if lr_finish_reason response = ''length'' \<and> \<not> is_blank_text clean
                 \<and> lp_length_recoveries ls + 1 \<le> max_length_recoveries
         then (let assistant = build_assistant_message clean None (lr_reasoning_content response) (lr_thinking_blocks response);
                   w = call_hook spec (AfterIteration ctx) (stream_end True w)
               in Some (Next (ls\<lparr>lp_length_recoveries := lp_length_recoveries ls + 1,
                    lp_messages := lp_messages ls @ [assistant, build_length_recovery_message], lp_world := w\<rparr>)))
         else Some (finish clean response ls w))"

definition run_iteration ::
  "'s run_env \<Rightarrow> 's run_spec \<Rightarrow> nat \<Rightarrow> 's loop_state \<Rightarrow> (unit, 's outcome) result option" where
  "run_iteration E spec iteration ls =
     (let w = lp_world ls;
          (messages_for_model, fs) = governed_messages (ev_persist E) (te_text_of (ev_tools E)) (rn_limits spec)
                                       (lp_messages ls) (wd_files w);
          ctx = hook_context_default\<lparr>hx_iteration := iteration, hx_messages := lp_messages ls\<rparr>;
          w = call_hook spec (BeforeIteration ctx) (w\<lparr>wd_files := fs\<rparr>)
      in case request_model E spec messages_for_model w of
           None \<Rightarrow> None
         | Some Panic \<Rightarrow> Some Panic
         | Some (Err e) \<Rightarrow> Some (Err e)
         | Some (Ok (raw, (streamed_content, streamed), w)) \<Rightarrow>
             (let (reasoning, cleaned) = extract_reasoning (lr_reasoning_content raw) (lr_thinking_blocks raw) (lr_content raw);
                  response = raw\<lparr>lr_content := cleaned\<rparr>;
                  emits = (reasoning \<noteq> None \<and> reasoning \<noteq> Some [] \<and> \<not> streamed);
                  w = (if emits then call_hook spec EmitReasoningEnd (call_hook spec (EmitReasoning (the reasoning)) w) else w);
                  ctx = ctx\<lparr>hx_streamed_content := streamed_content, hx_streamed_reasoning := streamed \<or> emits, hx_response := Some response,
                            hx_usage := lr_usage raw, hx_tool_calls := lr_tool_calls response\<rparr>;
                  ls = ls\<lparr>lp_usage := accumulate_usage (lp_usage ls) (lr_usage raw), lp_world := w\<rparr>
              in if should_execute_tools response then Some (Ok (tool_iteration E spec iteration response ctx ls))
                 else map_option Ok (answer_iteration E spec iteration response ctx ls)))"

definition result_of :: "'s loop_state \<Rightarrow> agent_run_result" where
  "result_of ls =
     \<lparr>ar_final_content = lp_final_content ls, ar_messages = lp_messages ls, ar_tools_used = lp_tools_used ls,
      ar_usage = lp_usage ls, ar_stop_reason = lp_stop_reason ls, ar_error = lp_error ls,
      ar_tool_events = lp_tool_events ls, ar_had_injections = lp_had_injections ls\<rparr>"

definition max_iterations_result :: "'s run_env \<Rightarrow> 's run_spec \<Rightarrow> 's loop_state \<Rightarrow> agent_run_result \<times> 's run_world" where
  "max_iterations_result E spec ls =
     (let text = (case rn_max_iterations_message spec of
                    Some m \<Rightarrow> m
                  | None \<Rightarrow> ''Task did not finish within '' @ show_nat (rn_max_iterations spec) @ '' iterations.'');
          ls = ls\<lparr>lp_stop_reason := ''max_iterations'', lp_final_content := Some text,
                  lp_messages := append_final_message (Some text) (lp_messages ls)\<rparr>;
          (_, ls) = drain_into E spec ls
      in (result_of (ls\<lparr>lp_had_injections := True\<rparr>), lp_world ls))"

fun run_loop ::
  "'s run_env \<Rightarrow> 's run_spec \<Rightarrow> nat list \<Rightarrow> 's loop_state \<Rightarrow> (unit, agent_run_result \<times> 's run_world) result option" where
  "run_loop E spec [] ls = Some (Ok (max_iterations_result E spec ls))"
| "run_loop E spec (iteration # rest) ls =
     (case run_iteration E spec iteration ls of
        None \<Rightarrow> None
      | Some Panic \<Rightarrow> Some Panic
      | Some (Err e) \<Rightarrow> Some (Err e)
      | Some (Ok (Next ls')) \<Rightarrow> run_loop E spec rest ls'
      | Some (Ok (Leave ls')) \<Rightarrow> Some (Ok (result_of ls', lp_world ls'))
      | Some (Ok (Return r w)) \<Rightarrow> Some (Ok (r, w)))"

definition loop_start :: "'s run_spec \<Rightarrow> 's run_world \<Rightarrow> 's loop_state" where
  "loop_start spec w =
     \<lparr>lp_messages = rn_initial_messages spec, lp_final_content = None, lp_tools_used = [],
      lp_usage = [(''prompt_tokens'', 0), (''completion_tokens'', 0)], lp_error = None,
      lp_stop_reason = ''completed'', lp_tool_events = [], lp_throttles = no_throttles, lp_empty_retries = 0,
      lp_length_recoveries = 0, lp_had_injections = False, lp_injection_cycles = 0, lp_world = w\<rparr>"

definition run ::
  "'s run_env \<Rightarrow> 's run_spec \<Rightarrow> 's run_world \<Rightarrow> (unit, agent_run_result \<times> 's run_world) result option" where
  "run E spec w = run_loop E spec [0..<rn_max_iterations spec] (loop_start spec w)"

section \<open>A run returns\<close>

lemma chat_standard: "\<exists>x. chat_with_retry td g chat req Standard s = Some x"
  using retry_loop_standard [of "retry_start g req s" td "''request''" chat]
  by (auto simp: chat_with_retry_def retry_start_def)

lemma stream_standard: "\<exists>x. chat_stream_with_retry td g chat req Standard s = Some x"
  using retry_loop_standard [of "retry_start g req s" td "''stream request''" chat]
  by (auto simp: chat_stream_with_retry_def retry_start_def)

lemma request_model_returns:
  assumes "rn_retry_mode spec = Standard"
  shows "\<exists>x. request_model E spec ms w = Some x"
proof -
  obtain r where "chat_stream_with_retry (rp_text_delay (ev_provider E)) (rp_generation (ev_provider E))
      (stream_chat (ev_provider E)) (chat_request_for spec ms (fst (get_definitions (ev_iteration E) (wd_registry w))))
      (rn_retry_mode spec) (wd_ext w, []) = Some r"
    using stream_standard assms by metis
  then show ?thesis
    by (auto simp: request_model_def Let_def case_prod_beta split: option.splits result.splits)
qed

lemma request_model_plain:
  assumes "\<not> wants_stream spec"
  shows "\<exists>x. request_model E spec ms w = Some (Ok x)"
  using assms by (auto simp: request_model_def Let_def case_prod_beta split: option.splits)

lemma answer_iteration_returns:
  assumes "rn_retry_mode spec = Standard"
  shows "\<exists>x. answer_iteration E spec i response ctx ls = Some x"
proof -
  have "\<exists>x. request_finalization_retry E spec ms w = Some x" for ms w
    using chat_standard assms by (fastforce simp: request_finalization_retry_def Let_def split: option.splits)
  then have ne: "request_finalization_retry E spec ms w \<noteq> None" for ms w by (metis option.discI)
  show ?thesis
    by (auto simp: answer_iteration_def Let_def case_prod_beta ne split: option.splits)
qed

lemma run_iteration_returns:
  assumes "rn_retry_mode spec = Standard"
  shows "run_iteration E spec i ls \<noteq> None"
  using request_model_returns [OF assms] answer_iteration_returns [OF assms]
  by (fastforce simp: run_iteration_def Let_def case_prod_beta split: option.splits result.splits)

lemma run_iteration_plain:
  assumes "rn_retry_mode spec = Standard" and "\<not> wants_stream spec"
  shows "\<exists>x. run_iteration E spec i ls = Some (Ok x)"
proof -
  have rm: "request_model E spec ms w \<noteq> None" "request_model E spec ms w \<noteq> Some Panic"
    "request_model E spec ms w \<noteq> Some (Err e)" for ms w e
    using request_model_plain [OF assms(2), of E ms w] by auto
  show ?thesis
    by (auto simp: run_iteration_def Let_def case_prod_beta rm answer_iteration_returns [OF assms(1)]
        split: option.splits result.splits)
qed

lemma run_loop_returns:
  assumes "rn_retry_mode spec = Standard" and "\<not> wants_stream spec"
  shows "\<exists>r w. run_loop E spec is ls = Some (Ok (r, w))"
proof (induction "is" arbitrary: ls)
  case (Cons i "is")
  obtain x where x: "run_iteration E spec i ls = Some (Ok x)" using run_iteration_plain [OF assms] by blast
  show ?case using Cons.IH x by (cases x) auto
qed simp

section \<open>How a run ends\<close>

text \<open>The results of \<open>handle_final_content\<close> carry neither tools nor events.\<close>

definition bare_result :: "agent_run_result \<Rightarrow> bool" where
  "bare_result r \<longleftrightarrow>
     ar_stop_reason r \<in> {''completed'', ''error'', ''empty_final_response'', ''injected''}
     \<and> ar_tools_used r = [] \<and> ar_tool_events r = []"

lemma end_with_error_bare:
  "sr \<in> {''error'', ''empty_final_response''} \<Longrightarrow> bare_result (fst (end_with_error text_of spec sr fc ms cy hi us w))"
  by (auto simp: end_with_error_def bare_result_def final_result_def Let_def case_prod_beta)

lemma final_result_bare:
  "sr \<in> {''completed'', ''injected''} \<Longrightarrow> bare_result (final_result c ms us sr err hi)"
  by (auto simp: bare_result_def final_result_def)

lemma handle_final_bare: "bare_result (fst (handle_final_content text_of spec ms clean resp i cy hi us w))"
proof -
  have "bare_result (fst (if a then (final_result None m us ''injected'' None True, w1)
      else if b then end_with_error text_of spec ''error'' fc m1 c1 h1 us w2
      else if d then end_with_error text_of spec ''empty_final_response'' fc2 m2 c1 h1 us w2
      else (final_result clean m3 us ''completed'' None h1, w3)))" for a b d m w1 fc m1 c1 h1 w2 fc2 m2 m3 w3
    by (simp add: end_with_error_bare final_result_bare)
  then show ?thesis by (simp add: handle_final_content_def Let_def case_prod_beta)
qed

lemma answer_iteration_bare:
  "answer_iteration E spec i resp ctx ls = Some (Return r w) \<Longrightarrow> bare_result r"
  using handle_final_bare
  by (fastforce simp: answer_iteration_def Let_def case_prod_beta split: if_splits option.splits)

lemma drain_into_kept:
  "lp_stop_reason (snd (drain_into E spec ls)) = lp_stop_reason ls"
  "lp_tools_used (snd (drain_into E spec ls)) = lp_tools_used ls"
  by (simp_all add: drain_into_def case_prod_beta)

lemma tool_iteration_no_return: "tool_iteration E spec i resp ctx ls \<noteq> Return r w"
  by (simp add: tool_iteration_def Let_def case_prod_beta split: option.splits)

lemma tool_iteration_leave:
  "tool_iteration E spec i resp ctx ls = Leave ls' \<Longrightarrow> lp_stop_reason ls' = ''tool_error''"
  by (auto simp: tool_iteration_def Let_def case_prod_beta drain_into_kept split: option.splits if_splits)

lemma answer_iteration_no_leave: "answer_iteration E spec i resp ctx ls \<noteq> Some (Leave ls')"
  by (auto simp: answer_iteration_def Let_def case_prod_beta split: if_splits option.splits)

lemma run_iteration_cases:
  assumes "run_iteration E spec i ls = Some (Ok out)"
  obtains (tools) resp ctx ls' where "out = tool_iteration E spec i resp ctx ls'"
  | (answer) resp ctx ls' where "answer_iteration E spec i resp ctx ls' = Some out"
  using assms
  by (auto simp: run_iteration_def Let_def case_prod_beta split: option.splits result.splits if_splits)

lemma run_iteration_return: "run_iteration E spec i ls = Some (Ok (Return r w)) \<Longrightarrow> bare_result r"
  by (erule run_iteration_cases) (auto simp: tool_iteration_no_return [symmetric] dest: answer_iteration_bare
      tool_iteration_no_return [THEN notE, OF sym])

lemma run_iteration_leave: "run_iteration E spec i ls = Some (Ok (Leave ls')) \<Longrightarrow> lp_stop_reason ls' = ''tool_error''"
  by (erule run_iteration_cases) (auto dest: tool_iteration_leave [OF sym] simp: answer_iteration_no_leave)

lemma run_loop_ends:
  "run_loop E spec is ls = Some (Ok (r, w)) \<Longrightarrow>
   bare_result r \<or> ar_stop_reason r = ''tool_error'' \<or> ar_stop_reason r = ''max_iterations'' \<and> ar_had_injections r"
proof (induction "is" arbitrary: ls)
  case Nil
  then show ?case
    by (auto simp: max_iterations_result_def result_of_def Let_def case_prod_beta drain_into_kept)
next
  case (Cons i "is")
  then show ?case
    by (auto split: option.splits result.splits outcome.splits simp: result_of_def
        dest: run_iteration_return run_iteration_leave)
qed

section \<open>The history grows\<close>

text \<open>
  \<open>extends a b\<close>: \<open>b\<close> is at least as long as \<open>a\<close> and has its messages, except that the last message of
  \<open>a\<close> may have got more content, with the same role.
\<close>

definition extends :: "json list \<Rightarrow> json list \<Rightarrow> bool" where
  "extends a b \<longleftrightarrow>
     length a \<le> length b \<and> take (length a - 1) b = butlast a \<and>
     map msg_role (take (length a) b) = map msg_role a"

lemma extends_refl [simp]: "extends a a"
  by (simp add: extends_def butlast_conv_take)

lemma extends_append [simp]: "extends a (a @ b)"
  by (simp add: extends_def butlast_conv_take)

lemma extends_trans:
  assumes "extends a b" "extends b c"
  shows "extends a c"
proof -
  have len: "length a \<le> length b" "length b \<le> length c" using assms by (simp_all add: extends_def)
  have "take (length a - 1) c = take (length a - 1) (take (length b - 1) c)" using len by simp
  also have "\<dots> = take (length a - 1) b" using assms(2) len by (simp add: extends_def butlast_conv_take)
  finally have "take (length a - 1) c = butlast a" using assms(1) by (simp add: extends_def)
  moreover have "map msg_role (take (length a) c) = take (length a) (map msg_role (take (length b) c))"
    using len by (simp add: take_map)
  then have "map msg_role (take (length a) c) = take (length a) (map msg_role b)"
    using assms(2) by (simp only: extends_def)
  then have "map msg_role (take (length a) c) = map msg_role a"
    using assms(1) by (simp only: extends_def take_map)
  ultimately show ?thesis using len by (simp add: extends_def)
qed

lemma msg_role_set_content [simp]: "msg_role (set_content v m) = msg_role m"
  by (simp add: set_content_def msg_role_def split: json.split)

lemma extends_set_last:
  assumes "a \<noteq> []" "msg_role m = msg_role (last a)"
  shows "extends a (butlast a @ [m])"
proof -
  have "map msg_role a = map msg_role (butlast a) @ [msg_role (last a)]"
    using assms(1) by (metis append_butlast_last_id list.simps(8) list.simps(9) map_append)
  moreover have "take (length a) (butlast a @ [m]) = butlast a @ [m]" using assms(1) by (cases a rule: rev_cases) auto
  ultimately show ?thesis using assms(2) by (simp add: extends_def)
qed

lemma extends_inject: "extends a (append_injected_message text_of i a)"
  by (simp add: append_injected_message_def extends_set_last)

lemma extends_injects: "extends a (append_injected_messages text_of is a)"
  unfolding append_injected_messages_def
proof (induction "is" arbitrary: a)
  case (Cons i "is")
  show ?case using extends_trans [OF extends_inject Cons] by simp
qed simp

lemma try_drain_extends:
  assumes "try_drain_injections text_of spec ms am cy it w = (b, cy', ms', w')"
  shows "extends ms ms'"
proof -
  have "extends ms (append_injected_messages text_of xs (ms @ ys))" for xs ys
    by (rule extends_trans [OF extends_append extends_injects])
  from this [of _ "[]"] this show ?thesis using assms extends_injects
    by (auto simp: try_drain_injections_def Let_def split: if_splits prod.splits option.splits)
qed

lemma drain_into_extends: "extends (lp_messages ls) (lp_messages (snd (drain_into E spec ls)))"
  by (auto simp: drain_into_def split: prod.splits dest: try_drain_extends)

lemma placeholder_extends [simp]: "extends ms (append_model_error_placeholder ms)"
  by (simp add: append_model_error_placeholder_def)

lemma final_extends [simp]: "extends ms (append_final_message c ms)"
  by (simp add: append_final_message_def split: option.split)

lemma end_with_error_extends: "extends ms (ar_messages (fst (end_with_error text_of spec sr fc ms cy hi us w)))"
  by (auto simp: end_with_error_def Let_def final_result_def split: prod.splits dest: try_drain_extends)

lemma handle_final_extends:
  "extends ms (ar_messages (fst (handle_final_content text_of spec ms clean resp i cy hi us w)))"
proof -
  define am where "am = (if lr_finish_reason resp \<noteq> ''error'' \<and> \<not> is_blank_text clean
     then Some (build_assistant_message clean None (lr_reasoning_content resp) (lr_thinking_blocks resp)) else None)"
  obtain b c m w1 where d: "try_drain_injections text_of spec ms am cy None w = (b, c, m, w1)" by (metis prod_cases4)
  note e = try_drain_extends [OF d]
  have "extends ms (ar_messages (fst (end_with_error text_of spec sr fc (append_model_error_placeholder m) c h us w2)))"
    "extends ms (ar_messages (fst (end_with_error text_of spec sr fc (append_final_message k m) c h us w2)))" for sr fc h w2 k
    using extends_trans [OF extends_trans [OF e]] end_with_error_extends placeholder_extends final_extends by blast+
  moreover have "extends ms (m @ xs)" for xs using extends_trans [OF e] by simp
  ultimately show ?thesis using e
    by (simp add: handle_final_content_def Let_def am_def [symmetric] d final_result_def)
qed

text \<open>The messages an iteration ends with.\<close>

fun outcome_messages :: "'s outcome \<Rightarrow> json list" where
  "outcome_messages (Next ls) = lp_messages ls"
| "outcome_messages (Leave ls) = lp_messages ls"
| "outcome_messages (Return r w) = ar_messages r"

lemma tool_iteration_extends: "extends (lp_messages ls) (outcome_messages (tool_iteration E spec i resp ctx ls))"
proof -
  have "extends (lp_messages ls) (lp_messages (snd (drain_into E spec ls')))"
    if "\<exists>xs. lp_messages ls' = lp_messages ls @ xs" for ls'
    using extends_trans [OF _ drain_into_extends, of "lp_messages ls" ls' E spec] that by auto
  moreover have "\<exists>xs. append_final_message c (lp_messages ls @ ys) = lp_messages ls @ xs" for c ys
    by (auto simp: append_final_message_def split: option.split)
  ultimately show ?thesis
    by (simp add: tool_iteration_def Let_def case_prod_beta split: option.split)
qed

lemma answer_iteration_extends:
  "answer_iteration E spec i resp ctx ls = Some out \<Longrightarrow> extends (lp_messages ls) (outcome_messages out)"
  by (auto simp: answer_iteration_def Let_def case_prod_beta split: if_splits option.splits
      intro: handle_final_extends)

lemma run_iteration_extends:
  assumes "run_iteration E spec i ls = Some (Ok out)"
  shows "extends (lp_messages ls) (outcome_messages out)"
proof -
  have "extends (lp_messages ls) (outcome_messages (tool_iteration E spec i resp ctx (ls\<lparr>lp_usage := u, lp_world := w\<rparr>)))"
    for resp ctx u w using tool_iteration_extends [of "ls\<lparr>lp_usage := u, lp_world := w\<rparr>"] by simp
  moreover have "answer_iteration E spec i resp ctx (ls\<lparr>lp_usage := u, lp_world := w\<rparr>) = Some out \<Longrightarrow>
      extends (lp_messages ls) (outcome_messages out)" for resp ctx u w
    using answer_iteration_extends [of E spec i resp ctx "ls\<lparr>lp_usage := u, lp_world := w\<rparr>"] by simp
  ultimately show ?thesis using assms
    by (auto simp: run_iteration_def Let_def case_prod_beta split: option.splits result.splits if_splits)
qed

lemma run_loop_extends:
  "run_loop E spec is ls = Some (Ok (r, w)) \<Longrightarrow> extends (lp_messages ls) (ar_messages r)"
proof (induction "is" arbitrary: ls)
  case Nil
  have "extends (lp_messages ls) (lp_messages (snd (drain_into E spec (ls\<lparr>lp_stop_reason := a, lp_final_content := b,
     lp_messages := append_final_message c (lp_messages ls)\<rparr>))))" for a b c
    using drain_into_extends [of "ls\<lparr>lp_stop_reason := a, lp_final_content := b,
     lp_messages := append_final_message c (lp_messages ls)\<rparr>" E spec] extends_trans [OF final_extends] by simp
  then show ?case using Nil by (auto simp: max_iterations_result_def result_of_def Let_def case_prod_beta)
next
  case (Cons i "is")
  then obtain out where out: "run_iteration E spec i ls = Some (Ok out)"
    by (auto split: option.splits result.splits)
  note e = run_iteration_extends [OF out]
  show ?case
  proof (cases out)
    case (Next ls')
    then show ?thesis using e Cons.prems out Cons.IH extends_trans by fastforce
  qed (use e Cons.prems out in \<open>auto simp: result_of_def\<close>)
qed

section \<open>Properties\<close>


definition demo_limits :: run_limits where
  "demo_limits = \<lparr>rl_max_tool_result_chars = 0, rl_workspace = None, rl_session_key = None, rl_max_tokens = None,
     rl_context_window_tokens = None, rl_context_block_limit = None\<rparr>"

definition turn_spec :: "nat \<Rightarrow> nat run_spec" where
  "turn_spec n =
     \<lparr>rn_initial_messages = [user_message ''hello''], rn_model = ''m'', rn_max_iterations = n, rn_limits = demo_limits,
      rn_temperature = None, rn_reasoning_effort = None, rn_hook = None, rn_error_message = None,
      rn_max_iterations_message = None, rn_concurrent_tools = False, rn_fail_on_tool_error = False,
      rn_retry_mode = Standard, rn_checkpoint = None, rn_injection = None, rn_progress = None, rn_retry_wait = None,
      rn_stream_progress_deltas = True\<rparr>"

definition demo_answer :: llm_response where
  "demo_answer = response_default\<lparr>lr_content := Some ''hi'', lr_finish_reason := ''stop''\<rparr>"

definition turn_env :: "nat run_env" where
  "turn_env =
     \<lparr>ev_tools = quiet_env, ev_persist = open_disk, ev_iteration = (\<lambda>_. []),
      ev_provider = \<lparr>rp_chat = (\<lambda>req s. (demo_answer, Suc s)), rp_stream = (\<lambda>req s. (demo_answer, [], s)),
        rp_generation = demo_generation, rp_text_delay = (\<lambda>_. None), rp_timeout = (\<lambda>_ _. None)\<rparr>\<rparr>"

definition turn_world :: "nat run_world" where
  "turn_world = \<lparr>wd_registry = tool_registry_new, wd_files = Map.empty, wd_ext = 0\<rparr>"

lemma turn_spec_plain: "rn_retry_mode (turn_spec n) = Standard" "\<not> wants_stream (turn_spec n)"
  by (simp_all add: turn_spec_def wants_stream_def hook_of_def noop_hook_def)


definition run_summary :: "(unit, agent_run_result \<times> 's run_world) result option \<Rightarrow> (string \<times> string option \<times> nat) option" where
  "run_summary x =
     (case x of Some (Ok (r, w)) \<Rightarrow> Some (ar_stop_reason r, ar_final_content r, length (ar_messages r)) | _ \<Rightarrow> None)"

lemma turn_runs: "run_summary (run turn_env (turn_spec 5) turn_world) = Some (''completed'', Some ''hi'', 2)"
  by code_simp

text \<open>
  Every run ends in one of six ways. A run that ends with an answer, an error, an empty answer or
  an injection reports no tools and no tool events, whatever was executed in it; only a fatal tool
  error and the limit on iterations keep them. A run that hits the limit reports injections even
  when there were none.
\<close>

theorem runs_end_without_tool_reports:
  assumes "run E spec w = Some (Ok (r, w'))"
  shows "ar_stop_reason r \<in> {''completed'', ''error'', ''empty_final_response'', ''injected''}
       \<and> ar_tools_used r = [] \<and> ar_tool_events r = []
     \<or> ar_stop_reason r = ''tool_error''
     \<or> ar_stop_reason r = ''max_iterations'' \<and> ar_had_injections r"
  using run_loop_ends [OF assms [unfolded run_def]] by (simp only: bare_result_def)

theorem runs_end_without_tool_reports_witness:
  "\<exists>r w'. run turn_env (turn_spec 5) turn_world = Some (Ok (r, w')) \<and> ar_stop_reason r = ''completed'' \<and> ar_tools_used r = []"
proof -
  obtain r w' where e: "run turn_env (turn_spec 5) turn_world = Some (Ok (r, w'))"
    using run_loop_returns [OF turn_spec_plain] by (metis run_def)
  then have "ar_stop_reason r = ''completed''" using turn_runs by (simp add: run_summary_def)
  then show ?thesis using runs_end_without_tool_reports [OF e] e by auto
qed



definition tool_answer :: llm_response where
  "tool_answer = response_default\<lparr>lr_tool_calls := [search_call\<lparr>tc_name := ''mcp_echo'',
     tc_arguments := [(''x'', JNull)]\<rparr>], lr_finish_reason := ''tool_calls''\<rparr>"

definition tool_turn_env :: "nat run_env" where
  "tool_turn_env = turn_env\<lparr>ev_provider := (ev_provider turn_env)
     \<lparr>rp_chat := (\<lambda>req s. (if s = 0 then tool_answer else demo_answer, s + 10))\<rparr>\<rparr>"

definition tool_turn :: "(string list \<times> string \<times> nat \<times> nat) option" where
  "tool_turn =
     (case run tool_turn_env (turn_spec 5) (turn_world\<lparr>wd_registry := register echo_tool tool_registry_new\<rparr>) of
        Some (Ok (r, w)) \<Rightarrow> Some (ar_tools_used r, ar_stop_reason r, length (ar_messages r), wd_ext w)
      | _ \<Rightarrow> None)"

text \<open>
  A turn in which the model calls a tool and then answers: the tool ran, as the state of the world
  shows, but the result names no tool.
\<close>

theorem executed_tools_are_not_reported: "tool_turn = Some ([], ''completed'', 4, 21)"
  by code_simp

end
