(* ===== verification/Command_Router.thy ===== *)
theory Command_Router
  imports HC_Text "HOL-Library.Finite_Map"
begin

text \<open>
  The routing table of slash commands (crates/command/src/router.rs). A handler is a function of the
  command context and of the state \<open>'s\<close>, both of which it may change; it answers with a message or
  nothing. The session and the loop a context refers to are shared objects, part of \<open>'s\<close>. Lower
  case and trimming are those of the shared text theory, and slicing a string off a character
  boundary panics.
\<close>

record 'm command_context =
  cc_msg :: 'm
  cc_key :: string
  cc_raw :: string
  cc_args :: string

definition command_context_new :: "'m \<Rightarrow> string \<Rightarrow> string \<Rightarrow> 'm command_context" where
  "command_context_new msg key raw = \<lparr>cc_msg = msg, cc_key = key, cc_raw = raw, cc_args = []\<rparr>"

type_synonym ('m, 'o, 's) handler = "'m command_context \<Rightarrow> 's \<Rightarrow> 'o option \<times> 'm command_context \<times> 's"

record ('m, 'o, 's) command_router =
  cr_priority :: "(string, ('m, 'o, 's) handler) fmap"
  cr_exact :: "(string, ('m, 'o, 's) handler) fmap"
  cr_prefix :: "(string \<times> ('m, 'o, 's) handler) list"
  cr_interceptors :: "('m, 'o, 's) handler list"

definition router_new :: "('m, 'o, 's) command_router" where
  "router_new = \<lparr>cr_priority = fmempty, cr_exact = fmempty, cr_prefix = [], cr_interceptors = []\<rparr>"

definition add_priority ::
  "string \<Rightarrow> ('m, 'o, 's) handler \<Rightarrow> ('m, 'o, 's) command_router \<Rightarrow> ('m, 'o, 's) command_router" where
  "add_priority cmd h r = r\<lparr>cr_priority := fmupd cmd h (cr_priority r)\<rparr>"

definition add_exact ::
  "string \<Rightarrow> ('m, 'o, 's) handler \<Rightarrow> ('m, 'o, 's) command_router \<Rightarrow> ('m, 'o, 's) command_router" where
  "add_exact cmd h r = r\<lparr>cr_exact := fmupd cmd h (cr_exact r)\<rparr>"

text \<open>\<^verbatim>\<open>sort_by_key\<close> is stable and orders by the length, longest first.\<close>

definition add_prefix ::
  "string \<Rightarrow> ('m, 'o, 's) handler \<Rightarrow> ('m, 'o, 's) command_router \<Rightarrow> ('m, 'o, 's) command_router" where
  "add_prefix pfx h r = r\<lparr>cr_prefix := sort_key (\<lambda>p. - int (length (fst p))) (cr_prefix r @ [(pfx, h)])\<rparr>"

definition intercept ::
  "('m, 'o, 's) handler \<Rightarrow> ('m, 'o, 's) command_router \<Rightarrow> ('m, 'o, 's) command_router" where
  "intercept h r = r\<lparr>cr_interceptors := cr_interceptors r @ [h]\<rparr>"

definition normalize_command :: "string \<Rightarrow> string" where
  "normalize_command text = to_lowercase (trim text)"

definition is_priority :: "('m, 'o, 's) command_router \<Rightarrow> string \<Rightarrow> bool" where
  "is_priority r text \<longleftrightarrow> fmlookup (cr_priority r) (normalize_command text) \<noteq> None"

definition is_dispatchable_command :: "('m, 'o, 's) command_router \<Rightarrow> string \<Rightarrow> bool" where
  "is_dispatchable_command r text \<longleftrightarrow>
     (let cmd = normalize_command text
      in fmlookup (cr_exact r) cmd \<noteq> None \<or> list_ex (\<lambda>p. starts_with (fst p) cmd) (cr_prefix r))"

definition dispatch_priority ::
  "('m, 'o, 's) command_router \<Rightarrow> 'm command_context \<Rightarrow> 's \<Rightarrow> 'o option \<times> 'm command_context \<times> 's" where
  "dispatch_priority r ctx s =
     (case fmlookup (cr_priority r) (to_lowercase (cc_raw ctx)) of Some h \<Rightarrow> h ctx s | None \<Rightarrow> (None, ctx, s))"

fun run_interceptors ::
  "('m, 'o, 's) handler list \<Rightarrow> 'm command_context \<Rightarrow> 's \<Rightarrow> 'o option \<times> 'm command_context \<times> 's" where
  "run_interceptors [] ctx s = (None, ctx, s)"
| "run_interceptors (h # hs) ctx s =
     (case h ctx s of (Some out, ctx', s') \<Rightarrow> (Some out, ctx', s') | (None, ctx', s') \<Rightarrow> run_interceptors hs ctx' s')"

definition dispatch_command ::
  "('m, 'o, 's) command_router \<Rightarrow> 'm command_context \<Rightarrow> 's \<Rightarrow> (unit, 'o option \<times> 'm command_context \<times> 's) result" where
  "dispatch_command r ctx s =
     (let cmd = to_lowercase (cc_raw ctx)
      in case fmlookup (cr_exact r) cmd of
           Some h \<Rightarrow> Ok (h ctx s)
         | None \<Rightarrow>
             (case find (\<lambda>p. starts_with (fst p) cmd) (cr_prefix r) of
                Some (pfx, h) \<Rightarrow>
                  if char_boundary (cc_raw ctx) (length pfx)
                  then Ok (h (ctx\<lparr>cc_args := drop (length pfx) (cc_raw ctx)\<rparr>) s)
                  else Panic
              | None \<Rightarrow> Ok (run_interceptors (cr_interceptors r) ctx s)))"

section \<open>The longest prefix wins\<close>

inductive router_step :: "('m, 'o, 's) command_router \<Rightarrow> ('m, 'o, 's) command_router \<Rightarrow> bool" where
  "router_step r (add_priority cmd h r)"
| "router_step r (add_exact cmd h r)"
| "router_step r (add_prefix pfx h r)"
| "router_step r (intercept h r)"

definition prefixes_sorted :: "('m, 'o, 's) command_router \<Rightarrow> bool" where
  "prefixes_sorted r \<longleftrightarrow> sorted_wrt (\<lambda>p q. length (fst q) \<le> length (fst p)) (cr_prefix r)"

interpretation router: invariant_system "\<lambda>r. r = router_new" router_step prefixes_sorted
proof unfold_locales
  fix r r' :: "('a, 'b, 'c) command_router" assume "prefixes_sorted r" "router_step r r'"
  from this(2,1) show "prefixes_sorted r'"
  proof cases
    case (3 pfx h)
    have "sorted (map (\<lambda>p. - int (length (fst p))) (cr_prefix r'))" using 3 by (simp add: add_prefix_def)
    then show ?thesis by (simp add: prefixes_sorted_def sorted_map sorted_wrt_map)
  qed (simp_all add: prefixes_sorted_def add_priority_def add_exact_def intercept_def)
qed (simp add: prefixes_sorted_def router_new_def)

lemma find_first_sorted:
  assumes "sorted_wrt R xs" "find P xs = Some x" "y \<in> set xs" "P y" "\<And>z. R z z"
  shows "R x y"
  using assms by (induction xs) (auto split: if_splits)

text \<open>
  In every router built by registrations, a command without an exact handler is dispatched to a
  handler of the longest registered prefix that it starts with, and the arguments are the rest of
  the text as it was typed.
\<close>

theorem longest_prefix_is_dispatched:
  assumes "reach (\<lambda>r. r = router_new) router_step r"
    and "fmlookup (cr_exact r) (to_lowercase (cc_raw ctx)) = None"
    and "(pfx', h') \<in> set (cr_prefix r)" and "starts_with pfx' (to_lowercase (cc_raw ctx))"
    and "dispatch_command r ctx s = Ok out"
  shows "\<exists>pfx h. (pfx, h) \<in> set (cr_prefix r) \<and> length pfx' \<le> length pfx
    \<and> starts_with pfx (to_lowercase (cc_raw ctx))
    \<and> out = h (ctx\<lparr>cc_args := drop (length pfx) (cc_raw ctx)\<rparr>) s"
proof -
  let ?P = "\<lambda>p. starts_with (fst p) (to_lowercase (cc_raw ctx))"
  have "find ?P (cr_prefix r) \<noteq> None" using assms(3,4) by (auto simp: find_None_iff)
  then obtain pfx h where f: "find ?P (cr_prefix r) = Some (pfx, h)" by auto
  then have mem: "(pfx, h) \<in> set (cr_prefix r)" "?P (pfx, h)" by (metis (mono_tags, lifting) find_Some_iff nth_mem)+
  have "length pfx' \<le> length pfx"
    using find_first_sorted [OF router.inv_reach [OF assms(1), unfolded prefixes_sorted_def] f assms(3)] assms(4) by simp
  moreover have "out = h (ctx\<lparr>cc_args := drop (length pfx) (cc_raw ctx)\<rparr>) s"
    using assms(2,5) f by (auto simp: dispatch_command_def Let_def split: if_splits)
  ultimately show ?thesis using mem by auto
qed

definition help_router :: "(unit, string, nat) command_router" where
  "help_router =
     add_prefix ''/dream '' (\<lambda>ctx n. (Some ''dream'', ctx, n))
       (add_prefix ''/dream-log '' (\<lambda>ctx n. (Some (cc_args ctx), ctx, n))
         (add_exact ''/help'' (\<lambda>ctx n. (Some ''help'', ctx, n)) router_new))"

lemma help_router_reachable: "reach (\<lambda>r. r = router_new) router_step help_router"
  unfolding help_router_def
  by (rule reach_step [OF reach_step [OF reach_step [OF reach_init]]])
     (rule refl router_step.intros)+

lemma help_router_parts:
  "fmlookup (cr_exact help_router) cmd = (if cmd = ''/help'' then Some (\<lambda>ctx n. (Some ''help'', ctx, n)) else None)"
  "map fst (cr_prefix help_router) = [''/dream-log '', ''/dream '']"
  "cr_interceptors help_router = []"
  by (simp_all add: help_router_def add_prefix_def add_exact_def router_new_def)

theorem longest_prefix_is_dispatched_witness:
  "\<exists>out pfx h. dispatch_command help_router (command_context_new () ''k'' ''/dream-log abc'') 0 = Ok out
     \<and> length ''/dream-log '' \<le> length pfx \<and> (pfx, h) \<in> set (cr_prefix help_router)"
proof -
  let ?ctx = "command_context_new () ''k'' ''/dream-log abc''"
  have low: "to_lowercase (cc_raw ?ctx) = ''/dream-log abc''"
    by (simp add: command_context_new_def ascii_lower_def is_upper_def byte_def)
  obtain h where m: "(''/dream-log '', h) \<in> set (cr_prefix help_router)"
    using help_router_parts(2) by (cases "cr_prefix help_router") auto
  have none: "fmlookup (cr_exact help_router) (to_lowercase (cc_raw ?ctx)) = None" by (simp add: low help_router_parts)
  obtain out where e: "dispatch_command help_router ?ctx 0 = Ok out"
    by (auto simp: dispatch_command_def low help_router_parts) (simp add: help_router_def add_prefix_def add_exact_def
        router_new_def command_context_new_def starts_with_def char_boundary_def is_cont_def byte_def)
  have "starts_with ''/dream-log '' (to_lowercase (cc_raw ?ctx))" by (simp add: low starts_with_def)
  from longest_prefix_is_dispatched [OF help_router_reachable none m this e] e show ?thesis by blast
qed

text \<open>
  The guarantee of \<open>is_dispatchable_command\<close>, that a dispatch matches a handler, fails for text with
  surrounding blanks: the test trims the text, the dispatch does not.
\<close>

theorem dispatchable_command_is_not_dispatched:
  "is_dispatchable_command help_router '' /help''
   \<and> dispatch_command help_router (command_context_new () ''k'' '' /help'') s = Ok (None, command_context_new () ''k'' '' /help'', s)"
proof -
  have "trim '' /help'' = ''/help''" by code_simp
  moreover have "to_lowercase ''/help'' = ''/help''" "to_lowercase '' /help'' = '' /help''"
    by (simp_all add: ascii_lower_def is_upper_def byte_def)
  moreover have "find (\<lambda>p. starts_with (fst p) '' /help'') (cr_prefix help_router) = None"
    using help_router_parts(2) by (auto simp: find_None_iff starts_with_def map_eq_Cons_conv)
  ultimately show ?thesis
    by (simp add: is_dispatchable_command_def normalize_command_def dispatch_command_def command_context_new_def
        help_router_parts)
qed

end
