(* ===== verification/Message_Bus.thy ===== *)
theory Message_Bus
  imports HC_Json "HOL-Library.Word"
begin

text \<open>
  The message bus between chat channels and the agent (crates/bus/src/queue.rs and events.rs). A lane
  is an unbounded channel with a counter of pending messages beside it. The counter is a \<^verbatim>\<open>usize\<close>,
  whose atomic additions and subtractions wrap. Sending and counting are two atomic operations, so
  tasks may be between them: \<open>ln_sending\<close> and \<open>ln_receiving\<close> count the tasks that have sent, or
  received, and not yet counted. Only one task receives at a time (the receiver is behind a mutex).
\<close>

section \<open>Events\<close>

record inbound_message =
  im_channel :: string
  im_sender_id :: string
  im_chat_id :: string
  im_content :: string
  im_timestamp :: int
  im_media :: "string list"
  im_metadata :: jmap
  im_session_key_override :: "string option"

definition inbound_default :: "int \<Rightarrow> inbound_message" where
  "inbound_default now =
     \<lparr>im_channel = [], im_sender_id = [], im_chat_id = [], im_content = [], im_timestamp = now, im_media = [],
      im_metadata = [], im_session_key_override = None\<rparr>"

definition session_key_of :: "inbound_message \<Rightarrow> string" where
  "session_key_of m =
     (case im_session_key_override m of
        Some k \<Rightarrow> if k \<noteq> [] then k else im_channel m @ '':'' @ im_chat_id m
      | None \<Rightarrow> im_channel m @ '':'' @ im_chat_id m)"

record outbound_message =
  om_channel :: string
  om_chat_id :: string
  om_content :: string
  om_reply_to :: "string option"
  om_media :: "string list"
  om_metadata :: jmap

section \<open>Lanes\<close>

record 'a lane =
  ln_queue :: "'a list"
  ln_pending :: "64 word"
  ln_sending :: nat
  ln_receiving :: nat

definition lane_new :: "'a lane" where
  "lane_new = \<lparr>ln_queue = [], ln_pending = 0, ln_sending = 0, ln_receiving = 0\<rparr>"

definition lane_size :: "'a lane \<Rightarrow> nat" where
  "lane_size l = unat (ln_pending l)"

text \<open>\<^verbatim>\<open>publish\<close>: the send, then the count. A lane keeps its receiver, so a send never fails.\<close>

definition publish_send :: "'a \<Rightarrow> 'a lane \<Rightarrow> 'a lane" where
  "publish_send x l = l\<lparr>ln_queue := ln_queue l @ [x], ln_sending := Suc (ln_sending l)\<rparr>"

definition publish_count :: "'a lane \<Rightarrow> 'a lane" where
  "publish_count l = l\<lparr>ln_pending := ln_pending l + 1, ln_sending := ln_sending l - 1\<rparr>"

definition lane_publish :: "'a \<Rightarrow> 'a lane \<Rightarrow> 'a lane" where
  "lane_publish x l = publish_count (publish_send x l)"

text \<open>\<^verbatim>\<open>consume\<close>: the next message, when there is one, then the count.\<close>

definition consume_recv :: "'a lane \<Rightarrow> ('a \<times> 'a lane) option" where
  "consume_recv l =
     (case ln_queue l of
        [] \<Rightarrow> None
      | x # q \<Rightarrow> Some (x, l\<lparr>ln_queue := q, ln_receiving := Suc (ln_receiving l)\<rparr>))"

definition consume_count :: "'a lane \<Rightarrow> 'a lane" where
  "consume_count l = l\<lparr>ln_pending := ln_pending l - 1, ln_receiving := ln_receiving l - 1\<rparr>"

definition consume :: "'a lane \<Rightarrow> ('a \<times> 'a lane) option" where
  "consume l = map_option (\<lambda>(x, l'). (x, consume_count l')) (consume_recv l)"

text \<open>A producer handle (\<^verbatim>\<open>inbound_sender\<close>) sends into the channel directly.\<close>

definition sender_send :: "'a \<Rightarrow> 'a lane \<Rightarrow> 'a lane" where
  "sender_send x l = l\<lparr>ln_queue := ln_queue l @ [x]\<rparr>"

record bus =
  bus_inbound :: "inbound_message lane"
  bus_outbound :: "outbound_message lane"

definition bus_new :: bus where
  "bus_new = \<lparr>bus_inbound = lane_new, bus_outbound = lane_new\<rparr>"

definition publish_inbound :: "inbound_message \<Rightarrow> bus \<Rightarrow> bus" where
  "publish_inbound m b = b\<lparr>bus_inbound := lane_publish m (bus_inbound b)\<rparr>"

definition publish_outbound :: "outbound_message \<Rightarrow> bus \<Rightarrow> bus" where
  "publish_outbound m b = b\<lparr>bus_outbound := lane_publish m (bus_outbound b)\<rparr>"

definition consume_inbound :: "bus \<Rightarrow> (inbound_message \<times> bus) option" where
  "consume_inbound b = map_option (\<lambda>(m, l). (m, b\<lparr>bus_inbound := l\<rparr>)) (consume (bus_inbound b))"

definition consume_outbound :: "bus \<Rightarrow> (outbound_message \<times> bus) option" where
  "consume_outbound b = map_option (\<lambda>(m, l). (m, b\<lparr>bus_outbound := l\<rparr>)) (consume (bus_outbound b))"

definition inbound_size :: "bus \<Rightarrow> nat" where
  "inbound_size b = lane_size (bus_inbound b)"

definition outbound_size :: "bus \<Rightarrow> nat" where
  "outbound_size b = lane_size (bus_outbound b)"

section \<open>Interleavings\<close>

text \<open>A run of a lane: what was published and received so far, in order, and the lane.\<close>

record 'a lane_run =
  lr_published :: "'a list"
  lr_received :: "'a list"
  lr_lane :: "'a lane"

inductive lane_step :: "'a lane_run \<Rightarrow> 'a lane_run \<Rightarrow> bool" where
  ls_send: "lane_step r \<lparr>lr_published = lr_published r @ [x], lr_received = lr_received r, lr_lane = publish_send x (lr_lane r)\<rparr>"
| ls_send_count: "0 < ln_sending (lr_lane r) \<Longrightarrow> lane_step r (r\<lparr>lr_lane := publish_count (lr_lane r)\<rparr>)"
| ls_recv: "consume_recv (lr_lane r) = Some (x, l) \<Longrightarrow> ln_receiving (lr_lane r) = 0 \<Longrightarrow>
    lane_step r \<lparr>lr_published = lr_published r, lr_received = lr_received r @ [x], lr_lane = l\<rparr>"
| ls_recv_count: "0 < ln_receiving (lr_lane r) \<Longrightarrow> lane_step r (r\<lparr>lr_lane := consume_count (lr_lane r)\<rparr>)"

definition lane_start :: "'a lane_run \<Rightarrow> bool" where
  "lane_start r \<longleftrightarrow> r = \<lparr>lr_published = [], lr_received = [], lr_lane = lane_new\<rparr>"

definition lane_ok :: "'a lane_run \<Rightarrow> bool" where
  "lane_ok r \<longleftrightarrow>
     lr_published r = lr_received r @ ln_queue (lr_lane r) \<and>
     ln_pending (lr_lane r) + of_nat (ln_sending (lr_lane r))
       = of_nat (length (ln_queue (lr_lane r))) + of_nat (ln_receiving (lr_lane r))"

interpretation lane: invariant_system lane_start lane_step lane_ok
proof unfold_locales
  fix r r' :: "'a lane_run" assume ok: "lane_ok r" and step: "lane_step r r'"
  from step show "lane_ok r'"
  proof cases
    case (ls_send x)
    then show ?thesis using ok by (simp add: lane_ok_def publish_send_def algebra_simps)
  next
    case ls_send_count
    then obtain n where n: "ln_sending (lr_lane r) = Suc n" by (cases "ln_sending (lr_lane r)") auto
    then show ?thesis using ok ls_send_count by (simp add: lane_ok_def publish_count_def algebra_simps)
  next
    case (ls_recv x l)
    then show ?thesis using ok
      by (auto simp: lane_ok_def consume_recv_def algebra_simps split: list.splits)
  next
    case ls_recv_count
    then obtain n where n: "ln_receiving (lr_lane r) = Suc n" by (cases "ln_receiving (lr_lane r)") auto
    then show ?thesis using ok ls_recv_count by (simp add: lane_ok_def consume_count_def algebra_simps)
  qed
qed (simp add: lane_start_def lane_ok_def lane_new_def)

lemma max_usize: "unat (- 1 :: 64 word) = 2 ^ 64 - 1"
  by (simp add: unsigned_minus_1_eq_mask mask_eq_exp_minus_1)


lemma lane_first_send:
  "reach lane_start lane_step \<lparr>lr_published = [x], lr_received = [], lr_lane = publish_send x lane_new\<rparr>"
proof -
  let ?s = "\<lparr>lr_published = [], lr_received = [], lr_lane = lane_new\<rparr>"
  have "reach lane_start lane_step ?s" by (rule reach_init) (simp add: lane_start_def)
  moreover have "lane_step ?s \<lparr>lr_published = [x], lr_received = [], lr_lane = publish_send x lane_new\<rparr>"
    using ls_send [of ?s x] by simp
  ultimately show ?thesis by (rule reach_step)
qed


text \<open>
  The size can be the largest \<^verbatim>\<open>usize\<close>: a consumer that receives a message between the send and the
  count of its publisher takes the counter below zero.
\<close>

theorem lane_size_wraps:
  "\<exists>r. reach lane_start lane_step r \<and> ln_queue (lr_lane r) = ([] :: 'a list) \<and> lane_size (lr_lane r) = 2 ^ 64 - 1"
proof -
  fix x :: 'a
  let ?l = "publish_send x lane_new"
  let ?l' = "?l\<lparr>ln_queue := [], ln_receiving := Suc 0\<rparr>"
  have recv: "consume_recv ?l = Some (x, ?l')" by (simp add: consume_recv_def publish_send_def lane_new_def)
  have "lane_step \<lparr>lr_published = [x], lr_received = [], lr_lane = ?l\<rparr> \<lparr>lr_published = [x], lr_received = [x], lr_lane = ?l'\<rparr>"
    using ls_recv [of "\<lparr>lr_published = [x], lr_received = [], lr_lane = ?l\<rparr>" x ?l'] recv
    by (simp add: publish_send_def lane_new_def)
  then have r: "reach lane_start lane_step \<lparr>lr_published = [x], lr_received = [x], lr_lane = ?l'\<rparr>"
    by (rule reach_step [OF lane_first_send])
  have "lane_step \<lparr>lr_published = [x], lr_received = [x], lr_lane = ?l'\<rparr>
      \<lparr>lr_published = [x], lr_received = [x], lr_lane = consume_count ?l'\<rparr>"
    using ls_recv_count [of "\<lparr>lr_published = [x], lr_received = [x], lr_lane = ?l'\<rparr>"] by simp
  then have "reach lane_start lane_step \<lparr>lr_published = [x], lr_received = [x], lr_lane = consume_count ?l'\<rparr>"
    by (rule reach_step [OF r])
  then show ?thesis
    by (intro exI conjI, assumption)
       (simp_all add: consume_count_def publish_send_def lane_new_def lane_size_def max_usize)
qed

text \<open>
  A message sent through a producer handle is not counted, so after it is consumed the size of the
  empty lane is the largest \<^verbatim>\<open>usize\<close> and stays wrong.
\<close>

theorem producer_handle_breaks_size:
  "\<exists>l. consume (sender_send x lane_new) = Some (x, l) \<and> ln_queue l = [] \<and> ln_sending l = 0 \<and> ln_receiving l = 0
     \<and> lane_size l = 2 ^ 64 - 1"
  by (simp add: consume_def consume_recv_def consume_count_def sender_send_def lane_new_def lane_size_def
      max_usize)

end
