(* ===== verification/File_System.thy ===== *)
theory File_System
  imports HC_Text "HOL-Library.Sublist"
begin

text \<open>
  The part of \<^verbatim>\<open>std::fs\<close>, \<^verbatim>\<open>std::path\<close> and the file system below them that the file tools use. A file
  system maps locations, the names from the root, to directories, files with their modification time,
  and symbolic links. A path is its text; the kernel resolves it name by name and follows at most
  40 links. Any operation may be refused at a location (\<open>os_fault\<close>); searching a directory is not
  refused. A path is split into components as \<^verbatim>\<open>Path::components\<close> does, and the parent of a path is
  written from its components.
\<close>

datatype node = Dir | File string int | Link string

datatype io_error = NotFound | NotADirectory | IsADirectory | AlreadyExists | FilesystemLoop | Refused

datatype fs_op = OpRead | OpWrite | OpMkdir | OpList

type_synonym location = "string list"

record os =
  os_nodes :: "location \<rightharpoonup> node"
  os_cwd :: location
  os_home :: "string option"
  os_now :: int
  os_dir_time :: "location \<Rightarrow> int"
  os_fault :: "fs_op \<Rightarrow> location \<Rightarrow> io_error option"

section \<open>Paths\<close>

definition is_absolute :: "string \<Rightarrow> bool" where
  "is_absolute p \<longleftrightarrow> starts_with ''/'' p"

text \<open>The names the kernel walks through; a trailing slash asks for a directory.\<close>

definition raw_names :: "string \<Rightarrow> string list" where
  "raw_names p = filter (\<lambda>c. c \<noteq> []) (split_char CHR ''/'' p) @ (if ends_with ''/'' p then [''.''] else [])"

text \<open>\<^verbatim>\<open>Path::components\<close>: the root is the component \<^verbatim>\<open>/\<close>; a dot is kept only at the start of a relative path.\<close>

definition path_components :: "string \<Rightarrow> string list" where
  "path_components p =
     (let names = filter (\<lambda>c. c \<noteq> []) (split_char CHR ''/'' p); proper = filter (\<lambda>c. c \<noteq> ''.'')
      in if is_absolute p then ''/'' # proper names
         else case names of [] \<Rightarrow> [] | c # cs \<Rightarrow> if c = ''.'' then c # proper cs else proper (c # cs))"

definition path_starts_with :: "string \<Rightarrow> string \<Rightarrow> bool" where
  "path_starts_with p base \<longleftrightarrow> prefix (path_components base) (path_components p)"

fun path_of :: "string list \<Rightarrow> string" where
  "path_of [] = []"
| "path_of (c # cs) = (if c = ''/'' then ''/'' @ join ''/'' cs else join ''/'' (c # cs))"

definition path_join :: "string \<Rightarrow> string \<Rightarrow> string" where
  "path_join base p =
     (if is_absolute p then p else if base = [] \<or> ends_with ''/'' base then base @ p else base @ ''/'' @ p)"

definition path_parent :: "string \<Rightarrow> string option" where
  "path_parent p =
     (let cs = path_components p in if cs = [] \<or> cs = [''/''] then None else Some (path_of (butlast cs)))"

definition file_name :: "string \<Rightarrow> string option" where
  "file_name p =
     (let cs = path_components p
      in if cs = [] \<or> last cs \<in> {''/'', ''.'', ''..''} then None else Some (last cs))"

text \<open>\<^verbatim>\<open>Path::extension\<close>: what follows the last dot of the file name, unless it is the first character.\<close>

definition path_extension :: "string \<Rightarrow> string option" where
  "path_extension p =
     (case file_name p of
        None \<Rightarrow> None
      | Some f \<Rightarrow>
          (case rposition (\<lambda>c. c = CHR ''.'') f of
             Some i \<Rightarrow> if i = 0 then None else Some (drop (Suc i) f)
           | None \<Rightarrow> None))"

definition show_location :: "location \<Rightarrow> string" where
  "show_location l = ''/'' @ join ''/'' l"

section \<open>Looking up a path\<close>

function walk ::
  "(location \<rightharpoonup> node) \<Rightarrow> bool \<Rightarrow> nat \<Rightarrow> location \<Rightarrow> string list \<Rightarrow> (io_error, location) result" where
  "walk N creating k cur [] = Ok cur"
| "walk N creating k cur (c # cs) =
     (if N cur \<noteq> Some Dir then Err NotADirectory
      else if c = ''.'' then walk N creating k cur cs
      else if c = ''..'' then walk N creating k (butlast cur) cs
      else case N (cur @ [c]) of
             None \<Rightarrow> if creating \<and> cs = [] then Ok (cur @ [c]) else Err NotFound
           | Some (Link t) \<Rightarrow>
               (case k of
                  0 \<Rightarrow> Err FilesystemLoop
                | Suc k' \<Rightarrow> walk N creating k' (if is_absolute t then [] else cur) (raw_names t @ cs))
           | Some _ \<Rightarrow> walk N creating k (cur @ [c]) cs)"
  by pat_completeness auto
termination by (relation "measures [\<lambda>(N, m, k, cur, cs). k, \<lambda>(N, m, k, cur, cs). length cs]") auto

declare walk.simps(2) [simp del]

definition max_links :: nat where
  "max_links = 40"

definition lookup_path :: "os \<Rightarrow> bool \<Rightarrow> string \<Rightarrow> (io_error, location) result" where
  "lookup_path s creating p =
     (if p = [] then Err NotFound
      else walk (os_nodes s) creating max_links (if is_absolute p then [] else os_cwd s) (raw_names p))"

definition fs_canonicalize :: "os \<Rightarrow> string \<Rightarrow> (io_error, string) result" where
  "fs_canonicalize s p =
     (case lookup_path s False p of Ok l \<Rightarrow> Ok (show_location l) | Err e \<Rightarrow> Err e | Panic \<Rightarrow> Panic)"

definition node_at :: "os \<Rightarrow> string \<Rightarrow> node option" where
  "node_at s p = (case lookup_path s False p of Ok l \<Rightarrow> os_nodes s l | _ \<Rightarrow> None)"

definition path_exists :: "os \<Rightarrow> string \<Rightarrow> bool" where
  "path_exists s p \<longleftrightarrow> node_at s p \<noteq> None"

definition path_is_file :: "os \<Rightarrow> string \<Rightarrow> bool" where
  "path_is_file s p \<longleftrightarrow> (case node_at s p of Some (File _ _) \<Rightarrow> True | _ \<Rightarrow> False)"

definition path_is_dir :: "os \<Rightarrow> string \<Rightarrow> bool" where
  "path_is_dir s p \<longleftrightarrow> node_at s p = Some Dir"

section \<open>Operations\<close>

definition read_bytes :: "os \<Rightarrow> string \<Rightarrow> (io_error, string) result" where
  "read_bytes s p =
     (case lookup_path s False p of
        Err e \<Rightarrow> Err e
      | Panic \<Rightarrow> Panic
      | Ok l \<Rightarrow>
          (case os_fault s OpRead l of
             Some e \<Rightarrow> Err e
           | None \<Rightarrow>
               (case os_nodes s l of
                  Some (File b _) \<Rightarrow> Ok b
                | Some Dir \<Rightarrow> Err IsADirectory
                | _ \<Rightarrow> Err NotFound)))"

text \<open>\<^verbatim>\<open>fs::write\<close>: create or truncate, then write.\<close>

definition write_bytes :: "string \<Rightarrow> string \<Rightarrow> os \<Rightarrow> (io_error, unit) result \<times> os" where
  "write_bytes p content s =
     (case lookup_path s True p of
        Err e \<Rightarrow> (Err e, s)
      | Panic \<Rightarrow> (Panic, s)
      | Ok l \<Rightarrow>
          if os_nodes s l = Some Dir then (Err IsADirectory, s)
          else (case os_fault s OpWrite l of
                  Some e \<Rightarrow> (Err e, s)
                | None \<Rightarrow> (Ok (), s\<lparr>os_nodes := (os_nodes s)(l \<mapsto> File content (os_now s))\<rparr>)))"

text \<open>\<^verbatim>\<open>mkdir\<close> does not follow a link at the last name.\<close>

definition fs_mkdir :: "string list \<Rightarrow> os \<Rightarrow> (io_error, unit) result \<times> os" where
  "fs_mkdir cs s =
     (if cs = [] then (Err NotFound, s)
      else if last cs \<in> {''/'', ''.'', ''..''}
      then (case lookup_path s False (path_of cs) of Ok l \<Rightarrow> (Err AlreadyExists, s) | Err e \<Rightarrow> (Err e, s) | Panic \<Rightarrow> (Panic, s))
      else case (if butlast cs = [] then Ok (os_cwd s) else lookup_path s False (path_of (butlast cs))) of
             Err e \<Rightarrow> (Err e, s)
           | Panic \<Rightarrow> (Panic, s)
           | Ok l \<Rightarrow>
               if os_nodes s l \<noteq> Some Dir then (Err NotADirectory, s)
               else if os_nodes s (l @ [last cs]) \<noteq> None then (Err AlreadyExists, s)
               else (case os_fault s OpMkdir (l @ [last cs]) of
                       Some e \<Rightarrow> (Err e, s)
                     | None \<Rightarrow> (Ok (), s\<lparr>os_nodes := (os_nodes s)(l @ [last cs] \<mapsto> Dir)\<rparr>)))"

text \<open>\<^verbatim>\<open>fs::create_dir_all\<close>, on the components of the path in reverse.\<close>

fun create_dirs :: "string list \<Rightarrow> os \<Rightarrow> (io_error, unit) result \<times> os" where
  "create_dirs [] s = (Ok (), s)"
| "create_dirs (c # cs) s =
     (let p = rev (c # cs)
      in case fs_mkdir p s of
           (Ok _, s') \<Rightarrow> (Ok (), s')
         | (Panic, s') \<Rightarrow> (Panic, s')
         | (Err e, s') \<Rightarrow>
             if e \<noteq> NotFound
             then (if path_is_dir s' (path_of p) then Ok () else Err e, s')
             else (case create_dirs cs s' of
                     (Ok _, s1) \<Rightarrow>
                       (case fs_mkdir p s1 of
                          (Ok _, s2) \<Rightarrow> (Ok (), s2)
                        | (Panic, s2) \<Rightarrow> (Panic, s2)
                        | (Err e, s2) \<Rightarrow> (if path_is_dir s2 (path_of p) then Ok () else Err e, s2))
                   | (r, s1) \<Rightarrow> (r, s1)))"

definition create_dir_all :: "string \<Rightarrow> os \<Rightarrow> (io_error, unit) result \<times> os" where
  "create_dir_all p s = create_dirs (rev (path_components p)) s"

section \<open>Well-formed file systems\<close>

definition name_ok :: "string \<Rightarrow> bool" where
  "name_ok c \<longleftrightarrow> c \<noteq> [] \<and> c \<noteq> ''.'' \<and> c \<noteq> ''..'' \<and> CHR ''/'' \<notin> set c"

definition nodes_ok :: "(location \<rightharpoonup> node) \<Rightarrow> bool" where
  "nodes_ok N \<longleftrightarrow> N [] = Some Dir \<and> (\<forall>l c. N (l @ [c]) \<noteq> None \<longrightarrow> N l = Some Dir \<and> name_ok c)"

definition no_link :: "(location \<rightharpoonup> node) \<Rightarrow> location \<Rightarrow> bool" where
  "no_link N l \<longleftrightarrow> (\<forall>t. N l \<noteq> Some (Link t))"

definition os_ok :: "os \<Rightarrow> bool" where
  "os_ok s \<longleftrightarrow> nodes_ok (os_nodes s) \<and> os_nodes s (os_cwd s) = Some Dir"

lemma nodes_okD: "nodes_ok N \<Longrightarrow> N (l @ [c]) \<noteq> None \<Longrightarrow> N l = Some Dir \<and> name_ok c"
  by (auto simp: nodes_ok_def)

lemma nodes_ok_root: "nodes_ok N \<Longrightarrow> N [] = Some Dir"
  by (simp add: nodes_ok_def)

lemma nodes_ok_butlast: "nodes_ok N \<Longrightarrow> N l = Some Dir \<Longrightarrow> N (butlast l) = Some Dir"
  by (cases l rule: rev_cases) (auto dest: nodes_okD)

lemma nodes_ok_names: "nodes_ok N \<Longrightarrow> N l \<noteq> None \<Longrightarrow> \<forall>c \<in> set l. name_ok c"
proof (induction l rule: rev_induct)
  case (snoc c l)
  then show ?case using nodes_okD [of N l c] by auto
qed simp

lemma nodes_ok_update:
  assumes "nodes_ok N" "N l = Some Dir" "name_ok c" "N (l @ [c]) \<noteq> Some Dir \<or> n = Dir"
  shows "nodes_ok (N(l @ [c] \<mapsto> n))"
proof -
  have "(N(l @ [c] \<mapsto> n)) m = Some Dir \<and> name_ok d" if "(N(l @ [c] \<mapsto> n)) (m @ [d]) \<noteq> None" for m d
  proof (cases "m @ [d] = l @ [c]")
    case False
    then have "N m = Some Dir \<and> name_ok d" using that nodes_okD [OF assms(1), of m d] by (auto split: if_splits)
    then show ?thesis using assms(4) by auto
  qed (use assms in auto)
  then show ?thesis using assms(1) by (simp add: nodes_ok_def)
qed

lemma split_char_no_sep: "d \<in> set (split_char c s) \<Longrightarrow> c \<notin> set d"
  by (induction s arbitrary: d) (auto split: if_splits list.splits)

definition segments :: "string list \<Rightarrow> bool" where
  "segments cs \<longleftrightarrow> (\<forall>c \<in> set cs. c \<noteq> [] \<and> CHR ''/'' \<notin> set c)"

lemma segments_raw_names [simp]: "segments (raw_names p)"
  by (auto simp: segments_def raw_names_def dest: split_char_no_sep)

lemma segments_simps [simp]:
  "segments []" "segments (c # cs) \<longleftrightarrow> c \<noteq> [] \<and> CHR ''/'' \<notin> set c \<and> segments cs"
  "segments (cs @ ds) \<longleftrightarrow> segments cs \<and> segments ds"
  by (auto simp: segments_def)

text \<open>What a walk ends at: an existing node that is no link, or a fresh name in a directory.\<close>

definition landed :: "(location \<rightharpoonup> node) \<Rightarrow> bool \<Rightarrow> location \<Rightarrow> bool" where
  "landed N creating l \<longleftrightarrow>
     no_link N l \<and>
     (N l \<noteq> None \<or> creating \<and> (\<exists>d c. l = d @ [c] \<and> N d = Some Dir \<and> name_ok c))"

lemma walk_result:
  assumes ok: "nodes_ok N" and "walk N creating k cur cs = Ok l" "landed N creating cur" "segments cs"
  shows "landed N creating l"
  using assms(2-)
proof (induction k arbitrary: cur cs rule: less_induct)
  case (less k)
  note outer = less.IH
  show ?case using less.prems
  proof (induction cs arbitrary: cur)
    case (Cons c cs)
    have dir: "N cur = Some Dir" using Cons.prems(1) by (simp add: walk.simps(2) split: if_splits)
    have up: "N (butlast cur) = Some Dir" by (rule nodes_ok_butlast [OF ok dir])
    have land: "landed N creating d" if "N d = Some Dir" for d using that by (simp add: landed_def no_link_def)
    consider "c = ''.''" | "c = ''..''" | "c \<noteq> ''.''" "c \<noteq> ''..''" by blast
    then show ?case
    proof cases
      case 1
      then show ?thesis using Cons.prems dir Cons.IH [of cur] by (simp add: walk.simps(2))
    next
      case 2
      then show ?thesis using Cons.prems dir land [OF up] Cons.IH [of "butlast cur"] by (simp add: walk.simps(2))
    next
      case 3
      note w = Cons.prems(1) [unfolded walk.simps(2)]
      show ?thesis
      proof (cases "N (cur @ [c])")
        case None
        then show ?thesis using w dir 3 Cons.prems(3)
          by (simp add: landed_def no_link_def name_ok_def split: if_splits) metis
      next
        case (Some n)
        show ?thesis
        proof (cases n)
          case (Link t)
          then obtain k' where "k = Suc k'" using w dir 3 Some by (cases k) simp_all
          then show ?thesis
            using w dir 3 Some Link Cons.prems(3) outer [of k' "if is_absolute t then [] else cur" "raw_names t @ cs"]
            by (simp add: land nodes_ok_root [OF ok])
        qed (use w dir 3 Some Cons.prems(3) Cons.IH [of "cur @ [c]"] in \<open>simp_all add: landed_def no_link_def\<close>)
      qed
    qed
  qed simp
qed

text \<open>After a write the same path leads to the written file.\<close>

lemma walk_after_write:
  assumes "walk N creating k cur cs = Ok l" "N l \<noteq> Some Dir" "no_link N l"
  shows "walk (N(l \<mapsto> File b t)) False k cur cs = Ok l"
  using assms(1)
proof (induction k arbitrary: cur cs rule: less_induct)
  case (less k)
  note outer = less.IH
  show ?case using less.prems
  proof (induction cs arbitrary: cur)
    case (Cons c cs)
    let ?N = "N(l \<mapsto> File b t)"
    have dir: "N cur = Some Dir" using Cons.prems by (simp add: walk.simps(2) split: if_splits)
    then have dir': "?N cur = Some Dir" using assms(2) by auto
    consider "c = ''.''" | "c = ''..''" | "c \<noteq> ''.''" "c \<noteq> ''..''" by blast
    then show ?case
    proof cases
      case 3
      note w = Cons.prems [unfolded walk.simps(2)]
      show ?thesis
      proof (cases "N (cur @ [c])")
        case None
        then have "cs = []" "l = cur @ [c]" using w dir 3 by (simp_all split: if_splits)
        then show ?thesis using dir' 3 by (simp add: walk.simps(2))
      next
        case (Some n)
        show ?thesis
        proof (cases n)
          case (Link u)
          then have "?N (cur @ [c]) = Some (Link u)" using Some assms(3) by (auto simp: no_link_def)
          moreover obtain k' where "k = Suc k'" using w dir 3 Some Link by (cases k) simp_all
          ultimately show ?thesis using w dir dir' 3 Some Link outer [of k'] by (simp add: walk.simps(2))
        next
          case Dir
          then have "?N (cur @ [c]) = Some Dir" using Some assms(2) by auto
          then show ?thesis using w dir dir' 3 Some Dir Cons.IH [of "cur @ [c]"] by (simp add: walk.simps(2))
        next
          case (File b' t')
          then obtain b2 t2 where "?N (cur @ [c]) = Some (File b2 t2)" using Some by (cases "cur @ [c] = l") auto
          then show ?thesis using w dir dir' 3 Some File Cons.IH [of "cur @ [c]"] by (simp add: walk.simps(2))
        qed
      qed
    qed (use Cons dir dir' in \<open>simp_all add: walk.simps(2)\<close>)
  qed simp
qed

lemma walk_canonical_from:
  assumes "nodes_ok N" "N (cur @ cs) \<noteq> None" "no_link N (cur @ cs)"
  shows "walk N creating k cur cs = Ok (cur @ cs)"
  using assms(2,3)
proof (induction cs arbitrary: cur)
  case (Cons c cs)
  have inner: "N (cur @ [c]) \<noteq> None \<and> (cs \<noteq> [] \<longrightarrow> N (cur @ [c]) = Some Dir)"
  proof (cases cs rule: rev_cases)
    case (snoc cs' d)
    have "N (cur @ [c]) = Some Dir" if "N (cur @ c # ys) \<noteq> None" "ys \<noteq> []" for ys
      using that
    proof (induction ys rule: rev_induct)
      case (snoc y ys)
      then have "N (cur @ c # ys) = Some Dir" using nodes_okD [OF assms(1), of "cur @ c # ys" y] by simp
      then show ?case using snoc by (cases ys) auto
    qed simp
    then show ?thesis using Cons.prems snoc by auto
  qed (use Cons in auto)
  then have "name_ok c" "N cur = Some Dir" using nodes_okD [OF assms(1), of cur c] by auto
  moreover have "no_link N (cur @ [c])" using inner Cons.prems by (cases cs) (auto simp: no_link_def)
  ultimately show ?case using Cons.IH [of "cur @ [c]"] Cons.prems inner
    by (auto simp: walk.simps(2) name_ok_def no_link_def split: node.splits)
qed simp

lemma split_char_single: "c \<notin> set x \<Longrightarrow> split_char c x = [x]"
  by (induction x) (auto split: list.splits)

lemma split_char_piece: "c \<notin> set x \<Longrightarrow> split_char c (x @ c # s) = x # split_char c s"
  by (induction x) (auto split: list.splits)

lemma split_char_snoc: "split_char c (u @ [c]) = split_char c u @ [[]]"
  by (induction u) (auto split: list.splits)

lemma split_char_join:
  "\<forall>c \<in> set l. CHR ''/'' \<notin> set c \<Longrightarrow> l \<noteq> [] \<Longrightarrow> split_char CHR ''/'' (join ''/'' l) = l"
proof (induction l)
  case (Cons x l)
  then show ?case by (cases l) (auto simp: split_char_single split_char_piece)
qed simp

lemma names_of_location:
  assumes "\<forall>c \<in> set l. name_ok c" "l \<noteq> []"
  shows "split_char CHR ''/'' (show_location l) = [] # l" "\<not> ends_with ''/'' (show_location l)"
    "filter (\<lambda>c. c \<noteq> []) l = l" "filter (\<lambda>c. c \<noteq> ''.'') l = l"
proof -
  show "split_char CHR ''/'' (show_location l) = [] # l"
    using assms split_char_join [of l] by (simp add: show_location_def name_ok_def)
  have "ends_with ''/'' t \<Longrightarrow> last (split_char CHR ''/'' t) = []" for t
    by (auto simp: ends_with_iff split_char_snoc)
  from this [of "show_location l"] show "\<not> ends_with ''/'' (show_location l)"
    using \<open>split_char CHR ''/'' (show_location l) = [] # l\<close> assms last_in_set [of l] by (auto simp: name_ok_def)
qed (use assms in \<open>auto simp: filter_id_conv name_ok_def\<close>)

lemma is_absolute_location [simp]: "is_absolute (show_location l)"
  by (simp add: is_absolute_def show_location_def starts_with_def)

lemma components_of_location: "\<forall>c \<in> set l. name_ok c \<Longrightarrow> path_components (show_location l) = ''/'' # l"
proof (cases "l = []")
  case True
  then show ?thesis by (simp add: path_components_def show_location_def is_absolute_def starts_with_def)
next
  case False
  assume "\<forall>c \<in> set l. name_ok c"
  from names_of_location [OF this False] show ?thesis by (simp add: path_components_def Let_def)
qed

text \<open>A canonical path names its own location.\<close>

lemma lookup_location:
  assumes "nodes_ok (os_nodes s)" "os_nodes s l \<noteq> None" "no_link (os_nodes s) l"
  shows "lookup_path s creating (show_location l) = Ok l"
proof (cases "l = []")
  case True
  then show ?thesis using assms
    by (simp add: lookup_path_def show_location_def is_absolute_def starts_with_def raw_names_def ends_with_def
        walk.simps(2) nodes_ok_root)
next
  case False
  have "raw_names (show_location l) = l"
    using names_of_location [OF nodes_ok_names [OF assms(1,2)] False] by (simp add: raw_names_def)
  then show ?thesis using walk_canonical_from [of "os_nodes s" "[]" l] assms
    by (simp add: lookup_path_def) (simp add: show_location_def)
qed

lemma lookup_landed: "os_ok s \<Longrightarrow> lookup_path s creating p = Ok l \<Longrightarrow> landed (os_nodes s) creating l"
  using walk_result [of "os_nodes s" creating max_links "if is_absolute p then [] else os_cwd s" "raw_names p" l]
  by (simp add: lookup_path_def os_ok_def nodes_ok_root landed_def no_link_def split: if_splits)

lemma lookup_result:
  "os_ok s \<Longrightarrow> lookup_path s False p = Ok l \<Longrightarrow> os_nodes s l \<noteq> None \<and> no_link (os_nodes s) l"
  using lookup_landed [of s False] by (simp add: landed_def)

lemma walk_no_panic [simp]: "walk N creating k cur cs \<noteq> Panic"
  by (induction N creating k cur cs rule: walk.induct) (simp_all add: walk.simps(2) split: option.split node.split nat.split split del: if_split, auto)

lemma lookup_no_panic [simp]: "lookup_path s creating p \<noteq> Panic"
  by (simp add: lookup_path_def)


section \<open>Writing\<close>

lemma nodes_ok_file:
  assumes "nodes_ok N" "landed N True l" "N l \<noteq> Some Dir"
  shows "nodes_ok (N(l \<mapsto> File b t))"
proof (cases "N l")
  case None
  then obtain d c where "l = d @ [c]" "N d = Some Dir" "name_ok c" using assms(2) by (auto simp: landed_def)
  then show ?thesis using nodes_ok_update [of N d c] assms by simp
next
  case (Some n)
  then obtain d c where l: "l = d @ [c]" using assms nodes_ok_root by (cases l rule: rev_cases) auto
  then show ?thesis using nodes_ok_update [of N d c] nodes_okD [OF assms(1), of d c] assms(1,3) Some by simp
qed

lemma write_bytes_ok:
  assumes "os_ok s" "write_bytes p b s = (r, s')"
  shows "os_ok s'"
proof -
  have "os_ok (s\<lparr>os_nodes := (os_nodes s)(l \<mapsto> File b (os_now s))\<rparr>)"
    if "lookup_path s True p = Ok l" "os_nodes s l \<noteq> Some Dir" for l
    using nodes_ok_file [OF _ lookup_landed [OF assms(1) that(1)] that(2)] assms(1) that(2) by (auto simp: os_ok_def)
  then show ?thesis using assms by (auto simp: write_bytes_def split: result.splits if_splits option.splits)
qed

lemma write_bytes_reads_back:
  assumes "os_ok s" "write_bytes p b s = (Ok (), s')"
  shows "\<exists>l. lookup_path s True p = Ok l \<and> lookup_path s' False p = Ok l
    \<and> os_nodes s' = (os_nodes s)(l \<mapsto> File b (os_now s)) \<and> os_cwd s' = os_cwd s \<and> os_fault s' = os_fault s
    \<and> os_now s' = os_now s"
proof -
  obtain l where l: "lookup_path s True p = Ok l" "os_nodes s l \<noteq> Some Dir"
    and s': "s' = s\<lparr>os_nodes := (os_nodes s)(l \<mapsto> File b (os_now s))\<rparr>"
    using assms(2) by (auto simp: write_bytes_def split: result.splits if_splits option.splits)
  have "no_link (os_nodes s) l" using lookup_landed [OF assms(1) l(1)] by (simp add: landed_def)
  then have "lookup_path s' False p = Ok l"
    using l walk_after_write [of "os_nodes s"] by (simp add: lookup_path_def s' split: if_splits)
  then show ?thesis using l s' by auto
qed

lemma fs_mkdir_ok: "os_ok s \<Longrightarrow> segments (filter (\<lambda>c. c \<noteq> ''/'') cs) \<Longrightarrow> fs_mkdir cs s = (r, s') \<Longrightarrow> os_ok s'"
proof -
  assume ok: "os_ok s" and seg: "segments (filter (\<lambda>c. c \<noteq> ''/'') cs)" and m: "fs_mkdir cs s = (r, s')"
  have "os_ok (s\<lparr>os_nodes := (os_nodes s)(l @ [last cs] \<mapsto> Dir)\<rparr>)"
    if "cs \<noteq> []" "last cs \<notin> {''/'', ''.'', ''..''}" "os_nodes s l = Some Dir" for l
  proof -
    have "last cs \<in> set (filter (\<lambda>c. c \<noteq> ''/'') cs)" using that by auto
    then have "name_ok (last cs)" using seg that by (auto simp: segments_def name_ok_def)
    then show ?thesis using ok that nodes_ok_update [of "os_nodes s" l "last cs" Dir] by (auto simp: os_ok_def)
  qed
  then show ?thesis using ok m by (auto simp: fs_mkdir_def split: result.splits if_splits option.splits)
qed

lemma components_names: "c \<in> set (path_components p) \<Longrightarrow> c = ''/'' \<or> c \<noteq> [] \<and> c \<in> set (split_char CHR ''/'' p)"
proof -
  assume c: "c \<in> set (path_components p)"
  let ?names = "filter (\<lambda>c. c \<noteq> []) (split_char CHR ''/'' p)"
  have "set (path_components p) \<subseteq> {''/''} \<union> set ?names"
    unfolding path_components_def Let_def by (cases ?names) auto
  then show ?thesis using c by auto
qed

lemma segments_components: "segments (filter (\<lambda>c. c \<noteq> ''/'') (path_components p))"
  using components_names split_char_no_sep unfolding segments_def by fastforce

lemma create_dirs_ok:
  "os_ok s \<Longrightarrow> segments (filter (\<lambda>c. c \<noteq> ''/'') cs) \<Longrightarrow> create_dirs cs s = (r, s') \<Longrightarrow> os_ok s'"
proof (induction cs arbitrary: s r s')
  case (Cons c cs)
  have seg: "segments (filter (\<lambda>c. c \<noteq> ''/'') (rev (c # cs)))" "segments (filter (\<lambda>c. c \<noteq> ''/'') cs)"
    using Cons.prems(2) by (auto simp: segments_def split: if_splits)
  obtain r1 s1 where m: "fs_mkdir (rev (c # cs)) s = (r1, s1)" by force
  have ok1: "os_ok s1" by (rule fs_mkdir_ok [OF Cons.prems(1) seg(1) m])
  obtain r2 s2 where d: "create_dirs cs s1 = (r2, s2)" by force
  have ok2: "os_ok s2" by (rule Cons.IH [OF ok1 seg(2) d])
  obtain r3 s3 where m3: "fs_mkdir (rev (c # cs)) s2 = (r3, s3)" by force
  have ok3: "os_ok s3" by (rule fs_mkdir_ok [OF ok2 seg(1) m3])
  show ?case using Cons.prems(3) m d m3 ok1 ok2 ok3
    by (auto simp: Let_def split: result.splits if_splits)
qed simp

lemma create_dir_all_ok: "os_ok s \<Longrightarrow> create_dir_all p s = (r, s') \<Longrightarrow> os_ok s'"
  using create_dirs_ok [of s "rev (path_components p)"] segments_components [of p]
  by (auto simp: create_dir_all_def segments_def)

end
