(* ===== verification/Path_Sandbox.thy ===== *)
theory Path_Sandbox
  imports File_System
begin

text \<open>
  The path policy and the shell wrapping of the tools (crates/agent/src/tools/sandbox.rs and
  path\_utils.rs) and the runtime directories they use (crates/config/src/paths.rs). The path of the
  active configuration file is the argument \<open>cfg\<close>. The text of a path in a Rust debug format is the
  argument \<open>debug\<close>. Paths are valid UTF-8.
\<close>

section \<open>Runtime directories\<close>

definition ensure_dir :: "string \<Rightarrow> os \<Rightarrow> string \<times> os" where
  "ensure_dir p s = (p, snd (create_dir_all p s))"

definition expand_tilde :: "os \<Rightarrow> string \<Rightarrow> string" where
  "expand_tilde s raw =
     (if raw = ''~'' then (case os_home s of Some h \<Rightarrow> h | None \<Rightarrow> ''~'')
      else case (strip_prefix ''~/'' raw, os_home s) of
             (Some rest, Some home) \<Rightarrow> path_join home rest
           | _ \<Rightarrow> raw)"

definition nanobot_home :: "os \<Rightarrow> string" where
  "nanobot_home s = path_join (case os_home s of Some h \<Rightarrow> h | None \<Rightarrow> ''.'') ''.nanobot''"

definition get_data_dir :: "string \<Rightarrow> os \<Rightarrow> string \<times> os" where
  "get_data_dir cfg s = ensure_dir (case path_parent cfg of Some p \<Rightarrow> p | None \<Rightarrow> ''.'') s"

definition get_runtime_subdir :: "string \<Rightarrow> string \<Rightarrow> os \<Rightarrow> string \<times> os" where
  "get_runtime_subdir cfg name s = (let (d, s1) = get_data_dir cfg s in ensure_dir (path_join d name) s1)"

definition get_media_dir :: "string \<Rightarrow> string option \<Rightarrow> os \<Rightarrow> string \<times> os" where
  "get_media_dir cfg channel s =
     (let (base, s1) = get_runtime_subdir cfg ''media'' s
      in case channel of
           Some ch \<Rightarrow> if ch \<noteq> [] then ensure_dir (path_join base ch) s1 else (base, s1)
         | None \<Rightarrow> (base, s1))"

definition get_workspace_path :: "string option \<Rightarrow> os \<Rightarrow> string \<times> os" where
  "get_workspace_path w s =
     ensure_dir
       (case w of
          Some p \<Rightarrow> if p \<noteq> [] then expand_tilde s p else path_join (nanobot_home s) ''workspace''
        | None \<Rightarrow> path_join (nanobot_home s) ''workspace'') s"

definition canonicalize :: "os \<Rightarrow> string \<Rightarrow> string" where
  "canonicalize s p = (case fs_canonicalize s p of Ok q \<Rightarrow> q | _ \<Rightarrow> p)"

definition is_default_workspace :: "os \<Rightarrow> string option \<Rightarrow> bool" where
  "is_default_workspace s w =
     (let default = path_join (nanobot_home s) ''workspace'';
          current = (case w of Some p \<Rightarrow> expand_tilde s p | None \<Rightarrow> default)
      in path_components (canonicalize s current) = path_components (canonicalize s default))"

section \<open>Resolving the path of a tool call\<close>

datatype path_error = OutsideAllowed string string

definition show_path_error :: "path_error \<Rightarrow> string" where
  "show_path_error e =
     (case e of OutsideAllowed p allowed \<Rightarrow> ''Path '' @ p @ '' is outside allowed directory '' @ allowed)"

definition is_under :: "os \<Rightarrow> string \<Rightarrow> string \<Rightarrow> bool" where
  "is_under s p dir \<longleftrightarrow> path_starts_with p (canonicalize s dir)"

definition expand_user :: "os \<Rightarrow> string \<Rightarrow> string" where
  "expand_user s p =
     (case (strip_prefix ''~/'' p, os_home s) of
        (Some rest, Some home) \<Rightarrow> path_join home rest
      | _ \<Rightarrow> if p = ''~'' then (case os_home s of Some home \<Rightarrow> home | None \<Rightarrow> p) else p)"

definition against_workspace :: "string option \<Rightarrow> string \<Rightarrow> string" where
  "against_workspace workspace p =
     (case workspace of Some ws \<Rightarrow> if is_absolute p then p else path_join ws p | None \<Rightarrow> p)"

definition resolve_tool_path ::
  "string \<Rightarrow> string \<Rightarrow> string option \<Rightarrow> string option \<Rightarrow> string list \<Rightarrow> os \<Rightarrow> (path_error, string) result \<times> os" where
  "resolve_tool_path cfg path workspace allowed_dir extra s =
     (let resolved = canonicalize s (against_workspace workspace (expand_user s path))
      in case allowed_dir of
           None \<Rightarrow> (Ok resolved, s)
         | Some allowed \<Rightarrow>
             (let (media_dir, s1) = get_media_dir cfg None s;
                  all_dirs = canonicalize s1 allowed # canonicalize s1 media_dir # map (canonicalize s1) extra
              in if list_ex (is_under s1 resolved) all_dirs then (Ok resolved, s1)
                 else (Err (OutsideAllowed path allowed), s1)))"

definition workspace_boundary_note :: string where
  "workspace_boundary_note =
     '' (this is a hard policy boundary, not a transient failure; '' @
     ''do not retry with shell tricks or alternative tools, and ask '' @
     ''the user how to proceed if the resource is genuinely required)''"

definition utils_is_under :: "os \<Rightarrow> string \<Rightarrow> string \<Rightarrow> bool" where
  "utils_is_under s p dir \<longleftrightarrow>
     (case fs_canonicalize s dir of Ok r \<Rightarrow> path_starts_with p r | _ \<Rightarrow> path_starts_with p dir)"

definition resolve_workspace_path ::
  "string \<Rightarrow> (string \<Rightarrow> string) \<Rightarrow> string \<Rightarrow> string option \<Rightarrow> string option \<Rightarrow> string list option \<Rightarrow> os
   \<Rightarrow> (string, string) result \<times> os" where
  "resolve_workspace_path cfg debug path workspace allowed_dir extra s =
     (let cs = path_components path;
          p = (case (cs, os_home s) of
                 (c # rest, Some home) \<Rightarrow> if c = ''~'' then path_join home (path_of rest) else path
               | _ \<Rightarrow> path);
          resolved = canonicalize s (against_workspace workspace p)
      in case allowed_dir of
           None \<Rightarrow> (Ok resolved, s)
         | Some allowed \<Rightarrow>
             (let (media, s1) = get_media_dir cfg None s;
                  all_dirs = allowed # media # (case extra of Some ds \<Rightarrow> ds | None \<Rightarrow> [])
              in if list_ex (utils_is_under s1 resolved) all_dirs then (Ok resolved, s1)
                 else (Err (''Path '' @ path @ '' is outside allowed directory '' @ debug allowed @ workspace_boundary_note), s1)))"

section \<open>Shell commands\<close>

definition quote :: char where
  "quote = CHR 0x27"

definition safe_char :: "char \<Rightarrow> bool" where
  "safe_char c \<longleftrightarrow>
     (48 \<le> byte c \<and> byte c \<le> 57) \<or> (65 \<le> byte c \<and> byte c \<le> 90) \<or> (97 \<le> byte c \<and> byte c \<le> 122) \<or> c \<in> set ''@%+=:,./-_''"

definition shell_quote :: "string \<Rightarrow> string" where
  "shell_quote s =
     (if s = [] then [quote, quote]
      else if list_all safe_char s then s
      else [quote] @ replace_all [quote] [quote, CHR 0x5C, quote, quote] s @ [quote])"

definition shell_join :: "string list \<Rightarrow> string" where
  "shell_join args = join '' '' (map shell_quote args)"

definition bwrap :: "string \<Rightarrow> string \<Rightarrow> string \<Rightarrow> string \<Rightarrow> os \<Rightarrow> string \<times> os" where
  "bwrap cfg command workspace cwd s =
     (let ws = canonicalize s workspace;
          (media_dir, s1) = get_media_dir cfg None s;
          media = canonicalize s1 media_dir;
          sandbox_cwd = canonicalize s1 cwd;
          sandbox_cwd = (if path_starts_with sandbox_cwd ws
                         then path_join ws (path_of (drop (length (path_components ws)) (path_components sandbox_cwd)))
                         else ws);
          parent = (case path_parent ws of Some p \<Rightarrow> p | None \<Rightarrow> []);
          required = [''/usr''];
          optional = [''/bin'', ''/lib'', ''/lib64'', ''/etc/alternatives'', ''/etc/ssl/certs'', ''/etc/resolv.conf'',
                      ''/etc/ld.so.cache'']
      in (shell_join
            ([''bwrap'', ''--new-session'', ''--die-with-parent''] @
             concat (map (\<lambda>p. [''--ro-bind'', p, p]) required) @
             concat (map (\<lambda>p. [''--ro-bind-try'', p, p]) optional) @
             [''--proc'', ''/proc'', ''--dev'', ''/dev'', ''--tmpfs'', ''/tmp'', ''--tmpfs'', parent, ''--dir'', ws,
              ''--bind'', ws, ws, ''--ro-bind-try'', media, media, ''--chdir'', sandbox_cwd, ''--'', ''sh'', ''-c'', command]), s1))"

definition wrap_command ::
  "string \<Rightarrow> string \<Rightarrow> string \<Rightarrow> string \<Rightarrow> string \<Rightarrow> os \<Rightarrow> (string, string) result \<times> os" where
  "wrap_command cfg sandbox command workspace cwd s =
     (if sandbox = ''bwrap'' then (let (r, s1) = bwrap cfg command workspace cwd s in (Ok r, s1))
      else (Err (''Unknown sandbox backend '' @ [quote] @ sandbox @ [quote] @ ''. Available: bwrap''), s))"

section \<open>Quoting\<close>

text \<open>
  Words of a POSIX shell: blanks separate words, between single quotes every character stands for
  itself, a backslash outside quotes keeps the next character. A character that is neither, and
  not in the safe set, may have a meaning for the shell, and then there is no reading.
\<close>

fun shell_words :: "string option \<Rightarrow> bool \<Rightarrow> string \<Rightarrow> string list option" where
  "shell_words w True [] = None"
| "shell_words w False [] = Some (case w of None \<Rightarrow> [] | Some u \<Rightarrow> [u])"
| "shell_words w True (c # s) =
     (let u = (case w of None \<Rightarrow> [] | Some u \<Rightarrow> u)
      in if c = quote then shell_words (Some u) False s else shell_words (Some (u @ [c])) True s)"
| "shell_words w False (c # s) =
     (let u = (case w of None \<Rightarrow> [] | Some u \<Rightarrow> u)
      in if c = CHR '' '' then (case w of None \<Rightarrow> shell_words None False s | Some u \<Rightarrow> map_option ((#) u) (shell_words None False s))
         else if c = quote then shell_words (Some u) True s
         else if c = CHR 0x5C then (case s of [] \<Rightarrow> None | d # t \<Rightarrow> shell_words (Some (u @ [d])) False t)
         else if safe_char c then shell_words (Some (u @ [c])) False s
         else None)"

lemma safe_char_simps: "safe_char c \<Longrightarrow> c \<noteq> CHR '' '' \<and> c \<noteq> quote \<and> c \<noteq> CHR 0x5C"
  by (auto simp: safe_char_def quote_def byte_def)

lemma shell_words_safe:
  "list_all safe_char s \<Longrightarrow> shell_words (Some u) False (s @ t) = shell_words (Some (u @ s)) False t"
  by (induction s arbitrary: u) (auto simp: safe_char_simps)

lemma shell_words_quoted:
  "shell_words (Some u) True (replace_all [quote] [quote, CHR 0x5C, quote, quote] s @ quote # t)
   = shell_words (Some (u @ s)) False t"
  by (induction s arbitrary: u) (auto simp: starts_with_def quote_def)

lemma shell_words_arg: "shell_words None False (shell_quote s @ t) = shell_words (Some s) False t"
proof (cases "s \<noteq> [] \<and> list_all safe_char s")
  case True
  then obtain c r where s: "s = c # r" by (cases s) auto
  then show ?thesis using True safe_char_simps [of c] shell_words_safe [of r "[c]" t]
    by (cases "r = []") (auto simp: shell_quote_def)
next
  case False
  then show ?thesis using shell_words_quoted [of "[]" s t]
    by (auto simp: shell_quote_def quote_def)
qed

lemma shell_words_join: "shell_words None False (shell_join args) = Some args"
proof (induction args)
  case (Cons a args)
  then show ?case using shell_words_arg [of a] shell_words_arg [of a "[]"]
    by (cases args) (auto simp: shell_join_def)
qed (simp add: shell_join_def)

text \<open>
  (C25) Quoting is faithful: the shell reads the joined text back as exactly the arguments. In particular a
  wrapped command reaches the inner shell as one argument, whatever it contains, and is the last one
  of the sandbox.
\<close>

theorem wrapped_command_is_one_argument:
  "shell_words None False (shell_join args) = Some args
   \<and> (\<exists>options r s1. wrap_command cfg ''bwrap'' command workspace cwd s = (Ok r, s1)
        \<and> shell_words None False r = Some ([''bwrap''] @ options @ [''--'', ''sh'', ''-c'', command]))"
  by (rule conjI, rule shell_words_join)
     (simp add: wrap_command_def bwrap_def shell_words_join Let_def split: prod.splits)

section \<open>What the path policy confines\<close>

lemma fs_mkdir_extends:
  "fs_mkdir cs s = (r, s') \<Longrightarrow> os_nodes s \<subseteq>\<^sub>m os_nodes s' \<and> os_cwd s' = os_cwd s \<and> os_home s' = os_home s"
  by (auto simp: fs_mkdir_def map_le_def split: result.splits if_splits option.splits)

lemma create_dirs_extends:
  "create_dirs cs s = (r, s') \<Longrightarrow> os_nodes s \<subseteq>\<^sub>m os_nodes s' \<and> os_cwd s' = os_cwd s \<and> os_home s' = os_home s"
proof (induction cs arbitrary: s r s')
  case (Cons c cs)
  obtain r1 s1 where m: "fs_mkdir (rev (c # cs)) s = (r1, s1)" by force
  obtain r2 s2 where d: "create_dirs cs s1 = (r2, s2)" by force
  obtain r3 s3 where m3: "fs_mkdir (rev (c # cs)) s2 = (r3, s3)" by force
  note e = fs_mkdir_extends [OF m] Cons.IH [OF d] fs_mkdir_extends [OF m3]
  have "s' \<in> {s1, s2, s3}" using Cons.prems m d m3 by (auto simp: Let_def split: result.splits if_splits)
  then show ?case using e by (auto intro: map_le_trans)
qed simp

lemma ensure_dir_extends:
  "ensure_dir p s = (q, s') \<Longrightarrow> os_nodes s \<subseteq>\<^sub>m os_nodes s' \<and> os_cwd s' = os_cwd s \<and> os_home s' = os_home s
     \<and> (os_ok s \<longrightarrow> os_ok s')"
  using create_dirs_extends [of "rev (path_components p)" s] create_dir_all_ok [of s p]
  by (cases "create_dir_all p s") (auto simp: ensure_dir_def create_dir_all_def)

lemma get_media_dir_extends:
  assumes "get_media_dir cfg None s = (m, s')"
  shows "os_nodes s \<subseteq>\<^sub>m os_nodes s' \<and> (os_ok s \<longrightarrow> os_ok s')"
proof -
  obtain d s1 where d: "get_data_dir cfg s = (d, s1)" by force
  have "ensure_dir (path_join d ''media'') s1 = (m, s')"
    using assms d by (simp add: get_media_dir_def get_runtime_subdir_def Let_def split: prod.splits)
  from ensure_dir_extends [OF this] ensure_dir_extends [OF d [unfolded get_data_dir_def]]
  show ?thesis by (auto intro: map_le_trans)
qed

lemma canonicalize_location:
  "nodes_ok (os_nodes s) \<Longrightarrow> os_nodes s l \<noteq> None \<Longrightarrow> no_link (os_nodes s) l \<Longrightarrow> canonicalize s (show_location l) = show_location l"
  by (simp add: canonicalize_def fs_canonicalize_def lookup_location)

lemma canonicalize_cases:
  assumes "os_ok s"
  shows "(case lookup_path s False p of
      Ok l \<Rightarrow> canonicalize s p = show_location l \<and> canonicalize s (show_location l) = show_location l
        \<and> path_components (show_location l) = ''/'' # l
    | _ \<Rightarrow> canonicalize s p = p)"
proof (cases "lookup_path s False p")
  case (Ok l)
  note r = lookup_result [OF assms Ok]
  have n: "nodes_ok (os_nodes s)" using assms by (simp add: os_ok_def)
  show ?thesis
    using Ok r canonicalize_location [OF n, of l] components_of_location [OF nodes_ok_names [OF n, of l]]
    by (simp add: canonicalize_def fs_canonicalize_def)
qed (auto simp: canonicalize_def fs_canonicalize_def)

lemma is_under_canonical:
  assumes "os_ok s" "is_under s p (canonicalize s d)"
  shows "case lookup_path s False d of
      Ok ld \<Rightarrow> prefix (''/'' # ld) (path_components p)
    | _ \<Rightarrow> prefix (path_components d) (path_components p)"
  using canonicalize_cases [OF assms(1), of d] assms(2)
  by (auto simp: is_under_def path_starts_with_def split: result.splits)

text \<open>
  (C9) The policy confines every path that exists: when a call is accepted, the resolved path is the
  canonical path of a location below an allowed directory, the media directory or an extra
  directory, with every symbolic link and every \<^verbatim>\<open>..\<close> followed.
\<close>

theorem existing_paths_are_confined:
  assumes "os_ok s" and "path_exists s (against_workspace workspace (expand_user s path))"
    and "resolve_tool_path cfg path workspace (Some allowed) extra s = (Ok fp, s1)"
  shows "\<exists>l. fp = show_location l \<and> lookup_path s1 False fp = Ok l
    \<and> (\<exists>d \<in> set (allowed # fst (get_media_dir cfg None s) # extra).
         case lookup_path s1 False d of Ok ld \<Rightarrow> prefix ld l | _ \<Rightarrow> prefix (path_components d) (''/'' # l))"
proof -
  let ?p = "against_workspace workspace (expand_user s path)"
  obtain m where m: "get_media_dir cfg None s = (m, s1)"
    using assms(3) by (auto simp: resolve_tool_path_def Let_def split: prod.splits if_splits)
  note ext = get_media_dir_extends [OF m]
  then have ok1: "os_ok s1" using assms(1) by simp
  obtain l where l: "lookup_path s False ?p = Ok l"
    using assms(2) by (auto simp: path_exists_def node_at_def split: result.splits)
  note r = lookup_result [OF assms(1) l]
  have fp: "fp = show_location l"
    using assms(3) m canonicalize_cases [OF assms(1), of ?p] l
    by (simp add: resolve_tool_path_def Let_def split: if_splits)
  have same: "os_nodes s1 l = os_nodes s l" using ext r by (auto simp: map_le_def dom_def)
  then have r1: "os_nodes s1 l \<noteq> None" "no_link (os_nodes s1) l" using r by (simp_all add: no_link_def)
  have n1: "nodes_ok (os_nodes s1)" using ok1 by (simp add: os_ok_def)
  have comps: "path_components fp = ''/'' # l" using components_of_location nodes_ok_names [OF n1 r1(1)] fp by simp
  obtain d where d: "d \<in> set (allowed # m # extra)" "is_under s1 fp (canonicalize s1 d)"
    using assms(3) m by (auto simp: resolve_tool_path_def Let_def list_ex_iff split: if_splits)
  have "case lookup_path s1 False d of Ok ld \<Rightarrow> prefix ld l | _ \<Rightarrow> prefix (path_components d) (''/'' # l)"
    using is_under_canonical [OF ok1 d(2)] comps by (auto split: result.splits)
  moreover have "lookup_path s1 False fp = Ok l" using lookup_location [OF n1 r1] fp by simp
  ultimately show ?thesis using d(1) m fp by auto
qed

definition demo_os :: os where
  "demo_os =
     \<lparr>os_nodes = map_of [([], Dir), ([''ws''], Dir), ([''ws'', ''a.txt''], File ''hello'' 1), ([''ws'', ''up''], Link ''../ws/.''),
                        ([''data''], Dir), ([''data'', ''media''], Dir)],
      os_cwd = [], os_home = None, os_now = 5, os_dir_time = (\<lambda>_. 0), os_fault = (\<lambda>_ _. None)\<rparr>"

lemma demo_os_ok: "os_ok demo_os"
  unfolding os_ok_def nodes_ok_def demo_os_def by (auto simp: name_ok_def split: if_splits)

theorem existing_paths_are_confined_witness:
  "\<exists>s1 l. resolve_tool_path ''/data/config.json'' ''up/a.txt'' (Some ''/ws'') (Some ''/ws'') [] demo_os = (Ok ''/ws/a.txt'', s1)
     \<and> ''/ws/a.txt'' = show_location l \<and> lookup_path s1 False ''/ws/a.txt'' = Ok l"
proof -
  let ?r = "resolve_tool_path ''/data/config.json'' ''up/a.txt'' (Some ''/ws'') (Some ''/ws'') [] demo_os"
  have "fst ?r = Ok ''/ws/a.txt''" by code_simp
  then obtain s1 where r: "?r = (Ok ''/ws/a.txt'', s1)" by (cases ?r) auto
  have "path_exists demo_os (against_workspace (Some ''/ws'') (expand_user demo_os ''up/a.txt''))" by code_simp
  from existing_paths_are_confined [OF demo_os_ok this r] r show ?thesis by blast
qed

text \<open>
  A path that does not exist is only compared as text: below an allowed workspace every missing
  relative path is accepted, wherever its \<^verbatim>\<open>..\<close> lead.
\<close>

lemma components_below:
  assumes "\<forall>c \<in> set w. name_ok c" "w \<noteq> []" "\<not> is_absolute p"
  shows "path_starts_with (path_join (show_location w) p) (show_location w)"
proof -
  have "split_char CHR ''/'' (a @ ''/'' @ p) = split_char CHR ''/'' a @ split_char CHR ''/'' p" for a
    by (induction a) (auto split: list.splits)
  then have "split_char CHR ''/'' (show_location w @ ''/'' @ p) = ([] # w) @ split_char CHR ''/'' p"
    using names_of_location [OF assms(1,2)] by metis
  moreover have "path_join (show_location w) p = show_location w @ ''/'' @ p"
    using names_of_location(2) [OF assms(1,2)] assms(3) by (simp add: path_join_def) (simp add: show_location_def)
  moreover have "is_absolute (show_location w @ ''/'' @ p)"
    by (simp add: is_absolute_def show_location_def starts_with_def)
  ultimately show ?thesis
    using names_of_location(3,4) [OF assms(1,2)] components_of_location [OF assms(1)]
    by (simp add: path_starts_with_def) (simp add: path_components_def Let_def)
qed

theorem missing_paths_are_accepted:
  assumes "os_ok s" and "os_nodes s w = Some Dir" and "w \<noteq> []" and "\<not> is_absolute path" and "\<not> starts_with ''~'' path"
    and "\<not> path_exists s (path_join (show_location w) path)"
  shows "\<exists>s1. resolve_tool_path cfg path (Some (show_location w)) (Some (show_location w)) [] s
    = (Ok (path_join (show_location w) path), s1)"
proof -
  let ?ws = "show_location w" let ?p = "path_join ?ws path"
  obtain m s1 where m: "get_media_dir cfg None s = (m, s1)" by force
  note ext = get_media_dir_extends [OF m]
  have ok1: "os_ok s1" and w1: "os_nodes s1 w = Some Dir"
    using ext assms(1,2) by (auto simp: map_le_def dom_def)
  then have n1: "nodes_ok (os_nodes s1)" and names: "\<forall>c \<in> set w. name_ok c"
    using nodes_ok_names [of "os_nodes s1" w] by (auto simp: os_ok_def)
  have "expand_user s path = path"
    using assms(5) by (auto simp: expand_user_def strip_prefix_def starts_with_iff split: option.splits if_splits)
  moreover have "canonicalize s ?p = ?p"
    using assms(6) lookup_result [OF assms(1), of ?p] canonicalize_cases [OF assms(1), of ?p]
    by (auto simp: path_exists_def node_at_def split: result.splits)
  moreover have "canonicalize s1 ?ws = ?ws"
    using canonicalize_location [OF n1, of w] w1 by (simp add: no_link_def)
  ultimately show ?thesis
    using m components_below [OF names assms(3,4)] assms(4)
    by (simp add: resolve_tool_path_def against_workspace_def Let_def is_under_def)
qed

theorem missing_paths_are_accepted_witness:
  "\<exists>s1. resolve_tool_path ''/data/config.json'' ''../etc/x'' (Some ''/ws'') (Some ''/ws'') [] demo_os
     = (Ok ''/ws/../etc/x'', s1)"
proof -
  have ws: "show_location [''ws''] = ''/ws''" and j: "path_join ''/ws'' ''../etc/x'' = ''/ws/../etc/x''" by code_simp+
  have "\<not> path_exists demo_os (path_join (show_location [''ws'']) ''../etc/x'')" by code_simp
  moreover have "\<not> is_absolute ''../etc/x''" "\<not> starts_with ''~'' ''../etc/x''" by code_simp+
  ultimately show ?thesis
    using missing_paths_are_accepted [OF demo_os_ok, of "[''ws'']" "''../etc/x''" "''/data/config.json''"]
    by (simp add: ws j) (simp add: demo_os_def)
qed

end
