(* ===== verification/File_State.thy ===== *)
theory File_State
  imports Path_Sandbox
begin

text \<open>
  The tracker of read and written files (crates/agent/src/tools/file\_state.rs). A tracker maps paths,
  compared by their components, to what was recorded. The record \<open>file_lib\<close> holds what other code
  computes: the hash of bytes, the double that stands for a modification time, the text of an
  operating system error, base64, the Unicode tables of letters, digits and lower case, the
  names in a directory in the order of the system, the entries below a directory in the order of
  \<^verbatim>\<open>walkdir\<close> with whether each is a directory, and the percentage of a ratio as it is printed. Two doubles of modification
  times of our age differ by more than the tolerance of the source whenever they differ, so the
  comparison is that of the doubles.
\<close>

record file_lib =
  fl_sha256 :: "string \<Rightarrow> string"
  fl_secs :: "int \<Rightarrow> nat"
  fl_io_text :: "io_error \<Rightarrow> string"
  fl_base64 :: "string \<Rightarrow> string"
  fl_alnum :: "string \<Rightarrow> bool"
  fl_lower :: "string \<Rightarrow> string"
  fl_digit :: "string \<Rightarrow> bool"
  fl_walk :: "os \<Rightarrow> location \<Rightarrow> (string list \<times> bool) list"
  fl_read_dir :: "os \<Rightarrow> location \<Rightarrow> string list"
  fl_percent :: "nat \<Rightarrow> nat \<Rightarrow> string"

record read_state =
  rs_mtime :: nat
  rs_offset :: nat
  rs_limit :: "nat option"
  rs_content_hash :: "string option"
  rs_can_dedup :: bool

type_synonym file_states = "string list \<rightharpoonup> read_state"

definition file_states_new :: file_states where
  "file_states_new = Map.empty"

text \<open>The key under which a path is recorded.\<close>

definition state_key :: "os \<Rightarrow> string \<Rightarrow> string list" where
  "state_key s p = path_components (canonicalize s p)"

definition file_mtime :: "file_lib \<Rightarrow> os \<Rightarrow> string \<Rightarrow> nat option" where
  "file_mtime L s p =
     (case lookup_path s False p of
        Ok l \<Rightarrow>
          (let secs = (\<lambda>t. if t < 0 then None else Some (fl_secs L t))
           in case os_nodes s l of
                Some (File _ t) \<Rightarrow> secs t
              | Some Dir \<Rightarrow> secs (os_dir_time s l)
              | _ \<Rightarrow> None)
      | _ \<Rightarrow> None)"

definition hash_file :: "file_lib \<Rightarrow> os \<Rightarrow> string \<Rightarrow> string option" where
  "hash_file L s p = (case read_bytes s p of Ok b \<Rightarrow> Some (fl_sha256 L b) | _ \<Rightarrow> None)"

definition record_read ::
  "file_lib \<Rightarrow> os \<Rightarrow> string \<Rightarrow> nat \<Rightarrow> nat option \<Rightarrow> file_states \<Rightarrow> file_states" where
  "record_read L s path offset limit st =
     (let p = canonicalize s path
      in case file_mtime L s p of
           None \<Rightarrow> st
         | Some mtime \<Rightarrow>
             st(state_key s path \<mapsto>
                  \<lparr>rs_mtime = mtime, rs_offset = offset, rs_limit = limit, rs_content_hash = hash_file L s p,
                   rs_can_dedup = True\<rparr>))"

definition record_write :: "file_lib \<Rightarrow> os \<Rightarrow> string \<Rightarrow> file_states \<Rightarrow> file_states" where
  "record_write L s path st =
     (let p = canonicalize s path
      in case file_mtime L s p of
           None \<Rightarrow> st(state_key s path := None)
         | Some mtime \<Rightarrow>
             st(state_key s path \<mapsto>
                  \<lparr>rs_mtime = mtime, rs_offset = 1, rs_limit = None, rs_content_hash = hash_file L s p,
                   rs_can_dedup = False\<rparr>))"

definition not_read_warning :: string where
  "not_read_warning = ''Warning: file has not been read yet. Read it first to verify content before editing.''"

definition modified_warning :: string where
  "modified_warning = ''Warning: file has been modified since last read. Re-read to verify content before editing.''"

definition check_read :: "file_lib \<Rightarrow> os \<Rightarrow> string \<Rightarrow> file_states \<Rightarrow> string option \<times> file_states" where
  "check_read L s path st =
     (let p = canonicalize s path; key = state_key s path
      in case st key of
           None \<Rightarrow> (Some not_read_warning, st)
         | Some entry \<Rightarrow>
             (case file_mtime L s p of
                None \<Rightarrow> (None, st)
              | Some mtime \<Rightarrow>
                  let same = rs_content_hash entry \<noteq> None \<and> hash_file L s p = rs_content_hash entry;
                      changed = rs_content_hash entry \<noteq> None \<and> hash_file L s p \<noteq> rs_content_hash entry
                  in if mtime \<noteq> rs_mtime entry
                     then (if same then (None, st(key \<mapsto> entry\<lparr>rs_mtime := mtime\<rparr>)) else (Some modified_warning, st))
                     else if changed then (Some modified_warning, st)
                     else (None, st)))"

definition is_unchanged ::
  "file_lib \<Rightarrow> os \<Rightarrow> string \<Rightarrow> nat \<Rightarrow> nat option \<Rightarrow> file_states \<Rightarrow> bool \<times> file_states" where
  "is_unchanged L s path offset limit st =
     (let p = canonicalize s path; key = state_key s path
      in case st key of
           None \<Rightarrow> (False, st)
         | Some entry \<Rightarrow>
             if \<not> rs_can_dedup entry \<or> rs_offset entry \<noteq> offset \<or> rs_limit entry \<noteq> limit then (False, st)
             else (case file_mtime L s p of
                     None \<Rightarrow> (False, st)
                   | Some mtime \<Rightarrow>
                       if mtime \<noteq> rs_mtime entry
                       then (hash_file L s p = rs_content_hash entry, st(key \<mapsto> entry\<lparr>rs_can_dedup := False\<rparr>))
                       else (True, st)))"

definition file_state_get :: "os \<Rightarrow> string \<Rightarrow> file_states \<Rightarrow> read_state option" where
  "file_state_get s path st = st (state_key s path)"

definition file_states_clear :: "file_states \<Rightarrow> file_states" where
  "file_states_clear st = Map.empty"

text \<open>
  Trackers are shared by reference. A store gives every session its own one, numbered as they are
  created; a task may bind one, which hides the fallback of the tool.
\<close>

record file_state_store =
  fss_states :: "string \<rightharpoonup> nat"
  fss_next :: nat

definition file_state_store_new :: file_state_store where
  "file_state_store_new = \<lparr>fss_states = Map.empty, fss_next = 0\<rparr>"

definition session_of :: "string option \<Rightarrow> string" where
  "session_of k = (case k of Some key \<Rightarrow> key | None \<Rightarrow> ''__default__'')"

definition for_session :: "string option \<Rightarrow> file_state_store \<Rightarrow> nat \<times> file_state_store" where
  "for_session session_key store =
     (let key = session_of session_key
      in case fss_states store key of
           Some r \<Rightarrow> (r, store)
         | None \<Rightarrow>
             (fss_next store,
              \<lparr>fss_states = (fss_states store)(key \<mapsto> fss_next store), fss_next = Suc (fss_next store)\<rparr>))"

definition current_file_states :: "nat option \<Rightarrow> nat \<Rightarrow> nat" where
  "current_file_states bound fallback = (case bound of Some r \<Rightarrow> r | None \<Rightarrow> fallback)"

definition selected_file_states :: "nat option \<Rightarrow> nat option \<Rightarrow> nat \<Rightarrow> nat" where
  "selected_file_states explicit bound fallback =
     (case explicit of Some r \<Rightarrow> r | None \<Rightarrow> current_file_states bound fallback)"

section \<open>Freshness\<close>

text \<open>What a later check finds when the path still leads to the same place.\<close>

lemma record_read_entry:
  assumes "file_mtime L s (canonicalize s p) = Some m"
  shows "record_read L s p offset limit st (state_key s p) =
    Some \<lparr>rs_mtime = m, rs_offset = offset, rs_limit = limit, rs_content_hash = hash_file L s (canonicalize s p), rs_can_dedup = True\<rparr>"
  using assms by (simp add: record_read_def Let_def)

text \<open>
  After a read of a file, the check before an edit is silent exactly when the file has the content
  that was read, as far as the hash tells, whatever its modification time.
\<close>

theorem check_compares_content:
  assumes "file_mtime L s (canonicalize s p) = Some m" and "read_bytes s (canonicalize s p) = Ok b"
    and "canonicalize s' p = canonicalize s p"
    and "file_mtime L s' (canonicalize s p) = Some m'" and "read_bytes s' (canonicalize s p) = Ok b'"
  shows "fst (check_read L s' p (record_read L s p offset limit st)) = None \<longleftrightarrow> fl_sha256 L b' = fl_sha256 L b"
proof -
  have "state_key s' p = state_key s p" using assms(3) by (simp add: state_key_def)
  then show ?thesis
    using record_read_entry [OF assms(1), of offset limit st] assms
    by (auto simp: check_read_def hash_file_def modified_warning_def Let_def)
qed

text \<open>
  The test that spares a second read is weaker: it also reports a file as unchanged when only its
  modification time is the recorded one, although the content differs.
\<close>

theorem unchanged_compares_time_first:
  assumes "file_mtime L s (canonicalize s p) = Some m" and "read_bytes s (canonicalize s p) = Ok b"
    and "canonicalize s' p = canonicalize s p"
    and "file_mtime L s' (canonicalize s p) = Some m'" and "read_bytes s' (canonicalize s p) = Ok b'"
  shows "fst (is_unchanged L s' p offset limit (record_read L s p offset limit st)) \<longleftrightarrow>
    m' = m \<or> fl_sha256 L b' = fl_sha256 L b"
proof -
  have "state_key s' p = state_key s p" using assms(3) by (simp add: state_key_def)
  then show ?thesis
    using record_read_entry [OF assms(1), of offset limit st] assms
    by (auto simp: is_unchanged_def hash_file_def Let_def)
qed

definition file_demo_lib :: file_lib where
  "file_demo_lib =
     \<lparr>fl_sha256 = id, fl_secs = nat, fl_io_text = (\<lambda>_. ''os error''), fl_base64 = id, fl_alnum = (\<lambda>_. False), fl_lower = id, fl_digit = (\<lambda>_. False), fl_walk = (\<lambda>_ _. []),
      fl_read_dir = (\<lambda>_ _. []), fl_percent = (\<lambda>_ _. [])\<rparr>"

definition rewritten_os :: os where
  "rewritten_os = demo_os\<lparr>os_nodes := (os_nodes demo_os)([''ws'', ''a.txt''] \<mapsto> File ''other'' 1)\<rparr>"

lemma rewritten_file:
  "canonicalize demo_os ''/ws/a.txt'' = ''/ws/a.txt''" "canonicalize rewritten_os ''/ws/a.txt'' = ''/ws/a.txt''"
  "file_mtime file_demo_lib demo_os ''/ws/a.txt'' = Some 1" "file_mtime file_demo_lib rewritten_os ''/ws/a.txt'' = Some 1"
  "read_bytes demo_os ''/ws/a.txt'' = Ok ''hello''" "read_bytes rewritten_os ''/ws/a.txt'' = Ok ''other''"
  by code_simp+

theorem check_compares_content_witness:
  "fst (check_read file_demo_lib rewritten_os ''/ws/a.txt'' (record_read file_demo_lib demo_os ''/ws/a.txt'' 1 None file_states_new)) \<noteq> None"
  using check_compares_content [where L = file_demo_lib and s = demo_os and p = "''/ws/a.txt''" and s' = rewritten_os and m = 1 and m' = 1
      and b = "''hello''" and b' = "''other''" and offset = 1 and limit = None and st = file_states_new]
  by (simp add: rewritten_file) (simp add: file_demo_lib_def)

theorem unchanged_compares_time_first_witness:
  "fst (is_unchanged file_demo_lib rewritten_os ''/ws/a.txt'' 1 None (record_read file_demo_lib demo_os ''/ws/a.txt'' 1 None file_states_new))"
  using unchanged_compares_time_first [where L = file_demo_lib and s = demo_os and p = "''/ws/a.txt''" and s' = rewritten_os and m = 1 and m' = 1
      and b = "''hello''" and b' = "''other''" and offset = 1 and limit = None and st = file_states_new]
  by (simp add: rewritten_file)

text \<open>Every session has its own tracker, the same one each time.\<close>

definition store_ok :: "file_state_store \<Rightarrow> bool" where
  "store_ok store \<longleftrightarrow>
     (\<forall>k r. fss_states store k = Some r \<longrightarrow> r < fss_next store \<and> (\<forall>k'. fss_states store k' = Some r \<longrightarrow> k' = k))"

lemma for_session_ok:
  assumes "store_ok store" "for_session k store = (r, store1)"
  shows "store_ok store1 \<and> fss_states store1 (session_of k) = Some r
    \<and> (\<forall>k r. fss_states store k = Some r \<longrightarrow> fss_states store1 k = Some r)"
proof (cases "fss_states store (session_of k)")
  case None
  have "fss_states store k' \<noteq> Some (fss_next store)" for k' using assms(1) by (auto simp: store_ok_def)
  moreover have "fss_states store k' = Some x \<Longrightarrow> x < Suc (fss_next store)" for k' x
    using assms(1) by (fastforce simp: store_ok_def)
  moreover have "r = fss_next store"
    "store1 = \<lparr>fss_states = (fss_states store)(session_of k \<mapsto> fss_next store), fss_next = Suc (fss_next store)\<rparr>"
    using None assms(2) by (auto simp: for_session_def Let_def)
  ultimately show ?thesis using None assms(1) by (auto simp: store_ok_def)
qed (use assms in \<open>auto simp: for_session_def Let_def\<close>)

inductive store_step :: "file_state_store \<Rightarrow> file_state_store \<Rightarrow> bool" where
  "store_step store (snd (for_session k store))"

interpretation store: invariant_system "\<lambda>s. s = file_state_store_new" store_step store_ok
proof unfold_locales
  fix s s' assume ok: "store_ok s" and "store_step s s'"
  then obtain k where "s' = snd (for_session k s)" by (auto elim: store_step.cases)
  then show "store_ok s'" using for_session_ok [OF ok, of k] by (cases "for_session k s") auto
qed (simp add: store_ok_def file_state_store_new_def)

theorem sessions_do_not_share_trackers:
  assumes "reach (\<lambda>s. s = file_state_store_new) store_step store"
    and "for_session k store = (r, store1)" and "for_session k' store1 = (r', store2)"
  shows "r = r' \<longleftrightarrow> session_of k = session_of k'"
proof -
  note one = for_session_ok [OF store.inv_reach [OF assms(1)] assms(2)]
  note two = for_session_ok [OF conjunct1 [OF one] assms(3)]
  have "fss_states store2 (session_of k) = Some r" using one two by blast
  then show ?thesis using two by (auto simp: store_ok_def)
qed

theorem sessions_do_not_share_trackers_witness:
  "\<exists>r r' store1 store2. for_session (Some ''a'') file_state_store_new = (r, store1)
     \<and> for_session None store1 = (r', store2) \<and> r \<noteq> r'"
proof -
  obtain r store1 where a: "for_session (Some ''a'') file_state_store_new = (r, store1)" by force
  obtain r' store2 where b: "for_session None store1 = (r', store2)" by force
  have "reach (\<lambda>s. s = file_state_store_new) store_step file_state_store_new" by (rule reach_init) simp
  from sessions_do_not_share_trackers [OF this a b] a b show ?thesis by (auto simp: session_of_def)
qed

end
