(* ===== verification/Fs_Edit.thy ===== *)
theory Fs_Edit
  imports File_State
begin

text \<open>
  How the edit tool finds and replaces text (crates/agent/src/tools/filesystem.rs): quote styles,
  indentation, the four searches for matches, the replacement, and the diagnosis of a text that was
  not found. Offsets are byte offsets; a slice off a character boundary or past the end panics.
  Ratios are fractions, compared exactly: the doubles of the source order the same way for texts of
  fewer than \<open>2^26\<close> lines or characters.
\<close>

section \<open>Characters and slices\<close>

function chars :: "string \<Rightarrow> string list" where
  "chars [] = []"
| "chars (c # s) = (c # takeWhile is_cont s) # chars (dropWhile is_cont s)"
  by pat_completeness auto
termination by (relation "measure length") (auto simp: le_imp_less_Suc length_dropWhile_le)

definition slice :: "string \<Rightarrow> nat \<Rightarrow> nat \<Rightarrow> (unit, string) result" where
  "slice s a b =
     (if a \<le> b \<and> b \<le> length s \<and> char_boundary s a \<and> char_boundary s b then Ok (take (b - a) (drop a s)) else Panic)"

definition count_newlines :: "string \<Rightarrow> nat" where
  "count_newlines s = length (filter (\<lambda>c. byte c = 10) s)"

definition newline :: string where
  "newline = [CHR 0x0A]"

definition is_alphanumeric :: "file_lib \<Rightarrow> string \<Rightarrow> bool" where
  "is_alphanumeric L ch =
     (case ch of
        [c] \<Rightarrow> (48 \<le> byte c \<and> byte c \<le> 57) \<or> (65 \<le> byte c \<and> byte c \<le> 90) \<or> (97 \<le> byte c \<and> byte c \<le> 122)
      | _ \<Rightarrow> fl_alnum L ch)"

section \<open>Quote styles\<close>

definition left_single :: string where "left_single = [CHR 0xE2, CHR 0x80, CHR 0x98]"
definition right_single :: string where "right_single = [CHR 0xE2, CHR 0x80, CHR 0x99]"
definition left_double :: string where "left_double = [CHR 0xE2, CHR 0x80, CHR 0x9C]"
definition right_double :: string where "right_double = [CHR 0xE2, CHR 0x80, CHR 0x9D]"

definition normalize_char :: "string \<Rightarrow> string" where
  "normalize_char ch =
     (if ch = left_single \<or> ch = right_single then [CHR 0x27]
      else if ch = left_double \<or> ch = right_double then [CHR 0x22] else ch)"

definition normalize_quotes :: "string \<Rightarrow> string" where
  "normalize_quotes s = concat (map normalize_char (chars s))"

definition has_curly_double :: "string \<Rightarrow> bool" where
  "has_curly_double s \<longleftrightarrow> str_contains left_double s \<or> str_contains right_double s"

definition has_curly_single :: "string \<Rightarrow> bool" where
  "has_curly_single s \<longleftrightarrow> str_contains left_single s \<or> str_contains right_single s"

fun curly_double_chars :: "bool \<Rightarrow> string list \<Rightarrow> string" where
  "curly_double_chars opening [] = []"
| "curly_double_chars opening (ch # cs) =
     (if ch = [CHR 0x22]
      then (if opening then left_double else right_double) @ curly_double_chars (\<not> opening) cs
      else ch @ curly_double_chars opening cs)"

definition to_curly_double :: "string \<Rightarrow> string" where
  "to_curly_double s = curly_double_chars True (chars s)"

text \<open>\<open>prev\<close> is the character before, a blank at the start.\<close>

fun curly_single_chars :: "file_lib \<Rightarrow> string \<Rightarrow> bool \<Rightarrow> string list \<Rightarrow> string" where
  "curly_single_chars L prev opening [] = []"
| "curly_single_chars L prev opening (ch # cs) =
     (let nxt = (case cs of [] \<Rightarrow> '' '' | d # _ \<Rightarrow> d)
      in if ch \<noteq> [CHR 0x27] then ch @ curly_single_chars L ch opening cs
         else if is_alphanumeric L prev \<and> is_alphanumeric L nxt then right_single @ curly_single_chars L ch opening cs
         else (if opening then left_single else right_single) @ curly_single_chars L ch (\<not> opening) cs)"

definition to_curly_single :: "file_lib \<Rightarrow> string \<Rightarrow> string" where
  "to_curly_single L s = curly_single_chars L '' '' True (chars s)"

definition preserve_quote_style :: "file_lib \<Rightarrow> string \<Rightarrow> string \<Rightarrow> string \<Rightarrow> string" where
  "preserve_quote_style L old_text actual new_text =
     (if normalize_quotes (trim old_text) \<noteq> normalize_quotes (trim actual) \<or> old_text = actual then new_text
      else let styled = (if has_curly_double actual \<and> CHR 0x22 \<in> set new_text then to_curly_double new_text else new_text)
           in if has_curly_single actual \<and> CHR 0x27 \<in> set styled then to_curly_single L styled else styled)"

section \<open>Indentation\<close>

definition leading_ws :: "string \<Rightarrow> string" where
  "leading_ws line = takeWhile (\<lambda>c. c = CHR '' '' \<or> byte c = 9) line"

definition reindent_like_match :: "string \<Rightarrow> string \<Rightarrow> string \<Rightarrow> string" where
  "reindent_like_match old_text actual new_text =
     (let old_lines = split_char (CHR 0x0A) old_text; actual_lines = split_char (CHR 0x0A) actual
      in if length old_lines \<noteq> length actual_lines then new_text
         else let comparable = filter (\<lambda>(o', a). trim o' \<noteq> [] \<and> trim a \<noteq> []) (zip old_lines actual_lines)
              in case comparable of
                   [] \<Rightarrow> new_text
                 | (o', a) # _ \<Rightarrow>
                     if list_ex (\<lambda>(o', a). normalize_quotes (trim o') \<noteq> normalize_quotes (trim a)) comparable then new_text
                     else let old_ws = leading_ws o'; actual_ws = leading_ws a
                          in if actual_ws = old_ws then new_text
                             else if old_ws \<noteq> [] \<and> \<not> starts_with old_ws actual_ws then new_text
                             else let delta = (if old_ws \<noteq> [] then drop (length old_ws) actual_ws else actual_ws)
                                  in if delta = [] then new_text
                                     else join newline (map (\<lambda>line. if line = [] then line else delta @ line)
                                                            (split_char (CHR 0x0A) new_text)))"

section \<open>Matches\<close>

record match_span =
  ms_start :: nat
  ms_end :: nat
  ms_text :: string
  ms_line :: nat

definition map_ok :: "('a \<Rightarrow> 'b) \<Rightarrow> (unit, 'a) result \<Rightarrow> (unit, 'b) result" where
  "map_ok f r = bind_res r (\<lambda>x. Ok (f x))"

definition span_at :: "string \<Rightarrow> nat \<Rightarrow> nat \<Rightarrow> nat \<Rightarrow> nat \<Rightarrow> (unit, match_span) result" where
  "span_at content start end stop line_end =
     bind_res (slice content start stop) (\<lambda>text.
       map_ok (\<lambda>before. \<lparr>ms_start = start, ms_end = end, ms_text = text, ms_line = count_newlines before + 1\<rparr>)
         (slice content 0 line_end))"

function find_exact_from :: "string \<Rightarrow> string \<Rightarrow> nat \<Rightarrow> (unit, match_span list) result" where
  "find_exact_from content old_text start =
     (if start > length content \<or> \<not> char_boundary content start then Panic
      else case str_find old_text (drop start content) of
             None \<Rightarrow> Ok []
           | Some idx \<Rightarrow>
               let absolute = start + idx; end = absolute + length old_text
               in bind_res (span_at content absolute end end absolute) (\<lambda>m.
                    map_ok ((#) m) (find_exact_from content old_text (max end (absolute + 1)))))"
  by pat_completeness auto
termination by (relation "measure (\<lambda>(content, old_text, start). Suc (length content) - start)") auto

declare find_exact_from.simps [simp del]

definition find_exact_matches :: "string \<Rightarrow> string \<Rightarrow> (unit, match_span list) result" where
  "find_exact_matches content old_text = find_exact_from content old_text 0"

definition comparable_line :: "bool \<Rightarrow> string \<Rightarrow> string" where
  "comparable_line norm l = (if norm then normalize_quotes (trim l) else trim l)"

fun line_offsets :: "nat \<Rightarrow> string list \<Rightarrow> nat list" where
  "line_offsets pos [] = [pos]"
| "line_offsets pos (l # ls) = pos # line_offsets (pos + length l + 1) ls"

fun collect_spans :: "(nat \<Rightarrow> (unit, match_span) result option) \<Rightarrow> nat list \<Rightarrow> (unit, match_span list) result" where
  "collect_spans f [] = Ok []"
| "collect_spans f (i # is) =
     (case f i of
        None \<Rightarrow> collect_spans f is
      | Some r \<Rightarrow> bind_res r (\<lambda>m. map_ok ((#) m) (collect_spans f is)))"

definition trim_match_at :: "string \<Rightarrow> bool \<Rightarrow> string list \<Rightarrow> nat \<Rightarrow> (unit, match_span) result option" where
  "trim_match_at content norm old_lines i =
     (let content_lines = lines content; offsets = line_offsets 0 content_lines; size = length old_lines
      in if map (comparable_line norm) (take size (drop i content_lines)) \<noteq> old_lines then None
         else let start = offsets ! i; end0 = offsets ! (i + size);
                  end = (if ends_with newline (content_lines ! (i + size - 1)) \<or> i + size < length content_lines
                         then end0 - 1 else end0)
              in Some (map_ok (\<lambda>text. \<lparr>ms_start = start, ms_end = end, ms_text = text, ms_line = i + 1\<rparr>)
                         (slice content start end)))"

definition find_trim_matches :: "string \<Rightarrow> string \<Rightarrow> bool \<Rightarrow> (unit, match_span list) result" where
  "find_trim_matches content old_text norm =
     (let old_lines = map (comparable_line norm) (lines old_text); n = length (lines content)
      in if old_lines = [] \<or> n < length old_lines then Ok []
         else collect_spans (trim_match_at content norm old_lines) [0..<Suc (n - length old_lines)])"

function find_quote_from :: "string \<Rightarrow> string \<Rightarrow> nat \<Rightarrow> (unit, match_span list) result" where
  "find_quote_from content old_text start =
     (let norm_content = normalize_quotes content; norm_old = normalize_quotes old_text
      in if start > length norm_content \<or> \<not> char_boundary norm_content start then Panic
         else case str_find norm_old (drop start norm_content) of
                None \<Rightarrow> Ok []
              | Some idx \<Rightarrow>
                  let absolute = start + idx; end = absolute + length old_text
                  in bind_res (span_at content absolute end (min end (length content)) absolute) (\<lambda>m.
                       map_ok ((#) m) (find_quote_from content old_text (absolute + max (length norm_old) 1))))"
  by pat_completeness auto
termination by (relation "measure (\<lambda>(content, old_text, start). Suc (length (normalize_quotes content)) - start)") (auto simp: Let_def)

declare find_quote_from.simps [simp del]

definition find_quote_matches :: "string \<Rightarrow> string \<Rightarrow> (unit, match_span list) result" where
  "find_quote_matches content old_text = find_quote_from content old_text 0"

definition or_else_matches ::
  "(unit, match_span list) result \<Rightarrow> (unit, match_span list) result \<Rightarrow> (unit, match_span list) result" where
  "or_else_matches a b = bind_res a (\<lambda>ms. if ms \<noteq> [] then Ok ms else b)"

definition find_all_matches :: "string \<Rightarrow> string \<Rightarrow> (unit, match_span list) result" where
  "find_all_matches content old_text =
     or_else_matches (find_exact_matches content old_text)
       (or_else_matches (find_trim_matches content old_text False)
         (or_else_matches (find_trim_matches content old_text True)
           (find_quote_matches content old_text)))"

section \<open>Replacing\<close>

definition strip_trailing_ws :: "string \<Rightarrow> string" where
  "strip_trailing_ws text = join newline (map trim_end (lines text))"

text \<open>\<^verbatim>\<open>String::replace_range\<close> panics like a slice.\<close>

definition replace_range :: "string \<Rightarrow> nat \<Rightarrow> nat \<Rightarrow> string \<Rightarrow> (unit, string) result" where
  "replace_range s a b r = map_ok (\<lambda>_. take a s @ r @ drop b s) (slice s a b)"

definition replacement_for :: "file_lib \<Rightarrow> string \<Rightarrow> string \<Rightarrow> match_span \<Rightarrow> string" where
  "replacement_for L norm_old norm_new m =
     reindent_like_match norm_old (ms_text m) (preserve_quote_style L norm_old (ms_text m) norm_new)"

definition removal_end :: "string \<Rightarrow> string \<Rightarrow> match_span \<Rightarrow> nat" where
  "removal_end content replacement m =
     (if replacement = [] \<and> \<not> ends_with newline (ms_text m) \<and> ms_end m < length content \<and> byte (content ! ms_end m) = 10
      then ms_end m + 1 else ms_end m)"

text \<open>The selected matches are replaced from the last one to the first.\<close>

fun replace_spans :: "file_lib \<Rightarrow> string \<Rightarrow> string \<Rightarrow> string \<Rightarrow> match_span list \<Rightarrow> string \<Rightarrow> (unit, string) result" where
  "replace_spans L content norm_old norm_new [] text = Ok text"
| "replace_spans L content norm_old norm_new (m # ms) text =
     (let r = replacement_for L norm_old norm_new m
      in bind_res (replace_range text (ms_start m) (removal_end content r m) r)
           (replace_spans L content norm_old norm_new ms))"

section \<open>Slicing well-formed text\<close>

lemma char_boundary_append: "char_boundary (u @ w) (length u) \<longleftrightarrow> w = [] \<or> \<not> is_cont (hd w)"
  by (cases w) (auto simp: char_boundary_def nth_append)

lemma boundary_around:
  assumes "utf8_valid (u @ old @ v)" "utf8_valid old" "old \<noteq> []"
  shows "char_boundary (u @ old @ v) (length u)" "char_boundary (u @ old @ v) (length u + length old)"
proof -
  have h: "\<not> is_cont (hd old)" by (rule utf8_valid_hd [OF assms(2,3)])
  then show "char_boundary (u @ old @ v) (length u)" using assms(3) by (simp add: char_boundary_append)
  have "utf8_valid (old @ v)" using utf8_valid_split [OF assms(1)] h assms(3) by simp
  then have "utf8_valid v" using utf8_valid_suffix assms(2) by blast
  then have "v = [] \<or> \<not> is_cont (hd v)" using utf8_valid_hd by blast
  then show "char_boundary (u @ old @ v) (length u + length old)"
    using char_boundary_append [of "u @ old" v] by simp
qed

lemma char_boundary_0: "utf8_valid s \<Longrightarrow> char_boundary s 0"
  using char_boundary_append [of "[]" s] utf8_valid_hd [of s] by auto

lemma slice_around:
  assumes "utf8_valid (u @ old @ v)" "utf8_valid old" "old \<noteq> []"
  shows "slice (u @ old @ v) (length u) (length u + length old) = Ok old" "slice (u @ old @ v) 0 (length u) = Ok u"
  using boundary_around [OF assms] char_boundary_0 [OF assms(1)] by (simp_all add: slice_def)

section \<open>Exact matches\<close>

lemma str_find_split:
  assumes "str_find p s = Some i"
  shows "s = take i s @ p @ drop (i + length p) s"
proof -
  obtain t where "drop i s = p @ t" using str_find_Some [OF assms] starts_with_iff by blast
  then have "drop (i + length p) s = t" by (metis append_eq_conv_conj drop_drop add.commute)
  then show ?thesis using \<open>drop i s = p @ t\<close> append_take_drop_id [of i s] by simp
qed

lemma replace_all_found:
  "str_find p s = Some i \<Longrightarrow> p \<noteq> [] \<Longrightarrow> replace_all p r s = take i s @ r @ replace_all p r (drop (i + length p) s)"
proof (induction s arbitrary: i)
  case (Cons c s)
  show ?case
  proof (cases "starts_with p (c # s)")
    case True
    then show ?thesis using Cons.prems by (cases p) auto
  next
    case False
    then obtain j where "str_find p s = Some j" "i = Suc j" using Cons.prems by auto
    then show ?thesis using False Cons.IH [of j] Cons.prems(2) by simp
  qed
qed simp

lemma reindent_same: "reindent_like_match t t n = n"
  by (auto simp: reindent_like_match_def Let_def filter_eq_Cons_iff split: list.splits)
     (metis (no_types, lifting) case_prodD in_set_zip in_set_conv_decomp prod.sel filter_set)+

lemma replacement_exact: "ms_text m = old \<Longrightarrow> replacement_for L old new m = new"
  by (simp add: replacement_for_def preserve_quote_style_def reindent_same)

lemma utf8_valid_after: "utf8_valid (u @ old @ v) \<Longrightarrow> utf8_valid old \<Longrightarrow> old \<noteq> [] \<Longrightarrow> utf8_valid v"
  using utf8_valid_split [of u "old @ v"] utf8_valid_hd [of old] utf8_valid_suffix [of old v] by simp

lemma replace_spans_append:
  "replace_spans L content o' n (xs @ ys) t = bind_res (replace_spans L content o' n xs t) (replace_spans L content o' n ys)"
proof (induction xs arbitrary: t)
  case (Cons m xs)
  then show ?case
    by (cases "replace_range t (ms_start m) (removal_end content (replacement_for L o' n m) m) (replacement_for L o' n m)")
       (simp_all add: Let_def)
qed simp

lemma hd_replace_all:
  assumes "utf8_valid s" "utf8_valid new" "new \<noteq> []" "replace_all old new s \<noteq> []"
  shows "\<not> is_cont (hd (replace_all old new s))"
  using assms utf8_valid_hd [OF assms(1)] utf8_valid_hd [OF assms(2)] by (cases s) auto

lemma replace_range_at:
  assumes "utf8_valid old" "old \<noteq> []" "r = [] \<or> \<not> is_cont (hd r)"
  shows "replace_range (u @ old @ r) (length u) (length u + length old) new = Ok (u @ new @ r)"
proof -
  have "char_boundary (u @ old @ r) (length u)"
    using utf8_valid_hd [OF assms(1,2)] assms(2) by (simp add: char_boundary_append)
  moreover have "char_boundary (u @ old @ r) (length u + length old)"
    using assms(3) char_boundary_append [of "u @ old" r] by simp
  ultimately show ?thesis by (simp add: replace_range_def slice_def map_ok_def)
qed

text \<open>The spans of exact matches, replaced from the last one, give what \<^verbatim>\<open>str::replace\<close> gives.\<close>

lemma exact_spans_replace:
  assumes "utf8_valid content" "utf8_valid old" "utf8_valid new" "old \<noteq> []" "new \<noteq> []"
    and "utf8_valid (drop start content)" "start \<le> length content"
  shows "\<exists>ms. find_exact_from content old start = Ok ms \<and> (ms \<noteq> [] \<longleftrightarrow> str_contains old (drop start content))
    \<and> replace_spans L content old new (rev ms) content
        = Ok (take start content @ replace_all old new (drop start content))"
  using assms(6,7)
proof (induction "Suc (length content) - start" arbitrary: start rule: less_induct)
  case less
  let ?s = "drop start content"
  have b: "char_boundary content start"
    using char_boundary_append [of "take start content" ?s] utf8_valid_hd [OF less.prems(1)] less.prems(2) by auto
  show ?case
  proof (cases "str_find old ?s")
    case None
    then have "replace_all old new ?s = ?s" using replace_all_none by (simp add: str_contains_def)
    then show ?thesis using None b less.prems(2)
      by (simp add: find_exact_from.simps [of content] str_contains_def)
  next
    case (Some i)
    define u where "u = take start content @ take i ?s"
    define v where "v = drop (i + length old) ?s"
    note sp = str_find_split [OF Some]
    have content: "content = u @ old @ v"
      using arg_cong [OF sp, of "(@) (take start content)"] by (simp add: u_def v_def)
    have i: "i + length old \<le> length ?s"
      using arg_cong [OF sp, of length] str_find_Some [OF Some] by simp
    have lu: "length u = start + i" using i less.prems(2) by (simp add: u_def)
    define m where "m = \<lparr>ms_start = length u, ms_end = length u + length old, ms_text = old, ms_line = count_newlines u + 1\<rparr>"
    have span: "span_at content (start + i) (start + i + length old) (start + i + length old) (start + i) = Ok m"
      using slice_around [OF assms(1) [unfolded content] assms(2,4)]
      by (simp add: span_at_def map_ok_def m_def lu [symmetric]) (simp add: content)
    let ?R = "replace_all old new v"
    have v: "utf8_valid v" by (rule utf8_valid_after [OF assms(1) [unfolded content] assms(2,4)])
    have ends: "drop (length u + length old) content = v" "take (length u + length old) content = u @ old"
      by (simp_all add: content)
    have "Suc (length content) - (length u + length old) < Suc (length content) - start"
      using assms(4) lu less.prems(2) by (cases old) auto
    from less.hyps [OF this] obtain ms where ms: "find_exact_from content old (length u + length old) = Ok ms"
      "replace_spans L content old new (rev ms) content = Ok (u @ old @ ?R)"
      using v ends content by auto
    have "max (start + i + length old) (start + i + 1) = length u + length old" using assms(4) lu by (cases old) auto
    then have find: "find_exact_from content old start = Ok (m # ms)"
      using find_exact_from.simps [of content old start] b less.prems(2) Some span ms(1)
      by (simp add: Let_def map_ok_def)
    have "?R = [] \<or> \<not> is_cont (hd ?R)" using hd_replace_all [OF v assms(3,5)] by blast
    then have "replace_range (u @ old @ ?R) (length u) (length u + length old) new = Ok (u @ new @ ?R)"
      by (rule replace_range_at [OF assms(2,4)])
    then have "replace_spans L content old new (rev (m # ms)) content = Ok (u @ new @ ?R)"
      using ms(2) replacement_exact [of m old L new] assms(5)
      by (simp add: replace_spans_append removal_end_def) (simp add: m_def)
    moreover have "take start content @ replace_all old new ?s = u @ new @ ?R"
      using replace_all_found [OF Some assms(4), of new] by (simp add: u_def v_def)
    ultimately show ?thesis using find Some by (simp add: str_contains_def)
  qed
qed



text \<open>
  The looser searches compute wrong spans. A match of trimmed lines that reaches the end of a text
  without a final line feed ends one byte past it, so the edit panics; with a final line feed the
  match swallows it. A match up to quote styles is an offset into the normalised text, used in the
  original one: here only the opening quote is replaced. And two adjacent matches that start with a
  line feed cannot both be removed.
\<close>

theorem loose_matches_are_wrong:
  "find_all_matches (''x'' @ newline @ '' foo'') ''foo '' = Panic
   \<and> find_all_matches (''x'' @ newline @ '' foo'' @ newline) ''foo ''
       = Ok [\<lparr>ms_start = 2, ms_end = 7, ms_text = '' foo'' @ newline, ms_line = 2\<rparr>]
   \<and> find_all_matches (''x '' @ left_double @ ''a'' @ right_double @ '' y'') ([CHR 0x22] @ ''a'' @ [CHR 0x22])
       = Ok [\<lparr>ms_start = 2, ms_end = 5, ms_text = left_double, ms_line = 1\<rparr>]
   \<and> replace_spans file_demo_lib (newline @ ''x'' @ newline @ ''x'') (newline @ ''x'') []
       (rev (the_ok (find_all_matches (newline @ ''x'' @ newline @ ''x'') (newline @ ''x'')))) (newline @ ''x'' @ newline @ ''x'') = Panic"
  by (intro conjI; code_simp)

end
