(* ===== verification/Fs_Diff.thy ===== *)
theory Fs_Diff
  imports Fs_Edit
begin

text \<open>
  What the edit tool tells when a text or a file is not found (crates/agent/src/tools/filesystem.rs):
  the most similar window of lines, hints, the difference of the two, and similar file names.
\<close>

section \<open>Similar text\<close>

definition collapse_internal_whitespace :: "string \<Rightarrow> string" where
  "collapse_internal_whitespace text = join newline (map (\<lambda>line. join '' '' (split_whitespace line)) (lines text))"

definition diagnose_near_match :: "file_lib \<Rightarrow> string \<Rightarrow> string \<Rightarrow> string list" where
  "diagnose_near_match L old_text actual =
     (if fl_lower L old_text = fl_lower L actual \<and> old_text \<noteq> actual then [''letter case differs''] else []) @
     (if collapse_internal_whitespace old_text = collapse_internal_whitespace actual \<and> old_text \<noteq> actual
      then [''whitespace differs''] else []) @
     (if trim_end_matches [newline] old_text = trim_end_matches [newline] actual \<and> old_text \<noteq> actual
      then [''trailing newline differs''] else []) @
     (if normalize_quotes old_text = normalize_quotes actual \<and> old_text \<noteq> actual then [''quote style differs''] else [])"

text \<open>A ratio is the number of equal lines and the number of lines.\<close>

definition similarity_ratio :: "string list \<Rightarrow> string list \<Rightarrow> nat \<times> nat" where
  "similarity_ratio a b =
     (if a = [] \<and> b = [] then (1, 1)
      else (length (filter (\<lambda>(x, y). x = y) (zip a b)), max (length a) (length b)))"

definition ratio_less :: "nat \<times> nat \<Rightarrow> nat \<times> nat \<Rightarrow> bool" where
  "ratio_less p q \<longleftrightarrow> fst p * snd q < fst q * snd p"

record window =
  wd_ratio :: "(nat \<times> nat) option"
  wd_start :: nat
  wd_lines :: "string list"

definition better_window :: "string list \<Rightarrow> string list \<Rightarrow> window \<Rightarrow> nat \<Rightarrow> window" where
  "better_window old_lines content_lines best i =
     (let current = take (max (length old_lines) 1) (drop i content_lines);
          ratio = similarity_ratio old_lines current
      in case wd_ratio best of
           Some r \<Rightarrow> if ratio_less r ratio then \<lparr>wd_ratio = Some ratio, wd_start = i, wd_lines = current\<rparr> else best
         | None \<Rightarrow> \<lparr>wd_ratio = Some ratio, wd_start = i, wd_lines = current\<rparr>)"

definition best_window :: "file_lib \<Rightarrow> string \<Rightarrow> string \<Rightarrow> (nat \<times> nat) option \<times> nat \<times> string list \<times> string list" where
  "best_window L old_text content =
     (let content_lines = lines content; old_lines = lines old_text; size = max (length old_lines) 1;
          best = fold (\<lambda>i w. better_window old_lines content_lines w i) [0..<Suc (length content_lines - size)]
                   \<lparr>wd_ratio = None, wd_start = 0, wd_lines = []\<rparr>
      in (wd_ratio best, wd_start best + 1, wd_lines best, diagnose_near_match L old_text (join newline (wd_lines best))))"

section \<open>Differences\<close>

definition hunk_header :: "nat \<Rightarrow> nat \<Rightarrow> string list \<Rightarrow> string list \<Rightarrow> string" where
  "hunk_header old_start new_start hunk_old hunk_new =
     ''@@ -'' @ show_nat old_start @ '','' @ show_nat (length hunk_old) @
     '' +'' @ show_nat new_start @ '','' @ show_nat (length hunk_new) @ '' @@''"

definition flush_hunk :: "nat \<Rightarrow> nat \<Rightarrow> string list \<Rightarrow> string list \<Rightarrow> string list" where
  "flush_hunk old_start new_start hunk_old hunk_new =
     (if hunk_old \<noteq> [] \<or> hunk_new \<noteq> []
      then hunk_header old_start new_start hunk_old hunk_new # map ((#) (CHR ''-'')) hunk_old @ map ((#) (CHR ''+'')) hunk_new
      else [])"

text \<open>\<open>i\<close> and \<open>j\<close> are the positions in the two texts; their rests are the last two arguments.\<close>

fun diff_lines ::
  "nat \<Rightarrow> nat \<Rightarrow> nat \<Rightarrow> nat \<Rightarrow> string list \<Rightarrow> string list \<Rightarrow> string list \<Rightarrow> string list \<Rightarrow> string list" where
  "diff_lines i j old_start new_start hunk_old hunk_new [] [] = flush_hunk old_start new_start hunk_old hunk_new"
| "diff_lines i j old_start new_start hunk_old hunk_new (x # xs) [] =
     diff_lines (i + 1) j old_start new_start (hunk_old @ [x]) hunk_new xs []"
| "diff_lines i j old_start new_start hunk_old hunk_new [] (y # ys) =
     diff_lines i (j + 1) old_start new_start hunk_old (hunk_new @ [y]) [] ys"
| "diff_lines i j old_start new_start hunk_old hunk_new (x # xs) (y # ys) =
     (if x = y
      then flush_hunk old_start new_start hunk_old hunk_new @
           (CHR '' '' # x) # diff_lines (i + 1) (j + 1) (i + 2) (j + 2) [] [] xs ys
      else if length (x # xs) \<le> length (y # ys)
      then diff_lines (i + 1) j old_start new_start (hunk_old @ [x]) hunk_new xs (y # ys)
      else diff_lines i (j + 1) old_start new_start hunk_old (hunk_new @ [y]) (x # xs) ys)"

definition unified_diff :: "string list \<Rightarrow> string list \<Rightarrow> string \<Rightarrow> string \<Rightarrow> string" where
  "unified_diff old new from to =
     (let out = [''--- '' @ from, ''+++ '' @ to] @ diff_lines 0 0 1 1 [] [] old new
      in if length out \<le> 2 then ''(no diff)'' else join newline out)"

section \<open>Messages\<close>

definition not_found_msg :: "file_lib \<Rightarrow> string \<Rightarrow> string \<Rightarrow> string \<Rightarrow> string" where
  "not_found_msg L old_text content path =
     (let (best_ratio, best_start, best_window_lines, hints) = best_window L old_text content
      in case best_ratio of
           Some (num, den) \<Rightarrow>
             if ratio_less (1, 2) (num, den)
             then ''Error: old_text not found in '' @ path @ ''.'' @
                  (if hints = [] then [] else newline @ ''Possible cause: '' @ join '', '' hints @ ''.'') @
                  newline @ ''Best match ('' @ fl_percent L num den @ ''% similar) at line '' @ show_nat best_start @ '':'' @ newline @
                  unified_diff (lines old_text) best_window_lines ''old_text (provided)''
                    (path @ '' (actual, line '' @ show_nat best_start @ '')'')
             else if hints = []
             then ''Error: old_text not found in '' @ path @ ''. No similar text found. Verify the file content.''
             else ''Error: old_text not found in '' @ path @ ''. Possible cause: '' @ join '', '' hints @
                  ''. Copy the exact text from read_file and try again.''
         | None \<Rightarrow> [])"

fun common_chars :: "string list \<Rightarrow> string list \<Rightarrow> nat" where
  "common_chars (x # xs) (y # ys) = (if x = y then Suc (common_chars xs ys) else common_chars (x # xs) ys)"
| "common_chars xs ys = 0"

definition similarity_str :: "string \<Rightarrow> string \<Rightarrow> nat \<times> nat" where
  "similarity_str a b =
     (if a = b then (1, 1)
      else let n = max (length (chars a)) (length (chars b))
           in if n = 0 then (1, 1) else (common_chars (chars a) (chars b), n))"

text \<open>A stable sort, best first: insertion keeps equal scores in order.\<close>

fun insert_scored :: "(nat \<times> nat) \<times> string \<Rightarrow> ((nat \<times> nat) \<times> string) list \<Rightarrow> ((nat \<times> nat) \<times> string) list" where
  "insert_scored x [] = [x]"
| "insert_scored x (y # ys) = (if ratio_less (fst x) (fst y) then y # insert_scored x ys else x # y # ys)"

definition fuzzy_close_matches :: "string \<Rightarrow> string list \<Rightarrow> nat \<Rightarrow> string list" where
  "fuzzy_close_matches target candidates n =
     (let scored = filter (\<lambda>(r, _). \<not> ratio_less r (6, 10)) (map (\<lambda>c. (similarity_str target c, c)) candidates)
      in map snd (take n (foldr insert_scored scored [])))"

definition file_not_found_msg :: "file_lib \<Rightarrow> os \<Rightarrow> string \<Rightarrow> string \<Rightarrow> string" where
  "file_not_found_msg L s path fp =
     (let suggestions =
            (case path_parent fp of
               Some p \<Rightarrow>
                 (case lookup_path s False p of
                    Ok l \<Rightarrow>
                      if os_nodes s l = Some Dir \<and> os_fault s OpList l = None
                      then map (path_join p)
                             (fuzzy_close_matches (case file_name fp of Some f \<Rightarrow> f | None \<Rightarrow> [])
                               (filter (\<lambda>n. case os_nodes s (l @ [n]) of Some (File _ _) \<Rightarrow> True | _ \<Rightarrow> False) (fl_read_dir L s l)) 3)
                      else []
                  | _ \<Rightarrow> [])
             | None \<Rightarrow> [])
      in join newline
           ((''Error: File not found: '' @ path) #
            (if suggestions = [] then [] else [''Did you mean: '' @ join '', '' suggestions @ ''?''])))"

section \<open>A difference shows both texts\<close>

text \<open>The lines of a difference that belong to the old text, and those of the new one.\<close>

definition side :: "char \<Rightarrow> string list \<Rightarrow> string list" where
  "side c out = map tl (filter (\<lambda>l. l \<noteq> [] \<and> hd l \<in> {CHR '' '', c}) out)"

lemma side_simps [simp]:
  "side c [] = []" "side c (l # ls) = (if l \<noteq> [] \<and> hd l \<in> {CHR '' '', c} then tl l # side c ls else side c ls)"
  "side c (ls @ ks) = side c ls @ side c ks"
  by (simp_all add: side_def)

lemma side_flush: "c \<in> {CHR ''-'', CHR ''+''} \<Longrightarrow>
    side c (flush_hunk a b old new) = (if c = CHR ''-'' then old else new)"
  by (auto simp: flush_hunk_def hunk_header_def side_def filter_map comp_def)

lemma side_diff_lines:
  "side (CHR ''-'') (diff_lines i j a b old new xs ys) = old @ xs"
  "side (CHR ''+'') (diff_lines i j a b old new xs ys) = new @ ys"
  by (induction i j a b old new xs ys rule: diff_lines.induct) (auto simp: side_flush)

text \<open>
  (C35) A difference is faithful: the lines marked as kept or removed are the old text in order, and those
  marked as kept or added are the new one; it is empty of changes only for equal texts.
\<close>

theorem diff_shows_both_texts:
  "side (CHR ''-'') (diff_lines 0 0 1 1 [] [] old new) = old \<and> side (CHR ''+'') (diff_lines 0 0 1 1 [] [] old new) = new
   \<and> (unified_diff old new from to = ''(no diff)'' \<longleftrightarrow> old = [] \<and> new = [])"
proof -
  have "diff_lines i j a b ho hn xs ys = [] \<longleftrightarrow> ho = [] \<and> hn = [] \<and> xs = [] \<and> ys = []" for i j a b ho hn xs ys
    by (induction i j a b ho hn xs ys rule: diff_lines.induct) (auto simp: flush_hunk_def)
  moreover have "join newline ((''--- '' @ from) # rest) \<noteq> ''(no diff)''" for rest
    by (cases rest) auto
  ultimately show ?thesis by (auto simp: side_diff_lines unified_diff_def Let_def)
qed

end
