(* ===== verification/Fs_Tools.thy ===== *)
theory Fs_Tools
  imports Fs_Diff HC_Json "HOL-Library.List_Lexorder" "HOL-Library.Char_ord"
begin

text \<open>
  The tools \<^verbatim>\<open>read_file\<close>, \<^verbatim>\<open>write_file\<close>, \<^verbatim>\<open>edit_file\<close> and \<^verbatim>\<open>list_dir\<close>
  (crates/agent/src/tools/filesystem.rs). A call changes the file system and the tracker the tool
  selects; it answers with a text or panics. The sum of a position and a limit is one of \<^verbatim>\<open>usize\<close>:
  \<open>checked\<close> says whether the build checks overflow or wraps. A directory is smaller than the limit of
  the edit tool.
\<close>

section \<open>Parameters and media types\<close>

record fs_tool =
  ft_workspace :: "string option"
  ft_allowed_dir :: "string option"
  ft_extra_allowed_dirs :: "string list"

record fs_world =
  fw_os :: os
  fw_states :: file_states

definition resolve_for :: "string \<Rightarrow> fs_tool \<Rightarrow> string \<Rightarrow> os \<Rightarrow> (path_error, string) result \<times> os" where
  "resolve_for cfg T path s = resolve_tool_path cfg path (ft_workspace T) (ft_allowed_dir T) (ft_extra_allowed_dirs T) s"

definition string_param :: "json \<Rightarrow> string \<Rightarrow> string option" where
  "string_param params key = Option.bind (jget params key) as_str"

definition bool_param :: "json \<Rightarrow> string \<Rightarrow> bool \<Rightarrow> bool" where
  "bool_param params key dflt = (case Option.bind (jget params key) as_bool of Some b \<Rightarrow> b | None \<Rightarrow> dflt)"

definition usize_param :: "json \<Rightarrow> string \<Rightarrow> nat \<Rightarrow> nat" where
  "usize_param params key dflt = (case Option.bind (jget params key) as_u64 of Some n \<Rightarrow> n | None \<Rightarrow> dflt)"

definition blocked_device_paths :: "string list" where
  "blocked_device_paths =
     [''/dev/zero'', ''/dev/random'', ''/dev/urandom'', ''/dev/full'', ''/dev/stdin'', ''/dev/stdout'', ''/dev/stderr'',
      ''/dev/tty'', ''/dev/console'', ''/dev/fd/0'', ''/dev/fd/1'', ''/dev/fd/2'']"

definition is_digit_char :: "file_lib \<Rightarrow> string \<Rightarrow> bool" where
  "is_digit_char L ch = (case ch of [c] \<Rightarrow> 48 \<le> byte c \<and> byte c \<le> 57 | _ \<Rightarrow> fl_digit L ch)"

text \<open>The two patterns \<^verbatim>\<open>^/proc/\d+/fd/[012]$\<close> and \<^verbatim>\<open>^/proc/self/fd/[012]$\<close>.\<close>

definition proc_fd :: "file_lib \<Rightarrow> string \<Rightarrow> bool" where
  "proc_fd L p =
     (case split_char CHR ''/'' p of
        [a, b, c, d, e] \<Rightarrow>
          a = [] \<and> b = ''proc'' \<and> (c = ''self'' \<or> c \<noteq> [] \<and> list_all (is_digit_char L) (chars c)) \<and> d = ''fd''
          \<and> (e = ''0'' \<or> e = ''1'' \<or> e = ''2'')
      | _ \<Rightarrow> False)"

definition is_blocked_device :: "file_lib \<Rightarrow> os \<Rightarrow> string \<Rightarrow> bool" where
  "is_blocked_device L s raw =
     (let resolved = canonicalize s raw
      in raw \<in> set blocked_device_paths \<or> resolved \<in> set blocked_device_paths \<or> proc_fd L raw \<or> proc_fd L resolved
         \<or> starts_with ''/dev/'' resolved)"

definition detect_image_mime :: "string \<Rightarrow> string option" where
  "detect_image_mime data =
     (if starts_with [CHR 0x89, CHR 0x50, CHR 0x4E, CHR 0x47, CHR 0x0D, CHR 0x0A, CHR 0x1A, CHR 0x0A] data then Some ''image/png''
      else if starts_with [CHR 0xFF, CHR 0xD8, CHR 0xFF] data then Some ''image/jpeg''
      else if starts_with ''GIF87a'' data \<or> starts_with ''GIF89a'' data then Some ''image/gif''
      else if starts_with ''RIFF'' data \<and> starts_with ''WEBP'' (drop 8 data) then Some ''image/webp''
      else None)"

definition mime_from_extension :: "string \<Rightarrow> string option" where
  "mime_from_extension path =
     (let lower = to_lowercase path
      in if ends_with ''.png'' lower then Some ''image/png''
         else if ends_with ''.jpg'' lower \<or> ends_with ''.jpeg'' lower then Some ''image/jpeg''
         else if ends_with ''.gif'' lower then Some ''image/gif''
         else if ends_with ''.webp'' lower then Some ''image/webp''
         else None)"

definition ignore_dirs :: "string list" where
  "ignore_dirs =
     [''.git'', ''node_modules'', ''__pycache__'', ''.venv'', ''venv'', ''dist'', ''build'', ''.tox'', ''.mypy_cache'', ''.pytest_cache'',
      ''.ruff_cache'', ''.coverage'', ''htmlcov'', ''target'']"

section \<open>Reading\<close>

definition read_max_chars :: nat where "read_max_chars = 128000"
definition read_default_limit :: nat where "read_default_limit = 2000"

definition read_pdf :: string where
  "read_pdf =
     ''Error: PDF reading requires a PDF parsing library (e.g. pdf-extract or lopdf). '' @
     ''Add the crate to Cargo.toml and implement read_pdf.''"

definition read_office_doc :: "string \<Rightarrow> string" where
  "read_office_doc ext =
     ''Error: '' @ to_ascii_uppercase ext @ '' reading requires an Office document parsing library. '' @
     ''Add the appropriate crate (e.g. docx for .docx, calamine for .xlsx) to Cargo.toml and implement read_office_doc.''"

definition build_image_response :: "file_lib \<Rightarrow> string \<Rightarrow> string \<Rightarrow> string \<Rightarrow> string \<Rightarrow> string" where
  "build_image_response L raw mime fp path =
     ''[IMAGE:'' @ mime @ '';base64,'' @ fl_base64 L raw @ ''|path='' @ fp @ ''|label=(Image file: '' @ path @ '')]''"

definition number_lines :: "nat \<Rightarrow> string list \<Rightarrow> string list" where
  "number_lines start ls = map (\<lambda>(i, l). show_nat (start + i + 1) @ ''| '' @ l) (enumerate 0 ls)"

fun take_within :: "nat \<Rightarrow> string list \<Rightarrow> string list" where
  "take_within used [] = []"
| "take_within used (l # ls) =
     (if used + length l + 1 > read_max_chars then [] else l # take_within (used + length l + 1) ls)"

definition page_hint :: "nat \<Rightarrow> nat \<Rightarrow> nat \<Rightarrow> string" where
  "page_hint offset final whole =
     newline @ newline @ ''(Showing lines '' @ show_nat offset @ ''-'' @ show_nat final @ '' of '' @ show_nat whole @
     ''. Use offset='' @ show_nat (final + 1) @ '' to continue.)''"

definition end_hint :: "nat \<Rightarrow> string" where
  "end_hint whole =
     newline @ newline @ ''(End of file '' @ [CHR 0xE2, CHR 0x80, CHR 0x94] @ '' '' @ show_nat whole @ '' lines total)''"

text \<open>The page of a text, or the error for an offset past the end; only a page is recorded as a read.\<close>

definition read_page :: "bool \<Rightarrow> string \<Rightarrow> nat \<Rightarrow> nat option \<Rightarrow> (string, string) result" where
  "read_page checked text offset limit =
     (let all_lines = split_char (CHR 0x0A) text; whole = length all_lines
      in if offset > whole
         then Err (''Error: offset '' @ show_nat offset @ '' is beyond end of file ('' @ show_nat whole @ '' lines)'')
         else let start = offset - 1; wanted = start + (case limit of Some n \<Rightarrow> n | None \<Rightarrow> read_default_limit);
                  end = min (wanted mod 2 ^ 64) whole
              in if checked \<and> wanted \<ge> 2 ^ 64 \<or> end < start then Panic
                 else let numbered = number_lines start (take (end - start) (drop start all_lines));
                          shown = join newline numbered
                      in if length shown > read_max_chars
                         then (let trimmed = take_within 0 numbered
                               in Ok (join newline trimmed @ page_hint offset (start + length trimmed) whole))
                         else if end < whole then Ok (shown @ page_hint offset end whole)
                         else Ok (shown @ end_hint whole))"

definition text_extension :: "string \<Rightarrow> string" where
  "text_extension fp = to_lowercase (case path_extension fp of Some e \<Rightarrow> e | None \<Rightarrow> [])"

definition read_file ::
  "bool \<Rightarrow> file_lib \<Rightarrow> string \<Rightarrow> fs_tool \<Rightarrow> json \<Rightarrow> fs_world \<Rightarrow> (unit, json) result \<times> fs_world" where
  "read_file checked L cfg T params w =
     (case string_param params ''path'' of
        None \<Rightarrow> (Ok (JString ''Error reading file: Unknown path''), w)
      | Some path \<Rightarrow>
          let offset = max (usize_param params ''offset'' 1) 1; limit = Option.bind (jget params ''limit'') as_u64;
              (r, s1) = resolve_for cfg T path (fw_os w); w1 = w\<lparr>fw_os := s1\<rparr>;
              say = (\<lambda>t. (Ok (JString t), w1))
          in case r of
               Panic \<Rightarrow> (Panic, w1)
             | Err e \<Rightarrow> say (''Error: '' @ show_path_error e)
             | Ok fp \<Rightarrow>
                 if is_blocked_device L s1 fp
                 then say (''Error: Reading '' @ fp @ '' is blocked (device path that could hang or produce infinite output).'')
                 else if \<not> path_exists s1 fp then say (''Error: File not found: '' @ path)
                 else if \<not> path_is_file s1 fp then say (''Error: Not a file: '' @ path)
                 else let ext = text_extension fp
                      in if ext = ''pdf'' then say read_pdf
                         else if ext \<in> {''docx'', ''xlsx'', ''pptx''} then say (read_office_doc ext)
                         else let (same, st1) = is_unchanged L s1 fp offset limit (fw_states w);
                                  w2 = w1\<lparr>fw_states := st1\<rparr>; say2 = (\<lambda>t. (Ok (JString t), w2))
                              in if same then say2 (''[File unchanged since last read: '' @ path @ '']'')
                                 else case read_bytes s1 fp of
                                        Panic \<Rightarrow> (Panic, w2)
                                      | Err e \<Rightarrow> say2 (''Error reading file: '' @ fl_io_text L e)
                                      | Ok raw \<Rightarrow>
                                          if raw = [] then say2 (''(Empty file: '' @ path @ '')'')
                                          else case (case detect_image_mime raw of Some m \<Rightarrow> Some m | None \<Rightarrow> mime_from_extension path) of
                                                 Some m \<Rightarrow> say2 (build_image_response L raw m fp path)
                                               | None \<Rightarrow>
                                                   if \<not> utf8_valid raw
                                                   then say2 (''Error: Cannot read binary file '' @ path @
                                                              '' (MIME: unknown). Only UTF-8 text and images are supported.'')
                                                   else case read_page checked (replace_all [CHR 0x0D, CHR 0x0A] newline raw) offset limit of
                                                          Panic \<Rightarrow> (Panic, w2)
                                                        | Err t \<Rightarrow> say2 t
                                                        | Ok t \<Rightarrow> (Ok (JString t), w2\<lparr>fw_states := record_read L s1 fp offset limit st1\<rparr>))"

section \<open>Writing\<close>

definition write_file ::
  "file_lib \<Rightarrow> string \<Rightarrow> fs_tool \<Rightarrow> json \<Rightarrow> fs_world \<Rightarrow> (unit, json) result \<times> fs_world" where
  "write_file L cfg T params w =
     (case string_param params ''path'' of
        None \<Rightarrow> (Ok (JString ''Error writing file: Unknown path''), w)
      | Some path \<Rightarrow>
          (case string_param params ''content'' of
             None \<Rightarrow> (Ok (JString ''Error writing file: Unknown content''), w)
           | Some content \<Rightarrow>
               let (r, s1) = resolve_for cfg T path (fw_os w)
               in case r of
                    Panic \<Rightarrow> (Panic, w\<lparr>fw_os := s1\<rparr>)
                  | Err e \<Rightarrow> (Ok (JString (''Error: '' @ show_path_error e)), w\<lparr>fw_os := s1\<rparr>)
                  | Ok fp \<Rightarrow>
                      let (made, s2) = (case path_parent fp of Some parent \<Rightarrow> create_dir_all parent s1 | None \<Rightarrow> (Ok (), s1))
                      in case made of
                           Panic \<Rightarrow> (Panic, w\<lparr>fw_os := s2\<rparr>)
                         | Err e \<Rightarrow> (Ok (JString (''Error writing file: '' @ fl_io_text L e)), w\<lparr>fw_os := s2\<rparr>)
                         | Ok _ \<Rightarrow>
                             let (written, s3) = write_bytes fp content s2
                             in case written of
                                  Panic \<Rightarrow> (Panic, w\<lparr>fw_os := s3\<rparr>)
                                | Err e \<Rightarrow> (Ok (JString (''Error writing file: '' @ fl_io_text L e)), w\<lparr>fw_os := s3\<rparr>)
                                | Ok _ \<Rightarrow>
                                    (Ok (JString (''Successfully wrote '' @ show_nat (length content) @ '' characters to '' @ fp)),
                                     \<lparr>fw_os = s3, fw_states = record_write L s3 fp (fw_states w)\<rparr>)))"

section \<open>Editing\<close>

definition edit_max_file_size :: nat where "edit_max_file_size = 1024 * 1024 * 1024"
definition markdown_exts :: "string list" where "markdown_exts = [''.md'', ''.mdx'', ''.markdown'']"

definition is_markdown :: "string \<Rightarrow> bool" where
  "is_markdown fp =
     (case path_extension fp of
        Some e \<Rightarrow> list_ex (\<lambda>x. to_lowercase e = dropWhile (\<lambda>c. c = CHR ''.'') x) markdown_exts
      | None \<Rightarrow> False)"

definition file_size :: "os \<Rightarrow> string \<Rightarrow> nat" where
  "file_size s fp = (case node_at s fp of Some (File b _) \<Rightarrow> length b | _ \<Rightarrow> 0)"

definition read_to_string :: "os \<Rightarrow> string \<Rightarrow> string" where
  "read_to_string s fp = (case read_bytes s fp of Ok b \<Rightarrow> if utf8_valid b then b else [] | _ \<Rightarrow> [])"

definition ambiguous_warning :: "match_span list \<Rightarrow> string" where
  "ambiguous_warning ms =
     (let preview = join '', '' (map (\<lambda>m. ''line '' @ show_nat (ms_line m)) (take 3 ms)) @ (if length ms > 3 then '', ...'' else [])
      in ''Warning: old_text appears '' @ show_nat (length ms) @ '' times'' @
         (if preview = [] then [] else '' at '' @ preview) @
         ''. Provide more context to make it unique, or set replace_all=true.'')"

definition write_edit :: "file_lib \<Rightarrow> string \<Rightarrow> string \<Rightarrow> string \<Rightarrow> fs_world \<Rightarrow> (unit, json) result \<times> fs_world" where
  "write_edit L fp content success w =
     (let (written, s') = write_bytes fp content (fw_os w)
      in case written of
           Panic \<Rightarrow> (Panic, w\<lparr>fw_os := s'\<rparr>)
         | Err e \<Rightarrow> (Ok (JString (''Error editing file: '' @ fl_io_text L e)), w\<lparr>fw_os := s'\<rparr>)
         | Ok _ \<Rightarrow> (Ok (JString success), \<lparr>fw_os = s', fw_states = record_write L s' fp (fw_states w)\<rparr>))"

text \<open>The edit of an existing file with a nonempty old text.\<close>

definition edit_text ::
  "file_lib \<Rightarrow> string \<Rightarrow> string \<Rightarrow> string \<Rightarrow> string \<Rightarrow> bool \<Rightarrow> fs_world \<Rightarrow> (unit, json) result \<times> fs_world" where
  "edit_text L path fp old_text new_text everywhere w0 =
     (let s = fw_os w0; (warning, st1) = check_read L s fp (fw_states w0); w = w0\<lparr>fw_states := st1\<rparr>
      in case read_bytes s fp of
           Panic \<Rightarrow> (Panic, w)
         | Err e \<Rightarrow> (Ok (JString (''Error editing file: '' @ fl_io_text L e)), w)
         | Ok raw \<Rightarrow>
             let crlf = [CHR 0x0D, CHR 0x0A]; uses_crlf = str_contains crlf raw
             in if \<not> utf8_valid raw then (Ok (JString (''Error: Cannot edit non-UTF-8 file '' @ path @ ''.'')), w)
                else let content = replace_all crlf newline raw;
                         norm_old = replace_all crlf newline old_text;
                         norm_new0 = replace_all crlf newline new_text;
                         norm_new = (if is_markdown fp then norm_new0 else strip_trailing_ws norm_new0)
                     in case find_all_matches content norm_old of
                          Ok ms \<Rightarrow>
                            if ms = [] then (Ok (JString (not_found_msg L norm_old content path)), w)
                            else if length ms > 1 \<and> \<not> everywhere then (Ok (JString (ambiguous_warning ms)), w)
                            else (case replace_spans L content norm_old norm_new (rev (if everywhere then ms else [hd ms])) content of
                                    Ok new_content \<Rightarrow>
                                      write_edit L fp (if uses_crlf then replace_all newline crlf new_content else new_content)
                                        ((case warning of Some t \<Rightarrow> t @ newline | None \<Rightarrow> []) @ ''Successfully edited '' @ fp) w
                                  | _ \<Rightarrow> (Panic, w))
                        | _ \<Rightarrow> (Panic, w))"

definition edit_file ::
  "file_lib \<Rightarrow> string \<Rightarrow> fs_tool \<Rightarrow> json \<Rightarrow> fs_world \<Rightarrow> (unit, json) result \<times> fs_world" where
  "edit_file L cfg T params w =
     (case string_param params ''path'' of
        None \<Rightarrow> (Ok (JString ''Error editing file: Unknown path''), w)
      | Some path \<Rightarrow>
          let old_text = (case string_param params ''old_text'' of Some t \<Rightarrow> t | None \<Rightarrow> []);
              new_text = (case string_param params ''new_text'' of Some t \<Rightarrow> t | None \<Rightarrow> []);
              everywhere = bool_param params ''replace_all'' False
          in if ends_with ''.ipynb'' path
             then (Ok (JString ''Error: This is a Jupyter notebook. Use the notebook_edit tool instead of edit_file.''), w)
             else let (r, s1) = resolve_for cfg T path (fw_os w); w1 = w\<lparr>fw_os := s1\<rparr>
                  in case r of
                       Panic \<Rightarrow> (Panic, w1)
                     | Err e \<Rightarrow> (Ok (JString (''Error: '' @ show_path_error e)), w1)
                     | Ok fp \<Rightarrow>
                         if \<not> path_exists s1 fp
                         then (if old_text = []
                               then let s2 = (case path_parent fp of Some parent \<Rightarrow> snd (create_dir_all parent s1) | None \<Rightarrow> s1)
                                    in write_edit L fp new_text (''Successfully created '' @ fp) (w\<lparr>fw_os := s2\<rparr>)
                               else (Ok (JString (file_not_found_msg L s1 path fp)), w1))
                         else if file_size s1 fp > edit_max_file_size
                         then (Ok (JString (''Error: File too large to edit ('' @ show_nat (file_size s1 fp) @
                                            '' bytes). Maximum is 1 GiB.'')), w1)
                         else if old_text = []
                         then (if trim (read_to_string s1 fp) \<noteq> []
                               then (Ok (JString (''Error: Cannot create file '' @ [CHR 0xE2, CHR 0x80, CHR 0x94] @ '' '' @ path @
                                                  '' already exists and is not empty.'')), w1)
                               else write_edit L fp new_text (''Successfully edited '' @ fp) w1)
                         else edit_text L path fp old_text new_text everywhere w1)"

section \<open>Listing\<close>

definition tree_entries :: "file_lib \<Rightarrow> os \<Rightarrow> string \<Rightarrow> location \<Rightarrow> string list" where
  "tree_entries L s dp l =
     map (\<lambda>(names, is_dir). join ''/'' names @ (if is_dir then ''/'' else []))
       (filter (\<lambda>(names, _). names \<noteq> [] \<and> \<not> list_ex (\<lambda>c. c \<in> set ignore_dirs) (path_components dp @ names)) (fl_walk L s l))"

definition dir_entries :: "file_lib \<Rightarrow> os \<Rightarrow> location \<Rightarrow> string list" where
  "dir_entries L s l =
     map (\<lambda>n. (if os_nodes s (l @ [n]) = Some Dir then ''[dir] '' else ''[file] '') @ n)
       (filter (\<lambda>n. n \<notin> set ignore_dirs) (sort (fl_read_dir L s l)))"

definition list_dir ::
  "file_lib \<Rightarrow> string \<Rightarrow> fs_tool \<Rightarrow> json \<Rightarrow> fs_world \<Rightarrow> (unit, json) result \<times> fs_world" where
  "list_dir L cfg T params w =
     (case string_param params ''path'' of
        None \<Rightarrow> (Ok (JString ''Error: Unknown path''), w)
      | Some path \<Rightarrow>
          let recursive = bool_param params ''recursive'' False; cap = max (usize_param params ''max_entries'' 200) 1;
              (r, s1) = resolve_for cfg T path (fw_os w); say = (\<lambda>t. (Ok (JString t), w\<lparr>fw_os := s1\<rparr>))
          in case r of
               Panic \<Rightarrow> (Panic, w\<lparr>fw_os := s1\<rparr>)
             | Err e \<Rightarrow> say (''Error: '' @ show_path_error e)
             | Ok dp \<Rightarrow>
                 (case lookup_path s1 False dp of
                    Ok l \<Rightarrow>
                      if os_nodes s1 l \<noteq> Some Dir then say (''Error: Not a directory: '' @ path)
                      else (case (if recursive then None else os_fault s1 OpList l) of
                              Some e \<Rightarrow> say (''Error: '' @ fl_io_text L e)
                            | None \<Rightarrow>
                                let entries = (if recursive then tree_entries L s1 dp l else dir_entries L s1 l); whole = length entries
                                in if whole = 0 then say (''Directory '' @ path @ '' is empty'')
                                   else say (join newline (take cap entries) @
                                             (if whole > cap
                                              then newline @ newline @ ''(truncated, showing first '' @ show_nat cap @ '' of '' @
                                                   show_nat whole @ '' entries)''
                                              else [])))
                  | _ \<Rightarrow> say (''Error: Directory not found: '' @ path)))"

section \<open>Written files\<close>

lemma resolve_for_ok: "os_ok s \<Longrightarrow> resolve_for cfg T path s = (r, s1) \<Longrightarrow> os_ok s1"
  using get_media_dir_extends [of cfg s]
  by (auto simp: resolve_for_def resolve_tool_path_def Let_def split: option.splits prod.splits if_splits)

text \<open>
  (C24) What the write tool reports as written is in the file: the path then leads to a file with exactly
  the content of the call, stamped with the time of the write, and the tracker knows it.
\<close>

theorem written_content_is_in_the_file:
  assumes "os_ok (fw_os w)" and "string_param params ''content'' = Some content"
    and "write_file L cfg T params w = (Ok (JString msg), w')" and "\<not> starts_with ''Error'' msg"
  shows "\<exists>fp. msg = ''Successfully wrote '' @ show_nat (length content) @ '' characters to '' @ fp
    \<and> node_at (fw_os w') fp = Some (File content (os_now (fw_os w'))) \<and> os_ok (fw_os w')
    \<and> fw_states w' = record_write L (fw_os w') fp (fw_states w)"
proof -
  obtain path where path: "string_param params ''path'' = Some path"
    using assms(3,4) by (cases "string_param params ''path''") (auto simp: write_file_def starts_with_def)
  obtain r s1 where r: "resolve_for cfg T path (fw_os w) = (r, s1)" by force
  then have ok1: "os_ok s1" by (rule resolve_for_ok [OF assms(1)])
  obtain fp where fp: "r = Ok fp"
    using assms(2-4) path r by (cases r) (auto simp: write_file_def starts_with_def)
  obtain made s2 where m: "(case path_parent fp of Some parent \<Rightarrow> create_dir_all parent s1 | None \<Rightarrow> (Ok (), s1)) = (made, s2)"
    by force
  then have ok2: "os_ok s2" using ok1 create_dir_all_ok by (auto split: option.splits)
  obtain written s3 where wr: "write_bytes fp content s2 = (written, s3)" by force
  have "made = Ok ()" "written = Ok ()"
    using assms(2-4) path r fp m wr by (auto simp: write_file_def starts_with_def split: result.splits)
  then have "msg = ''Successfully wrote '' @ show_nat (length content) @ '' characters to '' @ fp"
    "w' = \<lparr>fw_os = s3, fw_states = record_write L s3 fp (fw_states w)\<rparr>"
    using assms(2,3) path r fp m wr by (simp_all add: write_file_def)
  then show ?thesis
    using write_bytes_reads_back [OF ok2, of fp content s3] write_bytes_ok [OF ok2 wr] wr \<open>written = Ok ()\<close>
    by (auto simp: node_at_def)
qed

definition demo_tool :: fs_tool where
  "demo_tool = \<lparr>ft_workspace = Some ''/ws'', ft_allowed_dir = Some ''/ws'', ft_extra_allowed_dirs = []\<rparr>"

definition tool_world :: fs_world where
  "tool_world = \<lparr>fw_os = demo_os, fw_states = file_states_new\<rparr>"

definition write_call :: json where
  "write_call = JObject [(''path'', JString ''sub/new.txt''), (''content'', JString ''xy'')]"

theorem written_content_is_in_the_file_witness:
  "\<exists>w' fp. write_file file_demo_lib ''/data/config.json'' demo_tool write_call tool_world
       = (Ok (JString ''Successfully wrote 2 characters to /ws/sub/new.txt''), w')
     \<and> node_at (fw_os w') fp = Some (File ''xy'' (os_now (fw_os w')))"
proof -
  let ?r = "write_file file_demo_lib ''/data/config.json'' demo_tool write_call tool_world"
  have "fst ?r = Ok (JString ''Successfully wrote 2 characters to /ws/sub/new.txt'')" by code_simp
  then obtain w' where r: "?r = (Ok (JString ''Successfully wrote 2 characters to /ws/sub/new.txt''), w')" by (cases ?r) auto
  have "string_param write_call ''content'' = Some ''xy''" by code_simp
  from written_content_is_in_the_file [OF _ this r] r show ?thesis
    by (auto simp: tool_world_def demo_os_ok starts_with_def)
qed

definition escape_call :: json where
  "escape_call = JObject [(''path'', JString ''../etc/new.txt''), (''content'', JString ''x'')]"


section \<open>Pages\<close>

lemma length_number_lines [simp]: "length (number_lines start ls) = length ls"
  by (simp add: number_lines_def)

lemma number_lines_take: "take k (number_lines start ls) = number_lines start (take k ls)"
proof -
  have "take k (enumerate n ls) = enumerate n (take k ls)" for n
    by (rule nth_equalityI) (auto simp: nth_enumerate_eq)
  then show ?thesis by (simp add: number_lines_def take_map)
qed

lemma take_within_prefix: "\<exists>k \<le> length ls. take_within used ls = take k ls"
proof (induction ls arbitrary: used)
  case (Cons l ls)
  then obtain k where "k \<le> length ls" "take_within (used + length l + 1) ls = take k ls" by blast
  then show ?case by (cases "used + length l + 1 > read_max_chars") (auto intro: exI [of _ 0] exI [of _ "Suc k"])
qed simp

lemma within_bound:
  "take_within used ls = ls \<Longrightarrow> ls \<noteq> [] \<Longrightarrow> used + length (join newline ls) + 1 \<le> read_max_chars"
proof (induction ls arbitrary: used)
  case (Cons l ls)
  then have rest: "take_within (used + length l + 1) ls = ls" "used + length l + 1 \<le> read_max_chars"
    by (auto split: if_splits)
  show ?case
  proof (cases ls)
    case (Cons a list)
    then show ?thesis using Cons.IH [OF rest(1)] by (simp add: newline_def)
  qed (use rest in simp)
qed simp

text \<open>
  (C34) A page shows whole numbered lines from the offset on, without a gap, and its hint names the first
  line that was not shown; only when the last line was shown does it say so.
\<close>

theorem page_is_contiguous:
  assumes "read_page checked text offset limit = Ok page" and "0 < offset"
  shows "\<exists>k. offset - 1 \<le> k \<and> k \<le> length (split_char (CHR 0x0A) text)
    \<and> page = join newline (number_lines (offset - 1) (take (k - (offset - 1)) (drop (offset - 1) (split_char (CHR 0x0A) text))))
        @ (if k < length (split_char (CHR 0x0A) text) then page_hint offset k (length (split_char (CHR 0x0A) text))
           else end_hint (length (split_char (CHR 0x0A) text)))"
proof -
  let ?all = "split_char (CHR 0x0A) text"
  define whole where "whole = length ?all"
  define start where "start = offset - 1"
  define fin where "fin = min ((start + (case limit of Some n \<Rightarrow> n | None \<Rightarrow> read_default_limit)) mod 2 ^ 64) whole"
  define numbered where "numbered = number_lines start (take (fin - start) (drop start ?all))"
  note eq = assms(1) [unfolded read_page_def Let_def, folded whole_def, folded start_def, folded fin_def, folded numbered_def]
  have fin: "fin \<le> whole" "start \<le> fin" using eq by (auto simp: fin_def split: if_splits)
  have len: "length numbered = fin - start" using fin by (simp add: numbered_def whole_def)
  show ?thesis
  proof (cases "length (join newline numbered) > read_max_chars")
    case False
    then have "page = join newline numbered @ (if fin < whole then page_hint offset fin whole else end_hint whole)"
      using eq by (auto split: if_splits)
    then show ?thesis using fin by (intro exI [of _ fin]) (simp add: numbered_def start_def whole_def)
  next
    case True
    obtain k where k: "k \<le> length numbered" "take_within 0 numbered = take k numbered"
      using take_within_prefix by blast
    have "k < length numbered"
    proof (rule ccontr)
      assume "\<not> k < length numbered"
      then have "take_within 0 numbered = numbered" using k by simp
      then show False using True within_bound [of 0 numbered] by (cases "numbered = []") auto
    qed
    have "page = join newline (take_within 0 numbered) @ page_hint offset (start + length (take_within 0 numbered)) whole"
      using eq True by (auto split: if_splits)
    moreover have "start + k < whole" using \<open>k < length numbered\<close> len fin by simp
    ultimately show ?thesis using k \<open>k < length numbered\<close> len fin
      by (intro exI [of _ "start + k"]) (simp add: numbered_def number_lines_take start_def whole_def)
  qed
qed

theorem page_is_contiguous_witness:
  "\<exists>page k. read_page True (''a'' @ newline @ ''b'') 1 (Some 1) = Ok page
     \<and> page = join newline (number_lines 0 (take k [''a'', ''b''])) @ (if k < 2 then page_hint 1 k 2 else end_hint 2)"
proof -
  have s: "split_char (CHR 0x0A) (''a'' @ newline @ ''b'') = [''a'', ''b'']" by code_simp
  have show_1: "show_nat 1 = ''1''" by code_simp
  have p: "read_page True (''a'' @ newline @ ''b'') 1 (Some 1) = Ok (''1| a'' @ page_hint 1 1 (Suc (Suc 0)))"
    unfolding read_page_def s using show_1 by (simp add: number_lines_def enumerate_eq_zip read_max_chars_def)
  obtain k where "''1| a'' @ page_hint 1 1 (Suc (Suc 0)) = join newline (number_lines 0 (take k [''a'', ''b'']))
      @ (if k < 2 then page_hint 1 k 2 else end_hint 2)"
    using page_is_contiguous [OF p, unfolded s] by (simp only: numeral_2_eq_2 list.size One_nat_def add_0 add_Suc diff_self_eq_0
        diff_zero drop0 zero_less_one zero_less_Suc simp_thms) blast
  then show ?thesis using p by blast
qed

text \<open>
  A line that does not fit into a page is never shown, and the hint asks for the same offset again,
  so following the hints does not end.
\<close>

theorem long_line_repeats_hint:
  assumes "0 < offset" and "offset \<le> length (split_char (CHR 0x0A) text)" and "offset + limit \<le> 2 ^ 64" and "0 < limit"
    and "read_max_chars \<le> length (split_char (CHR 0x0A) text ! (offset - 1))"
  shows "read_page checked text offset (Some limit) = Ok (page_hint offset (offset - 1) (length (split_char (CHR 0x0A) text)))"
proof -
  let ?all = "split_char (CHR 0x0A) text"
  define start where "start = offset - 1"
  define fin where "fin = min ((start + limit) mod 2 ^ 64) (length ?all)"
  have small: "start + limit < 2 ^ 64" using assms(1,3) by (simp add: start_def)
  then have fin: "start < fin" "start < length ?all" using assms(1,2,4) by (auto simp: fin_def start_def)
  obtain ls where ls: "take (fin - start) (drop start ?all) = ?all ! start # ls"
    using fin by (cases "fin - start") (auto simp: Cons_nth_drop_Suc [symmetric])
  obtain n ns where ns: "number_lines start (take (fin - start) (drop start ?all)) = n # ns" "length (?all ! start) < length n"
    using ls by (auto simp: number_lines_def)
  have long: "read_max_chars < length n" using ns(2) assms(5) by (simp add: start_def)
  have "length n \<le> length (join newline (n # ns))" by (cases ns) auto
  then have "read_max_chars < length (join newline (n # ns))" using long by simp
  moreover have "take_within 0 (n # ns) = []" using long by simp
  ultimately show ?thesis
    unfolding read_page_def Let_def option.case start_def [symmetric] fin_def [symmetric] ns(1)
    using small fin assms(2) by simp
qed

theorem long_line_repeats_hint_witness:
  "read_page True (replicate read_max_chars (CHR ''a'')) 1 (Some 1) = Ok (page_hint 1 0 1)"
proof -
  have "split_char (CHR 0x0A) (replicate n (CHR ''a'')) = [replicate n (CHR ''a'')]" for n
    by (rule split_char_single) (auto simp: in_set_replicate)
  then show ?thesis using long_line_repeats_hint [of 1 "replicate read_max_chars (CHR ''a'')" 1 True] by simp
qed

text \<open>
  A limit so large that the sum with the position overflows is accepted by the parameter schema, and
  the call panics in both builds: by the overflow check, or because the sum wraps below the start.
\<close>

theorem huge_limit_panics:
  assumes "1 < offset" and "offset \<le> length (split_char (CHR 0x0A) text)" and "limit < 2 ^ 64" and "offset < 2 ^ 64"
    and "2 ^ 64 \<le> (offset - 1) + limit"
  shows "read_page checked text offset (Some limit) = Panic"
proof -
  define start where "start = offset - 1"
  have "x mod M = x - M" if "M \<le> x" "x < M + M" for x M :: nat
    using that le_mod_geq [of M x] by simp
  from this [of "2 ^ 64" "start + limit"] have "(start + limit) mod 2 ^ 64 = start + limit - 2 ^ 64"
    using assms(3-5) by (simp add: start_def)
  then have "min ((start + limit) mod 2 ^ 64) (length (split_char (CHR 0x0A) text)) < start" using assms(3,5) by (simp add: start_def)
  then show ?thesis
    unfolding read_page_def Let_def option.case start_def [symmetric] using assms(2) by simp
qed

theorem huge_limit_panics_witness: "read_page False (''a'' @ newline @ ''b'') 2 (Some (2 ^ 64 - 1)) = Panic"
proof -
  have "split_char (CHR 0x0A) (''a'' @ newline @ ''b'') = [''a'', ''b'']" by code_simp
  then show ?thesis using huge_limit_panics [of 2 "''a'' @ newline @ ''b''" "2 ^ 64 - 1" False] by simp
qed

section \<open>Edited files\<close>

text \<open>
  An edit with an empty old text is refused for a file that is not empty, but a file that is not
  text counts as empty: here it is overwritten.
\<close>

definition binary_world :: fs_world where
  "binary_world = tool_world\<lparr>fw_os := demo_os\<lparr>os_nodes := (os_nodes demo_os)([''ws'', ''b.bin''] \<mapsto> File [CHR 0xFF, CHR 0x00] 1)\<rparr>\<rparr>"

definition create_call :: "string \<Rightarrow> json" where
  "create_call path = JObject [(''path'', JString path), (''old_text'', JString []), (''new_text'', JString ''x'')]"

definition resolved_world :: "string \<Rightarrow> fs_world" where
  "resolved_world path = binary_world\<lparr>fw_os := snd (resolve_for ''/data/config.json'' demo_tool path (fw_os binary_world))\<rparr>"

lemma binary_world_paths:
  "resolve_for ''/data/config.json'' demo_tool ''b.bin'' (fw_os binary_world) = (Ok ''/ws/b.bin'', fw_os (resolved_world ''b.bin''))"
  "resolve_for ''/data/config.json'' demo_tool ''a.txt'' (fw_os binary_world) = (Ok ''/ws/a.txt'', fw_os (resolved_world ''a.txt''))"
proof -
  have "fst (resolve_for ''/data/config.json'' demo_tool ''b.bin'' (fw_os binary_world)) = Ok ''/ws/b.bin''"
    "fst (resolve_for ''/data/config.json'' demo_tool ''a.txt'' (fw_os binary_world)) = Ok ''/ws/a.txt''" by code_simp+
  then show "resolve_for ''/data/config.json'' demo_tool ''b.bin'' (fw_os binary_world) = (Ok ''/ws/b.bin'', fw_os (resolved_world ''b.bin''))"
    "resolve_for ''/data/config.json'' demo_tool ''a.txt'' (fw_os binary_world) = (Ok ''/ws/a.txt'', fw_os (resolved_world ''a.txt''))"
    by (simp_all add: resolved_world_def prod_eq_iff)
qed

lemma binary_world_files:
  "path_exists (fw_os (resolved_world ''b.bin'')) ''/ws/b.bin''" "path_exists (fw_os (resolved_world ''a.txt'')) ''/ws/a.txt''"
  "file_size (fw_os (resolved_world ''b.bin'')) ''/ws/b.bin'' = 2" "file_size (fw_os (resolved_world ''a.txt'')) ''/ws/a.txt'' = 5"
  "trim (read_to_string (fw_os (resolved_world ''b.bin'')) ''/ws/b.bin'') = []"
  "trim (read_to_string (fw_os (resolved_world ''a.txt'')) ''/ws/a.txt'') = ''hello''"
  "os_nodes (fw_os (resolved_world ''a.txt'')) [''ws'', ''a.txt''] = Some (File ''hello'' 1)"
  "os_nodes (fw_os (snd (write_edit file_demo_lib ''/ws/b.bin'' ''x'' m (resolved_world ''b.bin'')))) [''ws'', ''b.bin''] = Some (File ''x'' 5)"
  by code_simp+

lemma create_call_params:
  "string_param (create_call p) ''path'' = Some p" "string_param (create_call p) ''old_text'' = Some []"
  "string_param (create_call p) ''new_text'' = Some ''x''"
  by (simp_all add: create_call_def string_param_def obj_get_def)

theorem empty_edit_overwrites_binary:
  "os_nodes (fw_os (snd (edit_file file_demo_lib ''/data/config.json'' demo_tool (create_call ''b.bin'') binary_world))) [''ws'', ''b.bin'']
     = Some (File ''x'' 5)
   \<and> os_nodes (fw_os (snd (edit_file file_demo_lib ''/data/config.json'' demo_tool (create_call ''a.txt'') binary_world))) [''ws'', ''a.txt'']
     = Some (File ''hello'' 1)"
proof -
  have w: "binary_world\<lparr>fw_os := fw_os (resolved_world p)\<rparr> = resolved_world p" for p by (simp add: resolved_world_def)
  have n: "\<not> ends_with ''.ipynb'' ''b.bin''" "\<not> ends_with ''.ipynb'' ''a.txt''" by code_simp+
  show ?thesis
    by (simp add: edit_file_def create_call_params binary_world_paths binary_world_files w n edit_max_file_size_def)
qed

text \<open>
  The recursive listing looks for ignored names in the whole path, so below a directory with such a
  name, a workspace in a \<^verbatim>\<open>build\<close> directory say, every listing is empty.
\<close>

theorem listing_below_ignored_name_is_empty:
  assumes "string_param params ''path'' = Some path" and "bool_param params ''recursive'' False"
    and "resolve_for cfg T path (fw_os w) = (Ok dp, s1)" and "path_is_dir s1 dp"
    and "c \<in> set (path_components dp)" and "c \<in> set ignore_dirs"
  shows "list_dir L cfg T params w = (Ok (JString (''Directory '' @ path @ '' is empty'')), w\<lparr>fw_os := s1\<rparr>)"
proof -
  obtain l where l: "lookup_path s1 False dp = Ok l" "os_nodes s1 l = Some Dir"
    using assms(4) by (auto simp: path_is_dir_def node_at_def split: result.splits)
  have "tree_entries L s1 dp l = []" using assms(5,6) by (auto simp: tree_entries_def filter_empty_conv list_ex_iff)
  then show ?thesis using assms(1-3) l by (simp add: list_dir_def)
qed

definition build_world :: fs_world where
  "build_world = tool_world\<lparr>fw_os := demo_os\<lparr>os_nodes := (os_nodes demo_os)([''ws'', ''build''] \<mapsto> Dir)\<rparr>\<rparr>"

definition tree_call :: json where
  "tree_call = JObject [(''path'', JString ''build''), (''recursive'', JBool True)]"

theorem listing_below_ignored_name_is_empty_witness:
  "\<exists>w'. list_dir (file_demo_lib\<lparr>fl_walk := \<lambda>_ _. [([''a.txt''], False)]\<rparr>) ''/data/config.json'' demo_tool tree_call build_world
     = (Ok (JString ''Directory build is empty''), w')"
proof -
  let ?r = "resolve_for ''/data/config.json'' demo_tool ''build'' (fw_os build_world)"
  have "fst ?r = Ok ''/ws/build''" by code_simp
  then have r: "?r = (Ok ''/ws/build'', snd ?r)" by (simp add: prod_eq_iff)
  have "path_is_dir (snd ?r) ''/ws/build''" "''build'' \<in> set (path_components ''/ws/build'')" "''build'' \<in> set ignore_dirs"
    "string_param tree_call ''path'' = Some ''build''" "bool_param tree_call ''recursive'' False" by code_simp+
  then show ?thesis using listing_below_ignored_name_is_empty [OF _ _ r] by auto
qed

end
