(* ===== verification/Spec2Isabelle.thy ===== *)
theory Spec2Isabelle
  imports Context_Prompt Cron Workflow_Executor Session_Goal Sensitive_Filter Plugin_Pool Host_Dispatch Agent_Runner Command_Router Message_Bus Fs_Tools Context_Hook
begin

text \<open>
  \<^bold>\<open>A verification library for HiveClaw.\<close>

  HiveClaw is an agent platform in Rust. Messages from chat channels reach the agent over a \<^emph>\<open>message
  bus\<close>; slash commands go through a \<^emph>\<open>command router\<close>, other messages start a turn. A turn is run by
  the \<^emph>\<open>agent runner\<close>: it shapes the conversation of a \<^emph>\<open>session\<close>, asks a \<^emph>\<open>language model\<close> with retries
  and failover, executes the \<^emph>\<open>tools\<close> the model calls and repeats until there is an answer. What a turn
  learns is mirrored into a shared \<^emph>\<open>agent context\<close>; sub-agents get a fork of it and are merged back.
  The web service \<^verbatim>\<open>hiveweb\<close> lets users draw \<^emph>\<open>workflows\<close>, directed graphs of function and answer
  nodes, stores them in MySQL and executes them against an agent context; functions are WASM
  \<^emph>\<open>plugins\<close> that call back into the host, and texts pass a \<^emph>\<open>sensitive word filter\<close>. A \<^emph>\<open>cron service\<close>
  schedules agent turns, and tools that reach the network pass a \<^emph>\<open>network guard\<close>. This library models
  these parts and how they meet.

  \<^bold>\<open>Theories.\<close> All source paths are under \<^verbatim>\<open>src/crates/\<close>.

  Shared:

  \<^item> \<open>HC_Prelude\<close>, \<open>HC_Json\<close>, \<open>HC_Text\<close>: Rust results (\<open>Ok\<close>, \<open>Err\<close>, \<open>Panic\<close>), lock poisoning, strings as
    their UTF-8 bytes with the operations of \<^verbatim>\<open>str\<close>, insertion-ordered JSON objects; the interfaces
    \<open>keyed_store\<close> (lookup after insert), \<open>invariant_system\<close> (an invariant of a step relation holds in
    every reachable state) and \<open>simulation\<close> (a concrete service answers like its specification).
  \<^item> \<open>File_System\<close>: the file system below \<^verbatim>\<open>std::fs\<close> and \<^verbatim>\<open>std::path\<close>: directories, files, symbolic
    links, resolution of a path, faults; a canonical path names its own location, a written file
    reads back, every operation keeps the file system well formed.

  Agent context:

  \<^item> \<open>Context_Types\<close>, \<open>Context_Core\<close>: \<^verbatim>\<open>agent/src/context/{category,config,response,audit,core,lock}.rs\<close>.
    The record \<open>agent_context\<close> has the fields of the struct, each behind its lock; one
    definition per method (\<open>set_record\<close>, \<open>append_record\<close>, \<open>add_extension\<close>, \<open>set_lifecycle_state\<close>, ...)
    returns the result and the context after the call. \<open>ctx_step\<close> is any call; the lemmas show
    that writes read back and are logged, guards reject credentials and blacklisted
    categories, a finished context is frozen, and reachable contexts never panic.
  \<^item> \<open>Context_Merge\<close>: \<^verbatim>\<open>read_view.rs\<close>, \<^verbatim>\<open>merge.rs\<close>. Fork and merge, with the namespacing of
    conflicting keys; what a fork copies and isolates, what a merge keeps and imports.
  \<^item> \<open>Context_Serialize\<close>: \<^verbatim>\<open>serialize.rs\<close>. Snapshots and their round trip through JSON text.
  \<^item> \<open>Context_Prompt\<close>: \<^verbatim>\<open>prompt.rs\<close>. The token budget, with \<^verbatim>\<open>usize\<close> subtraction in both build
    profiles (a flag selects overflow checks or wrap-around).
  \<^item> \<open>Context_Hook\<close>: \<^verbatim>\<open>context/hook.rs\<close>. Mirroring of an iteration of the loop into the context.
  \<^item> \<open>Context_Updates\<close>: \<^verbatim>\<open>hiveweb/src/runtime/hook.rs\<close>. The snapshot functions see and the updates
    their output applies; every update is a run of context operations.

  Sessions, messages and commands:

  \<^item> \<open>Session_History\<close>, \<open>Session_Manager\<close>, \<open>Session_Goal\<close>: \<^verbatim>\<open>session/src/{manager,goal_state,webui_turns}.rs\<close>.
    The history a model sees and the cap of a session file, the cache and the files with atomic
    saves and repair, goals and titles. The manager refines a pair of maps (\<open>simulation\<close>).
  \<^item> \<open>Message_Bus\<close>: \<^verbatim>\<open>bus/src/{queue,events}.rs\<close>. Lanes split at their atomic steps; they are queues
    under every interleaving, and when their size is wrong.
  \<^item> \<open>Command_Router\<close>: \<^verbatim>\<open>command/src/router.rs\<close>. Tiers of handlers; the longest prefix wins.

  Language models:

  \<^item> \<open>Llm_Messages\<close>, \<open>Llm_Retry\<close>: \<^verbatim>\<open>providers/src/base.rs\<close>. Clean-up of the messages of a request, and
    the retry loop.
  \<^item> \<open>Llm_Fallback\<close>, \<open>Llm_Registry\<close>: \<^verbatim>\<open>providers/src/fallback_provider.rs\<close>, \<^verbatim>\<open>hiveweb/src/runtime/llm.rs\<close>.
    Failover with a circuit breaker, and the presets it is built from.

  Runner and tools:

  \<^item> \<open>Runner_Context\<close>, \<open>Runner_Tools\<close>, \<open>Agent_Runner\<close>: \<^verbatim>\<open>agent/src/runner.rs\<close> with the helpers of \<^verbatim>\<open>utils\<close>.
    The governance of the messages (calls and results stay paired), the execution of the calls of
    a response (results answer the calls in order, throttles), and the whole loop: it returns, and it
    keeps the history. \<open>Think_Strip\<close>: the removal of inline reasoning from answers.
  \<^item> \<open>Tool_Schema\<close>, \<open>Tool_Registry\<close>: \<^verbatim>\<open>agent/src/tools/{schema,base,registry}.rs\<close>. Casting and validating
    parameters, and the registry: tools run only on valid parameters.
  \<^item> \<open>Path_Sandbox\<close>: \<^verbatim>\<open>tools/{sandbox,path_utils}.rs\<close>, \<^verbatim>\<open>config/src/paths.rs\<close>. The path policy, which confines
    paths that exist and not those that do not, and the quoting of sandboxed commands.
  \<^item> \<open>File_State\<close>, \<open>Fs_Edit\<close>, \<open>Fs_Diff\<close>, \<open>Fs_Tools\<close>: \<^verbatim>\<open>tools/{file_state,filesystem}.rs\<close>. The tracker of
    reads, the search and replacement of text, differences, and the four file tools.
  \<^item> \<open>Net_Security\<close>: \<^verbatim>\<open>security/src/network.rs\<close>. CIDR blocks on 32 and 128 bit words (interface
    \<open>prefix_mask\<close>, interpreted at both widths), block list, whitelist, URL and command checks.
  \<^item> \<open>Cron\<close>: \<^verbatim>\<open>cron/src/{types,service}.rs\<close>. Job store, action log, timer and execution of jobs.

  Web service:

  \<^item> \<open>Dag_Cycle\<close>: \<^verbatim>\<open>detect_cycle\<close> of \<^verbatim>\<open>hiveweb/src/services/workflow.rs\<close>. The colour search, its
    termination and correctness; the interface \<open>dag_check\<close> gives clients a ready node in
    every nonempty set of nodes. It is interpreted for the search and for stored graphs.
  \<^item> \<open>Input_Source\<close>: \<^verbatim>\<open>hiveweb/src/runtime/input_source.rs\<close>. Parsing and validation of node inputs.
  \<^item> \<open>Workflow_Graph\<close>: \<^verbatim>\<open>services/workflow.rs\<close>, \<^verbatim>\<open>models/workflow.rs\<close>, \<^verbatim>\<open>services/optimistic_lock.rs\<close>.
    The tables are the record \<open>db\<close>; \<open>wf_step\<close> is any request under any behaviour of the server
    that issues fresh keys. Stored graphs are acyclic in every reachable state; replacing a
    graph is atomic, reads back, and accepts exactly the documented graphs.
  \<^item> \<open>Workflow_Executor\<close>: \<^verbatim>\<open>runtime/workflow/*.rs\<close>. Inputs, node dispatch, the layered scheduler
    \<open>run_layers\<close> and the result of a run. The scheduler's in-degrees count unfinished
    predecessors, so a stored graph always has a ready node and every run ends.
  \<^item> \<open>Plugin_Pool\<close>: \<^verbatim>\<open>runtime/{pool,invoker}.rs\<close>. Instances, their metrics, the plugin call.
  \<^item> \<open>Host_Capabilities\<close>, \<open>Host_Dispatch\<close>: \<^verbatim>\<open>runtime/capabilities/*.rs\<close>, \<^verbatim>\<open>runtime/capability.rs\<close>. What a
    plugin may ask the host to do; its effects are confined and its calls are audited.
  \<^item> \<open>Sensitive_Filter\<close>: \<^verbatim>\<open>services/sensitive_filter.rs\<close>. Matchers that follow the table of words.

  \<^bold>\<open>Interfaces.\<close> \<open>invariant_system\<close> is interpreted for contexts, stored workflows, words, the pool, the
  circuit breaker, the tool registry, the command router, the bus and the store of trackers;
  \<open>keyed_store\<close> for record lists and the session cache; \<open>simulation\<close> for the session manager.

  \<^bold>\<open>Parameters.\<close> What is outside the repository is an argument with its documented behaviour
  as a named hypothesis: serde codecs (\<open>session_lib\<close>, \<open>schema_lib\<close>), the cron-expression crate and time
  zones (\<open>cron_lib\<close>), matching crates (\<open>match_lib\<close>), name resolution, the MySQL server (\<open>mysql\<close>,
  \<open>word_server\<close>), files that may fail (\<open>io_env\<close>, \<open>persist_env\<close>), hashes, Unicode tables and directory
  order (\<open>file_lib\<close>), object stores, Extism and the HTTP client (\<open>pool_env\<close>, \<open>host_env\<close>, \<open>dispatch_env\<close>),
  builtin handlers, plugins and the language model (\<open>exec_env\<close>, \<open>run_env\<close>, \<open>build_env\<close>), tools
  (\<open>tool_env\<close>), the iteration order of hash maps, and the clock. Every property that uses such a
  hypothesis has a concrete instance.

  \<^bold>\<open>Termination.\<close> No definition uses fuel, except that the kernel follows at most 40 links in a path,
  as the system does. Loops without structural recursion have termination proofs: \<open>dfs_loop\<close> (fewer
  white nodes, then a shorter stack), \<open>run_layers\<close> (fewer remaining nodes), \<open>walk\<close> (fewer links, then
  fewer names), the searches in texts (a later position), the recursion over JSON values and schemas
  (their size). \<open>retry_loop\<close> may run forever in the persistent mode and is a partial function; in the
  standard mode it is proved to return. The runner's loop is structural in the number of iterations,
  and returns whenever the requests it makes do.

  \<^bold>\<open>Bounds.\<close> The counters of the bus and the sums of the file reader are 64 bit and wrap; the circuit
  breaker is followed for fewer than \<open>2^32\<close> calls, after which its counter would overflow.

  \<^bold>\<open>Not modelled.\<close> Preemption inside one operation, except in the bus (operations are atomic; nodes of
  a layer and tools of a batch run in their order), the delivery of single deltas of a streamed
  answer and live file edit events, the cross-process file lock of the cron store, wall-clock timeouts
  (a flag in \<open>execute\<close>), the error texts of serde and sqlx beyond what the code adds, permission to
  search directories, and the parts listed as not modelled in the manifest: the agent loop around the
  runner, sub-agents and memory, the tools that run processes, searches, HTTP and MCP, chat channels,
  the clients of the model providers, HTTP and command-line front ends, the configuration types,
  the desktop GUI and the other services of \<^verbatim>\<open>hiveweb\<close>, which are input and output around external
  systems or derived code.
\<close>

section \<open>The runner and the context hook\<close>

lemma find_tool_result_strings: "list_all is_string results \<Longrightarrow> find_tool_result results tc = None"
  by (induction results) (auto simp: find_tool_result_def elim!: is_string.elims)

lemma sync_tool_calls_strings: "list_all is_string results \<Longrightarrow> sync_tool_calls results it now tcs c = (Ok (), c)"
  by (induction tcs) (simp_all add: find_tool_result_strings)



end
